(* ===== verification/Fw_Prelude.thy ===== *)
theory Fw_Prelude
  imports Main "HOL-Library.Word" "HOL-Library.Monad_Syntax" "HOL-Library.Multiset"
begin

text \<open>
  Shared vocabulary of the development: machine integers, the panic monad, Rust slices,
  and the byte encodings of integers, with the lemmas every component uses.

  \<^item> An unsigned or signed \<open>w\<close>-bit Rust integer is a \<open>w word\<close>; \<open>usize\<close> lengths and
    indices are \<open>nat\<close> (a Rust slice is never longer than \<open>isize::MAX\<close>, so sums of two
    lengths do not wrap).
  \<^item> A call that panics (a failed \<open>fw_assert!\<close>, an index out of range, an arithmetic
    overflow under overflow checks) is the value \<open>None\<close> of \<open>'a option\<close>; a call that
    returns is \<open>Some\<close>.  A run without an overflow panic is the same run in the release
    profile, whose \<open>+\<close> and \<open>-\<close> agree with the checked ones whenever these return.
\<close>

unbundle bit_operations_syntax

type_synonym u8 = "8 word"
type_synonym u16 = "16 word"
type_synonym u32 = "32 word"
type_synonym u64 = "64 word"
type_synonym i8 = "8 word"
type_synonym i16 = "16 word"
type_synonym i32 = "32 word"
type_synonym i64 = "64 word"

named_theorems panic_simps \<open>unfolding of the panic monad and the slice operations\<close>
named_theorems ser_simps \<open>behaviour of the serialization buffer operations\<close>
named_theorems ring_simps \<open>behaviour of the ring buffer operations\<close>

section \<open>The panic monad\<close>

definition fw_assert :: "bool \<Rightarrow> unit option" where
  "fw_assert c = (if c then Some () else None)"

lemma fw_assert_True [simp]: "fw_assert True = Some ()"
  by (simp add: fw_assert_def)

lemma fw_assert_False [simp]: "fw_assert False = None"
  by (simp add: fw_assert_def)

lemma fw_assert_eq_Some [simp]: "fw_assert c = Some u \<longleftrightarrow> c"
  by (simp add: fw_assert_def)

lemma bind_fw_assert [simp]: "Option.bind (fw_assert c) f = (if c then f () else None)"
  by (simp add: fw_assert_def)

section \<open>Rust slices over lists\<close>

text \<open>\<open>xs[i]\<close>, \<open>&xs[a..b]\<close> and \<open>xs[i..i + ys.len()].copy_from_slice(ys)\<close>; each panics out of range.\<close>

definition index :: "'a list \<Rightarrow> nat \<Rightarrow> 'a option" where
  "index xs i = (if i < length xs then Some (xs ! i) else None)"

definition slice :: "'a list \<Rightarrow> nat \<Rightarrow> nat \<Rightarrow> 'a list option" where
  "slice xs a b = (if a \<le> b \<and> b \<le> length xs then Some (take (b - a) (drop a xs)) else None)"

definition store :: "'a list \<Rightarrow> nat \<Rightarrow> 'a \<Rightarrow> 'a list option" where
  "store xs i x = (if i < length xs then Some (xs[i := x]) else None)"

definition blit :: "'a list \<Rightarrow> nat \<Rightarrow> 'a list \<Rightarrow> 'a list option" where
  "blit xs i ys =
     (if i + length ys \<le> length xs then Some (take i xs @ ys @ drop (i + length ys) xs) else None)"

text \<open>\<open>xs.copy_within(a..b, d)\<close>: the source is read before the destination is written.\<close>

definition copy_within :: "'a list \<Rightarrow> nat \<Rightarrow> nat \<Rightarrow> nat \<Rightarrow> 'a list option" where
  "copy_within xs a b d = do { ys \<leftarrow> slice xs a b; blit xs d ys }"

lemma index_Some [simp]: "i < length xs \<Longrightarrow> index xs i = Some (xs ! i)"
  by (simp add: index_def)

lemma slice_Some [simp]: "a \<le> b \<Longrightarrow> b \<le> length xs \<Longrightarrow> slice xs a b = Some (take (b - a) (drop a xs))"
  by (simp add: slice_def)

lemma store_Some [simp]: "i < length xs \<Longrightarrow> store xs i x = Some (xs[i := x])"
  by (simp add: store_def)

lemma blit_Some [simp]:
  "i + length ys \<le> length xs \<Longrightarrow> blit xs i ys = Some (take i xs @ ys @ drop (i + length ys) xs)"
  by (simp add: blit_def)

lemma index_eq_Some: "index xs i = Some x \<longleftrightarrow> i < length xs \<and> x = xs ! i"
  by (auto simp: index_def)

lemma slice_eq_Some: "slice xs a b = Some ys \<longleftrightarrow> a \<le> b \<and> b \<le> length xs \<and> ys = take (b - a) (drop a xs)"
  by (auto simp: slice_def)

lemma store_eq_Some: "store xs i x = Some ys \<longleftrightarrow> i < length xs \<and> ys = xs[i := x]"
  by (auto simp: store_def)

lemma blit_eq_Some:
  "blit xs i ys = Some zs \<longleftrightarrow>
     i + length ys \<le> length xs \<and> zs = take i xs @ ys @ drop (i + length ys) xs"
  by (auto simp: blit_def)

lemmas slice_ops_Some [panic_simps] = index_eq_Some slice_eq_Some store_eq_Some blit_eq_Some

lemma length_blit: "blit xs i ys = Some zs \<Longrightarrow> length zs = length xs"
  by (auto simp: blit_eq_Some)

lemma take_blit: "i + length ys \<le> length xs \<Longrightarrow>
    take (i + length ys) (take i xs @ ys @ drop (i + length ys) xs) = take i xs @ ys"
  by simp

lemma nth_blit:
  assumes "i + length ys \<le> length xs" and "k < length xs"
  shows "(take i xs @ ys @ drop (i + length ys) xs) ! k =
    (if i \<le> k \<and> k < i + length ys then ys ! (k - i) else xs ! k)"
  using assms by (auto simp: nth_append)

section \<open>Checked arithmetic\<close>

text \<open>\<open>usize\<close> subtraction, and \<open>+\<close>, \<open>-\<close> on fixed-width integers, under overflow checks.\<close>

definition usub :: "nat \<Rightarrow> nat \<Rightarrow> nat option" where
  "usub a b = (if b \<le> a then Some (a - b) else None)"

lemma usub_Some [simp]: "b \<le> a \<Longrightarrow> usub a b = Some (a - b)"
  by (simp add: usub_def)

text \<open>
  A sum of \<open>usize\<close> values (64 bits).  It is written out where one summand is an arbitrary argument; a cursor plus the
  length of a slice cannot overflow, since no slice has more than \<open>isize::MAX\<close> bytes.
\<close>

definition uadd :: "nat \<Rightarrow> nat \<Rightarrow> nat option" where
  "uadd a b = (if a + b < 2 ^ 64 then Some (a + b) else None)"

lemma uadd_Some [simp]: "a + b < 2 ^ 64 \<Longrightarrow> uadd a b = Some (a + b)"
  by (simp add: uadd_def)

definition cadd :: "'a::len word \<Rightarrow> 'a word \<Rightarrow> 'a word option" where
  "cadd a b = (if unat a + unat b < 2 ^ LENGTH('a) then Some (a + b) else None)"

definition csub :: "'a::len word \<Rightarrow> 'a word \<Rightarrow> 'a word option" where
  "csub a b = (if unat b \<le> unat a then Some (a - b) else None)"

lemma cadd_eq_Some: "cadd a b = Some c \<longleftrightarrow> unat c = unat a + unat b"
proof -
  have "unat (a + b) = unat a + unat b" if "unat a + unat b < 2 ^ LENGTH('a)"
    using that by (simp add: unat_word_ariths)
  moreover have "unat a + unat b < 2 ^ LENGTH('a)" if "unat c = unat a + unat b"
    using unsigned_less [of c, where 'a = nat] by (simp add: that)
  ultimately show ?thesis
    by (auto simp: cadd_def word_unat_eq_iff)
qed

lemma csub_eq_Some: "csub a b = Some c \<longleftrightarrow> unat a = unat b + unat c"
proof -
  have "unat (a - b) = unat a - unat b" if "unat b \<le> unat a"
    using that by (simp add: unat_sub word_le_nat_alt)
  then show ?thesis
    by (auto simp: csub_def word_unat_eq_iff)
qed

section \<open>Byte encodings of integers\<close>

text \<open>
  \<open>to_le_bytes\<close>, \<open>to_be_bytes\<close> and their inverses, for an integer of
  \<open>nbytes\<close> bytes: the little-endian form peels the low byte off first.
\<close>

primrec le_bytes :: "nat \<Rightarrow> 'a::len word \<Rightarrow> u8 list" where
  "le_bytes 0 w = []"
| "le_bytes (Suc n) w = ucast w # le_bytes n (drop_bit 8 w)"

primrec of_le_bytes :: "u8 list \<Rightarrow> 'a::len word" where
  "of_le_bytes [] = 0"
| "of_le_bytes (b # bs) = ucast b OR push_bit 8 (of_le_bytes bs)"

definition nbytes :: "'a::len itself \<Rightarrow> nat" where
  "nbytes _ = LENGTH('a) div 8"

definition to_le_bytes :: "'a::len word \<Rightarrow> u8 list" where
  "to_le_bytes w = le_bytes (nbytes TYPE('a)) w"

definition to_be_bytes :: "'a::len word \<Rightarrow> u8 list" where
  "to_be_bytes w = rev (to_le_bytes w)"

definition from_le_bytes :: "u8 list \<Rightarrow> 'a::len word" where
  "from_le_bytes bs = of_le_bytes bs"

definition from_be_bytes :: "u8 list \<Rightarrow> 'a::len word" where
  "from_be_bytes bs = of_le_bytes (rev bs)"

lemma nbytes_simps [simp]:
  "nbytes TYPE(8) = 1" "nbytes TYPE(16) = 2" "nbytes TYPE(32) = 4" "nbytes TYPE(64) = 8"
  by (simp_all add: nbytes_def)

lemma length_le_bytes [simp]: "length (le_bytes n w) = n"
  by (induction n arbitrary: w) simp_all

lemma length_to_le_bytes [simp]: "length (to_le_bytes (w :: 'a::len word)) = nbytes TYPE('a)"
  by (simp add: to_le_bytes_def)

lemma length_to_be_bytes [simp]: "length (to_be_bytes (w :: 'a::len word)) = nbytes TYPE('a)"
  by (simp add: to_be_bytes_def)

lemma of_le_bytes_le_bytes: "of_le_bytes (le_bytes n w) = take_bit (8 * n) (w :: 'a::len word)"
proof (induction n arbitrary: w)
  case 0
  show ?case by simp
next
  case (Suc n)
  show ?case
    by (rule bit_word_eqI)
      (auto simp: Suc bit_simps not_less le_diff_conv less_diff_conv2)
qed

lemma byte_bit_bound: "bit (b :: u8) k \<Longrightarrow> k < 8"
  using bit_imp_le_length [of b k] by simp

lemma of_le_bytes_bit_bound: "bit (of_le_bytes bs :: 'a::len word) k \<Longrightarrow> k < 8 * length bs"
proof (induction bs arbitrary: k)
  case Nil
  then show ?case by simp
next
  case (Cons b bs)
  then show ?case
    by (auto simp: bit_simps dest: Cons.IH byte_bit_bound)
qed

lemma le_bytes_of_le_bytes:
  assumes "8 * length bs \<le> LENGTH('a)"
  shows "le_bytes (length bs) (of_le_bytes bs :: 'a::len word) = bs"
  using assms
proof (induction bs)
  case Nil
  show ?case by simp
next
  case (Cons b bs)
  have low: "ucast (ucast b OR push_bit 8 (of_le_bytes bs) :: 'a word) = b"
    by (rule bit_word_eqI) (use Cons.prems in \<open>auto simp: bit_simps\<close>)
  have "\<not> bit b (8 + k)" for k
    using byte_bit_bound [of b "8 + k"] by auto
  moreover have "8 + k < LENGTH('a)" if "bit (of_le_bytes bs :: 'a word) k" for k
    using of_le_bytes_bit_bound [OF that] Cons.prems by simp
  ultimately have high: "drop_bit 8 (ucast b OR push_bit 8 (of_le_bytes bs) :: 'a word) = of_le_bytes bs"
    by (intro bit_word_eqI) (auto simp: bit_simps)
  show ?case
    using Cons by (simp add: low high del: drop_bit_or)
qed

lemma from_le_bytes_to_le_bytes [simp]:
  "8 dvd LENGTH('a) \<Longrightarrow> from_le_bytes (to_le_bytes w) = (w :: 'a::len word)"
  by (simp add: from_le_bytes_def to_le_bytes_def of_le_bytes_le_bytes nbytes_def)

lemma from_be_bytes_to_be_bytes [simp]:
  "8 dvd LENGTH('a) \<Longrightarrow> from_be_bytes (to_be_bytes w) = (w :: 'a::len word)"
  by (simp add: from_be_bytes_def to_be_bytes_def to_le_bytes_def of_le_bytes_le_bytes nbytes_def)

lemma to_le_bytes_from_le_bytes:
  "8 dvd LENGTH('a) \<Longrightarrow> length bs = nbytes TYPE('a) \<Longrightarrow>
    to_le_bytes (from_le_bytes bs :: 'a::len word) = bs"
  using le_bytes_of_le_bytes [of bs, where 'a = 'a]
  by (simp add: from_le_bytes_def to_le_bytes_def nbytes_def)

lemma to_be_bytes_from_be_bytes:
  "8 dvd LENGTH('a) \<Longrightarrow> length bs = nbytes TYPE('a) \<Longrightarrow>
    to_be_bytes (from_be_bytes bs :: 'a::len word) = bs"
  using le_bytes_of_le_bytes [of "rev bs", where 'a = 'a]
  by (simp add: from_be_bytes_def to_be_bytes_def to_le_bytes_def nbytes_def)

lemma to_be_bytes_inject:
  assumes "8 dvd LENGTH('a)"
  shows "to_be_bytes v = to_be_bytes (w :: 'a::len word) \<longleftrightarrow> v = w"
proof
  assume "to_be_bytes v = to_be_bytes w"
  then have "from_be_bytes (to_be_bytes v) = (from_be_bytes (to_be_bytes w) :: 'a word)" by simp
  then show "v = w" using assms by simp
qed simp

lemma foldl_be: "foldl (\<lambda>v x. push_bit 8 v OR ucast x) 0 bs = (from_be_bytes bs :: 'a::len word)"
  by (induction bs rule: rev_induct) (simp_all add: from_be_bytes_def or.commute)

section \<open>Bits of small words\<close>

lemma small_bits:
  assumes "(x :: 'a::len word) < 2 ^ k" and "bit x n"
  shows "n < k"
proof (rule ccontr)
  assume "\<not> n < k"
  have n: "n < LENGTH('a)" using assms(2) by (rule bit_imp_le_length)
  with \<open>\<not> n < k\<close> have "(2 :: nat) ^ k < 2 ^ LENGTH('a)" by simp
  then have "unat (of_nat (2 ^ k) :: 'a word) = 2 ^ k" by (simp only: unsigned_of_nat take_bit_nat_eq_self of_nat_id)
  then have "unat (2 ^ k :: 'a word) = 2 ^ k" by simp
  with assms(1) have "unat x < 2 ^ k" by (simp add: word_less_nat_alt)
  also have "(2 :: nat) ^ k \<le> 2 ^ n" using \<open>\<not> n < k\<close> by simp
  finally have "\<not> bit (unat x) n" by (simp add: bit_iff_odd)
  with assms(2) n show False by (simp add: bit_unsigned_iff)
qed

end
