(* ===== verification/Fw_Serial.thy ===== *)
theory Fw_Serial
  imports Fw_Prelude
begin

text \<open>
  The serialization core (\<open>fprime-fw/src/serial.rs\<close>): a flat byte array with a write
  cursor and a read cursor, the typed read and write operations over it, and the
  \<open>Serialize\<close>/\<open>Deserialize\<close> values.  A \<open>&mut\<close> argument is passed in and returned, so an
  operation that fails shows what it leaves in the buffer and in the destination.
\<close>

section \<open>Data\<close>

datatype SerializeStatus =
    Ok | FormatError | NoRoomLeft | DeserBufferEmpty | DeserFormatError | DeserSizeMismatch
  | DeserTypeMismatch | DeserImmutable | DeserInvalidData | DiscardedExisting

datatype Endianness = Big | Little

datatype LengthMode = IncludeLength | OmitLength

record ser_buf =
  bytes :: "u8 list"
  ser_loc :: nat
  deser_loc :: nat

definition capacity :: "ser_buf \<Rightarrow> nat" where
  "capacity b = length (bytes b)"

definition linear_buffer_new :: "nat \<Rightarrow> ser_buf" where
  "linear_buffer_new n = \<lparr>bytes = replicate n 0, ser_loc = 0, deser_loc = 0\<rparr>"

definition ext_buf_new :: "u8 list \<Rightarrow> ser_buf" where
  "ext_buf_new data = \<lparr>bytes = data, ser_loc = 0, deser_loc = 0\<rparr>"

definition ext_buf_with_len :: "u8 list \<Rightarrow> nat \<Rightarrow> ser_buf option" where
  "ext_buf_with_len data len =
     do { fw_assert (len \<le> length data);
          Some \<lparr>bytes = data, ser_loc = len, deser_loc = 0\<rparr> }"

text \<open>\<open>fw_try!\<close>: continue on \<open>Ok\<close>, return any other status early.\<close>

definition fw_try ::
  "(SerializeStatus \<times> 's) option \<Rightarrow> ('s \<Rightarrow> 't) \<Rightarrow> ('s \<Rightarrow> (SerializeStatus \<times> 't) option)
    \<Rightarrow> (SerializeStatus \<times> 't) option" where
  "fw_try m early k =
     do { (st, s) \<leftarrow> m; if st = Ok then k s else Some (st, early s) }"

section \<open>Raw reads and writes\<close>

definition write_raw :: "ser_buf \<Rightarrow> u8 list \<Rightarrow> (SerializeStatus \<times> ser_buf) option" where
  "write_raw b data =
     (if ser_loc b + length data > capacity b then Some (NoRoomLeft, b)
      else do { bs \<leftarrow> blit (bytes b) (ser_loc b) data;
                Some (Ok, b\<lparr>bytes := bs, ser_loc := ser_loc b + length data, deser_loc := 0\<rparr>) })"

definition read_raw :: "ser_buf \<Rightarrow> u8 list \<Rightarrow> (SerializeStatus \<times> u8 list \<times> ser_buf) option" where
  "read_raw b dest =
     (if ser_loc b = deser_loc b then Some (DeserBufferEmpty, dest, b)
      else do {
        left \<leftarrow> usub (ser_loc b) (deser_loc b);
        if left < length dest then Some (DeserSizeMismatch, dest, b)
        else do {
          src \<leftarrow> slice (bytes b) (deser_loc b) (deser_loc b + length dest);
          Some (Ok, src, b\<lparr>deser_loc := deser_loc b + length dest\<rparr>) } })"

section \<open>Primitive values\<close>

text \<open>The two halves of the \<open>prim_rw!\<close> macro, at any integer width.\<close>

definition to_bytes :: "Endianness \<Rightarrow> 'a::len word \<Rightarrow> u8 list" where
  "to_bytes e v = (case e of Big \<Rightarrow> to_be_bytes v | Little \<Rightarrow> to_le_bytes v)"

definition from_bytes :: "Endianness \<Rightarrow> u8 list \<Rightarrow> 'a::len word" where
  "from_bytes e bs = (case e of Big \<Rightarrow> from_be_bytes bs | Little \<Rightarrow> from_le_bytes bs)"

definition serialize_prim ::
  "ser_buf \<Rightarrow> 'a::len word \<Rightarrow> Endianness \<Rightarrow> (SerializeStatus \<times> ser_buf) option" where
  "serialize_prim b v e = write_raw b (to_bytes e v)"

definition deserialize_prim ::
  "ser_buf \<Rightarrow> 'a::len word \<Rightarrow> Endianness \<Rightarrow> (SerializeStatus \<times> 'a word \<times> ser_buf) option" where
  "deserialize_prim b v e =
     do { (st, bs, b) \<leftarrow> read_raw b (replicate (nbytes TYPE('a)) 0);
          Some (st, if st = Ok then from_bytes e bs else v, b) }"

abbreviation "serialize_u8 \<equiv> (serialize_prim :: _ \<Rightarrow> u8 \<Rightarrow> _)"
abbreviation "serialize_u16 \<equiv> (serialize_prim :: _ \<Rightarrow> u16 \<Rightarrow> _)"
abbreviation "serialize_u32 \<equiv> (serialize_prim :: _ \<Rightarrow> u32 \<Rightarrow> _)"
abbreviation "serialize_u64 \<equiv> (serialize_prim :: _ \<Rightarrow> u64 \<Rightarrow> _)"
abbreviation "deserialize_u8 \<equiv> (deserialize_prim :: _ \<Rightarrow> u8 \<Rightarrow> _)"
abbreviation "deserialize_u16 \<equiv> (deserialize_prim :: _ \<Rightarrow> u16 \<Rightarrow> _)"
abbreviation "deserialize_u32 \<equiv> (deserialize_prim :: _ \<Rightarrow> u32 \<Rightarrow> _)"
abbreviation "deserialize_u64 \<equiv> (deserialize_prim :: _ \<Rightarrow> u64 \<Rightarrow> _)"

text \<open>An IEEE-754 value is its bit pattern (\<open>to_bits\<close>, \<open>from_bits\<close>).\<close>

definition serialize_f32 :: "ser_buf \<Rightarrow> u32 \<Rightarrow> Endianness \<Rightarrow> (SerializeStatus \<times> ser_buf) option" where
  "serialize_f32 b v e = serialize_u32 b v e"

definition deserialize_f32 ::
  "ser_buf \<Rightarrow> u32 \<Rightarrow> Endianness \<Rightarrow> (SerializeStatus \<times> u32 \<times> ser_buf) option" where
  "deserialize_f32 b v e =
     do { (st, bits, b) \<leftarrow> deserialize_u32 b 0 e; Some (st, if st = Ok then bits else v, b) }"

definition serialize_f64 :: "ser_buf \<Rightarrow> u64 \<Rightarrow> Endianness \<Rightarrow> (SerializeStatus \<times> ser_buf) option" where
  "serialize_f64 b v e = serialize_u64 b v e"

definition deserialize_f64 ::
  "ser_buf \<Rightarrow> u64 \<Rightarrow> Endianness \<Rightarrow> (SerializeStatus \<times> u64 \<times> ser_buf) option" where
  "deserialize_f64 b v e =
     do { (st, bits, b) \<leftarrow> deserialize_u64 b 0 e; Some (st, if st = Ok then bits else v, b) }"

definition FW_SERIALIZE_TRUE_VALUE :: u8 where "FW_SERIALIZE_TRUE_VALUE = 0xFF"
definition FW_SERIALIZE_FALSE_VALUE :: u8 where "FW_SERIALIZE_FALSE_VALUE = 0x00"

definition serialize_bool :: "ser_buf \<Rightarrow> bool \<Rightarrow> Endianness \<Rightarrow> (SerializeStatus \<times> ser_buf) option" where
  "serialize_bool b v e =
     write_raw b [if v then FW_SERIALIZE_TRUE_VALUE else FW_SERIALIZE_FALSE_VALUE]"

definition deserialize_bool ::
  "ser_buf \<Rightarrow> bool \<Rightarrow> Endianness \<Rightarrow> (SerializeStatus \<times> bool \<times> ser_buf) option" where
  "deserialize_bool b v e =
     (if ser_loc b = deser_loc b then Some (DeserBufferEmpty, v, b)
      else do {
        x \<leftarrow> index (bytes b) (deser_loc b);
        if x = FW_SERIALIZE_TRUE_VALUE then Some (Ok, True, b\<lparr>deser_loc := deser_loc b + 1\<rparr>)
        else if x = FW_SERIALIZE_FALSE_VALUE then Some (Ok, False, b\<lparr>deser_loc := deser_loc b + 1\<rparr>)
        else Some (DeserFormatError, v, b) })"

section \<open>Cursor operations\<close>

definition reset_ser :: "ser_buf \<Rightarrow> ser_buf" where
  "reset_ser b = b\<lparr>ser_loc := 0, deser_loc := 0\<rparr>"

definition reset_deser :: "ser_buf \<Rightarrow> ser_buf" where
  "reset_deser b = b\<lparr>deser_loc := 0\<rparr>"

definition deserialize_size_left :: "ser_buf \<Rightarrow> nat option" where
  "deserialize_size_left b =
     do { fw_assert (ser_loc b \<ge> deser_loc b); usub (ser_loc b) (deser_loc b) }"

definition serialize_size_left :: "ser_buf \<Rightarrow> nat option" where
  "serialize_size_left b =
     do { fw_assert (capacity b \<ge> ser_loc b); usub (capacity b) (ser_loc b) }"

definition serialize_skip :: "ser_buf \<Rightarrow> nat \<Rightarrow> (SerializeStatus \<times> ser_buf) option" where
  "serialize_skip b n =
     do { new_ser \<leftarrow> uadd (ser_loc b) n;
          if new_ser \<le> capacity b then Some (Ok, b\<lparr>ser_loc := new_ser\<rparr>) else Some (NoRoomLeft, b) }"

definition deserialize_skip :: "ser_buf \<Rightarrow> nat \<Rightarrow> (SerializeStatus \<times> ser_buf) option" where
  "deserialize_skip b n =
     (if ser_loc b = deser_loc b then Some (DeserBufferEmpty, b)
      else do {
        left \<leftarrow> usub (ser_loc b) (deser_loc b);
        if left < n then Some (DeserSizeMismatch, b)
        else Some (Ok, b\<lparr>deser_loc := deser_loc b + n\<rparr>) })"

definition move_ser_to_offset :: "ser_buf \<Rightarrow> nat \<Rightarrow> (SerializeStatus \<times> ser_buf) option" where
  "move_ser_to_offset b n = serialize_skip (reset_ser b) n"

definition move_deser_to_offset :: "ser_buf \<Rightarrow> nat \<Rightarrow> (SerializeStatus \<times> ser_buf) option" where
  "move_deser_to_offset b n = deserialize_skip (reset_deser b) n"

definition set_buff :: "ser_buf \<Rightarrow> u8 list \<Rightarrow> (SerializeStatus \<times> ser_buf) option" where
  "set_buff b src =
     (if capacity b < length src then Some (NoRoomLeft, b)
      else do { bs \<leftarrow> blit (bytes b) 0 src;
                Some (Ok, b\<lparr>bytes := bs, ser_loc := length src, deser_loc := 0\<rparr>) })"

definition set_buff_len :: "ser_buf \<Rightarrow> nat \<Rightarrow> SerializeStatus \<times> ser_buf" where
  "set_buff_len b len =
     (if capacity b < len then (NoRoomLeft, b) else (Ok, b\<lparr>ser_loc := len, deser_loc := 0\<rparr>))"

definition as_slice :: "ser_buf \<Rightarrow> u8 list option" where
  "as_slice b = slice (bytes b) 0 (ser_loc b)"

definition remaining_slice :: "ser_buf \<Rightarrow> u8 list option" where
  "remaining_slice b = slice (bytes b) (deser_loc b) (ser_loc b)"

section \<open>Byte regions and nested buffers\<close>

definition serialize_bytes ::
  "ser_buf \<Rightarrow> u8 list \<Rightarrow> LengthMode \<Rightarrow> Endianness \<Rightarrow> (SerializeStatus \<times> ser_buf) option" where
  "serialize_bytes b data mode e =
     fw_try (if mode = IncludeLength then serialize_u16 b (of_nat (length data)) e else Some (Ok, b))
       id
       (\<lambda>b. if ser_loc b + length data > capacity b then Some (NoRoomLeft, b)
            else do { bs \<leftarrow> blit (bytes b) (ser_loc b) data;
                      Some (Ok, b\<lparr>bytes := bs, ser_loc := ser_loc b + length data, deser_loc := 0\<rparr>) })"

definition deserialize_bytes ::
  "ser_buf \<Rightarrow> u8 list \<Rightarrow> nat \<Rightarrow> LengthMode \<Rightarrow> Endianness
    \<Rightarrow> (SerializeStatus \<times> u8 list \<times> nat \<times> ser_buf) option" where
  "deserialize_bytes b dest len mode e =
     do { fw_assert (len \<le> length dest);
          case mode of
            IncludeLength \<Rightarrow>
              fw_try (deserialize_u16 b 0 e) (\<lambda>(_, b). (dest, len, b)) (\<lambda>(stored, b).
                do { left \<leftarrow> deserialize_size_left b;
                     if unat stored > left \<or> unat stored > len
                     then Some (DeserSizeMismatch, dest, len, b)
                     else do {
                       src \<leftarrow> slice (bytes b) (deser_loc b) (deser_loc b + unat stored);
                       dest \<leftarrow> blit dest 0 src;
                       Some (Ok, dest, unat stored, b\<lparr>deser_loc := deser_loc b + unat stored\<rparr>) } })
          | OmitLength \<Rightarrow>
              do { left \<leftarrow> deserialize_size_left b;
                   if len > left then Some (DeserSizeMismatch, dest, len, b)
                   else do {
                     src \<leftarrow> slice (bytes b) (deser_loc b) (deser_loc b + len);
                     dest \<leftarrow> blit dest 0 src;
                     Some (Ok, dest, len, b\<lparr>deser_loc := deser_loc b + len\<rparr>) } } }"

definition serialize_buffer ::
  "ser_buf \<Rightarrow> ser_buf \<Rightarrow> Endianness \<Rightarrow> (SerializeStatus \<times> ser_buf) option" where
  "serialize_buffer b val e =
     (if ser_loc b + ser_loc val + 2 > capacity b then Some (NoRoomLeft, b)
      else fw_try (serialize_u16 b (of_nat (ser_loc val)) e) id (\<lambda>b.
        do { src \<leftarrow> slice (bytes val) 0 (ser_loc val);
             bs \<leftarrow> blit (bytes b) (ser_loc b) src;
             Some (Ok, b\<lparr>bytes := bs, ser_loc := ser_loc b + ser_loc val, deser_loc := 0\<rparr>) }))"

definition deserialize_buffer ::
  "ser_buf \<Rightarrow> ser_buf \<Rightarrow> Endianness \<Rightarrow> (SerializeStatus \<times> ser_buf \<times> ser_buf) option" where
  "deserialize_buffer b val e =
     fw_try (deserialize_u16 b 0 e) (\<lambda>(_, b). (val, b)) (\<lambda>(stored, b).
       do { left \<leftarrow> deserialize_size_left b;
            if unat stored > capacity val \<or> unat stored > left then Some (DeserSizeMismatch, val, b)
            else do {
              src \<leftarrow> slice (bytes b) (deser_loc b) (deser_loc b + unat stored);
              vbs \<leftarrow> blit (bytes val) 0 src;
              fw_try (Some (set_buff_len (val\<lparr>bytes := vbs\<rparr>) (unat stored))) (\<lambda>val. (val, b)) (\<lambda>val.
                Some (Ok, val, b\<lparr>deser_loc := deser_loc b + unat stored\<rparr>)) } })"

text \<open>\<open>FwSizeType\<close> is \<open>u64\<close>; on the wire a size is a \<open>u16\<close>, and here the range is checked.\<close>

definition serialize_size :: "ser_buf \<Rightarrow> u64 \<Rightarrow> Endianness \<Rightarrow> (SerializeStatus \<times> ser_buf) option" where
  "serialize_size b sz e =
     (if sz > 0xFFFF then Some (FormatError, b) else serialize_u16 b (ucast sz) e)"

definition deserialize_size ::
  "ser_buf \<Rightarrow> u64 \<Rightarrow> Endianness \<Rightarrow> (SerializeStatus \<times> u64 \<times> ser_buf) option" where
  "deserialize_size b sz e =
     do { (st, stored, b) \<leftarrow> deserialize_u16 b 0 e;
          Some (st, if st = Ok then ucast stored else sz, b) }"

definition copy_raw ::
  "ser_buf \<Rightarrow> ser_buf \<Rightarrow> nat \<Rightarrow> (SerializeStatus \<times> ser_buf \<times> ser_buf) option" where
  "copy_raw b dest sz =
     (if capacity dest < sz then Some (NoRoomLeft, dest, b)
      else do {
        left \<leftarrow> deserialize_size_left b;
        if left < sz then Some (DeserSizeMismatch, dest, b)
        else do {
          src \<leftarrow> slice (bytes b) (deser_loc b) (deser_loc b + sz);
          dbs \<leftarrow> blit (bytes dest) 0 src;
          Some (Ok, dest\<lparr>bytes := dbs, ser_loc := sz, deser_loc := 0\<rparr>,
                b\<lparr>deser_loc := deser_loc b + sz\<rparr>) } })"

definition copy_raw_offset ::
  "ser_buf \<Rightarrow> ser_buf \<Rightarrow> nat \<Rightarrow> (SerializeStatus \<times> ser_buf \<times> ser_buf) option" where
  "copy_raw_offset b dest sz =
     do { needed \<leftarrow> uadd sz (ser_loc dest);
          if capacity dest < needed then Some (NoRoomLeft, dest, b)
          else do {
            left \<leftarrow> deserialize_size_left b;
            if left < sz then Some (DeserSizeMismatch, dest, b)
            else do {
              src \<leftarrow> slice (bytes b) (deser_loc b) (deser_loc b + sz);
              dbs \<leftarrow> blit (bytes dest) (ser_loc dest) src;
              Some (Ok, dest\<lparr>bytes := dbs, ser_loc := ser_loc dest + sz, deser_loc := 0\<rparr>,
                    b\<lparr>deser_loc := deser_loc b + sz\<rparr>) } } }"

section \<open>\<open>Serialize\<close> and \<open>Deserialize\<close> for the primitive types\<close>

datatype prim =
    PU8 u8 | PI8 i8 | PU16 u16 | PI16 i16 | PU32 u32 | PI32 i32 | PU64 u64 | PI64 i64
  | PF32 u32 | PF64 u64 | PBool bool

fun prim_serialize_to :: "prim \<Rightarrow> ser_buf \<Rightarrow> Endianness \<Rightarrow> (SerializeStatus \<times> ser_buf) option" where
  "prim_serialize_to (PU8 v) b e = serialize_prim b v e"
| "prim_serialize_to (PI8 v) b e = serialize_prim b v e"
| "prim_serialize_to (PU16 v) b e = serialize_prim b v e"
| "prim_serialize_to (PI16 v) b e = serialize_prim b v e"
| "prim_serialize_to (PU32 v) b e = serialize_prim b v e"
| "prim_serialize_to (PI32 v) b e = serialize_prim b v e"
| "prim_serialize_to (PU64 v) b e = serialize_prim b v e"
| "prim_serialize_to (PI64 v) b e = serialize_prim b v e"
| "prim_serialize_to (PF32 v) b e = serialize_f32 b v e"
| "prim_serialize_to (PF64 v) b e = serialize_f64 b v e"
| "prim_serialize_to (PBool v) b e = serialize_bool b v e"

definition read_as ::
  "('v \<Rightarrow> prim) \<Rightarrow> (SerializeStatus \<times> 'v \<times> ser_buf) option \<Rightarrow> (SerializeStatus \<times> prim \<times> ser_buf) option" where
  "read_as c m = do { (st, v, b) \<leftarrow> m; Some (st, c v, b) }"

fun prim_deserialize_from ::
  "prim \<Rightarrow> ser_buf \<Rightarrow> Endianness \<Rightarrow> (SerializeStatus \<times> prim \<times> ser_buf) option" where
  "prim_deserialize_from (PU8 v) b e = read_as PU8 (deserialize_prim b v e)"
| "prim_deserialize_from (PI8 v) b e = read_as PI8 (deserialize_prim b v e)"
| "prim_deserialize_from (PU16 v) b e = read_as PU16 (deserialize_prim b v e)"
| "prim_deserialize_from (PI16 v) b e = read_as PI16 (deserialize_prim b v e)"
| "prim_deserialize_from (PU32 v) b e = read_as PU32 (deserialize_prim b v e)"
| "prim_deserialize_from (PI32 v) b e = read_as PI32 (deserialize_prim b v e)"
| "prim_deserialize_from (PU64 v) b e = read_as PU64 (deserialize_prim b v e)"
| "prim_deserialize_from (PI64 v) b e = read_as PI64 (deserialize_prim b v e)"
| "prim_deserialize_from (PF32 v) b e = read_as PF32 (deserialize_f32 b v e)"
| "prim_deserialize_from (PF64 v) b e = read_as PF64 (deserialize_f64 b v e)"
| "prim_deserialize_from (PBool v) b e = read_as PBool (deserialize_bool b v e)"

fun prim_serialized_size :: "prim \<Rightarrow> nat" where
  "prim_serialized_size (PU8 _) = 1"
| "prim_serialized_size (PI8 _) = 1"
| "prim_serialized_size (PU16 _) = 2"
| "prim_serialized_size (PI16 _) = 2"
| "prim_serialized_size (PU32 _) = 4"
| "prim_serialized_size (PI32 _) = 4"
| "prim_serialized_size (PU64 _) = 8"
| "prim_serialized_size (PI64 _) = 8"
| "prim_serialized_size (PF32 _) = 4"
| "prim_serialized_size (PF64 _) = 8"
| "prim_serialized_size (PBool _) = 1"

section \<open>The abstract view of a buffer\<close>

text \<open>
  A well-formed buffer is its content (what was written) and its unread remainder.
  Every write appends to the content and rewinds the reader (\<open>put\<close>); every read takes
  a prefix of the remainder (\<open>adv\<close>).
\<close>

definition wf_buf :: "ser_buf \<Rightarrow> bool" where
  "wf_buf b \<longleftrightarrow> deser_loc b \<le> ser_loc b \<and> ser_loc b \<le> capacity b"

definition content :: "ser_buf \<Rightarrow> u8 list" where
  "content b = take (ser_loc b) (bytes b)"

definition unread :: "ser_buf \<Rightarrow> u8 list" where
  "unread b = drop (deser_loc b) (content b)"

definition room :: "ser_buf \<Rightarrow> nat" where
  "room b = capacity b - ser_loc b"

definition put :: "ser_buf \<Rightarrow> u8 list \<Rightarrow> ser_buf" where
  "put b bs = b\<lparr>bytes := take (ser_loc b) (bytes b) @ bs @ drop (ser_loc b + length bs) (bytes b),
                ser_loc := ser_loc b + length bs, deser_loc := 0\<rparr>"

definition adv :: "ser_buf \<Rightarrow> nat \<Rightarrow> ser_buf" where
  "adv b n = b\<lparr>deser_loc := deser_loc b + n\<rparr>"

lemmas buf_defs = wf_buf_def content_def unread_def room_def put_def adv_def capacity_def

lemma length_content: "wf_buf b \<Longrightarrow> length (content b) = ser_loc b"
  by (simp add: buf_defs)

lemma length_unread: "wf_buf b \<Longrightarrow> length (unread b) = ser_loc b - deser_loc b"
  by (simp add: buf_defs)

lemma unread_empty_iff: "wf_buf b \<Longrightarrow> unread b = [] \<longleftrightarrow> ser_loc b = deser_loc b"
  by (auto simp: buf_defs)

lemma put_simps [simp]:
  assumes "wf_buf b" and "length bs \<le> room b"
  shows "wf_buf (put b bs)" and "content (put b bs) = content b @ bs"
    and "unread (put b bs) = content b @ bs" and "room (put b bs) = room b - length bs"
    and "capacity (put b bs) = capacity b" and "put (put b bs) cs = put b (bs @ cs)"
  using assms by (auto simp: buf_defs ac_simps)

lemma put_locs [simp]: "deser_loc (put b bs) = 0" "ser_loc (put b bs) = ser_loc b + length bs"
  by (simp_all add: put_def)

lemma adv_simps [simp]:
  assumes "wf_buf b" and "n \<le> length (unread b)"
  shows "wf_buf (adv b n)" and "content (adv b n) = content b"
    and "unread (adv b n) = drop n (unread b)" and "room (adv b n) = room b"
    and "capacity (adv b n) = capacity b" and "adv (adv b n) m = adv b (n + m)"
  using assms by (auto simp: buf_defs add.commute)

lemma fold_adv: "b\<lparr>deser_loc := deser_loc b + n\<rparr> = adv b n"
  by (simp add: adv_def)

lemma reset_simps [simp]:
  "wf_buf b \<Longrightarrow> wf_buf (reset_ser b)" "content (reset_ser b) = []" "unread (reset_ser b) = []"
  "room (reset_ser b) = capacity b" "capacity (reset_ser b) = capacity b"
  "wf_buf b \<Longrightarrow> wf_buf (reset_deser b)" "content (reset_deser b) = content b"
  "unread (reset_deser b) = content b" "capacity (reset_deser b) = capacity b"
  "ser_loc (reset_ser b) = 0" "deser_loc (reset_ser b) = 0"
  by (auto simp: buf_defs reset_ser_def reset_deser_def)

lemma linear_buffer_new_simps [simp]:
  "wf_buf (linear_buffer_new n)" "capacity (linear_buffer_new n) = n"
  "content (linear_buffer_new n) = []" "room (linear_buffer_new n) = n"
  by (simp_all add: linear_buffer_new_def buf_defs)

section \<open>What each operation does to the abstract view\<close>

lemma write_raw_eq [ser_simps]:
  "wf_buf b \<Longrightarrow> write_raw b bs = Some (if length bs \<le> room b then (Ok, put b bs) else (NoRoomLeft, b))"
  by (auto simp: write_raw_def buf_defs)

lemma read_raw_eq [ser_simps]:
  assumes "wf_buf b"
  shows "read_raw b dest = Some (
    if unread b = [] then (DeserBufferEmpty, dest, b)
    else if length (unread b) < length dest then (DeserSizeMismatch, dest, b)
    else (Ok, take (length dest) (unread b), adv b (length dest)))"
  using assms
  by (auto simp: read_raw_def buf_defs take_drop min_def intro!: arg_cong [of _ _ "\<lambda>n. drop _ (take n _)"])

lemma length_to_bytes [simp]: "length (to_bytes e (v :: 'a::len word)) = nbytes TYPE('a)"
  by (cases e) (simp_all add: to_bytes_def)

lemma from_bytes_to_bytes [simp]: "8 dvd LENGTH('a) \<Longrightarrow> from_bytes e (to_bytes e v) = (v :: 'a::len word)"
  by (cases e) (simp_all add: to_bytes_def from_bytes_def)

lemma serialize_prim_eq [ser_simps]:
  "wf_buf b \<Longrightarrow> serialize_prim b (v :: 'a::len word) e =
     Some (if nbytes TYPE('a) \<le> room b then (Ok, put b (to_bytes e v)) else (NoRoomLeft, b))"
  by (simp add: serialize_prim_def write_raw_eq)

lemma deserialize_prim_eq [ser_simps]:
  assumes "wf_buf b"
  shows "deserialize_prim b (v :: 'a::len word) e = Some (
    if unread b = [] then (DeserBufferEmpty, v, b)
    else if length (unread b) < nbytes TYPE('a) then (DeserSizeMismatch, v, b)
    else (Ok, from_bytes e (take (nbytes TYPE('a)) (unread b)), adv b (nbytes TYPE('a))))"
  using assms by (simp add: deserialize_prim_def read_raw_eq)

lemma serialize_bool_eq [ser_simps]:
  "wf_buf b \<Longrightarrow> serialize_bool b v e =
     Some (if 1 \<le> room b then (Ok, put b [if v then 0xFF else 0]) else (NoRoomLeft, b))"
  by (simp add: serialize_bool_def write_raw_eq FW_SERIALIZE_TRUE_VALUE_def FW_SERIALIZE_FALSE_VALUE_def)

lemma deserialize_bool_eq [ser_simps]:
  assumes "wf_buf b"
  shows "deserialize_bool b v e = Some (case unread b of
      [] \<Rightarrow> (DeserBufferEmpty, v, b)
    | x # _ \<Rightarrow> if x = 0xFF then (Ok, True, adv b 1) else if x = 0 then (Ok, False, adv b 1)
              else (DeserFormatError, v, b))"
proof (cases "unread b")
  case Nil
  with assms have "ser_loc b = deser_loc b" by (simp add: unread_empty_iff)
  with Nil show ?thesis by (simp add: deserialize_bool_def)
next
  case (Cons x xs)
  with assms have "ser_loc b \<noteq> deser_loc b"
    by (metis list.discI unread_empty_iff)
  moreover from this assms have "deser_loc b < length (bytes b)"
    by (simp add: wf_buf_def capacity_def)
  moreover from Cons assms have "bytes b ! deser_loc b = x"
    by (metis content_def drop_eq_Nil2 hd_drop_conv_nth length_take list.discI list.sel(1) min_less_iff_conj
        not_le nth_take unread_def)
  ultimately show ?thesis
    using Cons by (simp add: deserialize_bool_def adv_def FW_SERIALIZE_TRUE_VALUE_def FW_SERIALIZE_FALSE_VALUE_def)
qed

lemma serialize_f_eq [ser_simps]:
  "serialize_f32 b x e = serialize_prim b x e" "serialize_f64 b y e = serialize_prim b y e"
  by (simp_all add: serialize_f32_def serialize_f64_def)

lemma deserialize_f_eq [ser_simps]:
  "wf_buf b \<Longrightarrow> deserialize_f32 b x e = deserialize_prim b x e"
  "wf_buf b \<Longrightarrow> deserialize_f64 b y e = deserialize_prim b y e"
  by (simp_all add: deserialize_f32_def deserialize_f64_def deserialize_prim_eq)

lemma size_left_eq [ser_simps]:
  "wf_buf b \<Longrightarrow> deserialize_size_left b = Some (length (unread b))"
  "wf_buf b \<Longrightarrow> serialize_size_left b = Some (room b)"
  by (auto simp: deserialize_size_left_def serialize_size_left_def buf_defs)

lemma slices_eq [ser_simps]:
  "wf_buf b \<Longrightarrow> as_slice b = Some (content b)"
  "wf_buf b \<Longrightarrow> remaining_slice b = Some (unread b)"
  by (auto simp: as_slice_def remaining_slice_def buf_defs drop_take)

lemma unread_slice:
  "wf_buf b \<Longrightarrow> n \<le> length (unread b) \<Longrightarrow>
    slice (bytes b) (deser_loc b) (deser_loc b + n) = Some (take n (unread b))"
  by (auto simp: buf_defs drop_take)

lemma serialize_bytes_eq [ser_simps]:
  assumes "wf_buf b"
  shows "serialize_bytes b data mode e =
    (let hdr = (if mode = IncludeLength then to_bytes e (of_nat (length data) :: u16) else [])
     in Some (if length hdr > room b then (NoRoomLeft, b)
              else if length hdr + length data > room b
                then (NoRoomLeft, if mode = IncludeLength then put b hdr else b)
              else (Ok, put b (hdr @ data))))"
proof -
  have "serialize_bytes b data mode e =
    fw_try (if mode = IncludeLength then serialize_u16 b (of_nat (length data)) e else Some (Ok, b))
      id (\<lambda>b. write_raw b data)"
    by (simp add: serialize_bytes_def write_raw_def)
  with assms show ?thesis
    by (cases mode) (auto simp: fw_try_def serialize_prim_eq write_raw_eq Let_def)
qed

text \<open>A nested buffer is its length and its content; the stored length must fit the target.\<close>

lemma serialize_buffer_eq [ser_simps]:
  assumes "wf_buf b" and "wf_buf val"
  shows "serialize_buffer b val e = Some (
    if length (content val) + 2 > room b then (NoRoomLeft, b)
    else (Ok, put b (to_bytes e (of_nat (length (content val)) :: u16) @ content val)))"
proof (cases "length (content val) + 2 > room b")
  case True
  with assms show ?thesis
    by (auto simp: serialize_buffer_def length_content room_def)
next
  case False
  let ?hdr = "to_bytes e (of_nat (length (content val)) :: u16)"
  have fit: "length ?hdr \<le> room b" "length (content val) \<le> room (put b ?hdr)"
    using False assms by auto
  have "blit (bytes (put b ?hdr)) (ser_loc (put b ?hdr)) (content val) \<bind>
      (\<lambda>bs. Some (Ok, (put b ?hdr)\<lparr>bytes := bs,
          ser_loc := ser_loc (put b ?hdr) + ser_loc val, deser_loc := 0\<rparr>))
    = Some (Ok, put (put b ?hdr) (content val))"
    using fit assms by (auto simp: buf_defs min_def add.commute)
  moreover have "slice (bytes val) 0 (ser_loc val) = Some (content val)"
    using assms by (simp add: buf_defs)
  ultimately show ?thesis
    using False assms fit
    by (simp add: serialize_buffer_def fw_try_def serialize_prim_eq length_content)
      (auto simp: room_def capacity_def wf_buf_def)
qed

definition set_content :: "ser_buf \<Rightarrow> u8 list \<Rightarrow> ser_buf" where
  "set_content b bs = b\<lparr>bytes := bs @ drop (length bs) (bytes b), ser_loc := length bs, deser_loc := 0\<rparr>"

lemma set_content_simps [simp]:
  assumes "length bs \<le> capacity b"
  shows "wf_buf (set_content b bs)" and "content (set_content b bs) = bs"
    and "unread (set_content b bs) = bs" and "capacity (set_content b bs) = capacity b"
  using assms by (auto simp: set_content_def buf_defs)

lemma set_buff_eq [ser_simps]:
  "set_buff b src = Some (if capacity b < length src then (NoRoomLeft, b) else (Ok, set_content b src))"
  by (auto simp: set_buff_def set_content_def capacity_def)

lemma deserialize_buffer_eq [ser_simps]:
  assumes "wf_buf b"
  shows "deserialize_buffer b val e = Some (
    if unread b = [] then (DeserBufferEmpty, val, b)
    else if length (unread b) < 2 then (DeserSizeMismatch, val, b)
    else let n = unat (from_bytes e (take 2 (unread b)) :: u16)
         in if n > capacity val \<or> n > length (unread b) - 2 then (DeserSizeMismatch, val, adv b 2)
            else (Ok, set_content val (take n (drop 2 (unread b))), adv b (2 + n)))"
  using assms
  by (auto simp: deserialize_buffer_def fw_try_def deserialize_prim_eq size_left_eq unread_slice
      set_buff_len_def set_content_def capacity_def Let_def min_def fold_adv)

lemma copy_raw_eq [ser_simps]:
  assumes "wf_buf b"
  shows "copy_raw b dest n = Some (
    if capacity dest < n then (NoRoomLeft, dest, b)
    else if length (unread b) < n then (DeserSizeMismatch, dest, b)
    else (Ok, set_content dest (take n (unread b)), adv b n))"
  using assms
  by (auto simp: copy_raw_def size_left_eq unread_slice set_content_def capacity_def min_def adv_def)

lemma copy_raw_offset_eq [ser_simps]:
  assumes "wf_buf b" and "wf_buf dest" and "n + ser_loc dest < 2 ^ 64"
  shows "copy_raw_offset b dest n = Some (
    if room dest < n then (NoRoomLeft, dest, b)
    else if length (unread b) < n then (DeserSizeMismatch, dest, b)
    else (Ok, put dest (take n (unread b)), adv b n))"
  using assms
  by (auto simp: copy_raw_offset_def size_left_eq unread_slice put_def room_def wf_buf_def
      capacity_def min_def adv_def)

lemma serialize_skip_eq [ser_simps]:
  assumes "wf_buf b" and "ser_loc b + n < 2 ^ 64"
  shows "serialize_skip b n = Some (if n \<le> room b then (Ok, b\<lparr>ser_loc := ser_loc b + n\<rparr>) else (NoRoomLeft, b))"
  using assms by (auto simp: serialize_skip_def buf_defs)

lemma skip_eq [ser_simps]:
  assumes "wf_buf b"
  shows "deserialize_skip b n = Some (if unread b = [] then (DeserBufferEmpty, b)
      else if length (unread b) < n then (DeserSizeMismatch, b) else (Ok, adv b n))"
    and "move_deser_to_offset b n = Some (if content b = [] then (DeserBufferEmpty, reset_deser b)
      else if length (content b) < n then (DeserSizeMismatch, reset_deser b)
      else (Ok, adv (reset_deser b) n))"
proof -
  have skip: "deserialize_skip b n = Some (if unread b = [] then (DeserBufferEmpty, b)
      else if length (unread b) < n then (DeserSizeMismatch, b) else (Ok, adv b n))" if "wf_buf b" for b
    using that by (auto simp: deserialize_skip_def unread_empty_iff length_unread adv_def wf_buf_def)
  show "deserialize_skip b n = Some (if unread b = [] then (DeserBufferEmpty, b)
      else if length (unread b) < n then (DeserSizeMismatch, b) else (Ok, adv b n))"
    using assms by (rule skip)
  show "move_deser_to_offset b n = Some (if content b = [] then (DeserBufferEmpty, reset_deser b)
      else if length (content b) < n then (DeserSizeMismatch, reset_deser b)
      else (Ok, adv (reset_deser b) n))"
    using assms by (simp add: move_deser_to_offset_def skip)
qed

lemma set_buff_len_eq [ser_simps]:
  "wf_buf b \<Longrightarrow> fst (set_buff_len b n) = (if capacity b < n then NoRoomLeft else Ok)"
  by (simp add: set_buff_len_def)

lemma deserialize_bytes_eq [ser_simps]:
  assumes "wf_buf b" and "len \<le> length dest"
  shows "deserialize_bytes b dest len mode e = Some (
    case mode of
      OmitLength \<Rightarrow>
        if len > length (unread b) then (DeserSizeMismatch, dest, len, b)
        else (Ok, take len (unread b) @ drop len dest, len, adv b len)
    | IncludeLength \<Rightarrow>
        if unread b = [] then (DeserBufferEmpty, dest, len, b)
        else if length (unread b) < 2 then (DeserSizeMismatch, dest, len, b)
        else let n = unat (from_bytes e (take 2 (unread b)) :: u16)
             in if n > length (unread b) - 2 \<or> n > len then (DeserSizeMismatch, dest, len, adv b 2)
                else (Ok, take n (drop 2 (unread b)) @ drop n dest, n, adv b (2 + n)))"
proof (cases mode)
  case OmitLength
  then show ?thesis
    using assms by (auto simp: deserialize_bytes_def size_left_eq unread_slice min_def fold_adv)
next
  case IncludeLength
  then show ?thesis
    using assms
    by (auto simp: deserialize_bytes_def fw_try_def deserialize_prim_eq size_left_eq unread_slice
        Let_def min_def fold_adv)
qed

lemma size_codec_eq [ser_simps]:
  assumes "wf_buf b"
  shows "serialize_size b sz e = Some (if sz > 0xFFFF then (FormatError, b)
      else if 2 \<le> room b then (Ok, put b (to_bytes e (ucast sz :: u16))) else (NoRoomLeft, b))"
    and "deserialize_size b sz e = Some (if unread b = [] then (DeserBufferEmpty, sz, b)
      else if length (unread b) < 2 then (DeserSizeMismatch, sz, b)
      else (Ok, ucast (from_bytes e (take 2 (unread b)) :: u16), adv b 2))"
  using assms by (auto simp: serialize_size_def deserialize_size_def serialize_prim_eq deserialize_prim_eq)

section \<open>The value contract\<close>

text \<open>
  What \<open>Serialize\<close>/\<open>Deserialize\<close> promise for a type with wire format \<open>enc\<close>: writing a value
  appends exactly its encoding, reading with the encoding in front returns the value and
  consumes exactly the encoding.  \<open>fits t v\<close> says that the destination \<open>t\<close> can hold \<open>v\<close>.
\<close>

primrec ser_list ::
  "('v \<Rightarrow> ser_buf \<Rightarrow> (SerializeStatus \<times> ser_buf) option) \<Rightarrow> 'v list \<Rightarrow> ser_buf
    \<Rightarrow> (SerializeStatus \<times> ser_buf) option" where
  "ser_list f [] b = Some (Ok, b)"
| "ser_list f (v # vs) b = fw_try (f v b) id (ser_list f vs)"

primrec deser_list ::
  "('v \<Rightarrow> ser_buf \<Rightarrow> (SerializeStatus \<times> 'v \<times> ser_buf) option) \<Rightarrow> 'v list \<Rightarrow> ser_buf
    \<Rightarrow> (SerializeStatus \<times> 'v list \<times> ser_buf) option" where
  "deser_list f [] b = Some (Ok, [], b)"
| "deser_list f (t # ts) b =
     fw_try (f t b) (\<lambda>(v, b). (v # ts, b))
       (\<lambda>(v, b). do { (st, vs, b) \<leftarrow> deser_list f ts b; Some (st, v # vs, b) })"

locale fw_codec =
  fixes enc :: "'v \<Rightarrow> u8 list"
    and ser :: "'v \<Rightarrow> ser_buf \<Rightarrow> (SerializeStatus \<times> ser_buf) option"
    and deser :: "'v \<Rightarrow> ser_buf \<Rightarrow> (SerializeStatus \<times> 'v \<times> ser_buf) option"
    and valid :: "'v \<Rightarrow> bool"
    and fits :: "'v \<Rightarrow> 'v \<Rightarrow> bool"
  assumes ser_enc: "wf_buf b \<Longrightarrow> valid v \<Longrightarrow> length (enc v) \<le> room b \<Longrightarrow> ser v b = Some (Ok, put b (enc v))"
    and deser_enc: "wf_buf b \<Longrightarrow> valid v \<Longrightarrow> fits t v \<Longrightarrow> unread b = enc v @ rest \<Longrightarrow>
      deser t b = Some (Ok, v, adv b (length (enc v)))"
begin

lemma ser_list_enc:
  assumes "wf_buf b" and "list_all valid vs" and "vs \<noteq> []" and "length (concat (map enc vs)) \<le> room b"
  shows "ser_list ser vs b = Some (Ok, put b (concat (map enc vs)))"
  using assms
proof (induction vs arbitrary: b)
  case Nil
  then show ?case by simp
next
  case (Cons v vs)
  then have "ser v b = Some (Ok, put b (enc v))" by (simp add: ser_enc)
  then show ?case
    using Cons by (cases "vs = []") (simp_all add: fw_try_def)
qed

lemma deser_list_enc:
  assumes "wf_buf b" and "list_all valid vs" and "list_all2 fits ts vs"
    and "unread b = concat (map enc vs) @ rest"
  shows "deser_list deser ts b = Some (Ok, vs, adv b (length (concat (map enc vs))))"
  using assms(3,1,2,4)
proof (induction ts vs arbitrary: b rule: list_all2_induct)
  case Nil
  then show ?case by (simp add: adv_def)
next
  case (Cons t ts v vs)
  then have "deser t b = Some (Ok, v, adv b (length (enc v)))"
    by (simp add: deser_enc [where rest = "concat (map enc vs) @ rest"])
  moreover have "deser_list deser ts (adv b (length (enc v))) =
      Some (Ok, vs, adv (adv b (length (enc v))) (length (concat (map enc vs))))"
    using Cons.prems by (intro Cons.IH) simp_all
  ultimately show ?case
    using Cons.prems by (simp add: fw_try_def)
qed

text \<open>The same behind earlier content, which stays.\<close>

lemma list_append_roundtrip:
  assumes "wf_buf b" and "list_all valid vs" and "list_all2 fits ts vs"
    and "ser_loc b + length (concat (map enc vs)) \<le> capacity b"
  shows "\<exists>b'. ser_list ser vs b = Some (Ok, b') \<and> ser_loc b' = ser_loc b + length (concat (map enc vs)) \<and>
    capacity b' = capacity b \<and> take (ser_loc b) (bytes b') = content b \<and>
    deser_list deser ts (b'\<lparr>deser_loc := ser_loc b\<rparr>) = Some (Ok, vs, b'\<lparr>deser_loc := ser_loc b'\<rparr>)"
proof (cases "vs = []")
  case True
  with assms show ?thesis by (simp add: content_def)
next
  case False
  let ?bs = "concat (map enc vs)" and ?b = "put b (concat (map enc vs))"
  have "ser_list ser vs b = Some (Ok, ?b)"
    using assms False by (intro ser_list_enc) (simp_all add: room_def)
  moreover have "wf_buf (?b\<lparr>deser_loc := ser_loc b\<rparr>)" "unread (?b\<lparr>deser_loc := ser_loc b\<rparr>) = ?bs @ []"
      "ser_loc ?b = ser_loc b + length ?bs" "capacity ?b = capacity b" "take (ser_loc b) (bytes ?b) = content b"
    using assms(1,4) by (simp_all add: buf_defs)
  moreover from this have "deser_list deser ts (?b\<lparr>deser_loc := ser_loc b\<rparr>) =
      Some (Ok, vs, adv (?b\<lparr>deser_loc := ser_loc b\<rparr>) (length ?bs))"
    using assms(2,3) by (intro deser_list_enc)
  ultimately show ?thesis by (simp add: adv_def)
qed

text \<open>Writing values one after the other and reading them back yields the values.\<close>

lemma list_roundtrip:
  assumes "wf_buf b" and "list_all valid vs" and "list_all2 fits ts vs"
    and "length (concat (map enc vs)) \<le> capacity b"
  shows "\<exists>b'. ser_list ser vs (reset_ser b) = Some (Ok, b') \<and> wf_buf b' \<and>
    content b' = concat (map enc vs) \<and> deser_loc b' = 0 \<and>
    deser_list deser ts b' = Some (Ok, vs, adv b' (length (content b')))"
proof (cases "vs = []")
  case True
  with assms show ?thesis by (simp add: adv_def)
next
  case False
  with assms have "ser_list ser vs (reset_ser b) = Some (Ok, put (reset_ser b) (concat (map enc vs)))"
    by (intro ser_list_enc) simp_all
  moreover have "deser_list deser ts (put (reset_ser b) (concat (map enc vs))) =
      Some (Ok, vs, adv (put (reset_ser b) (concat (map enc vs))) (length (concat (map enc vs))))"
    using assms by (intro deser_list_enc [where rest = "[]"]) simp_all
  ultimately show ?thesis using assms by simp
qed

end

fun prim_enc :: "Endianness \<Rightarrow> prim \<Rightarrow> u8 list" where
  "prim_enc e (PU8 v) = to_bytes e v"
| "prim_enc e (PI8 v) = to_bytes e v"
| "prim_enc e (PU16 v) = to_bytes e v"
| "prim_enc e (PI16 v) = to_bytes e v"
| "prim_enc e (PU32 v) = to_bytes e v"
| "prim_enc e (PI32 v) = to_bytes e v"
| "prim_enc e (PU64 v) = to_bytes e v"
| "prim_enc e (PI64 v) = to_bytes e v"
| "prim_enc e (PF32 v) = to_bytes e v"
| "prim_enc e (PF64 v) = to_bytes e v"
| "prim_enc e (PBool v) = [if v then 0xFF else 0]"

primrec prim_kind :: "prim \<Rightarrow> nat" where
  "prim_kind (PU8 _) = 0"
| "prim_kind (PI8 _) = 1"
| "prim_kind (PU16 _) = 2"
| "prim_kind (PI16 _) = 3"
| "prim_kind (PU32 _) = 4"
| "prim_kind (PI32 _) = 5"
| "prim_kind (PU64 _) = 6"
| "prim_kind (PI64 _) = 7"
| "prim_kind (PF32 _) = 8"
| "prim_kind (PF64 _) = 9"
| "prim_kind (PBool _) = 10"

definition same_kind :: "prim \<Rightarrow> prim \<Rightarrow> bool" where
  "same_kind t v \<longleftrightarrow> prim_kind t = prim_kind v"

lemma length_prim_enc [simp]: "length (prim_enc e v) = prim_serialized_size v"
  by (cases v) simp_all

lemma deserialize_prim_enc:
  assumes "wf_buf b" and "unread b = to_bytes e v @ rest" and "8 dvd LENGTH('a)"
  shows "deserialize_prim b t e = Some (Ok, v :: 'a::len word, adv b (nbytes TYPE('a)))"
proof -
  have "0 < nbytes TYPE('a)"
    using assms(3) by (simp add: nbytes_def div_greater_zero_iff dvd_imp_le)
  then have "unread b \<noteq> []"
    using assms(2) by (metis Nil_is_append_conv length_greater_0_conv length_to_bytes)
  with assms show ?thesis by (simp add: deserialize_prim_eq)
qed

interpretation prim: fw_codec "prim_enc e" "\<lambda>v b. prim_serialize_to v b e"
  "\<lambda>t b. prim_deserialize_from t b e" "\<lambda>_. True" same_kind for e
proof unfold_locales
  fix b v
  assume "wf_buf b" and "length (prim_enc e v) \<le> room b"
  then show "prim_serialize_to v b e = Some (Ok, put b (prim_enc e v))"
    by (cases v) (simp_all add: ser_simps)
next
  fix b v t rest
  assume "wf_buf b" and "same_kind t v" and "unread b = prim_enc e v @ rest"
  then show "prim_deserialize_from t b e = Some (Ok, v, adv b (length (prim_enc e v)))"
    by (cases v; cases t)
      (simp_all add: same_kind_def read_as_def deserialize_prim_enc deserialize_f_eq deserialize_bool_eq)
qed

text \<open>
  C1: any sequence of primitive values (integers of all widths, floats, booleans), in either byte
  order, written behind what a buffer already holds, into a buffer with room for it, and read back from
  there with destinations of the same types yields the same values, uses exactly \<open>serialized_size\<close> bytes
  per value, leaves nothing unread, and leaves the earlier content and the capacity as they were.
\<close>

theorem prims_roundtrip:
  assumes "wf_buf b" and "list_all2 same_kind ts vs"
    and "ser_loc b + sum_list (map prim_serialized_size vs) \<le> capacity b"
  shows "\<exists>b'. ser_list (\<lambda>v b. prim_serialize_to v b e) vs b = Some (Ok, b') \<and>
    ser_loc b' = ser_loc b + sum_list (map prim_serialized_size vs) \<and> capacity b' = capacity b \<and>
    take (ser_loc b) (bytes b') = content b \<and>
    deser_list (\<lambda>t b. prim_deserialize_from t b e) ts (b'\<lparr>deser_loc := ser_loc b\<rparr>) =
      Some (Ok, vs, b'\<lparr>deser_loc := ser_loc b'\<rparr>)"
proof -
  have len: "length (concat (map (prim_enc e) vs)) = sum_list (map prim_serialized_size vs)"
    by (simp add: length_concat comp_def)
  then show ?thesis
    using prim.list_append_roundtrip [of b vs ts e] assms by (auto simp: list_all_iff)
qed

theorem prims_roundtrip_witness:
  "\<exists>b'. ser_list (\<lambda>v b. prim_serialize_to v b Little) [PU16 0x1234, PBool True, PI32 (-2)]
      \<lparr>bytes = replicate 16 7, ser_loc = 3, deser_loc = 1\<rparr> = Some (Ok, b') \<and>
    ser_loc b' = 10 \<and> capacity b' = 16 \<and> take 3 (bytes b') = [7, 7, 7] \<and>
    deser_list (\<lambda>t b. prim_deserialize_from t b Little) [PU16 0, PBool False, PI32 0] (b'\<lparr>deser_loc := 3\<rparr>) =
      Some (Ok, [PU16 0x1234, PBool True, PI32 (-2)], b'\<lparr>deser_loc := ser_loc b'\<rparr>)"
  using prims_roundtrip [of "\<lparr>bytes = replicate 16 7, ser_loc = 3, deser_loc = 1\<rparr>"
      "[PU16 0, PBool False, PI32 0]" "[PU16 0x1234, PBool True, PI32 (-2)]" Little]
  by (simp add: same_kind_def buf_defs numeral_eq_Suc)

section \<open>Sequences of operations\<close>

datatype ser_op =
    SerPrim prim Endianness | SerBytes "u8 list" LengthMode Endianness | SerBuffer ser_buf Endianness
  | SerSize u64 Endianness | SerSkip nat | MoveSer nat | ResetSer | SetBuff "u8 list" | SetBuffLen nat
  | DeserPrim prim Endianness | DeserBytes "u8 list" nat LengthMode Endianness
  | DeserBuffer ser_buf Endianness | DeserSize u64 Endianness | DeserSkip nat | MoveDeser nat | ResetDeser
  | CopyRaw ser_buf nat | CopyRawOffset ser_buf nat

definition keep_buf :: "(SerializeStatus \<times> 'v \<times> ser_buf) option \<Rightarrow> (SerializeStatus \<times> ser_buf) option" where
  "keep_buf m = map_option (\<lambda>(st, _, b). (st, b)) m"

fun ser_step :: "ser_buf \<Rightarrow> ser_op \<Rightarrow> (SerializeStatus \<times> ser_buf) option" where
  "ser_step b (SerPrim v e) = prim_serialize_to v b e"
| "ser_step b (SerBytes d m e) = serialize_bytes b d m e"
| "ser_step b (SerBuffer v e) = serialize_buffer b v e"
| "ser_step b (SerSize n e) = serialize_size b n e"
| "ser_step b (SerSkip n) = serialize_skip b n"
| "ser_step b (MoveSer n) = move_ser_to_offset b n"
| "ser_step b ResetSer = Some (Ok, reset_ser b)"
| "ser_step b (SetBuff d) = set_buff b d"
| "ser_step b (SetBuffLen n) = Some (set_buff_len b n)"
| "ser_step b (DeserPrim t e) = keep_buf (prim_deserialize_from t b e)"
| "ser_step b (DeserBytes d n m e) =
     map_option (\<lambda>(st, _, _, b). (st, b)) (deserialize_bytes b d n m e)"
| "ser_step b (DeserBuffer v e) = keep_buf (deserialize_buffer b v e)"
| "ser_step b (DeserSize n e) = keep_buf (deserialize_size b n e)"
| "ser_step b (DeserSkip n) = deserialize_skip b n"
| "ser_step b (MoveDeser n) = move_deser_to_offset b n"
| "ser_step b ResetDeser = Some (Ok, reset_deser b)"
| "ser_step b (CopyRaw d n) = keep_buf (copy_raw b d n)"
| "ser_step b (CopyRawOffset d n) = keep_buf (copy_raw_offset b d n)"

text \<open>
  The caller's side: nested buffers are well formed, an offset is a \<open>usize\<close>.  And when an operation panics: a \<open>usize\<close>
  sum overflows, or a byte count exceeds its destination.
\<close>

fun op_ok :: "ser_op \<Rightarrow> bool" where
  "op_ok (SerBuffer v e) = wf_buf v"
| "op_ok (CopyRawOffset d n) = wf_buf d"
| "op_ok (MoveSer n) = (n < 2 ^ 64)"
| "op_ok _ = True"

fun op_panics :: "ser_buf \<Rightarrow> ser_op \<Rightarrow> bool" where
  "op_panics b (SerSkip n) = (2 ^ 64 \<le> ser_loc b + n)"
| "op_panics b (CopyRawOffset d n) = (2 ^ 64 \<le> n + ser_loc d)"
| "op_panics b (DeserBytes d n m e) = (length d < n)"
| "op_panics b _ = False"

fun ser_run :: "ser_buf \<Rightarrow> ser_op list \<Rightarrow> ser_buf option" where
  "ser_run b [] = Some b"
| "ser_run b (op # ops) = do { (st, b) \<leftarrow> ser_step b op; ser_run b ops }"

lemma keep_buf_Some [simp]: "keep_buf (Some (st, v, b)) = Some (st, b)"
  by (simp add: keep_buf_def)

lemma ser_skip_wf: "wf_buf b \<Longrightarrow> n \<le> room b \<Longrightarrow> wf_buf (b\<lparr>ser_loc := ser_loc b + n\<rparr>)"
  by (auto simp: buf_defs)

lemma capacity_ser_loc_upd [simp]: "capacity (b\<lparr>ser_loc := n\<rparr>) = capacity b"
  "capacity (b\<lparr>ser_loc := n, deser_loc := m\<rparr>) = capacity b"
  by (simp_all add: capacity_def)

lemma prim_read_step:
  assumes "wf_buf b"
  shows "\<exists>st v b'. prim_deserialize_from t b e = Some (st, v, b') \<and> wf_buf b' \<and> capacity b' = capacity b"
  using assms
  by (cases t) (auto simp: read_as_def ser_simps Suc_le_eq split: list.splits)

lemma prim_write_step:
  assumes "wf_buf b"
  shows "\<exists>st b'. prim_serialize_to v b e = Some (st, b') \<and> wf_buf b' \<and> capacity b' = capacity b"
  using assms by (cases v) (auto simp: ser_simps)

lemma ser_step_panics: "op_panics b op \<Longrightarrow> ser_step b op = None"
  by (cases op) (simp_all add: serialize_skip_def copy_raw_offset_def deserialize_bytes_def uadd_def keep_buf_def)

lemma ser_step_total:
  assumes "wf_buf b" and "op_ok op" and "\<not> op_panics b op"
  shows "\<exists>st b'. ser_step b op = Some (st, b') \<and> wf_buf b' \<and> capacity b' = capacity b"
proof (cases op)
  case (SerPrim v e)
  then show ?thesis using prim_write_step [OF assms(1)] by simp
next
  case (DeserPrim t e)
  then show ?thesis using prim_read_step [OF assms(1), of t e] by auto
next
  case (MoveSer n)
  moreover have "ser_loc (reset_ser b) = 0"
    by (simp add: reset_ser_def)
  ultimately show ?thesis
    using assms ser_skip_wf [of "reset_ser b" n] by (auto simp: move_ser_to_offset_def ser_simps)
next
  case (SetBuffLen n)
  then show ?thesis
    using assms by (auto simp: set_buff_len_def wf_buf_def)
next
  case (DeserBytes d n m e)
  then show ?thesis
    using assms by (cases m) (auto simp: deserialize_bytes_eq Let_def)
qed (use assms in \<open>auto simp: ser_simps ser_skip_wf Let_def\<close>)

lemma ser_run_append: "ser_run b (xs @ ys) = do { b \<leftarrow> ser_run b xs; ser_run b ys }"
  by (induction xs arbitrary: b) (auto split: prod.split bind_split)

lemma ser_run_keeps:
  assumes "wf_buf b" and "list_all op_ok ops" and "ser_run b ops = Some b'"
  shows "wf_buf b' \<and> capacity b' = capacity b"
  using assms
proof (induction ops arbitrary: b)
  case Nil
  then show ?case by simp
next
  case (Cons op ops)
  then have "\<not> op_panics b op"
    using ser_step_panics by fastforce
  then obtain st b1 where "ser_step b op = Some (st, b1)" "wf_buf b1" "capacity b1 = capacity b"
    using ser_step_total [of b op] Cons.prems by auto
  with Cons show ?case by fastforce
qed

lemma ser_run_None:
  assumes "wf_buf b" and "list_all op_ok ops" and "ser_run b ops = None"
  shows "\<exists>pre op post b1. ops = pre @ op # post \<and> ser_run b pre = Some b1 \<and> op_panics b1 op"
  using assms
proof (induction ops arbitrary: b)
  case Nil
  then show ?case by simp
next
  case (Cons op ops)
  show ?case
  proof (cases "op_panics b op")
    case True
    then show ?thesis
      by (intro exI [of _ "[]"] exI [of _ op] exI [of _ ops] exI [of _ b]) simp
  next
    case False
    then obtain st b1 where b1: "ser_step b op = Some (st, b1)" "wf_buf b1"
      using ser_step_total [of b op] Cons.prems by auto
    then obtain pre op' post b2 where "ops = pre @ op' # post" "ser_run b1 pre = Some b2" "op_panics b2 op'"
      using Cons by fastforce
    with b1 show ?thesis
      by (intro exI [of _ "op # pre"] exI [of _ op'] exI [of _ post] exI [of _ b2]) simp
  qed
qed

text \<open>
  C2: a sequence of operations, whatever they are and whatever statuses they return, panics exactly when one of
  them, in the state it meets, skips or appends so many bytes that the \<open>usize\<close> sum overflows, or is given a byte count
  that exceeds its destination; otherwise it leaves \<open>deser_loc \<le> ser_loc \<le> capacity\<close> and the capacity unchanged.
\<close>

theorem ser_run_safe:
  assumes "wf_buf b" and "list_all op_ok ops"
  shows "(ser_run b ops = None \<longleftrightarrow>
      (\<exists>pre op post b1. ops = pre @ op # post \<and> ser_run b pre = Some b1 \<and> op_panics b1 op)) \<and>
    (\<forall>b'. ser_run b ops = Some b' \<longrightarrow> wf_buf b' \<and> capacity b' = capacity b)"
  using ser_run_None [OF assms] ser_run_keeps [OF assms] by (auto simp: ser_run_append ser_step_panics)

theorem ser_run_safe_witness:
  "(\<exists>b'. ser_run (linear_buffer_new 3) [SerPrim (PU16 7) Big, SerPrim (PU32 1) Big, DeserPrim (PU32 0) Big] = Some b' \<and>
      wf_buf b' \<and> capacity b' = 3) \<and>
   ser_run (linear_buffer_new 3) [SerPrim (PU8 7) Big, SerSkip (2 ^ 64 - 1)] = None"
proof -
  let ?b = "linear_buffer_new 3" and ?ops = "[SerPrim (PU16 7) Big, SerPrim (PU32 1) Big, DeserPrim (PU32 0) Big]"
  have b: "wf_buf ?b" "capacity ?b = 3"
    by (simp_all add: linear_buffer_new_def buf_defs)
  have "ser_run ?b ?ops \<noteq> None"
    by code_simp
  then have "\<exists>b'. ser_run ?b ?ops = Some b' \<and> wf_buf b' \<and> capacity b' = 3"
    using ser_run_safe [OF b(1), of ?ops] b(2) by (auto simp del: ser_run.simps)
  moreover obtain b1 where "ser_run ?b [SerPrim (PU8 7) Big] = Some b1 \<and> op_panics b1 (SerSkip (2 ^ 64 - 1))"
    by (simp add: linear_buffer_new_def serialize_prim_def write_raw_def capacity_def blit_def to_bytes_def)
  then have "\<exists>pre op post b1. [SerPrim (PU8 7) Big, SerSkip (2 ^ 64 - 1)] = pre @ op # post \<and>
      ser_run ?b pre = Some b1 \<and> op_panics b1 op"
    by (intro exI [of _ "[SerPrim (PU8 7) Big]"] exI [of _ "SerSkip (2 ^ 64 - 1)"] exI [of _ "[]"] exI [of _ b1]) simp
  then have "ser_run ?b [SerPrim (PU8 7) Big, SerSkip (2 ^ 64 - 1)] = None"
    using ser_run_safe [OF b(1), of "[SerPrim (PU8 7) Big, SerSkip (2 ^ 64 - 1)]"] by (simp del: ser_run.simps)
  ultimately show ?thesis
    by blast
qed

end
