(* ===== verification/Utils_Ring.thy ===== *)
theory Utils_Ring
  imports Fw_Serial
begin

text \<open>
  The byte ring (\<open>fprime-utils/src/types/circular_buffer.rs\<close>).  A ring is abstracted to the
  list of its stored bytes; the locale \<open>byte_ring\<close> is the contract its clients (the message queue
  and the frame accumulator) rely on.
\<close>

section \<open>The circular buffer\<close>

record ring =
  cb_store :: "u8 list"
  head_idx :: nat
  allocated_size :: nat
  high_water_mark :: nat

definition circular_buffer_new :: "nat \<Rightarrow> ring option" where
  "circular_buffer_new n =
     do { fw_assert (n > 0);
          Some \<lparr>cb_store = replicate n 0, head_idx = 0, allocated_size = 0, high_water_mark = 0\<rparr> }"

definition advance_idx :: "ring \<Rightarrow> nat \<Rightarrow> nat \<Rightarrow> nat option" where
  "advance_idx r idx amount =
     do { fw_assert (idx < length (cb_store r)); Some ((idx + amount) mod length (cb_store r)) }"

definition get_allocated_size :: "ring \<Rightarrow> nat" where
  "get_allocated_size r = allocated_size r"

definition get_free_size :: "ring \<Rightarrow> nat option" where
  "get_free_size r =
     do { fw_assert (allocated_size r \<le> length (cb_store r));
          usub (length (cb_store r)) (allocated_size r) }"

definition get_capacity :: "ring \<Rightarrow> nat" where
  "get_capacity r = length (cb_store r)"

definition clear_high_water_mark :: "ring \<Rightarrow> ring" where
  "clear_high_water_mark r = r\<lparr>high_water_mark := 0\<rparr>"

definition ring_serialize :: "ring \<Rightarrow> u8 list \<Rightarrow> (SerializeStatus \<times> ring) option" where
  "ring_serialize r buffer =
     do { free \<leftarrow> get_free_size r;
          if length buffer > free then Some (NoRoomLeft, r)
          else do {
            start \<leftarrow> advance_idx r (head_idx r) (allocated_size r);
            tail_len \<leftarrow> usub (length (cb_store r)) start;
            let first = min (length buffer) tail_len;
            st \<leftarrow> blit (cb_store r) start (take first buffer);
            st \<leftarrow> blit st 0 (drop first buffer);
            let n = allocated_size r + length buffer;
            fw_assert (n \<le> get_capacity r);
            Some (Ok, r\<lparr>cb_store := st, allocated_size := n,
                        high_water_mark := max (high_water_mark r) n\<rparr>) } }"

definition peek_u8 :: "ring \<Rightarrow> u8 \<Rightarrow> nat \<Rightarrow> (SerializeStatus \<times> u8) option" where
  "peek_u8 r v offset =
     (if offset + 1 > allocated_size r then Some (DeserBufferEmpty, v)
      else do {
        i \<leftarrow> advance_idx r (head_idx r) offset;
        x \<leftarrow> index (cb_store r) i;
        Some (Ok, x) })"

fun peek_u32_loop :: "ring \<Rightarrow> nat \<Rightarrow> nat \<Rightarrow> u32 \<Rightarrow> u32 option" where
  "peek_u32_loop r 0 idx v = Some v"
| "peek_u32_loop r (Suc n) idx v =
     do { x \<leftarrow> index (cb_store r) idx;
          next \<leftarrow> advance_idx r idx 1;
          peek_u32_loop r n next (push_bit 8 v OR ucast x) }"

definition peek_u32_be :: "ring \<Rightarrow> u32 \<Rightarrow> nat \<Rightarrow> (SerializeStatus \<times> u32) option" where
  "peek_u32_be r v offset =
     (if offset + 4 > allocated_size r then Some (DeserBufferEmpty, v)
      else do {
        i \<leftarrow> advance_idx r (head_idx r) offset;
        x \<leftarrow> peek_u32_loop r 4 i 0;
        Some (Ok, x) })"

definition peek_bytes :: "ring \<Rightarrow> u8 list \<Rightarrow> nat \<Rightarrow> (SerializeStatus \<times> u8 list) option" where
  "peek_bytes r dest offset =
     (if length dest + offset > allocated_size r then Some (DeserBufferEmpty, dest)
      else do {
        start \<leftarrow> advance_idx r (head_idx r) offset;
        tail_len \<leftarrow> usub (length (cb_store r)) start;
        let first = min (length dest) tail_len;
        src \<leftarrow> slice (cb_store r) start (start + first);
        dest \<leftarrow> blit dest 0 src;
        src \<leftarrow> slice (cb_store r) 0 (length dest - first);
        dest \<leftarrow> blit dest first src;
        Some (Ok, dest) })"

definition rotate_ring :: "ring \<Rightarrow> nat \<Rightarrow> (SerializeStatus \<times> ring) option" where
  "rotate_ring r amount =
     (if amount > allocated_size r then Some (DeserBufferEmpty, r)
      else do {
        h \<leftarrow> advance_idx r (head_idx r) amount;
        Some (Ok, r\<lparr>head_idx := h, allocated_size := allocated_size r - amount\<rparr>) })"

definition trim_ring :: "ring \<Rightarrow> nat \<Rightarrow> (SerializeStatus \<times> ring)" where
  "trim_ring r amount =
     (if amount > allocated_size r then (DeserBufferEmpty, r)
      else (Ok, r\<lparr>allocated_size := allocated_size r - amount\<rparr>))"

section \<open>The ring as a list of bytes\<close>

definition wf_ring :: "ring \<Rightarrow> bool" where
  "wf_ring r \<longleftrightarrow> head_idx r < length (cb_store r) \<and> allocated_size r \<le> length (cb_store r) \<and>
     high_water_mark r \<le> length (cb_store r)"

definition ring_list :: "ring \<Rightarrow> u8 list" where
  "ring_list r = map (\<lambda>i. cb_store r ! ((head_idx r + i) mod length (cb_store r))) [0..<allocated_size r]"

lemma length_ring_list [simp]: "length (ring_list r) = allocated_size r"
  by (simp add: ring_list_def)

lemma ring_new_simps:
  "n > 0 \<Longrightarrow> \<exists>r. circular_buffer_new n = Some r \<and> wf_ring r \<and> ring_list r = [] \<and> get_capacity r = n"
  by (simp add: circular_buffer_new_def wf_ring_def ring_list_def get_capacity_def)

lemma advance_idx_eq [ring_simps]:
  "wf_ring r \<Longrightarrow> advance_idx r (head_idx r) n = Some ((head_idx r + n) mod length (cb_store r))"
  by (simp add: advance_idx_def wf_ring_def)

lemma get_free_size_eq [ring_simps]:
  "wf_ring r \<Longrightarrow> get_free_size r = Some (get_capacity r - length (ring_list r))"
  by (simp add: get_free_size_def get_capacity_def wf_ring_def)

text \<open>A two-segment copy into the ring writes the bytes at consecutive wrapped positions.\<close>

lemma wrapped_index:
  assumes "s < n" and "k \<le> (n :: nat)"
  shows "(s + k) mod n = (if s + k < n then s + k else s + k - n)"
proof (cases "s + k < n")
  case False
  with assms show ?thesis by (simp add: le_mod_geq)
qed simp

definition ring_blit :: "'a list \<Rightarrow> nat \<Rightarrow> 'a list \<Rightarrow> 'a list" where
  "ring_blit xs s ys =
     (let f = min (length ys) (length xs - s)
      in drop f ys @ drop (length ys - f) (take s xs @ take f ys @ drop (s + f) xs))"

lemma length_ring_blit [simp]: "s \<le> length xs \<Longrightarrow> length ys \<le> length xs \<Longrightarrow> length (ring_blit xs s ys) = length xs"
  by (auto simp: ring_blit_def Let_def min_def)

lemma ring_blit_hit:
  assumes "s < length xs" and "length ys \<le> length xs" and "t < length ys"
  shows "ring_blit xs s ys ! ((s + t) mod length xs) = ys ! t"
proof (cases "s + t < length xs")
  case True
  with assms show ?thesis
    by (auto simp: ring_blit_def Let_def min_def nth_append)
next
  case False
  with assms have "(s + t) mod length xs = s + t - length xs" by (simp add: wrapped_index)
  with False assms show ?thesis
    by (auto simp: ring_blit_def Let_def min_def nth_append)
qed

lemma ring_blit_miss:
  assumes s: "s < length xs" and le: "length ys \<le> length xs" and k: "k < length xs"
    and miss: "\<And>t. t < length ys \<Longrightarrow> k \<noteq> (s + t) mod length xs"
  shows "ring_blit xs s ys ! k = xs ! k"
proof -
  define f where "f = min (length ys) (length xs - s)"
  have out: "\<not> (s \<le> k \<and> k < s + f)"
  proof
    assume "s \<le> k \<and> k < s + f"
    then have "k - s < length ys" and "s + (k - s) = k" by (auto simp: f_def)
    then show False using miss [of "k - s"] k by simp
  qed
  have low: "length ys - f \<le> k"
  proof (rule ccontr)
    assume "\<not> length ys - f \<le> k"
    then have "length xs - s + k < length ys" by (auto simp: f_def)
    moreover have "(s + (length xs - s + k)) mod length xs = k" using s k by simp
    ultimately show False using miss by metis
  qed
  have f: "f \<le> length xs - s" "f \<le> length ys" by (simp_all add: f_def)
  define zs where "zs = take s xs @ take f ys @ drop (s + f) xs"
  have "length zs = length xs" using f s by (simp add: zs_def)
  have "ring_blit xs s ys = drop f ys @ drop (length ys - f) zs"
    by (simp only: ring_blit_def Let_def f_def zs_def)
  then have "ring_blit xs s ys ! k = zs ! k"
    using low k f \<open>length zs = length xs\<close> by (simp add: nth_append_right)
  also have "zs ! k = xs ! k"
  proof (cases "k < s")
    case True
    then show ?thesis using s by (simp add: zs_def nth_append_left)
  next
    case False
    with out have "s + f \<le> k" by simp
    then show ?thesis
      using s k f by (simp add: zs_def nth_append_right)
  qed
  finally show ?thesis .
qed

definition ring_push :: "ring \<Rightarrow> u8 list \<Rightarrow> ring" where
  "ring_push r bs =
     r\<lparr>cb_store := ring_blit (cb_store r) ((head_idx r + allocated_size r) mod length (cb_store r)) bs,
       allocated_size := allocated_size r + length bs,
       high_water_mark := max (high_water_mark r) (allocated_size r + length bs)\<rparr>"

definition ring_drop :: "ring \<Rightarrow> nat \<Rightarrow> ring" where
  "ring_drop r n = r\<lparr>head_idx := (head_idx r + n) mod length (cb_store r), allocated_size := allocated_size r - n\<rparr>"

lemma wf_ring_pos: "wf_ring r \<Longrightarrow> 0 < length (cb_store r)"
  by (auto simp: wf_ring_def)

lemma high_water_simps [simp]:
  "high_water_mark (ring_push r bs) = max (high_water_mark r) (allocated_size r + length bs)"
  "high_water_mark (ring_drop r n) = high_water_mark r"
  by (simp_all add: ring_push_def ring_drop_def)

lemma wf_ring_bound: "wf_ring r \<Longrightarrow> allocated_size r \<le> get_capacity r"
  by (simp add: wf_ring_def get_capacity_def)

lemma ring_serialize_eq [ring_simps]:
  assumes "wf_ring r"
  shows "ring_serialize r bs = Some (
    if length (ring_list r) + length bs > get_capacity r then (NoRoomLeft, r) else (Ok, ring_push r bs))"
proof -
  have "(head_idx r + allocated_size r) mod length (cb_store r) < length (cb_store r)"
    using assms by (intro mod_less_divisor) (auto simp: wf_ring_def)
  with assms show ?thesis
    by (auto simp: ring_serialize_def get_free_size_eq advance_idx_eq get_capacity_def ring_blit_def Let_def
        wf_ring_def min_def ring_push_def)
qed

lemma ring_push_simps [simp]:
  assumes wf: "wf_ring r" and fit: "length (ring_list r) + length bs \<le> get_capacity r"
  shows "wf_ring (ring_push r bs)" and "ring_list (ring_push r bs) = ring_list r @ bs"
    and "get_capacity (ring_push r bs) = get_capacity r"
proof -
  let ?n = "length (cb_store r)" and ?h = "head_idx r" and ?a = "allocated_size r"
  let ?s = "(?h + ?a) mod ?n"
  have pos: "?s < ?n" "length bs \<le> ?n"
    using wf_ring_pos [OF wf] fit by (auto simp: get_capacity_def)
  show "wf_ring (ring_push r bs)" "get_capacity (ring_push r bs) = get_capacity r"
    using wf fit pos by (auto simp: ring_push_def wf_ring_def get_capacity_def)
  show "ring_list (ring_push r bs) = ring_list r @ bs"
  proof (rule nth_equalityI)
    fix i
    assume "i < length (ring_list (ring_push r bs))"
    then have i: "i < ?a + length bs" by (simp add: ring_push_def)
    have at: "ring_list (ring_push r bs) ! i = ring_blit (cb_store r) ?s bs ! ((?h + i) mod ?n)"
      using i pos by (simp add: ring_list_def ring_push_def)
    show "ring_list (ring_push r bs) ! i = (ring_list r @ bs) ! i"
    proof (cases "i < ?a")
      case True
      have "(?h + i) mod ?n \<noteq> (?s + t) mod ?n" if "t < length bs" for t
      proof
        assume "(?h + i) mod ?n = (?s + t) mod ?n"
        then have "(?h + i) mod ?n = (?h + (?a + t)) mod ?n"
          by (simp add: mod_add_left_eq add.assoc)
        moreover have "?a + t < ?n" using that fit by (simp add: get_capacity_def)
        moreover have "?h < ?n" using wf by (simp add: wf_ring_def)
        ultimately show False
          using True by (auto simp: wrapped_index split: if_splits)
      qed
      then show ?thesis
        using True pos wf_ring_pos [OF wf] by (simp add: at ring_blit_miss nth_append) (simp add: ring_list_def)
    next
      case False
      then obtain t where t: "i = ?a + t" by (metis le_Suc_ex not_less)
      have "(?h + i) mod ?n = (?s + t) mod ?n"
        by (simp add: t mod_add_left_eq add.assoc)
      then have "ring_list (ring_push r bs) ! i = bs ! t"
        using at ring_blit_hit [of ?s "cb_store r" bs t] t i pos by simp
      then show ?thesis
        by (simp add: t nth_append)
    qed
  qed (simp add: ring_push_def)
qed

lemma rotate_ring_eq [ring_simps]:
  "wf_ring r \<Longrightarrow> rotate_ring r n = Some (
    if n > length (ring_list r) then (DeserBufferEmpty, r) else (Ok, ring_drop r n))"
  by (simp add: rotate_ring_def advance_idx_eq ring_drop_def)

lemma ring_drop_simps [simp]:
  assumes "wf_ring r" and "n \<le> length (ring_list r)"
  shows "wf_ring (ring_drop r n)" and "ring_list (ring_drop r n) = drop n (ring_list r)"
    and "get_capacity (ring_drop r n) = get_capacity r"
proof -
  show "wf_ring (ring_drop r n)" "get_capacity (ring_drop r n) = get_capacity r"
    using assms wf_ring_pos [OF assms(1)] by (auto simp: ring_drop_def wf_ring_def get_capacity_def)
  show "ring_list (ring_drop r n) = drop n (ring_list r)"
  proof (rule nth_equalityI)
    fix i
    assume "i < length (ring_list (ring_drop r n))"
    then have "n + i < allocated_size r" "i < allocated_size r - n" by (simp_all add: ring_drop_def)
    then show "ring_list (ring_drop r n) ! i = drop n (ring_list r) ! i"
      by (simp add: ring_drop_def ring_list_def mod_add_left_eq add.assoc)
  qed (simp add: ring_drop_def)
qed

lemma trim_ring_eq [ring_simps]:
  "trim_ring r n = (if n > length (ring_list r) then (DeserBufferEmpty, r)
    else (Ok, r\<lparr>allocated_size := allocated_size r - n\<rparr>))"
  by (simp add: trim_ring_def)

lemma trim_simps [simp]:
  assumes "wf_ring r" and "n \<le> length (ring_list r)"
  shows "wf_ring (r\<lparr>allocated_size := allocated_size r - n\<rparr>)"
    and "ring_list (r\<lparr>allocated_size := allocated_size r - n\<rparr>) = take (length (ring_list r) - n) (ring_list r)"
    and "get_capacity (r\<lparr>allocated_size := allocated_size r - n\<rparr>) = get_capacity r"
  using assms by (auto simp: wf_ring_def get_capacity_def ring_list_def take_map)

lemma ring_nth:
  "wf_ring r \<Longrightarrow> i < length (ring_list r) \<Longrightarrow>
    ring_list r ! i = cb_store r ! ((head_idx r + i) mod length (cb_store r))"
  by (simp add: ring_list_def)

lemma peek_u8_eq [ring_simps]:
  assumes "wf_ring r"
  shows "peek_u8 r v i = Some (if i < length (ring_list r) then (Ok, ring_list r ! i) else (DeserBufferEmpty, v))"
  using assms wf_ring_pos [OF assms] by (auto simp: peek_u8_def advance_idx_eq ring_nth)

lemma two_segments_length:
  assumes "s < length xs" and "m \<le> length xs"
  shows "length (take (min m (length xs - s)) (drop s xs) @ take (m - min m (length xs - s)) xs) = m"
  using assms by (auto simp: min_def)

lemma two_segments:
  assumes s: "s < length xs" and le: "m \<le> length xs" and k: "k < m"
  shows "(take (min m (length xs - s)) (drop s xs) @ take (m - min m (length xs - s)) xs) ! k
    = xs ! ((s + k) mod length xs)"
proof (cases "s + k < length xs")
  case True
  then have "k < length xs - s" by simp
  with True s k show ?thesis by (simp add: nth_append)
next
  case False
  then have "min m (length xs - s) = length xs - s" using k by simp
  moreover have "\<not> k < length xs - s" using False by simp
  ultimately show ?thesis using False s le k by (simp add: nth_append wrapped_index add.commute)
qed

lemma peek_bytes_eq [ring_simps]:
  assumes "wf_ring r"
  shows "peek_bytes r dest i = Some (
    if i + length dest \<le> length (ring_list r) then (Ok, take (length dest) (drop i (ring_list r)))
    else (DeserBufferEmpty, dest))"
proof (cases "i + length dest \<le> length (ring_list r)")
  case True
  let ?n = "length (cb_store r)"
  let ?s = "(head_idx r + i) mod ?n"
  have s: "?s < ?n" using wf_ring_pos [OF assms] by simp
  have le: "length dest \<le> ?n" using True assms by (simp add: wf_ring_def)
  let ?f = "min (length dest) (?n - ?s)"
  let ?out = "take ?f (drop ?s (cb_store r)) @ take (length dest - ?f) (cb_store r)"
  have "peek_bytes r dest i = Some (Ok, ?out)"
  proof -
    have "slice (cb_store r) ?s (?s + ?f) = Some (take ?f (drop ?s (cb_store r)))"
      using s by simp
    moreover have "length (take ?f (drop ?s (cb_store r))) = ?f"
      using s by simp
    moreover have "length dest + i \<le> allocated_size r" using True by simp
    ultimately show ?thesis
      using assms s le by (simp add: peek_bytes_def advance_idx_eq Let_def)
  qed
  moreover have "?out = take (length dest) (drop i (ring_list r))"
  proof (rule nth_equalityI)
    have len: "length ?out = length dest"
      using two_segments_length [OF s le] .
    with True show "length ?out = length (take (length dest) (drop i (ring_list r)))" by simp
    fix k
    assume "k < length ?out"
    then have k: "k < length dest" by (simp only: len)
    have "take (length dest) (drop i (ring_list r)) ! k = cb_store r ! ((?s + k) mod ?n)"
      using True k assms by (simp add: ring_nth mod_add_left_eq add.assoc)
    moreover have "?out ! k = cb_store r ! ((?s + k) mod ?n)"
      using two_segments [OF s le k] .
    ultimately show "?out ! k = take (length dest) (drop i (ring_list r)) ! k" by (simp only:)
  qed
  ultimately show ?thesis using True by simp
next
  case False
  then have "length dest + i > allocated_size r" by simp
  with False show ?thesis by (simp add: peek_bytes_def)
qed

text \<open>The shift-and-or loop of \<open>peek_u32_be\<close> assembles the big-endian value.\<close>

lemma peek_u32_loop_eq:
  assumes "wf_ring r" and "off + n \<le> length (ring_list r)"
  shows "peek_u32_loop r n ((head_idx r + off) mod length (cb_store r)) v =
    Some (foldl (\<lambda>v x. push_bit 8 v OR ucast x) v (take n (drop off (ring_list r))))"
  using assms(2)
proof (induction n arbitrary: off v)
  case 0
  show ?case by simp
next
  case (Suc n)
  let ?i = "(head_idx r + off) mod length (cb_store r)"
  have i: "?i < length (cb_store r)"
    using wf_ring_pos [OF assms(1)] by simp
  have "index (cb_store r) ?i = Some (ring_list r ! off)"
    using i Suc.prems assms(1) by (simp add: ring_nth)
  moreover have "advance_idx r ?i 1 = Some ((head_idx r + Suc off) mod length (cb_store r))"
    using i by (simp add: advance_idx_def mod_Suc_eq)
  moreover have "drop off (ring_list r) = ring_list r ! off # drop (Suc off) (ring_list r)"
    using Suc.prems by (simp add: Cons_nth_drop_Suc)
  ultimately show ?case
    using Suc.IH [of "Suc off"] Suc.prems by simp
qed

lemma peek_u32_be_eq [ring_simps]:
  assumes "wf_ring r"
  shows "peek_u32_be r v i = Some (
    if i + 4 \<le> length (ring_list r) then (Ok, from_be_bytes (take 4 (drop i (ring_list r))))
    else (DeserBufferEmpty, v))"
  using assms
  by (simp add: peek_u32_be_def advance_idx_eq peek_u32_loop_eq foldl_be)

section \<open>The ring contract\<close>

text \<open>
  What the clients of a byte ring rely on: a bounded list of bytes, appended at the back,
  inspected anywhere, removed at either end.
\<close>

locale byte_ring =
  fixes wf :: "'r \<Rightarrow> bool"
    and lst :: "'r \<Rightarrow> u8 list"
    and cap :: "'r \<Rightarrow> nat"
    and hw :: "'r \<Rightarrow> nat"
    and ser :: "'r \<Rightarrow> u8 list \<Rightarrow> (SerializeStatus \<times> 'r) option"
    and peek :: "'r \<Rightarrow> u8 list \<Rightarrow> nat \<Rightarrow> (SerializeStatus \<times> u8 list) option"
    and rot :: "'r \<Rightarrow> nat \<Rightarrow> (SerializeStatus \<times> 'r) option"
    and trim :: "'r \<Rightarrow> nat \<Rightarrow> SerializeStatus \<times> 'r"
  assumes bounded: "wf r \<Longrightarrow> length (lst r) \<le> cap r"
    and ser_fit: "wf r \<Longrightarrow> length (lst r) + length bs \<le> cap r \<Longrightarrow>
      \<exists>r'. ser r bs = Some (Ok, r') \<and> wf r' \<and> lst r' = lst r @ bs \<and> cap r' = cap r \<and>
        hw r' = max (hw r) (length (lst r) + length bs)"
    and ser_full: "wf r \<Longrightarrow> length (lst r) + length bs > cap r \<Longrightarrow> ser r bs = Some (NoRoomLeft, r)"
    and peek_in: "wf r \<Longrightarrow> i + length d \<le> length (lst r) \<Longrightarrow>
      peek r d i = Some (Ok, take (length d) (drop i (lst r)))"
    and peek_out: "wf r \<Longrightarrow> i + length d > length (lst r) \<Longrightarrow> peek r d i = Some (DeserBufferEmpty, d)"
    and rot_in: "wf r \<Longrightarrow> n \<le> length (lst r) \<Longrightarrow>
      \<exists>r'. rot r n = Some (Ok, r') \<and> wf r' \<and> lst r' = drop n (lst r) \<and> cap r' = cap r \<and> hw r' = hw r"
    and trim_in: "wf r \<Longrightarrow> n \<le> length (lst r) \<Longrightarrow>
      \<exists>r'. trim r n = (Ok, r') \<and> wf r' \<and> lst r' = take (length (lst r) - n) (lst r) \<and>
        cap r' = cap r \<and> hw r' = hw r"
begin

text \<open>Making room by dropping the oldest bytes, then appending: the sliding window.\<close>

lemma evict_and_append:
  assumes "wf r" and "length (lst r) = cap r" and "length bs \<le> cap r"
  shows "\<exists>r1 r2. rot r (length bs) = Some (Ok, r1) \<and> ser r1 bs = Some (Ok, r2) \<and> wf r2 \<and>
    lst r2 = drop (length bs) (lst r) @ bs \<and> cap r2 = cap r \<and> hw r2 = max (hw r) (cap r)"
proof -
  obtain r1 where r1: "rot r (length bs) = Some (Ok, r1)" "wf r1" "lst r1 = drop (length bs) (lst r)"
      "cap r1 = cap r" "hw r1 = hw r"
    using rot_in [of r "length bs"] assms by auto
  then show ?thesis
    using ser_fit [of r1 bs] assms by auto
qed

lemma take_front:
  assumes "wf r" and "lst r = bs @ rest" and "length d = length bs"
  shows "peek r d 0 = Some (Ok, bs) \<and>
    (\<exists>r'. rot r (length bs) = Some (Ok, r') \<and> wf r' \<and> lst r' = rest \<and> cap r' = cap r \<and>
      hw r' = hw r)"
  using assms peek_in [of r 0 d] rot_in [of r "length bs"] by auto

lemma take_back:
  assumes "wf r" and "lst r = front @ bs" and "length d = length bs"
  shows "peek r d (length (lst r) - length bs) = Some (Ok, bs) \<and>
    (\<exists>r'. trim r (length bs) = (Ok, r') \<and> wf r' \<and> lst r' = front \<and> cap r' = cap r \<and>
      hw r' = hw r)"
  using assms peek_in [of r "length front" d] trim_in [of r "length bs"] by auto

end

interpretation cb: byte_ring wf_ring ring_list get_capacity high_water_mark ring_serialize peek_bytes
  rotate_ring trim_ring
  by unfold_locales (auto simp: ring_simps wf_ring_bound)

end
