(* ===== verification/Utils_Queue.thy ===== *)
theory Utils_Queue
  imports Utils_Ring
begin

text \<open>
  The fixed-message queue (\<open>fprime-utils/src/types/queue.rs\<close>) over the byte ring: FIFO or LIFO
  order, dropping the newest or the oldest message on overflow.  It refines a bounded list of
  messages with a high-water mark counted in messages.
\<close>

section \<open>The queue\<close>

datatype QueueMode = Fifo | Lifo

datatype QueueOverflowMode = DropNewest | DropOldest

record msg_queue =
  internal :: ring
  message_size :: nat
  queue_mode :: QueueMode
  overflow_mode :: QueueOverflowMode

definition queue_new :: "nat \<Rightarrow> nat \<Rightarrow> QueueMode \<Rightarrow> QueueOverflowMode \<Rightarrow> msg_queue option" where
  "queue_new depth msize m om =
     do { fw_assert (depth > 0);
          fw_assert (msize > 0);
          r \<leftarrow> circular_buffer_new (depth * msize);
          Some \<lparr>internal = r, message_size = msize, queue_mode = m, overflow_mode = om\<rparr> }"

definition enqueue :: "msg_queue \<Rightarrow> u8 list \<Rightarrow> (SerializeStatus \<times> msg_queue) option" where
  "enqueue q message =
     do { fw_assert (message_size q = length message);
          (status, r) \<leftarrow> ring_serialize (internal q) message;
          let q = q\<lparr>internal := r\<rparr>;
          if status = NoRoomLeft \<and> overflow_mode q = DropOldest
          then do {
            (rotate_status, r) \<leftarrow> rotate_ring (internal q) (message_size q);
            let q = q\<lparr>internal := r\<rparr>;
            if rotate_status \<noteq> Ok then Some (rotate_status, q)
            else do {
              (retry, r) \<leftarrow> ring_serialize (internal q) message;
              let q = q\<lparr>internal := r\<rparr>;
              if retry \<noteq> Ok then Some (retry, q) else Some (DiscardedExisting, q) } }
          else Some (status, q) }"

definition pop_front :: "msg_queue \<Rightarrow> u8 list \<Rightarrow> (SerializeStatus \<times> u8 list \<times> msg_queue) option" where
  "pop_front q message =
     do { fw_assert (message_size q \<le> length message);
          window \<leftarrow> slice message 0 (message_size q);
          (result, window) \<leftarrow> peek_bytes (internal q) window 0;
          message \<leftarrow> blit message 0 window;
          if result \<noteq> Ok then Some (result, message, q)
          else do {
            (status, r) \<leftarrow> rotate_ring (internal q) (message_size q);
            Some (status, message, q\<lparr>internal := r\<rparr>) } }"

definition dequeue :: "msg_queue \<Rightarrow> u8 list \<Rightarrow> (SerializeStatus \<times> u8 list \<times> msg_queue) option" where
  "dequeue q message =
     do { fw_assert (message_size q \<le> length message);
          case queue_mode q of
            Fifo \<Rightarrow> do {
              window \<leftarrow> slice message 0 (message_size q);
              (result, window) \<leftarrow> peek_bytes (internal q) window 0;
              message \<leftarrow> blit message 0 window;
              if result \<noteq> Ok then Some (result, message, q)
              else do {
                (status, r) \<leftarrow> rotate_ring (internal q) (message_size q);
                Some (status, message, q\<lparr>internal := r\<rparr>) } }
          | Lifo \<Rightarrow> do {
              let current_size = get_allocated_size (internal q);
              if current_size < message_size q then Some (DeserBufferEmpty, message, q)
              else do {
                let offset = current_size - message_size q;
                window \<leftarrow> slice message 0 (message_size q);
                (result, window) \<leftarrow> peek_bytes (internal q) window offset;
                message \<leftarrow> blit message 0 window;
                if result \<noteq> Ok then Some (result, message, q)
                else do {
                  let (status, r) = trim_ring (internal q) (message_size q);
                  Some (status, message, q\<lparr>internal := r\<rparr>) } } } }"

definition get_queue_size :: "msg_queue \<Rightarrow> nat" where
  "get_queue_size q = get_allocated_size (internal q) div message_size q"

definition get_message_size :: "msg_queue \<Rightarrow> nat" where
  "get_message_size q = message_size q"

definition get_high_water_mark :: "msg_queue \<Rightarrow> nat" where
  "get_high_water_mark q = high_water_mark (internal q) div message_size q"

definition queue_clear_high_water_mark :: "msg_queue \<Rightarrow> msg_queue" where
  "queue_clear_high_water_mark q = q\<lparr>internal := clear_high_water_mark (internal q)\<rparr>"

section \<open>The abstract queue\<close>

text \<open>The specification: a list of messages (oldest first) and the largest length it had.\<close>

type_synonym msgs = "u8 list list \<times> nat"

fun spec_enqueue :: "nat \<Rightarrow> QueueOverflowMode \<Rightarrow> msgs \<Rightarrow> u8 list \<Rightarrow> SerializeStatus \<times> msgs" where
  "spec_enqueue depth om (ms, hw) m =
     (if length ms < depth then (Ok, ms @ [m], max hw (length ms + 1))
      else case om of
        DropNewest \<Rightarrow> (NoRoomLeft, ms, hw)
      | DropOldest \<Rightarrow> (DiscardedExisting, tl ms @ [m], max hw depth))"

fun spec_pop_front :: "msgs \<Rightarrow> SerializeStatus \<times> u8 list \<times> msgs" where
  "spec_pop_front ([], hw) = (DeserBufferEmpty, [], [], hw)"
| "spec_pop_front (m # ms, hw) = (Ok, m, ms, hw)"

fun spec_dequeue :: "QueueMode \<Rightarrow> msgs \<Rightarrow> SerializeStatus \<times> u8 list \<times> msgs" where
  "spec_dequeue Fifo s = spec_pop_front s"
| "spec_dequeue Lifo (ms, hw) = (if ms = [] then (DeserBufferEmpty, [], [], hw) else (Ok, last ms, butlast ms, hw))"

text \<open>A queue of \<open>depth\<close> messages represents a specification state.\<close>

definition queue_rep :: "nat \<Rightarrow> msg_queue \<Rightarrow> msgs \<Rightarrow> bool" where
  "queue_rep depth q s \<longleftrightarrow>
     wf_ring (internal q) \<and> 0 < message_size q \<and>
     get_capacity (internal q) = depth * message_size q \<and>
     ring_list (internal q) = concat (fst s) \<and>
     (\<forall>m \<in> set (fst s). length m = message_size q) \<and>
     high_water_mark (internal q) = snd s * message_size q"

lemma queue_new_rep:
  "0 < depth \<Longrightarrow> 0 < msize \<Longrightarrow>
    \<exists>q. queue_new depth msize m om = Some q \<and> queue_rep depth q ([], 0) \<and> message_size q = msize \<and>
      queue_mode q = m \<and> overflow_mode q = om"
  by (simp add: queue_new_def queue_rep_def circular_buffer_new_def wf_ring_def ring_list_def get_capacity_def)

lemma length_concat_same: "\<forall>m \<in> set ms. length m = k \<Longrightarrow> length (concat ms) = length ms * k"
  by (induction ms) auto

lemma queue_rep_length:
  assumes "queue_rep depth q (ms, hw)"
  shows "allocated_size (internal q) = length ms * message_size q"
  using assms length_concat_same [of ms "message_size q"]
  by (simp add: queue_rep_def flip: length_ring_list)

lemma queue_rep_bound:
  assumes "queue_rep depth q (ms, hw)"
  shows "length ms \<le> depth"
  using assms queue_rep_length [OF assms] wf_ring_bound [of "internal q"] by (simp add: queue_rep_def)

lemma queue_sizes:
  assumes "queue_rep depth q (ms, hw)"
  shows "get_queue_size q = length ms" and "get_high_water_mark q = hw"
  using assms queue_rep_length [OF assms]
  by (simp_all add: get_queue_size_def get_high_water_mark_def get_allocated_size_def queue_rep_def)

section \<open>Each operation refines the specification\<close>

lemma max_mult: "max (a * k) (b * k) = max a b * (k :: nat)"
  by (simp add: max_def)

lemma enqueue_room:
  assumes rep: "queue_rep depth q (ms, hw)" and len: "length m = message_size q" and room: "length ms < depth"
  shows "\<exists>q'. enqueue q m = Some (Ok, q') \<and> queue_rep depth q' (ms @ [m], max hw (length ms + 1)) \<and>
    q' = q\<lparr>internal := internal q'\<rparr>"
proof -
  have "Suc (length ms) * length m \<le> depth * length m"
    using room by (intro mult_le_mono1) simp
  then have "length (ring_list (internal q)) + length m \<le> get_capacity (internal q)"
    using rep len length_concat_same [of ms "message_size q"] by (simp add: queue_rep_def add.commute)
  then show ?thesis
    using cb.ser_fit [of "internal q" m] rep len queue_rep_length [OF rep]
    by (auto simp: enqueue_def queue_rep_def max_mult [symmetric] add.commute)
qed

lemma enqueue_full:
  assumes rep: "queue_rep depth q (ms, hw)" and len: "length m = message_size q"
    and full: "length ms = depth" and pos: "0 < depth"
  shows "enqueue q m = Some (NoRoomLeft, q) \<and> overflow_mode q = DropNewest \<or>
    (\<exists>q'. enqueue q m = Some (DiscardedExisting, q') \<and> queue_rep depth q' (tl ms @ [m], max hw depth) \<and>
      q' = q\<lparr>internal := internal q'\<rparr>) \<and> overflow_mode q = DropOldest"
proof -
  have ser: "ring_serialize (internal q) m = Some (NoRoomLeft, internal q)"
    using cb.ser_full [of "internal q" m] rep len queue_rep_length [OF rep] full by (simp add: queue_rep_def)
  show ?thesis
  proof (cases "overflow_mode q")
    case DropNewest
    then show ?thesis using ser len by (simp add: enqueue_def)
  next
    case DropOldest
    obtain m0 ms' where ms: "ms = m0 # ms'" using full pos by (cases ms) auto
    have le: "length m \<le> get_capacity (internal q)" using rep len pos by (simp add: queue_rep_def)
    have tl: "drop (length m) (concat ms) = concat ms'" using rep ms len by (simp add: queue_rep_def)
    from cb.evict_and_append [of "internal q" m] rep le queue_rep_length [OF rep] full
    show ?thesis using ser len DropOldest tl ms
      by (auto simp: enqueue_def queue_rep_def max_mult)
  qed
qed

lemma pop_front_rep:
  assumes rep: "queue_rep depth q (ms, hw)" and len: "message_size q \<le> length d"
  shows "ms = [] \<and> pop_front q d = Some (DeserBufferEmpty, d, q) \<or>
    (\<exists>m ms' q'. ms = m # ms' \<and> pop_front q d = Some (Ok, m @ drop (length m) d, q') \<and>
      queue_rep depth q' (ms', hw) \<and> q' = q\<lparr>internal := internal q'\<rparr>)"
proof (cases ms)
  case Nil
  then show ?thesis
    using cb.peek_out [of "internal q" 0 "take (message_size q) d"] rep len queue_rep_length [OF rep]
    by (simp add: pop_front_def queue_rep_def)
next
  case (Cons m ms')
  have "length m = message_size q" using rep Cons by (simp add: queue_rep_def)
  then show ?thesis
    using cb.take_front [of "internal q" m "concat ms'" "take (message_size q) d"] rep len Cons
    by (auto simp: pop_front_def queue_rep_def)
qed

lemma dequeue_Fifo: "queue_mode q = Fifo \<Longrightarrow> dequeue q d = pop_front q d"
  by (simp add: dequeue_def pop_front_def)

lemma dequeue_Lifo_rep:
  assumes rep: "queue_rep depth q (ms, hw)" and len: "message_size q \<le> length d" and mode: "queue_mode q = Lifo"
  shows "ms = [] \<and> dequeue q d = Some (DeserBufferEmpty, d, q) \<or>
    (\<exists>m ms' q'. ms = ms' @ [m] \<and> dequeue q d = Some (Ok, m @ drop (length m) d, q') \<and>
      queue_rep depth q' (ms', hw) \<and> q' = q\<lparr>internal := internal q'\<rparr>)"
proof (cases ms rule: rev_cases)
  case Nil
  then show ?thesis
    using rep len mode queue_rep_length [OF rep]
    by (simp add: dequeue_def queue_rep_def get_allocated_size_def)
next
  case (snoc ms' m)
  have "length m = message_size q" using rep snoc by (simp add: queue_rep_def)
  then show ?thesis
    using cb.take_back [of "internal q" "concat ms'" m "take (message_size q) d"] rep len mode snoc
      queue_rep_length [OF rep] length_concat_same [of ms' "message_size q"]
    by (auto simp: dequeue_def queue_rep_def get_allocated_size_def)
qed

section \<open>Runs\<close>

datatype queue_op = Enqueue "u8 list" | Dequeue "u8 list" | PopFront "u8 list" | ClearHighWater | Sizes

text \<open>What a call reports: its status, the caller's buffer after it, and the two counters.\<close>

type_synonym queue_out = "SerializeStatus \<times> u8 list \<times> nat \<times> nat"

fun queue_step :: "msg_queue \<Rightarrow> queue_op \<Rightarrow> (queue_out \<times> msg_queue) option" where
  "queue_step q (Enqueue m) = do { (st, q) \<leftarrow> enqueue q m; Some ((st, m, 0, 0), q) }"
| "queue_step q (Dequeue d) = do { (st, d, q) \<leftarrow> dequeue q d; Some ((st, d, 0, 0), q) }"
| "queue_step q (PopFront d) = do { (st, d, q) \<leftarrow> pop_front q d; Some ((st, d, 0, 0), q) }"
| "queue_step q ClearHighWater = Some ((Ok, [], 0, 0), queue_clear_high_water_mark q)"
| "queue_step q Sizes = Some ((Ok, [], get_queue_size q, get_high_water_mark q), q)"

fun queue_run :: "msg_queue \<Rightarrow> queue_op list \<Rightarrow> queue_out list option" where
  "queue_run q [] = Some []"
| "queue_run q (op # ops) =
     do { (out, q) \<leftarrow> queue_step q op; outs \<leftarrow> queue_run q ops; Some (out # outs) }"

definition overwrite :: "u8 list \<Rightarrow> u8 list \<Rightarrow> u8 list" where
  "overwrite d m = m @ drop (length m) d"

fun spec_queue_step :: "nat \<Rightarrow> QueueMode \<Rightarrow> QueueOverflowMode \<Rightarrow> msgs \<Rightarrow> queue_op \<Rightarrow> queue_out \<times> msgs" where
  "spec_queue_step depth qm om s (Enqueue m) = (let (st, s) = spec_enqueue depth om s m in ((st, m, 0, 0), s))"
| "spec_queue_step depth qm om s (Dequeue d) =
     (let (st, m, s) = spec_dequeue qm s in ((st, overwrite d m, 0, 0), s))"
| "spec_queue_step depth qm om s (PopFront d) =
     (let (st, m, s) = spec_pop_front s in ((st, overwrite d m, 0, 0), s))"
| "spec_queue_step depth qm om s ClearHighWater = ((Ok, [], 0, 0), (fst s, 0))"
| "spec_queue_step depth qm om s Sizes = ((Ok, [], length (fst s), snd s), s)"

fun spec_queue_run :: "nat \<Rightarrow> QueueMode \<Rightarrow> QueueOverflowMode \<Rightarrow> msgs \<Rightarrow> queue_op list \<Rightarrow> queue_out list" where
  "spec_queue_run depth qm om s [] = []"
| "spec_queue_run depth qm om s (op # ops) =
     (let (out, s) = spec_queue_step depth qm om s op in out # spec_queue_run depth qm om s ops)"

text \<open>The callers' side of the contract: messages of the fixed size, buffers at least as long.\<close>

fun queue_op_ok :: "nat \<Rightarrow> queue_op \<Rightarrow> bool" where
  "queue_op_ok n (Enqueue m) = (length m = n)"
| "queue_op_ok n (Dequeue d) = (n \<le> length d)"
| "queue_op_ok n (PopFront d) = (n \<le> length d)"
| "queue_op_ok n ClearHighWater = True"
| "queue_op_ok n Sizes = True"

lemma queue_step_refines:
  assumes rep: "queue_rep depth q s" and pos: "0 < depth" and ok: "queue_op_ok (message_size q) op"
  shows "\<exists>q'. queue_step q op = Some (fst (spec_queue_step depth (queue_mode q) (overflow_mode q) s op), q') \<and>
    queue_rep depth q' (snd (spec_queue_step depth (queue_mode q) (overflow_mode q) s op)) \<and>
    q' = q\<lparr>internal := internal q'\<rparr>"
proof -
  obtain ms hw where s: "s = (ms, hw)" by fastforce
  note rep' = rep [unfolded s]
  show ?thesis
  proof (cases op)
    case (Enqueue m)
    show ?thesis
    proof (cases "length ms < depth")
      case True
      then show ?thesis using enqueue_room [OF rep', of m] ok Enqueue s by force
    next
      case False
      then have "length ms = depth" using queue_rep_bound [OF rep'] by simp
      then show ?thesis using enqueue_full [OF rep', of m] ok Enqueue s False pos rep by force
    qed
  next
    case (Dequeue d)
    show ?thesis
    proof (cases "queue_mode q")
      case Fifo
      then show ?thesis using pop_front_rep [OF rep', of d] ok Dequeue s rep
        by (force simp: dequeue_Fifo overwrite_def)
    next
      case Lifo
      then show ?thesis using dequeue_Lifo_rep [OF rep', of d] ok Dequeue s rep
        by (force simp: overwrite_def)
    qed
  next
    case (PopFront d)
    then show ?thesis using pop_front_rep [OF rep', of d] ok s rep by (force simp: overwrite_def)
  next
    case ClearHighWater
    then show ?thesis using rep s
      by (auto simp: queue_clear_high_water_mark_def clear_high_water_mark_def queue_rep_def wf_ring_def
        ring_list_def get_capacity_def)
  next
    case Sizes
    then show ?thesis using rep s queue_sizes [OF rep'] by simp
  qed
qed

lemma queue_run_refines:
  assumes "queue_rep depth q s" and "0 < depth" and "list_all (queue_op_ok (message_size q)) ops"
  shows "queue_run q ops = Some (spec_queue_run depth (queue_mode q) (overflow_mode q) s ops)"
  using assms
proof (induction ops arbitrary: q s)
  case Nil
  then show ?case by simp
next
  case (Cons op ops)
  obtain q' where q': "queue_step q op = Some (fst (spec_queue_step depth (queue_mode q) (overflow_mode q) s op), q')"
      "queue_rep depth q' (snd (spec_queue_step depth (queue_mode q) (overflow_mode q) s op))"
      "q' = q\<lparr>internal := internal q'\<rparr>"
    using queue_step_refines [of depth q s op] Cons.prems by auto
  from q'(3) have "message_size q' = message_size q" "queue_mode q' = queue_mode q"
      "overflow_mode q' = overflow_mode q"
    by (metis msg_queue.select_convs msg_queue.surjective msg_queue.update_convs(1))+
  then show ?case
    using q'(1) Cons.IH [OF q'(2)] Cons.prems by (simp add: Let_def split_beta)
qed

text \<open>
  C3.  A queue made by \<open>Queue::new\<close> is, to its callers, the bounded list of messages it stands for:
  for every sequence of calls with messages of the configured size, no call panics, and every status,
  every message handed back (FIFO or LIFO, with drop-newest or drop-oldest overflow) and both
  counters are the ones of the abstract queue, although the code works on a wrapping byte ring.
\<close>

theorem msg_queue_refines:
  assumes "queue_new depth msize qm om = Some q"
    and "list_all (queue_op_ok msize) ops"
  shows "queue_run q ops = Some (spec_queue_run depth qm om ([], 0) ops)"
proof -
  have pos: "0 < depth" "0 < msize"
    using assms(1) by (auto simp: queue_new_def bind_eq_Some_conv fw_assert_def split: if_splits)
  from queue_new_rep [OF this, of qm om] assms(1)
  show ?thesis using queue_run_refines [of depth q "([], 0)" ops] assms(2) pos by auto
qed

theorem msg_queue_refines_witness:
  "queue_run \<lparr>internal = \<lparr>cb_store = [0,0,0,0], head_idx = 0, allocated_size = 0, high_water_mark = 0\<rparr>,
      message_size = 2, queue_mode = Fifo, overflow_mode = DropOldest\<rparr>
    [Enqueue [1,2], Enqueue [3,4], Enqueue [5,6], Dequeue [0,0,9], Sizes] =
   Some [(Ok, [1,2], 0, 0), (Ok, [3,4], 0, 0), (DiscardedExisting, [5,6], 0, 0), (Ok, [3,4,9], 0, 0),
         (Ok, [], 1, 2)]"
proof -
  let ?q = "\<lparr>internal = \<lparr>cb_store = [0,0,0,0], head_idx = 0, allocated_size = 0, high_water_mark = 0\<rparr>,
      message_size = 2, queue_mode = Fifo, overflow_mode = DropOldest\<rparr>"
  have "queue_new 2 2 Fifo DropOldest = Some ?q"
    by (simp add: queue_new_def circular_buffer_new_def eval_nat_numeral)
  from msg_queue_refines [OF this, of "[Enqueue [1,2], Enqueue [3,4], Enqueue [5,6], Dequeue [0,0,9], Sizes]"]
  show ?thesis by (simp add: overwrite_def)
qed

end
