(* ===== verification/Utils_Checksum.thy ===== *)
theory Utils_Checksum
  imports Fw_Prelude
begin

text \<open>
  The CFDP modular checksum (\<open>fprime-utils/src/cfdp.rs\<close>).  The three-phase walk over a chunk is the
  sum of one contribution per byte that depends only on its file offset, so the chunks of a file may
  arrive in any order.
\<close>

section \<open>The checksum\<close>

definition checksum_new :: u32 where
  "checksum_new = 0"

definition add_byte_at_offset :: "u32 \<Rightarrow> u8 \<Rightarrow> nat \<Rightarrow> u32" where
  "add_byte_at_offset v b offset = v + push_bit (8 * (3 - offset mod 4)) (ucast b)"

fun add_word_aligned_loop :: "u32 \<Rightarrow> u8 list \<Rightarrow> nat \<Rightarrow> u32" where
  "add_word_aligned_loop v [] i = v"
| "add_word_aligned_loop v (b # bs) i = add_word_aligned_loop (add_byte_at_offset v b i) bs (Suc i)"

definition add_word_aligned :: "u32 \<Rightarrow> u8 list \<Rightarrow> u32" where
  "add_word_aligned v word = add_word_aligned_loop v (take 4 word) 0"

fun add_word_unaligned_loop :: "u32 \<Rightarrow> u8 list \<Rightarrow> nat \<Rightarrow> u32" where
  "add_word_unaligned_loop v [] offset = v"
| "add_word_unaligned_loop v (b # bs) offset =
     add_word_unaligned_loop (add_byte_at_offset v b offset) bs (if offset + 1 = 4 then 0 else offset + 1)"

definition add_word_unaligned :: "u32 \<Rightarrow> u8 list \<Rightarrow> nat \<Rightarrow> u32" where
  "add_word_unaligned v word position = add_word_unaligned_loop v word (position mod 4)"

function add_words :: "u32 \<Rightarrow> u8 list \<Rightarrow> nat \<Rightarrow> nat \<Rightarrow> (u32 \<times> nat) option" where
  "add_words v data i aligned_end =
     (if i < aligned_end
      then do { word \<leftarrow> slice data i (i + 4);
                add_words (add_word_aligned v word) data (i + 4) aligned_end }
      else Some (v, i))"
  by pat_completeness auto
termination
  by (relation "measure (\<lambda>(v, data, i, e). e - i)") auto

declare add_words.simps [simp del]

definition checksum_update :: "u32 \<Rightarrow> u8 list \<Rightarrow> u32 \<Rightarrow> u32 option" where
  "checksum_update v data file_offset =
     do { let len = length data;
          let offset_mod_4 = unat (file_offset mod 4);
          (v, i) \<leftarrow>
            (if offset_mod_4 \<noteq> 0
             then do { let word_length = min len (4 - offset_mod_4);
                       word \<leftarrow> slice data 0 word_length;
                       Some (add_word_unaligned v word (unat ((file_offset + of_nat 0) mod 4)), word_length) }
             else Some (v, 0));
          let aligned_end = i + (len - i) div 4 * 4;
          (v, i) \<leftarrow> add_words v data i aligned_end;
          if i < len
          then do { word \<leftarrow> slice data i len;
                    Some (add_word_unaligned v word (unat ((file_offset + of_nat i) mod 4))) }
          else Some v }"

section \<open>The reference sum\<close>

definition byte_at :: "nat \<Rightarrow> u8 \<Rightarrow> u32" where
  "byte_at off b = push_bit (8 * (3 - off mod 4)) (ucast b)"

primrec bytes_from :: "nat \<Rightarrow> u8 list \<Rightarrow> u32" where
  "bytes_from off [] = 0"
| "bytes_from off (b # bs) = byte_at off b + bytes_from (Suc off) bs"

lemma bytes_from_append: "bytes_from off (xs @ ys) = bytes_from off xs + bytes_from (off + length xs) ys"
  by (induction xs arbitrary: off) (simp_all add: add.assoc)

lemma bytes_from_mod: "off mod 4 = off' mod 4 \<Longrightarrow> bytes_from off bs = bytes_from off' bs"
proof (induction bs arbitrary: off off')
  case (Cons b bs)
  have "Suc off mod 4 = Suc off' mod 4" using Cons.prems by (metis mod_Suc_eq)
  then show ?case using Cons.IH [of "Suc off" "Suc off'"] Cons.prems by (simp add: byte_at_def)
qed simp

lemma aligned_loop_eq: "add_word_aligned_loop v bs i = v + bytes_from i bs"
  by (induction v bs i rule: add_word_aligned_loop.induct)
    (simp_all add: add_byte_at_offset_def byte_at_def add.assoc)

lemma unaligned_loop_eq: "offset < 4 \<Longrightarrow> add_word_unaligned_loop v bs offset = v + bytes_from offset bs"
proof (induction v bs offset rule: add_word_unaligned_loop.induct)
  case (2 v b bs offset)
  have "bytes_from (if offset + 1 = 4 then 0 else offset + 1) bs = bytes_from (Suc offset) bs"
    by (rule bytes_from_mod) auto
  with 2 show ?case by (simp add: add_byte_at_offset_def byte_at_def add.assoc)
qed simp

lemma add_word_unaligned_eq: "add_word_unaligned v word p = v + bytes_from p word"
  using bytes_from_mod [of "p mod 4" p] by (simp add: add_word_unaligned_def unaligned_loop_eq)

lemma add_words_eq:
  assumes "i \<le> aligned_end" and "aligned_end \<le> length data" and "4 dvd aligned_end - i"
    and "(off + i) mod 4 = 0"
  shows "add_words v data i aligned_end =
    Some (v + bytes_from (off + i) (take (aligned_end - i) (drop i data)), aligned_end)"
  using assms
proof (induction v data i aligned_end rule: add_words.induct)
  case (1 v data i aligned_end)
  show ?case
  proof (cases "i < aligned_end")
    case True
    then have le: "i + 4 \<le> aligned_end" using dvd_imp_le [OF 1(4)] by simp
    let ?w = "take 4 (drop i data)"
    have sl: "slice data i (i + 4) = Some ?w" using le 1(3) by simp
    have w: "add_word_aligned v ?w = v + bytes_from (off + i) ?w"
      using 1(5) bytes_from_mod [of 0 "off + i" ?w] by (simp add: add_word_aligned_def aligned_loop_eq)
    have "add_words (add_word_aligned v ?w) data (i + 4) aligned_end =
        Some (add_word_aligned v ?w + bytes_from (off + (i + 4)) (take (aligned_end - (i + 4)) (drop (i + 4) data)), aligned_end)"
    proof (rule 1(1) [OF True sl])
      show "4 dvd aligned_end - (i + 4)" using 1(4) le by (metis diff_diff_left dvd_diff_nat dvd_refl)
      show "(off + (i + 4)) mod 4 = 0" using 1(5) by presburger
    qed (use le 1(3) in auto)
    moreover have "take (aligned_end - i) (drop i data) =
        ?w @ take (aligned_end - (i + 4)) (drop (i + 4) data)"
      using le take_add [of 4 "aligned_end - (i + 4)" "drop i data"] by (simp add: add.commute)
    ultimately show ?thesis
      using True sl w le 1(3)
      by (subst add_words.simps) (simp add: bytes_from_append add.assoc del: add_words.simps)
  next
    case False
    then show ?thesis using 1(2) by (subst add_words.simps) simp
  qed
qed

lemma offset_mod_4: "unat ((off + of_nat i) mod 4 :: u32) = (unat off + i) mod 4"
  by (simp add: unat_mod unat_word_ariths unat_of_nat mod_mod_cancel mod_add_right_eq)

lemma bytes_from_split:
  assumes "i \<le> j" and "j \<le> length data"
  shows "bytes_from off data =
    bytes_from off (take i data) + bytes_from (off + i) (take (j - i) (drop i data)) + bytes_from (off + j) (drop j data)"
proof -
  have "data = take i data @ take (j - i) (drop i data) @ drop j data"
    using assms by (metis append_take_drop_id drop_drop le_add_diff_inverse2)
  then have "bytes_from off data = bytes_from off (take i data @ take (j - i) (drop i data) @ drop j data)"
    by simp
  with assms show ?thesis by (simp add: bytes_from_append add.assoc)
qed

lemma checksum_tail:
  fixes off :: u32
  assumes i: "i \<le> length data" and al: "(unat off + i) mod 4 = 0"
  shows "do { (v, i) \<leftarrow> add_words v data i (i + (length data - i) div 4 * 4);
              if i < length data
              then do { word \<leftarrow> slice data i (length data);
                        Some (add_word_unaligned v word (unat ((off + of_nat i) mod 4))) }
              else Some v } = Some (v + bytes_from (unat off + i) (drop i data))"
proof -
  define k where "k = (length data - i) div 4 * 4"
  let ?e = "i + k"
  have e: "i \<le> ?e" "?e \<le> length data" "4 dvd ?e - i"
    using i div_times_less_eq_dividend [of "length data - i" 4] by (auto simp: k_def)
  have split: "bytes_from (unat off + i) (drop i data) =
      bytes_from (unat off + i) (take (?e - i) (drop i data)) + bytes_from (unat off + ?e) (drop ?e data)"
    using bytes_from_split [of 0 k "drop i data" "unat off + i"] e by (simp add: add.assoc add.commute [of k i])
  have last: "bytes_from ((unat off + ?e) mod 4) w = bytes_from (unat off + ?e) w" for w
    by (rule bytes_from_mod) simp
  have rest: "add_word_unaligned x w (unat ((off + of_nat ?e) mod 4)) = x + bytes_from (unat off + ?e) w" for x w
    by (simp only: add_word_unaligned_eq offset_mod_4 last)
  show ?thesis
    unfolding k_def [symmetric] add_words_eq [OF e al] split
    using e(2) by (cases "?e < length data") (simp_all add: rest add.assoc del: of_nat_add)
qed

lemma checksum_update_eq: "checksum_update v data off = Some (v + bytes_from (unat off) data)"
proof -
  have m: "unat (off mod 4) = unat off mod 4" by (simp add: unat_mod)
  show ?thesis
  proof (cases "unat off mod 4 = 0")
    case True
    then show ?thesis
      using checksum_tail [of 0 data off v] by (simp add: checksum_update_def m Let_def)
  next
    case False
    let ?n = "min (length data) (4 - unat off mod 4)"
    have sl: "slice data 0 ?n = Some (take ?n data)" by simp
    have first: "add_word_unaligned v (take ?n data) (unat off mod 4) = v + bytes_from (unat off) (take ?n data)"
      using bytes_from_mod [of "unat off mod 4" "unat off" "take ?n data"] by (simp add: add_word_unaligned_eq)
    have total: "bytes_from (unat off) data = bytes_from (unat off) (take ?n data) + bytes_from (unat off + ?n) (drop ?n data)"
      using bytes_from_split [of ?n ?n data "unat off"] by simp
    show ?thesis
    proof (cases "4 - unat off mod 4 \<le> length data")
      case True
      then have "(unat off + ?n) mod 4 = 0" using False by (simp add: min_def) presburger
      from checksum_tail [OF _ this, of data "v + bytes_from (unat off) (take ?n data)"]
      show ?thesis using False sl first total m True
        by (simp add: checksum_update_def Let_def add.assoc)
    next
      case short: False
      then have "?n = length data" by simp
      then show ?thesis using False sl first m
        by (simp add: checksum_update_def Let_def add_words.simps)
    qed
  qed
qed

section \<open>Chunks in any order\<close>

fun update_chunks :: "u32 \<Rightarrow> (u32 \<times> u8 list) list \<Rightarrow> u32 option" where
  "update_chunks v [] = Some v"
| "update_chunks v ((off, data) # cs) = do { v \<leftarrow> checksum_update v data off; update_chunks v cs }"

fun chunks_at :: "nat \<Rightarrow> u8 list list \<Rightarrow> (u32 \<times> u8 list) list" where
  "chunks_at off [] = []"
| "chunks_at off (p # ps) = (of_nat off, p) # chunks_at (off + length p) ps"

lemma update_chunks_eq:
  "update_chunks v cs = Some (v + (\<Sum>(off, data) \<in># mset cs. bytes_from (unat off) data))"
  by (induction v cs rule: update_chunks.induct) (simp_all add: checksum_update_eq add.assoc)

lemma chunks_at_sum:
  "(\<Sum>(pos, data) \<in># mset (chunks_at off ps). bytes_from (unat pos) data) = bytes_from off (concat ps)"
proof (induction off ps rule: chunks_at.induct)
  case (2 off p ps)
  have "bytes_from (unat (of_nat off :: u32)) p = bytes_from off p"
    by (rule bytes_from_mod) (simp add: unat_of_nat mod_mod_cancel)
  with 2 show ?case by (simp add: bytes_from_append)
qed simp

text \<open>
  C12.  The file checksum does not depend on how the file is cut into chunks or in which order they
  arrive: for any pieces of a file, delivered in any order with their file offsets, no call panics and
  the accumulated value is the wrapping sum, over all bytes of the file, of each byte shifted to its
  position in the aligned big-endian 32-bit word it belongs to.
\<close>

theorem checksum_any_order:
  assumes "mset chunks = mset (chunks_at 0 pieces)"
  shows "update_chunks checksum_new chunks = Some (bytes_from 0 (concat pieces))"
  by (simp add: update_chunks_eq assms chunks_at_sum checksum_new_def)

theorem checksum_any_order_witness:
  "update_chunks checksum_new [(5, [6,7]), (0, [1,2,3,4,5])] = Some (bytes_from 0 (concat [[1,2,3,4,5],[6,7]]))"
  by (rule checksum_any_order) simp

end
