(* ===== verification/Fw_Enums.thy ===== *)
theory Fw_Enums
  imports Fw_Serial
begin

text \<open>
  Enumerations with a wire representation: the code the \<open>fpp_enum!\<close> macro generates
  (\<open>fprime-fw/src/fpp.rs\<close>) over the table of declared constants, and the framework-wide
  enumerations of \<open>fprime-fw/src/enums.rs\<close> and \<open>fprime-fw/src/com.rs\<close>.  The locale
  \<open>fpp_enum\<close> holds what every declaration guarantees and derives the strict codec from it.
\<close>

section \<open>The generated operations\<close>

definition is_valid_repr :: "('e \<Rightarrow> 'w::len word) \<Rightarrow> 'e list \<Rightarrow> 'w word \<Rightarrow> bool" where
  "is_valid_repr as_repr values raw \<longleftrightarrow> raw \<in> set (map as_repr values)"

definition try_from :: "('e \<Rightarrow> 'w::len word) \<Rightarrow> 'e list \<Rightarrow> 'w word \<Rightarrow> 'e option" where
  "try_from as_repr values raw = find (\<lambda>x. as_repr x = raw) values"

definition enum_serialize_to ::
  "('e \<Rightarrow> 'w::len word) \<Rightarrow> 'e \<Rightarrow> ser_buf \<Rightarrow> Endianness \<Rightarrow> (SerializeStatus \<times> ser_buf) option" where
  "enum_serialize_to as_repr v b e = serialize_prim b (as_repr v) e"

definition enum_deserialize_from ::
  "('e \<Rightarrow> 'w::len word) \<Rightarrow> 'e list \<Rightarrow> 'e \<Rightarrow> ser_buf \<Rightarrow> Endianness
    \<Rightarrow> (SerializeStatus \<times> 'e \<times> ser_buf) option" where
  "enum_deserialize_from as_repr values v b e =
     do { (status, raw, b) \<leftarrow> deserialize_prim b 0 e;
          if status \<noteq> Ok then Some (status, v, b)
          else case try_from as_repr values raw of
            Some x \<Rightarrow> Some (Ok, x, b)
          | None \<Rightarrow> Some (DeserFormatError, v, b) }"

section \<open>The declared enumerations\<close>

datatype Success = Success_Failure | Success_Success

fun Success_repr :: "Success \<Rightarrow> u8" where
  "Success_repr Success_Failure = 0"
| "Success_repr Success_Success = 1"

definition Success_values :: "Success list" where
  "Success_values = [Success_Failure, Success_Success]"

datatype Enabled = Enabled_Disabled | Enabled_Enabled

fun Enabled_repr :: "Enabled \<Rightarrow> u8" where
  "Enabled_repr Enabled_Disabled = 0"
| "Enabled_repr Enabled_Enabled = 1"

definition Enabled_values :: "Enabled list" where
  "Enabled_values = [Enabled_Disabled, Enabled_Enabled]"

datatype Wait = Wait_Wait | Wait_NoWait

fun Wait_repr :: "Wait \<Rightarrow> u8" where
  "Wait_repr Wait_Wait = 0"
| "Wait_repr Wait_NoWait = 1"

definition Wait_values :: "Wait list" where
  "Wait_values = [Wait_Wait, Wait_NoWait]"

datatype Completed = Completed_Completed | Completed_Canceled | Completed_Failed

fun Completed_repr :: "Completed \<Rightarrow> u8" where
  "Completed_repr Completed_Completed = 0"
| "Completed_repr Completed_Canceled = 1"
| "Completed_repr Completed_Failed = 2"

definition Completed_values :: "Completed list" where
  "Completed_values = [Completed_Completed, Completed_Canceled, Completed_Failed]"

datatype Health = Health_Healthy | Health_Sick | Health_Failed

fun Health_repr :: "Health \<Rightarrow> u8" where
  "Health_repr Health_Healthy = 0"
| "Health_repr Health_Sick = 1"
| "Health_repr Health_Failed = 2"

definition Health_values :: "Health list" where
  "Health_values = [Health_Healthy, Health_Sick, Health_Failed]"

datatype CmdResponse =
    CmdResponse_Ok | CmdResponse_InvalidOpcode | CmdResponse_ValidationError
  | CmdResponse_FormatError | CmdResponse_ExecutionError | CmdResponse_Busy

fun CmdResponse_repr :: "CmdResponse \<Rightarrow> u8" where
  "CmdResponse_repr CmdResponse_Ok = 0"
| "CmdResponse_repr CmdResponse_InvalidOpcode = 1"
| "CmdResponse_repr CmdResponse_ValidationError = 2"
| "CmdResponse_repr CmdResponse_FormatError = 3"
| "CmdResponse_repr CmdResponse_ExecutionError = 4"
| "CmdResponse_repr CmdResponse_Busy = 5"

definition CmdResponse_values :: "CmdResponse list" where
  "CmdResponse_values =
     [CmdResponse_Ok, CmdResponse_InvalidOpcode, CmdResponse_ValidationError,
      CmdResponse_FormatError, CmdResponse_ExecutionError, CmdResponse_Busy]"

datatype LogSeverity =
    LogSeverity_Fatal | LogSeverity_WarningHi | LogSeverity_WarningLo | LogSeverity_Command
  | LogSeverity_ActivityHi | LogSeverity_ActivityLo | LogSeverity_Diagnostic

fun LogSeverity_repr :: "LogSeverity \<Rightarrow> u8" where
  "LogSeverity_repr LogSeverity_Fatal = 1"
| "LogSeverity_repr LogSeverity_WarningHi = 2"
| "LogSeverity_repr LogSeverity_WarningLo = 3"
| "LogSeverity_repr LogSeverity_Command = 4"
| "LogSeverity_repr LogSeverity_ActivityHi = 5"
| "LogSeverity_repr LogSeverity_ActivityLo = 6"
| "LogSeverity_repr LogSeverity_Diagnostic = 7"

definition LogSeverity_values :: "LogSeverity list" where
  "LogSeverity_values =
     [LogSeverity_Fatal, LogSeverity_WarningHi, LogSeverity_WarningLo, LogSeverity_Command,
      LogSeverity_ActivityHi, LogSeverity_ActivityLo, LogSeverity_Diagnostic]"

datatype ParamValid = ParamValid_Uninit | ParamValid_Valid | ParamValid_Invalid | ParamValid_Default

fun ParamValid_repr :: "ParamValid \<Rightarrow> u8" where
  "ParamValid_repr ParamValid_Uninit = 0"
| "ParamValid_repr ParamValid_Valid = 1"
| "ParamValid_repr ParamValid_Invalid = 2"
| "ParamValid_repr ParamValid_Default = 3"

definition ParamValid_values :: "ParamValid list" where
  "ParamValid_values = [ParamValid_Uninit, ParamValid_Valid, ParamValid_Invalid, ParamValid_Default]"

definition ParamValid_is_ok :: "ParamValid \<Rightarrow> bool" where
  "ParamValid_is_ok v = (case v of ParamValid_Valid \<Rightarrow> True | ParamValid_Default \<Rightarrow> True | _ \<Rightarrow> False)"

datatype TlmValid = TlmValid_Valid | TlmValid_Invalid

fun TlmValid_repr :: "TlmValid \<Rightarrow> u8" where
  "TlmValid_repr TlmValid_Valid = 0"
| "TlmValid_repr TlmValid_Invalid = 1"

definition TlmValid_values :: "TlmValid list" where
  "TlmValid_values = [TlmValid_Valid, TlmValid_Invalid]"

datatype DeserialStatus =
    DeserialStatus_Ok | DeserialStatus_BufferEmpty | DeserialStatus_FormatError
  | DeserialStatus_SizeMismatch | DeserialStatus_TypeMismatch

fun DeserialStatus_repr :: "DeserialStatus \<Rightarrow> u8" where
  "DeserialStatus_repr DeserialStatus_Ok = 0"
| "DeserialStatus_repr DeserialStatus_BufferEmpty = 3"
| "DeserialStatus_repr DeserialStatus_FormatError = 4"
| "DeserialStatus_repr DeserialStatus_SizeMismatch = 5"
| "DeserialStatus_repr DeserialStatus_TypeMismatch = 6"

definition DeserialStatus_values :: "DeserialStatus list" where
  "DeserialStatus_values =
     [DeserialStatus_Ok, DeserialStatus_BufferEmpty, DeserialStatus_FormatError,
      DeserialStatus_SizeMismatch, DeserialStatus_TypeMismatch]"

datatype StringFormatStatus =
    StringFormatStatus_Success | StringFormatStatus_Overflowed
  | StringFormatStatus_InvalidFormatString | StringFormatStatus_SizeOverflow
  | StringFormatStatus_OtherError

fun StringFormatStatus_repr :: "StringFormatStatus \<Rightarrow> u8" where
  "StringFormatStatus_repr StringFormatStatus_Success = 0"
| "StringFormatStatus_repr StringFormatStatus_Overflowed = 1"
| "StringFormatStatus_repr StringFormatStatus_InvalidFormatString = 2"
| "StringFormatStatus_repr StringFormatStatus_SizeOverflow = 3"
| "StringFormatStatus_repr StringFormatStatus_OtherError = 4"

definition StringFormatStatus_values :: "StringFormatStatus list" where
  "StringFormatStatus_values =
     [StringFormatStatus_Success, StringFormatStatus_Overflowed,
      StringFormatStatus_InvalidFormatString, StringFormatStatus_SizeOverflow,
      StringFormatStatus_OtherError]"

datatype ComPacketType =
    FwPacketCommand | FwPacketTelem | FwPacketLog | FwPacketFile | FwPacketPacketizedTlm
  | FwPacketDp | FwPacketIdle | FwPacketParam | FwPacketHand | FwPacketUnknown
  | SppIdlePacket | InvalidUninitialized

fun ComPacketType_repr :: "ComPacketType \<Rightarrow> u16" where
  "ComPacketType_repr FwPacketCommand = 0x0000"
| "ComPacketType_repr FwPacketTelem = 0x0001"
| "ComPacketType_repr FwPacketLog = 0x0002"
| "ComPacketType_repr FwPacketFile = 0x0003"
| "ComPacketType_repr FwPacketPacketizedTlm = 0x0004"
| "ComPacketType_repr FwPacketDp = 0x0005"
| "ComPacketType_repr FwPacketIdle = 0x0006"
| "ComPacketType_repr FwPacketParam = 0x0007"
| "ComPacketType_repr FwPacketHand = 0x00FE"
| "ComPacketType_repr FwPacketUnknown = 0x00FF"
| "ComPacketType_repr SppIdlePacket = 0x07FF"
| "ComPacketType_repr InvalidUninitialized = 0x0800"

definition ComPacketType_values :: "ComPacketType list" where
  "ComPacketType_values =
     [FwPacketCommand, FwPacketTelem, FwPacketLog, FwPacketFile, FwPacketPacketizedTlm,
      FwPacketDp, FwPacketIdle, FwPacketParam, FwPacketHand, FwPacketUnknown,
      SppIdlePacket, InvalidUninitialized]"

datatype Pvn = SpacePacketProtocol | EncapsulationPacketProtocol | Pvn_InvalidUninitialized

fun Pvn_repr :: "Pvn \<Rightarrow> u8" where
  "Pvn_repr SpacePacketProtocol = 0"
| "Pvn_repr EncapsulationPacketProtocol = 7"
| "Pvn_repr Pvn_InvalidUninitialized = 8"

definition Pvn_values :: "Pvn list" where
  "Pvn_values = [SpacePacketProtocol, EncapsulationPacketProtocol, Pvn_InvalidUninitialized]"

section \<open>The contract of a declaration\<close>

locale fpp_enum =
  fixes as_repr :: "'e \<Rightarrow> 'w::len word"
    and vals :: "'e list"
  assumes complete: "x \<in> set vals"
    and distinct_reprs: "distinct (map as_repr vals)"
    and whole_bytes: "8 dvd LENGTH('w)"
begin

lemma repr_inject: "as_repr x = as_repr y \<longleftrightarrow> x = y"
  using distinct_reprs complete by (auto simp: distinct_map inj_on_def)

lemma try_from_sound: "try_from as_repr vals raw = Some x \<Longrightarrow> as_repr x = raw"
  unfolding try_from_def by (induction vals) (auto split: if_splits)

lemma try_from_repr: "try_from as_repr vals (as_repr x) = Some x"
proof (cases "try_from as_repr vals (as_repr x)")
  case None
  then have "\<forall>y \<in> set vals. as_repr y \<noteq> as_repr x"
    by (simp add: try_from_def find_None_iff)
  then show ?thesis using complete [of x] by blast
next
  case (Some y)
  then show ?thesis using try_from_sound [OF Some] by (simp add: repr_inject)
qed

lemma try_from_eq_None: "try_from as_repr vals raw = None \<longleftrightarrow> \<not> is_valid_repr as_repr vals raw"
  by (auto simp: try_from_def find_None_iff is_valid_repr_def)

lemma enum_ser:
  assumes "wf_buf b" and "nbytes TYPE('w) \<le> room b"
  shows "enum_serialize_to as_repr v b e = Some (Ok, put b (to_bytes e (as_repr v)))"
  using assms by (simp add: enum_serialize_to_def serialize_prim_eq)

lemma enum_deser:
  assumes "wf_buf b" and "unread b = to_bytes e (as_repr v) @ rest"
  shows "enum_deserialize_from as_repr vals t b e = Some (Ok, v, adv b (nbytes TYPE('w)))"
  using assms by (simp add: enum_deserialize_from_def deserialize_prim_enc whole_bytes try_from_repr)

text \<open>Strictness: the representation of no declared constant is consumed and refused.\<close>

lemma enum_deser_bad:
  assumes "wf_buf b" and "unread b = to_bytes e raw @ rest" and "\<not> is_valid_repr as_repr vals raw"
  shows "enum_deserialize_from as_repr vals t b e = Some (DeserFormatError, t, adv b (nbytes TYPE('w)))"
  using assms by (simp add: enum_deserialize_from_def deserialize_prim_enc whole_bytes try_from_eq_None [symmetric])

lemma enum_deser_short:
  assumes "wf_buf b" and "length (unread b) < nbytes TYPE('w)"
  shows "enum_deserialize_from as_repr vals t b e =
    Some (if unread b = [] then DeserBufferEmpty else DeserSizeMismatch, t, b)"
  using assms by (simp add: enum_deserialize_from_def deserialize_prim_eq)

end

sublocale fpp_enum < codec: fw_codec "\<lambda>v. to_bytes e (as_repr v)" "\<lambda>v b. enum_serialize_to as_repr v b e"
  "\<lambda>t b. enum_deserialize_from as_repr vals t b e" "\<lambda>_. True" "\<lambda>_ _. True" for e
  by unfold_locales (simp_all add: enum_ser enum_deser)

interpretation success: fpp_enum Success_repr Success_values
  by unfold_locales (simp_all add: Success_values_def Success.nchotomy)

interpretation enabled: fpp_enum Enabled_repr Enabled_values
  by unfold_locales (simp_all add: Enabled_values_def Enabled.nchotomy)

interpretation wait: fpp_enum Wait_repr Wait_values
  by unfold_locales (simp_all add: Wait_values_def Wait.nchotomy)

interpretation completed: fpp_enum Completed_repr Completed_values
  by unfold_locales (simp_all add: Completed_values_def Completed.nchotomy)

interpretation health: fpp_enum Health_repr Health_values
  by unfold_locales (simp_all add: Health_values_def Health.nchotomy)

interpretation cmd_response: fpp_enum CmdResponse_repr CmdResponse_values
  by unfold_locales (simp_all add: CmdResponse_values_def CmdResponse.nchotomy)

interpretation log_severity: fpp_enum LogSeverity_repr LogSeverity_values
  by unfold_locales (simp_all add: LogSeverity_values_def LogSeverity.nchotomy)

interpretation param_valid: fpp_enum ParamValid_repr ParamValid_values
  by unfold_locales (simp_all add: ParamValid_values_def ParamValid.nchotomy)

interpretation tlm_valid: fpp_enum TlmValid_repr TlmValid_values
  by unfold_locales (simp_all add: TlmValid_values_def TlmValid.nchotomy)

interpretation deserial_status: fpp_enum DeserialStatus_repr DeserialStatus_values
  by unfold_locales (simp_all add: DeserialStatus_values_def DeserialStatus.nchotomy)

interpretation string_format_status: fpp_enum StringFormatStatus_repr StringFormatStatus_values
  by unfold_locales (simp_all add: StringFormatStatus_values_def StringFormatStatus.nchotomy)

interpretation com_packet_type: fpp_enum ComPacketType_repr ComPacketType_values
  by unfold_locales (simp_all add: ComPacketType_values_def ComPacketType.nchotomy)

interpretation pvn: fpp_enum Pvn_repr Pvn_values
  by unfold_locales (simp_all add: Pvn_values_def Pvn.nchotomy)

end
