(* ===== verification/Fw_Time.thy ===== *)
theory Fw_Time
  imports Fw_Enums
begin

text \<open>
  Time points and intervals (\<open>fprime-fw/src/time.rs\<close>): the checked 32-bit arithmetic on
  (seconds, microseconds) pairs is exact arithmetic on microseconds, and the 11-byte wire form of
  a time is decoded strictly.  The conversions from and to \<open>f64\<close> are not modelled.
\<close>

section \<open>Time points\<close>

datatype TimeBase = TbNone | TbProcTime | TbWorkstationTime | TbScTime | TbDontCare

fun TimeBase_repr :: "TimeBase \<Rightarrow> u16" where
  "TimeBase_repr TbNone = 0"
| "TimeBase_repr TbProcTime = 1"
| "TimeBase_repr TbWorkstationTime = 2"
| "TimeBase_repr TbScTime = 3"
| "TimeBase_repr TbDontCare = 0xFFFF"

definition TimeBase_values :: "TimeBase list" where
  "TimeBase_values = [TbNone, TbProcTime, TbWorkstationTime, TbScTime, TbDontCare]"

datatype TimeComparison = Lt | Eq | Gt | Incomparable

record fw_time =
  time_base :: TimeBase
  time_context :: u8
  seconds :: u32
  useconds :: u32

definition time_new :: "TimeBase \<Rightarrow> u8 \<Rightarrow> u32 \<Rightarrow> u32 \<Rightarrow> fw_time option" where
  "time_new tb ctx s us =
     do { fw_assert (us < 1000000);
          Some \<lparr>time_base = tb, time_context = ctx, seconds = s, useconds = us\<rparr> }"

definition ZERO_TIME :: fw_time where
  "ZERO_TIME = \<lparr>time_base = TbNone, time_context = 0, seconds = 0, useconds = 0\<rparr>"

definition time_from_seconds_useconds :: "u32 \<Rightarrow> u32 \<Rightarrow> fw_time option" where
  "time_from_seconds_useconds s us = time_new TbNone 0 s us"

definition time_zero :: "TimeBase \<Rightarrow> fw_time option" where
  "time_zero tb = time_new tb 0 0 0"

definition time_set :: "fw_time \<Rightarrow> u32 \<Rightarrow> u32 \<Rightarrow> fw_time option" where
  "time_set t s us = do { fw_assert (us < 1000000); Some (t\<lparr>seconds := s, useconds := us\<rparr>) }"

definition set_time_base :: "fw_time \<Rightarrow> TimeBase \<Rightarrow> fw_time" where
  "set_time_base t tb = t\<lparr>time_base := tb\<rparr>"

definition set_time_context :: "fw_time \<Rightarrow> u8 \<Rightarrow> fw_time" where
  "set_time_context t ctx = t\<lparr>time_context := ctx\<rparr>"

definition pair_compare :: "u32 \<times> u32 \<Rightarrow> u32 \<times> u32 \<Rightarrow> TimeComparison" where
  "pair_compare p q =
     (if fst p < fst q then Lt else if fst p > fst q then Gt
      else if snd p < snd q then Lt else if snd p > snd q then Gt else Eq)"

definition time_compare :: "fw_time \<Rightarrow> fw_time \<Rightarrow> TimeComparison" where
  "time_compare t1 t2 =
     (if time_base t1 \<noteq> time_base t2 then Incomparable
      else pair_compare (seconds t1, useconds t1) (seconds t2, useconds t2))"

definition time_eq :: "fw_time \<Rightarrow> fw_time \<Rightarrow> bool" where
  "time_eq t1 t2 \<longleftrightarrow> time_compare t1 t2 = Eq"

text \<open>The carry and borrow steps the arithmetic of times and intervals share.\<close>

definition add_carry :: "u32 \<times> u32 \<Rightarrow> u32 \<times> u32 \<Rightarrow> (u32 \<times> u32) option" where
  "add_carry p q =
     do { s \<leftarrow> cadd (fst p) (fst q);
          us \<leftarrow> cadd (snd p) (snd q);
          fw_assert (us < 1999999);
          if us \<ge> 1000000
          then do { s \<leftarrow> cadd s 1; us \<leftarrow> csub us 1000000; Some (s, us) }
          else Some (s, us) }"

definition sub_borrow :: "u32 \<times> u32 \<Rightarrow> u32 \<times> u32 \<Rightarrow> (u32 \<times> u32) option" where
  "sub_borrow p q =
     do { s \<leftarrow> csub (fst p) (fst q);
          if snd q > snd p
          then do { s \<leftarrow> csub s 1; us \<leftarrow> cadd (snd p) 1000000; us \<leftarrow> csub us (snd q); Some (s, us) }
          else do { us \<leftarrow> csub (snd p) (snd q); Some (s, us) } }"

definition time_add :: "fw_time \<Rightarrow> fw_time \<Rightarrow> fw_time option" where
  "time_add a b =
     do { fw_assert (time_base a = time_base b);
          (s, us) \<leftarrow> add_carry (seconds a, useconds a) (seconds b, useconds b);
          let context = (if time_context a = time_context b then time_context a else 0);
          time_new (time_base a) context s us }"

definition time_sub :: "fw_time \<Rightarrow> fw_time \<Rightarrow> fw_time option" where
  "time_sub minuend subtrahend =
     do { fw_assert (time_base minuend = time_base subtrahend);
          fw_assert (time_compare minuend subtrahend \<noteq> Lt);
          (s, us) \<leftarrow> sub_borrow (seconds minuend, useconds minuend) (seconds subtrahend, useconds subtrahend);
          let context =
            (if time_context minuend = time_context subtrahend then time_context minuend else 0);
          time_new (time_base minuend) context s us }"

definition add_duration :: "fw_time \<Rightarrow> u32 \<Rightarrow> u32 \<Rightarrow> fw_time option" where
  "add_duration t s us =
     do { (s, us) \<leftarrow> add_carry (seconds t, useconds t) (s, us); time_set t s us }"

definition TIME_SERIALIZED_SIZE :: nat where
  "TIME_SERIALIZED_SIZE = 2 + 1 + 4 + 4"

definition time_serialize_to :: "fw_time \<Rightarrow> ser_buf \<Rightarrow> Endianness \<Rightarrow> (SerializeStatus \<times> ser_buf) option" where
  "time_serialize_to t b e =
     fw_try (enum_serialize_to TimeBase_repr (time_base t) b e) id (\<lambda>b.
     fw_try (serialize_u8 b (time_context t) e) id (\<lambda>b.
     fw_try (serialize_u32 b (seconds t) e) id (\<lambda>b.
     serialize_u32 b (useconds t) e)))"

definition time_deserialize_from ::
  "fw_time \<Rightarrow> ser_buf \<Rightarrow> Endianness \<Rightarrow> (SerializeStatus \<times> fw_time \<times> ser_buf) option" where
  "time_deserialize_from t b e =
     fw_try (enum_deserialize_from TimeBase_repr TimeBase_values TbNone b e) (\<lambda>(_, b). (t, b)) (\<lambda>(base, b).
     fw_try (deserialize_u8 b 0 e) (\<lambda>(_, b). (t, b)) (\<lambda>(context, b).
     fw_try (deserialize_u32 b 0 e) (\<lambda>(_, b). (t, b)) (\<lambda>(s, b).
     fw_try (deserialize_u32 b 0 e) (\<lambda>(_, b). (t, b)) (\<lambda>(us, b).
       if us \<ge> 1000000 then Some (DeserFormatError, t, b)
       else Some (Ok, t\<lparr>time_base := base, time_context := context, seconds := s, useconds := us\<rparr>, b)))))"

section \<open>Intervals\<close>

record time_interval =
  iv_seconds :: u32
  iv_useconds :: u32

definition interval_new :: "u32 \<Rightarrow> u32 \<Rightarrow> time_interval option" where
  "interval_new s us = do { fw_assert (us < 1000000); Some \<lparr>iv_seconds = s, iv_useconds = us\<rparr> }"

definition interval_set :: "time_interval \<Rightarrow> u32 \<Rightarrow> u32 \<Rightarrow> time_interval option" where
  "interval_set t s us = do { fw_assert (us < 1000000); Some (t\<lparr>iv_seconds := s, iv_useconds := us\<rparr>) }"

definition interval_compare :: "time_interval \<Rightarrow> time_interval \<Rightarrow> TimeComparison" where
  "interval_compare t1 t2 = pair_compare (iv_seconds t1, iv_useconds t1) (iv_seconds t2, iv_useconds t2)"

definition interval_add :: "time_interval \<Rightarrow> time_interval \<Rightarrow> time_interval option" where
  "interval_add a b =
     do { (s, us) \<leftarrow> add_carry (iv_seconds a, iv_useconds a) (iv_seconds b, iv_useconds b);
          interval_new s us }"

definition interval_sub :: "time_interval \<Rightarrow> time_interval \<Rightarrow> time_interval option" where
  "interval_sub t1 t2 =
     do { let (minuend, subtrahend) = (if interval_compare t1 t2 = Lt then (t2, t1) else (t1, t2));
          (s, us) \<leftarrow> sub_borrow (iv_seconds minuend, iv_useconds minuend)
                        (iv_seconds subtrahend, iv_useconds subtrahend);
          interval_new s us }"

definition interval_between :: "fw_time \<Rightarrow> fw_time \<Rightarrow> time_interval option" where
  "interval_between start stop =
     do { e \<leftarrow> interval_new (seconds stop) (useconds stop);
          s \<leftarrow> interval_new (seconds start) (useconds start);
          interval_sub e s }"

definition interval_serialize_to ::
  "time_interval \<Rightarrow> ser_buf \<Rightarrow> Endianness \<Rightarrow> (SerializeStatus \<times> ser_buf) option" where
  "interval_serialize_to t b e =
     fw_try (serialize_u32 b (iv_seconds t) e) id (\<lambda>b. serialize_u32 b (iv_useconds t) e)"

definition interval_deserialize_from ::
  "time_interval \<Rightarrow> ser_buf \<Rightarrow> Endianness \<Rightarrow> (SerializeStatus \<times> time_interval \<times> ser_buf) option" where
  "interval_deserialize_from t b e =
     fw_try (deserialize_u32 b 0 e) (\<lambda>(_, b). (t, b)) (\<lambda>(s, b).
     fw_try (deserialize_u32 b 0 e) (\<lambda>(_, b). (t, b)) (\<lambda>(us, b).
       Some (Ok, t\<lparr>iv_seconds := s, iv_useconds := us\<rparr>, b)))"

section \<open>Microsecond arithmetic\<close>

interpretation time_base_enum: fpp_enum TimeBase_repr TimeBase_values
  by unfold_locales (simp_all add: TimeBase_values_def TimeBase.nchotomy)

definition usecs :: "u32 \<times> u32 \<Rightarrow> nat" where
  "usecs p = unat (fst p) * 1000000 + unat (snd p)"

definition norm_usecs :: "u32 \<times> u32 \<Rightarrow> bool" where
  "norm_usecs p \<longleftrightarrow> unat (snd p) < 1000000"

lemma usecs_div_mod:
  assumes "norm_usecs p"
  shows "usecs p div 1000000 = unat (fst p)" and "usecs p mod 1000000 = unat (snd p)"
  using assms by (simp_all add: usecs_def norm_usecs_def)

lemma usecs_inject:
  assumes "norm_usecs p" and "norm_usecs q" and "usecs p = usecs q"
  shows "p = q"
  using usecs_div_mod [OF assms(1)] usecs_div_mod [OF assms(2)] assms(3)
  by (simp add: prod_eq_iff word_unat_eq_iff)

lemma usecs_bound: "norm_usecs p \<Longrightarrow> usecs p < 2 ^ 32 * 1000000"
proof -
  have "unat (fst p) < 2 ^ LENGTH(32)" by (rule unsigned_less)
  then show "norm_usecs p \<Longrightarrow> ?thesis" unfolding usecs_def norm_usecs_def by simp
qed

lemma pair_compare_usecs:
  assumes "norm_usecs p" and "norm_usecs q"
  shows "pair_compare p q = (if usecs p < usecs q then Lt else if usecs p = usecs q then Eq else Gt)"
  using assms unfolding pair_compare_def usecs_def norm_usecs_def
  by (auto simp: word_less_nat_alt)

lemma add_carry_sound:
  assumes "norm_usecs p" and "norm_usecs q" and "add_carry p q = Some r"
  shows "norm_usecs r" and "usecs r = usecs p + usecs q"
  using assms unfolding add_carry_def usecs_def norm_usecs_def
  by (auto simp: bind_eq_Some_conv cadd_eq_Some csub_eq_Some word_less_nat_alt word_le_nat_alt split: if_splits)

lemma add_carry_total:
  assumes "norm_usecs p" and "norm_usecs q" and "usecs p + usecs q < 2 ^ 32 * 1000000"
  shows "\<exists>r. add_carry p q = Some r"
proof -
  have "unat (fst p) + unat (fst q) < 2 ^ 32" and "unat (snd p) + unat (snd q) < 2 ^ 32"
    using assms unfolding usecs_def norm_usecs_def by simp_all
  then obtain s us where s: "cadd (fst p) (fst q) = Some s" and us: "cadd (snd p) (snd q) = Some us"
    by (simp add: cadd_def)
  then have unats: "unat s = unat (fst p) + unat (fst q)" "unat us = unat (snd p) + unat (snd q)"
    by (simp_all add: cadd_eq_Some)
  then have lt: "us < 1999999" using assms by (simp add: word_less_nat_alt norm_usecs_def)
  show ?thesis
  proof (cases "us \<ge> 1000000")
    case True
    then have "1000000 \<le> unat us" by (simp add: word_le_nat_alt)
    then have "unat s + unat (1 :: u32) < 2 ^ 32"
      using assms(3) unats by (simp add: usecs_def)
    then obtain s' where "cadd s 1 = Some s'" by (simp add: cadd_def)
    then show ?thesis using s us lt True by (simp add: add_carry_def csub_def word_le_nat_alt)
  next
    case False
    then show ?thesis using s us lt by (simp add: add_carry_def)
  qed
qed

lemma add_carry_exact:
  assumes "norm_usecs p" and "norm_usecs q"
  shows "add_carry p q = Some r \<longleftrightarrow> norm_usecs r \<and> usecs r = usecs p + usecs q"
proof
  assume r: "norm_usecs r \<and> usecs r = usecs p + usecs q"
  then obtain r' where "add_carry p q = Some r'"
    using add_carry_total [OF assms] usecs_bound [of r] by auto
  then show "add_carry p q = Some r"
    using add_carry_sound [OF assms, of r'] usecs_inject [of r r'] r by simp
qed (use add_carry_sound [OF assms] in auto)

lemma sub_borrow_sound:
  assumes "norm_usecs p" and "norm_usecs q" and "sub_borrow p q = Some r"
  shows "norm_usecs r" and "usecs p = usecs q + usecs r"
  using assms unfolding sub_borrow_def usecs_def norm_usecs_def
  by (auto simp: bind_eq_Some_conv cadd_eq_Some csub_eq_Some word_less_nat_alt word_le_nat_alt split: if_splits)

lemma sub_borrow_total:
  assumes "norm_usecs p" and "norm_usecs q" and "usecs q \<le> usecs p"
  shows "\<exists>r. sub_borrow p q = Some r"
proof -
  have le: "unat (fst q) \<le> unat (fst p)"
    using assms unfolding usecs_def norm_usecs_def by linarith
  then obtain s where s: "csub (fst p) (fst q) = Some s" by (simp add: csub_def word_le_nat_alt)
  then have us: "unat (fst p) = unat (fst q) + unat s" by (simp add: csub_eq_Some)
  show ?thesis
  proof (cases "snd q > snd p")
    case True
    then have "unat (snd p) < unat (snd q)" by (simp add: word_less_nat_alt)
    then have "1 \<le> unat s" using assms(3) us unfolding usecs_def by linarith
    then have "csub s 1 = Some (s - 1)" by (simp add: csub_def word_le_nat_alt)
    moreover have "unat (snd p) + unat (1000000 :: u32) < 2 ^ 32"
      using assms(1) by (simp add: norm_usecs_def)
    then obtain c where c: "cadd (snd p) 1000000 = Some c" by (simp add: cadd_def)
    moreover have "snd q \<le> c"
      using c assms(2) by (simp add: cadd_eq_Some word_le_nat_alt norm_usecs_def)
    ultimately show ?thesis using s True by (simp add: sub_borrow_def csub_def word_le_nat_alt)
  next
    case False
    then show ?thesis using s by (simp add: sub_borrow_def csub_def word_less_nat_alt)
  qed
qed

lemma sub_borrow_exact:
  assumes "norm_usecs p" and "norm_usecs q"
  shows "sub_borrow p q = Some r \<longleftrightarrow> norm_usecs r \<and> usecs p = usecs q + usecs r"
proof
  assume r: "norm_usecs r \<and> usecs p = usecs q + usecs r"
  then obtain r' where "sub_borrow p q = Some r'"
    using sub_borrow_total [OF assms] by auto
  then show "sub_borrow p q = Some r"
    using sub_borrow_sound [OF assms, of r'] usecs_inject [of r r'] r by simp
qed (use sub_borrow_sound [OF assms] in auto)

section \<open>Time points as microsecond counts\<close>

definition valid_time :: "fw_time \<Rightarrow> bool" where
  "valid_time t \<longleftrightarrow> norm_usecs (seconds t, useconds t)"

definition time_usecs :: "fw_time \<Rightarrow> nat" where
  "time_usecs t = usecs (seconds t, useconds t)"

lemma norm_usecs_iff: "norm_usecs (s, us) \<longleftrightarrow> us < 1000000"
  by (simp add: norm_usecs_def word_less_nat_alt)

lemma time_new_eq_Some:
  "time_new tb ctx s us = Some t \<longleftrightarrow>
    valid_time t \<and> time_base t = tb \<and> time_context t = ctx \<and> seconds t = s \<and> useconds t = us"
  by (cases t) (auto simp: time_new_def valid_time_def norm_usecs_iff)

lemma bind_pair_eq_Some:
  "Option.bind m (\<lambda>(s, us). f s us) = Some t \<longleftrightarrow> (\<exists>s us. m = Some (s, us) \<and> f s us = Some t)"
  by (cases m) auto

lemma time_compare_usecs:
  assumes "valid_time a" and "valid_time b" and "time_base a = time_base b"
  shows "time_compare a b =
    (if time_usecs a < time_usecs b then Lt else if time_usecs a = time_usecs b then Eq else Gt)"
  using assms by (simp add: time_compare_def pair_compare_usecs valid_time_def time_usecs_def)

lemma time_add_exact:
  assumes "valid_time a" and "valid_time b" and "time_base a = time_base b"
  shows "time_add a b = Some c \<longleftrightarrow> valid_time c \<and> time_usecs c = time_usecs a + time_usecs b \<and>
    time_base c = time_base a \<and>
    time_context c = (if time_context a = time_context b then time_context a else 0)"
  using assms
  by (auto simp: time_add_def bind_pair_eq_Some Let_def add_carry_exact time_new_eq_Some valid_time_def
    time_usecs_def)

lemma time_sub_exact:
  assumes "valid_time a" and "valid_time b" and "time_base a = time_base b"
  shows "time_sub a b = Some c \<longleftrightarrow> valid_time c \<and> time_usecs a = time_usecs b + time_usecs c \<and>
    time_base c = time_base a \<and>
    time_context c = (if time_context a = time_context b then time_context a else 0)"
  using assms
  by (auto simp: time_sub_def bind_pair_eq_Some Let_def sub_borrow_exact time_new_eq_Some valid_time_def
    time_usecs_def time_compare_usecs)

lemma add_duration_exact:
  assumes "valid_time t" and "us < 1000000"
  shows "add_duration t s us = Some t' \<longleftrightarrow> valid_time t' \<and> time_usecs t' = time_usecs t + usecs (s, us) \<and>
    time_base t' = time_base t \<and> time_context t' = time_context t"
  using assms
  by (cases t; cases t') (auto simp: add_duration_def bind_pair_eq_Some add_carry_exact time_set_def valid_time_def
    time_usecs_def norm_usecs_iff)

section \<open>Intervals as microsecond counts\<close>

definition valid_interval :: "time_interval \<Rightarrow> bool" where
  "valid_interval t \<longleftrightarrow> norm_usecs (iv_seconds t, iv_useconds t)"

definition interval_usecs :: "time_interval \<Rightarrow> nat" where
  "interval_usecs t = usecs (iv_seconds t, iv_useconds t)"

lemma interval_new_eq_Some:
  "interval_new s us = Some t \<longleftrightarrow> valid_interval t \<and> iv_seconds t = s \<and> iv_useconds t = us"
  by (cases t) (auto simp: interval_new_def valid_interval_def norm_usecs_iff)

lemma interval_add_exact:
  assumes "valid_interval a" and "valid_interval b"
  shows "interval_add a b = Some c \<longleftrightarrow> valid_interval c \<and> interval_usecs c = interval_usecs a + interval_usecs b"
  using assms
  by (auto simp: interval_add_def bind_pair_eq_Some add_carry_exact interval_new_eq_Some valid_interval_def interval_usecs_def)

lemma interval_compare_usecs:
  assumes "valid_interval a" and "valid_interval b"
  shows "interval_compare a b = (if interval_usecs a < interval_usecs b then Lt
    else if interval_usecs a = interval_usecs b then Eq else Gt)"
  using assms by (simp add: interval_compare_def pair_compare_usecs valid_interval_def interval_usecs_def)

lemma interval_sub_exact:
  assumes "valid_interval a" and "valid_interval b"
  shows "\<exists>c. interval_sub a b = Some c \<and> valid_interval c \<and>
    int (interval_usecs c) = \<bar>int (interval_usecs a) - int (interval_usecs b)\<bar>"
proof -
  define p q where "p = (iv_seconds a, iv_useconds a)" and "q = (iv_seconds b, iv_useconds b)"
  have n: "norm_usecs p" "norm_usecs q" using assms by (simp_all add: p_def q_def valid_interval_def)
  have main: "\<exists>c. Option.bind (sub_borrow x y) (\<lambda>(s, us). interval_new s us) = Some c \<and> valid_interval c \<and>
      usecs x = usecs y + interval_usecs c"
    if xy: "norm_usecs x" "norm_usecs y" "usecs y \<le> usecs x" for x y
  proof -
    obtain r where r: "sub_borrow x y = Some r" using sub_borrow_total [OF xy] by blast
    note sound = sub_borrow_sound [OF xy(1,2) r]
    then have "interval_new (fst r) (snd r) = Some \<lparr>iv_seconds = fst r, iv_useconds = snd r\<rparr>"
      by (cases r) (simp add: interval_new_eq_Some valid_interval_def)
    with r sound show ?thesis
      by (cases r) (simp add: valid_interval_def interval_usecs_def)
  qed
  show ?thesis
  proof (cases "usecs p < usecs q")
    case True
    with main [of q p] n show ?thesis
      by (auto simp: interval_sub_def interval_compare_def pair_compare_usecs interval_usecs_def Let_def
        simp flip: p_def q_def)
  next
    case False
    with main [of p q] n show ?thesis
      by (auto simp: interval_sub_def interval_compare_def pair_compare_usecs interval_usecs_def Let_def
        simp flip: p_def q_def)
  qed
qed

lemma interval_between_exact:
  assumes "valid_time a" and "valid_time b"
  shows "\<exists>c. interval_between a b = Some c \<and> valid_interval c \<and>
    int (interval_usecs c) = \<bar>int (time_usecs b) - int (time_usecs a)\<bar>"
proof -
  define x y where "x = \<lparr>iv_seconds = seconds b, iv_useconds = useconds b\<rparr>"
    and "y = \<lparr>iv_seconds = seconds a, iv_useconds = useconds a\<rparr>"
  have "interval_new (seconds b) (useconds b) = Some x" "interval_new (seconds a) (useconds a) = Some y"
      "valid_interval x" "valid_interval y" "interval_usecs x = time_usecs b" "interval_usecs y = time_usecs a"
    using assms by (simp_all add: x_def y_def interval_new_def valid_interval_def valid_time_def norm_usecs_iff
        interval_usecs_def time_usecs_def)
  then show ?thesis
    using interval_sub_exact [of x y] by (simp add: interval_between_def)
qed

section \<open>The wire form\<close>

definition time_enc :: "Endianness \<Rightarrow> fw_time \<Rightarrow> u8 list" where
  "time_enc e t = to_bytes e (TimeBase_repr (time_base t)) @ to_bytes e (time_context t) @
     to_bytes e (seconds t) @ to_bytes e (useconds t)"

lemma length_time_enc [simp]: "length (time_enc e t) = TIME_SERIALIZED_SIZE"
  by (simp add: time_enc_def TIME_SERIALIZED_SIZE_def)

lemma time_serialize_eq [ser_simps]:
  assumes "wf_buf b" and "TIME_SERIALIZED_SIZE \<le> room b"
  shows "time_serialize_to t b e = Some (Ok, put b (time_enc e t))"
  using assms
  by (simp add: time_serialize_to_def fw_try_def time_base_enum.enum_ser serialize_prim_eq
    TIME_SERIALIZED_SIZE_def time_enc_def) arith

lemma time_deser_fields:
  fixes raw :: u16 and ctx :: u8 and s us :: u32
  assumes wf: "wf_buf b"
    and u: "unread b = to_bytes e raw @ to_bytes e ctx @ to_bytes e s @ to_bytes e us @ rest"
  shows "time_deserialize_from t b e = Some (
    case try_from TimeBase_repr TimeBase_values raw of
      None \<Rightarrow> (DeserFormatError, t, adv b 2)
    | Some base \<Rightarrow>
        if us \<ge> 1000000 then (DeserFormatError, t, adv b 11)
        else (Ok, \<lparr>time_base = base, time_context = ctx, seconds = s, useconds = us\<rparr>, adv b 11))"
proof (cases "try_from TimeBase_repr TimeBase_values raw")
  case None
  then show ?thesis
    using time_base_enum.enum_deser_bad [OF wf u, of TbNone] time_base_enum.try_from_eq_None [of raw]
    by (simp add: time_deserialize_from_def fw_try_def)
next
  case (Some base)
  then have raw: "raw = TimeBase_repr base" by (simp add: time_base_enum.try_from_sound)
  note r1 = time_base_enum.enum_deser [OF wf u [unfolded raw], of TbNone]
  have "deserialize_prim (adv b 2) 0 e = Some (Ok, ctx, adv b 3)"
    using deserialize_prim_enc [of "adv b 2" e ctx] wf u by simp
  moreover have "deserialize_prim (adv b 3) 0 e = Some (Ok, s, adv b 7)"
    using deserialize_prim_enc [of "adv b 3" e s] wf u by simp
  moreover have "deserialize_prim (adv b 7) 0 e = Some (Ok, us, adv b 11)"
    using deserialize_prim_enc [of "adv b 7" e us] wf u by simp
  ultimately show ?thesis
    using r1 Some by (cases t) (simp add: time_deserialize_from_def fw_try_def)
qed

interpretation time_codec: fw_codec "time_enc e" "\<lambda>t b. time_serialize_to t b e"
  "\<lambda>t b. time_deserialize_from t b e" valid_time "\<lambda>_ _. True" for e
proof unfold_locales
  fix b v t rest
  assume "wf_buf b" and "valid_time v" and "unread b = time_enc e v @ rest"
  then show "time_deserialize_from t b e = Some (Ok, v, adv b (length (time_enc e v)))"
    using time_deser_fields [of b e "TimeBase_repr (time_base v)" "time_context v" "seconds v" "useconds v" rest t]
    by (simp add: time_enc_def TIME_SERIALIZED_SIZE_def time_base_enum.try_from_repr valid_time_def norm_usecs_iff)
qed (simp add: time_serialize_eq)

lemma to_bytes_from_bytes:
  "8 dvd LENGTH('a) \<Longrightarrow> length bs = nbytes TYPE('a) \<Longrightarrow> to_bytes e (from_bytes e bs :: 'a::len word) = bs"
  by (cases e) (simp_all add: to_bytes_def from_bytes_def to_be_bytes_from_be_bytes to_le_bytes_from_le_bytes)

lemma take_drop_append: "i + n = j \<Longrightarrow> take n (drop i xs) @ drop j xs = drop i xs"
  by (metis append_take_drop_id add.commute drop_drop)

lemma to_bytes_inject: "8 dvd LENGTH('a) \<Longrightarrow> to_bytes e v = to_bytes e (w :: 'a::len word) \<longleftrightarrow> v = w"
  by (metis from_bytes_to_bytes)

lemma to_bytes_append_inject:
  "8 dvd LENGTH('a) \<Longrightarrow> to_bytes e v @ xs = to_bytes e (w :: 'a::len word) @ ys \<longleftrightarrow> v = w \<and> xs = ys"
  by (simp add: append_eq_append_conv to_bytes_inject)

lemma time_fields:
  assumes "TIME_SERIALIZED_SIZE \<le> length xs"
  shows "xs = to_bytes e (from_bytes e (take 2 xs) :: u16) @ to_bytes e (from_bytes e (take 1 (drop 2 xs)) :: u8) @
    to_bytes e (from_bytes e (take 4 (drop 3 xs)) :: u32) @ to_bytes e (from_bytes e (take 4 (drop 7 xs)) :: u32) @
    drop 11 xs"
  using assms
  by (simp add: to_bytes_from_bytes TIME_SERIALIZED_SIZE_def take_drop_append)

text \<open>
  C4.  Arithmetic and comparison of times and intervals are exact on microseconds.  For two valid times of one time
  base, \<open>Time::add\<close> returns exactly the valid time whose microsecond count is the sum, keeping the base (and the context
  when both agree), and panics exactly when no such time exists (32-bit seconds overflow); \<open>Time::sub\<close> returns exactly
  the difference and panics exactly when it would be negative; \<open>Time::compare\<close> compares the counts.  Times of different
  bases are incomparable, and adding or subtracting them panics.  For valid intervals the sum is exact in the same way,
  the difference, and the interval between two times, is the absolute difference and never panics, and the comparison
  is that of the counts.
\<close>

theorem time_arithmetic_exact:
  assumes "valid_time a" and "valid_time b" and "valid_interval i" and "valid_interval j"
  shows "(if time_base a = time_base b
      then (time_add a b = Some c \<longleftrightarrow> valid_time c \<and> time_usecs c = time_usecs a + time_usecs b \<and>
          time_base c = time_base a \<and>
          time_context c = (if time_context a = time_context b then time_context a else 0)) \<and>
        (time_sub a b = Some c \<longleftrightarrow> valid_time c \<and> time_usecs a = time_usecs b + time_usecs c \<and>
          time_base c = time_base a \<and>
          time_context c = (if time_context a = time_context b then time_context a else 0)) \<and>
        time_compare a b = (if time_usecs a < time_usecs b then Lt else if time_usecs a = time_usecs b then Eq else Gt)
      else time_add a b = None \<and> time_sub a b = None \<and> time_compare a b = Incomparable) \<and>
    (interval_add i j = Some k \<longleftrightarrow> valid_interval k \<and> interval_usecs k = interval_usecs i + interval_usecs j) \<and>
    (\<exists>d. interval_sub i j = Some d \<and> valid_interval d \<and>
      int (interval_usecs d) = \<bar>int (interval_usecs i) - int (interval_usecs j)\<bar>) \<and>
    (\<exists>d. interval_between a b = Some d \<and> valid_interval d \<and>
      int (interval_usecs d) = \<bar>int (time_usecs b) - int (time_usecs a)\<bar>) \<and>
    interval_compare i j = (if interval_usecs i < interval_usecs j then Lt
      else if interval_usecs i = interval_usecs j then Eq else Gt)"
proof -
  have "if time_base a = time_base b
      then (time_add a b = Some c \<longleftrightarrow> valid_time c \<and> time_usecs c = time_usecs a + time_usecs b \<and>
          time_base c = time_base a \<and>
          time_context c = (if time_context a = time_context b then time_context a else 0)) \<and>
        (time_sub a b = Some c \<longleftrightarrow> valid_time c \<and> time_usecs a = time_usecs b + time_usecs c \<and>
          time_base c = time_base a \<and>
          time_context c = (if time_context a = time_context b then time_context a else 0)) \<and>
        time_compare a b = (if time_usecs a < time_usecs b then Lt else if time_usecs a = time_usecs b then Eq else Gt)
      else time_add a b = None \<and> time_sub a b = None \<and> time_compare a b = Incomparable"
    using time_add_exact [OF assms(1,2)] time_sub_exact [OF assms(1,2)] time_compare_usecs [OF assms(1,2)]
    by (simp add: time_add_def time_sub_def time_compare_def)
  then show ?thesis
    using interval_add_exact [OF assms(3,4), of k] interval_sub_exact [OF assms(3,4)] interval_between_exact [OF assms(1,2)]
      interval_compare_usecs [OF assms(3,4)] by blast
qed

theorem time_arithmetic_exact_witness:
  "time_add \<lparr>time_base = TbScTime, time_context = 1, seconds = 5, useconds = 999999\<rparr>
      \<lparr>time_base = TbScTime, time_context = 1, seconds = 2, useconds = 1\<rparr> =
    Some \<lparr>time_base = TbScTime, time_context = 1, seconds = 8, useconds = 0\<rparr> \<and>
   interval_add \<lparr>iv_seconds = 1, iv_useconds = 600000\<rparr> \<lparr>iv_seconds = 2, iv_useconds = 500000\<rparr> =
    Some \<lparr>iv_seconds = 4, iv_useconds = 100000\<rparr> \<and>
   interval_compare \<lparr>iv_seconds = 1, iv_useconds = 600000\<rparr> \<lparr>iv_seconds = 2, iv_useconds = 500000\<rparr> = Lt"
  using time_arithmetic_exact [of "\<lparr>time_base = TbScTime, time_context = 1, seconds = 5, useconds = 999999\<rparr>"
      "\<lparr>time_base = TbScTime, time_context = 1, seconds = 2, useconds = 1\<rparr>"
      "\<lparr>iv_seconds = 1, iv_useconds = 600000\<rparr>" "\<lparr>iv_seconds = 2, iv_useconds = 500000\<rparr>"
      "\<lparr>time_base = TbScTime, time_context = 1, seconds = 8, useconds = 0\<rparr>" "\<lparr>iv_seconds = 4, iv_useconds = 100000\<rparr>"]
  by (simp add: valid_time_def valid_interval_def norm_usecs_def time_usecs_def interval_usecs_def usecs_def)

lemma time_decode_long:
  assumes wf: "wf_buf b" and len: "TIME_SERIALIZED_SIZE \<le> length (unread b)"
  shows "\<exists>st t' b'. time_deserialize_from t b e = Some (st, t', b') \<and>
    (if st = Ok then valid_time t' \<and> take TIME_SERIALIZED_SIZE (unread b) = time_enc e t' \<and>
        b' = adv b TIME_SERIALIZED_SIZE
     else st = DeserFormatError \<and> t' = t \<and>
        (\<nexists>v. valid_time v \<and> take TIME_SERIALIZED_SIZE (unread b) = time_enc e v))"
proof -
  obtain raw :: u16 and ctx :: u8 and s us :: u32 and rest
    where u: "unread b = to_bytes e raw @ to_bytes e ctx @ to_bytes e s @ to_bytes e us @ rest"
    using time_fields [OF len, of e] by blast
  have prefix: "take TIME_SERIALIZED_SIZE (unread b) =
      to_bytes e raw @ to_bytes e ctx @ to_bytes e s @ to_bytes e us"
    by (simp add: u TIME_SERIALIZED_SIZE_def)
  have inject: "raw = TimeBase_repr (time_base v) \<and> us = useconds v"
    if "take TIME_SERIALIZED_SIZE (unread b) = time_enc e v" for v
    using that unfolding prefix time_enc_def by (simp add: to_bytes_append_inject to_bytes_inject)
  show ?thesis
  proof (cases "try_from TimeBase_repr TimeBase_values raw")
    case None
    with inject show ?thesis
      using time_deser_fields [OF wf u, of t] by (auto simp: time_base_enum.try_from_repr)
  next
    case (Some base)
    then have raw: "raw = TimeBase_repr base" by (simp add: time_base_enum.try_from_sound)
    show ?thesis
    proof (cases "us \<ge> 1000000")
      case True
      then have "\<not> valid_time v" if "take TIME_SERIALIZED_SIZE (unread b) = time_enc e v" for v
        using inject [OF that] by (simp add: valid_time_def norm_usecs_iff)
      then show ?thesis
        using time_deser_fields [OF wf u, of t] Some True by auto
    next
      case False
      then show ?thesis
        using time_deser_fields [OF wf u, of t] Some
        unfolding prefix by (simp add: raw time_enc_def valid_time_def norm_usecs_iff TIME_SERIALIZED_SIZE_def)
    qed
  qed
qed

lemma time_decode_short:
  assumes "wf_buf b" and "length (unread b) < TIME_SERIALIZED_SIZE"
  shows "\<exists>st b'. time_deserialize_from t b e = Some (st, t, b') \<and> st \<noteq> Ok"
  using assms
  by (auto simp: time_deserialize_from_def enum_deserialize_from_def fw_try_def deserialize_prim_eq TIME_SERIALIZED_SIZE_def
      split: option.split)

text \<open>
  C5.  The codec of a time round-trips and decoding is strict.  Decoding any buffer succeeds exactly when the bytes left
  begin with the 11-byte encoding of a valid time, which is then returned and consumed; otherwise an error is reported
  (a format error when there are 11 bytes) and the destination is left as it was.  Serializing a time with room for it
  appends exactly its encoding, and a valid time is read back from there.
\<close>

theorem time_decode_strict:
  assumes wf: "wf_buf b"
  shows "(\<exists>st t' b'. time_deserialize_from t b e = Some (st, t', b') \<and>
      (if st = Ok then valid_time t' \<and> TIME_SERIALIZED_SIZE \<le> length (unread b) \<and>
          take TIME_SERIALIZED_SIZE (unread b) = time_enc e t' \<and> b' = adv b TIME_SERIALIZED_SIZE
       else t' = t \<and> (TIME_SERIALIZED_SIZE \<le> length (unread b) \<longrightarrow> st = DeserFormatError) \<and>
          (\<nexists>v. valid_time v \<and> take TIME_SERIALIZED_SIZE (unread b) = time_enc e v))) \<and>
    (TIME_SERIALIZED_SIZE \<le> room b \<longrightarrow>
      (\<exists>b'. time_serialize_to v b e = Some (Ok, b') \<and> content b' = content b @ time_enc e v \<and>
        (valid_time v \<longrightarrow> time_deserialize_from t (b'\<lparr>deser_loc := ser_loc b\<rparr>) e =
          Some (Ok, v, b'\<lparr>deser_loc := ser_loc b'\<rparr>))))"
proof
  show "\<exists>st t' b'. time_deserialize_from t b e = Some (st, t', b') \<and>
      (if st = Ok then valid_time t' \<and> TIME_SERIALIZED_SIZE \<le> length (unread b) \<and>
          take TIME_SERIALIZED_SIZE (unread b) = time_enc e t' \<and> b' = adv b TIME_SERIALIZED_SIZE
       else t' = t \<and> (TIME_SERIALIZED_SIZE \<le> length (unread b) \<longrightarrow> st = DeserFormatError) \<and>
          (\<nexists>v. valid_time v \<and> take TIME_SERIALIZED_SIZE (unread b) = time_enc e v))"
  proof (cases "TIME_SERIALIZED_SIZE \<le> length (unread b)")
    case True
    then show ?thesis
      using time_decode_long [OF wf True, of t e] by (auto split: if_splits)
  next
    case False
    then have "take TIME_SERIALIZED_SIZE (unread b) \<noteq> time_enc e v" for v
      using length_time_enc [of e v] by (metis length_take min.absorb2 nat_le_linear min.commute)
    then show ?thesis
      using time_decode_short [OF wf, of t e] False by auto
  qed
  show "TIME_SERIALIZED_SIZE \<le> room b \<longrightarrow>
      (\<exists>b'. time_serialize_to v b e = Some (Ok, b') \<and> content b' = content b @ time_enc e v \<and>
        (valid_time v \<longrightarrow> time_deserialize_from t (b'\<lparr>deser_loc := ser_loc b\<rparr>) e =
          Some (Ok, v, b'\<lparr>deser_loc := ser_loc b'\<rparr>)))"
  proof
    assume room: "TIME_SERIALIZED_SIZE \<le> room b"
    let ?b = "put b (time_enc e v)"
    have r: "length (time_enc e v) \<le> room b"
      using room by simp
    have "wf_buf (?b\<lparr>deser_loc := ser_loc b\<rparr>)" "unread (?b\<lparr>deser_loc := ser_loc b\<rparr>) = time_enc e v @ []"
        "content ?b = content b @ time_enc e v" "ser_loc ?b = ser_loc b + length (time_enc e v)"
      using wf r by (simp_all add: buf_defs)
    then show "\<exists>b'. time_serialize_to v b e = Some (Ok, b') \<and> content b' = content b @ time_enc e v \<and>
        (valid_time v \<longrightarrow> time_deserialize_from t (b'\<lparr>deser_loc := ser_loc b\<rparr>) e =
          Some (Ok, v, b'\<lparr>deser_loc := ser_loc b'\<rparr>))"
      using time_serialize_eq [OF wf room, of v e] time_codec.deser_enc [where b = "?b\<lparr>deser_loc := ser_loc b\<rparr>" and v = v and t = t and e = e and rest = "[]"]
      by (simp add: adv_def)
  qed
qed

theorem time_decode_strict_witness:
  "(\<exists>t' b'. time_deserialize_from ZERO_TIME \<lparr>bytes = [0,3,1,0,0,0,5,0,0,0,7], ser_loc = 11, deser_loc = 0\<rparr> Big =
      Some (Ok, t', b') \<and> valid_time t') \<and>
   (\<exists>b'. time_serialize_to ZERO_TIME (linear_buffer_new 11) Big = Some (Ok, b') \<and> content b' = time_enc Big ZERO_TIME)"
proof
  let ?b = "\<lparr>bytes = [0,3,1,0,0,0,5,0,0,0,7], ser_loc = 11, deser_loc = 0\<rparr>"
  let ?v = "\<lparr>time_base = TbScTime, time_context = 1, seconds = 5, useconds = 7\<rparr>"
  have b: "wf_buf ?b"
    by (simp add: wf_buf_def capacity_def)
  have "time_enc Big ?v = [0,3,1,0,0,0,5,0,0,0,7]"
    by code_simp
  then have v: "valid_time ?v \<and> take TIME_SERIALIZED_SIZE (unread ?b) = time_enc Big ?v"
    by (simp add: valid_time_def norm_usecs_def unread_def content_def TIME_SERIALIZED_SIZE_def)
  obtain st t' b' where d: "time_deserialize_from ZERO_TIME ?b Big = Some (st, t', b')"
      "if st = Ok then valid_time t' else \<nexists>v. valid_time v \<and> take TIME_SERIALIZED_SIZE (unread ?b) = time_enc Big v"
    using time_decode_strict [OF b, of ZERO_TIME Big ?v, THEN conjunct1] by (auto split: if_splits)
  then show "\<exists>t' b'. time_deserialize_from ZERO_TIME ?b Big = Some (Ok, t', b') \<and> valid_time t'"
    using v by (cases "st = Ok") auto
  have c: "wf_buf (linear_buffer_new 11)" "TIME_SERIALIZED_SIZE \<le> room (linear_buffer_new 11)"
      "content (linear_buffer_new 11) = []"
    by (simp_all add: linear_buffer_new_def buf_defs TIME_SERIALIZED_SIZE_def)
  show "\<exists>b'. time_serialize_to ZERO_TIME (linear_buffer_new 11) Big = Some (Ok, b') \<and> content b' = time_enc Big ZERO_TIME"
    using time_decode_strict [OF c(1), of ZERO_TIME Big ZERO_TIME, THEN conjunct2] c by auto
qed

end
