(* ===== verification/Utils_Limits.thy ===== *)
theory Utils_Limits
  imports Fw_Time
begin

text \<open>
  The two rate limiters of \<open>fprime-utils\<close>: the token bucket (\<open>token_bucket.rs\<close>) and the
  counter/time limiter (\<open>rate_limiter.rs\<close>), both driven by time points.
\<close>

section \<open>Order on time points\<close>

text \<open>\<open><=\<close>, \<open><\<close> and \<open>>=\<close> of \<open>PartialOrd\<close>: all false on different time bases.\<close>

definition time_le :: "fw_time \<Rightarrow> fw_time \<Rightarrow> bool" where
  "time_le a b \<longleftrightarrow> time_compare a b = Lt \<or> time_compare a b = Eq"

definition time_lt :: "fw_time \<Rightarrow> fw_time \<Rightarrow> bool" where
  "time_lt a b \<longleftrightarrow> time_compare a b = Lt"

definition time_ge :: "fw_time \<Rightarrow> fw_time \<Rightarrow> bool" where
  "time_ge a b \<longleftrightarrow> time_compare a b = Gt \<or> time_compare a b = Eq"

section \<open>The token bucket\<close>

definition MAX_TOKEN_BUCKET_TOKENS :: u32 where "MAX_TOKEN_BUCKET_TOKENS = 1000"

record token_bucket =
  replenish_interval :: u32
  max_tokens :: u32
  replenish_rate :: u32
  tokens :: u32
  tb_time :: fw_time

definition token_bucket_new :: "u32 \<Rightarrow> u32 \<Rightarrow> token_bucket option" where
  "token_bucket_new interval mx =
     do { fw_assert (mx \<le> MAX_TOKEN_BUCKET_TOKENS);
          t \<leftarrow> time_from_seconds_useconds 0 0;
          Some \<lparr>replenish_interval = interval, max_tokens = mx, replenish_rate = 1, tokens = mx, tb_time = t\<rparr> }"

definition token_bucket_with_state :: "u32 \<Rightarrow> u32 \<Rightarrow> u32 \<Rightarrow> u32 \<Rightarrow> fw_time \<Rightarrow> token_bucket" where
  "token_bucket_with_state interval mx rate start_tokens start_time =
     \<lparr>replenish_interval = interval, max_tokens = mx, replenish_rate = rate, tokens = start_tokens,
      tb_time = start_time\<rparr>"

definition set_replenish_interval :: "token_bucket \<Rightarrow> u32 \<Rightarrow> token_bucket" where
  "set_replenish_interval b v = b\<lparr>replenish_interval := v\<rparr>"

definition set_max_tokens :: "token_bucket \<Rightarrow> u32 \<Rightarrow> token_bucket" where
  "set_max_tokens b v = b\<lparr>max_tokens := v\<rparr>"

definition set_replenish_rate :: "token_bucket \<Rightarrow> u32 \<Rightarrow> token_bucket" where
  "set_replenish_rate b v = b\<lparr>replenish_rate := v\<rparr>"

definition replenish :: "token_bucket \<Rightarrow> token_bucket" where
  "replenish b = (if tokens b < max_tokens b then b\<lparr>tokens := max_tokens b\<rparr> else b)"

text \<open>The \<open>while\<close> loop of \<open>trigger\<close>; its termination is a theorem, not a premise.\<close>

partial_function (option) replenish_loop ::
  "u32 \<Rightarrow> u32 \<Rightarrow> fw_time \<Rightarrow> fw_time \<Rightarrow> u32 \<Rightarrow> fw_time \<Rightarrow> fw_time \<Rightarrow> (u32 \<times> fw_time) option" where
  "replenish_loop rate mx interval now tk stored next_time =
     (if tk < mx \<and> time_le next_time now
      then do { missing \<leftarrow> csub mx tk;
                tk \<leftarrow> cadd tk (min rate missing);
                let stored = next_time;
                next_time \<leftarrow> time_add stored interval;
                replenish_loop rate mx interval now tk stored next_time }
      else Some (tk, stored))"

definition trigger :: "token_bucket \<Rightarrow> fw_time \<Rightarrow> (bool \<times> token_bucket) option" where
  "trigger b now =
     do { b \<leftarrow>
            (if replenish_rate b > 0
             then do {
               interval \<leftarrow> time_from_seconds_useconds (replenish_interval b div 1000000)
                             (replenish_interval b mod 1000000);
               next_time \<leftarrow> time_add (tb_time b) interval;
               (tk, stored) \<leftarrow> replenish_loop (replenish_rate b) (max_tokens b) interval now
                                 (tokens b) (tb_time b) next_time;
               let b = b\<lparr>tokens := tk, tb_time := stored\<rparr>;
               if tokens b \<ge> max_tokens b \<and> time_lt (tb_time b) now
               then Some (b\<lparr>tb_time := now\<rparr>) else Some b }
             else Some b);
          if tokens b > 0
          then do { tk \<leftarrow> csub (tokens b) 1; Some (True, b\<lparr>tokens := tk\<rparr>) }
          else Some (False, b) }"

section \<open>The counter and time limiter\<close>

record rate_limiter =
  counter_cycle :: u32
  time_cycle :: u32
  counter :: u32
  rl_time :: fw_time
  time_at_negative_infinity :: bool

definition reset_counter :: "rate_limiter \<Rightarrow> rate_limiter" where
  "reset_counter r = r\<lparr>counter := 0\<rparr>"

definition reset_time :: "rate_limiter \<Rightarrow> rate_limiter" where
  "reset_time r = r\<lparr>rl_time := ZERO_TIME, time_at_negative_infinity := True\<rparr>"

definition rate_limiter_reset :: "rate_limiter \<Rightarrow> rate_limiter" where
  "rate_limiter_reset r = reset_time (reset_counter r)"

definition rate_limiter_new :: "u32 \<Rightarrow> u32 \<Rightarrow> rate_limiter" where
  "rate_limiter_new cc tc =
     rate_limiter_reset \<lparr>counter_cycle = cc, time_cycle = tc, counter = 0, rl_time = ZERO_TIME,
       time_at_negative_infinity = True\<rparr>"

definition set_counter_cycle :: "rate_limiter \<Rightarrow> u32 \<Rightarrow> rate_limiter" where
  "set_counter_cycle r v = r\<lparr>counter_cycle := v\<rparr>"

definition set_time_cycle :: "rate_limiter \<Rightarrow> u32 \<Rightarrow> rate_limiter" where
  "set_time_cycle r v = r\<lparr>time_cycle := v\<rparr>"

definition rl_set_counter :: "rate_limiter \<Rightarrow> u32 \<Rightarrow> rate_limiter" where
  "rl_set_counter r c = r\<lparr>counter := c\<rparr>"

definition rl_set_time :: "rate_limiter \<Rightarrow> fw_time \<Rightarrow> rate_limiter" where
  "rl_set_time r t = r\<lparr>rl_time := t, time_at_negative_infinity := False\<rparr>"

definition should_counter_trigger :: "rate_limiter \<Rightarrow> bool option" where
  "should_counter_trigger r = do { fw_assert (counter_cycle r > 0); Some (counter r = 0) }"

definition should_time_trigger :: "rate_limiter \<Rightarrow> fw_time \<Rightarrow> bool option" where
  "should_time_trigger r now =
     do { fw_assert (time_cycle r > 0);
          cycle \<leftarrow> time_from_seconds_useconds (time_cycle r) 0;
          next_trigger \<leftarrow> time_add (rl_time r) cycle;
          Some (time_ge now next_trigger \<or> time_at_negative_infinity r) }"

definition update_counter :: "rate_limiter \<Rightarrow> bool \<Rightarrow> rate_limiter option" where
  "update_counter r triggered =
     do { fw_assert (counter_cycle r > 0);
          c \<leftarrow> (if triggered then Some 1 else cadd (counter r) 1);
          Some (r\<lparr>counter := if c \<ge> counter_cycle r then 0 else c\<rparr>) }"

definition update_time :: "rate_limiter \<Rightarrow> bool \<Rightarrow> fw_time \<Rightarrow> rate_limiter option" where
  "update_time r triggered now =
     do { fw_assert (time_cycle r > 0);
          Some (r\<lparr>rl_time := if triggered then now else rl_time r, time_at_negative_infinity := False\<rparr>) }"

definition rl_trigger :: "rate_limiter \<Rightarrow> fw_time \<Rightarrow> (bool \<times> rate_limiter) option" where
  "rl_trigger r now =
     (if counter_cycle r = 0 \<and> time_cycle r = 0 then Some (True, r)
      else do {
        should \<leftarrow> (if counter_cycle r > 0 then should_counter_trigger r else Some False);
        should \<leftarrow> (if time_cycle r > 0
                   then (if should then Some True else should_time_trigger r now)
                   else Some should);
        r \<leftarrow> (if counter_cycle r > 0 then update_counter r should else Some r);
        r \<leftarrow> (if time_cycle r > 0 then update_time r should now else Some r);
        Some (should, r) })"

definition trigger_counter_only :: "rate_limiter \<Rightarrow> (bool \<times> rate_limiter) option" where
  "trigger_counter_only r =
     do { fw_assert (time_cycle r = 0); t \<leftarrow> time_zero TbNone; rl_trigger r t }"

section \<open>Token bucket: replenishing\<close>

definition plain_time :: "fw_time \<Rightarrow> bool" where
  "plain_time t \<longleftrightarrow> valid_time t \<and> time_base t = TbNone"

definition TIME_LIMIT :: nat where
  "TIME_LIMIT = 2 ^ 32 * 1000000"

lemma time_le_usecs: "plain_time a \<Longrightarrow> plain_time b \<Longrightarrow> time_le a b \<longleftrightarrow> time_usecs a \<le> time_usecs b"
  by (auto simp: time_le_def plain_time_def time_compare_usecs)

lemma time_lt_usecs: "plain_time a \<Longrightarrow> plain_time b \<Longrightarrow> time_lt a b \<longleftrightarrow> time_usecs a < time_usecs b"
  by (auto simp: time_lt_def plain_time_def time_compare_usecs)

lemma time_ge_usecs: "plain_time a \<Longrightarrow> plain_time b \<Longrightarrow> time_ge a b \<longleftrightarrow> time_usecs b \<le> time_usecs a"
  by (auto simp: time_ge_def plain_time_def time_compare_usecs)

lemma usecs_surj:
  assumes "n < TIME_LIMIT"
  shows "\<exists>p. norm_usecs p \<and> usecs p = n"
proof (intro exI [of _ "(of_nat (n div 1000000), of_nat (n mod 1000000))"] conjI)
  have "unat (of_nat (n div 1000000) :: u32) = n div 1000000"
    using assms by (simp add: unat_of_nat TIME_LIMIT_def)
  moreover have "unat (of_nat (n mod 1000000) :: u32) = n mod 1000000"
    by (simp add: unat_of_nat)
  ultimately show "norm_usecs (of_nat (n div 1000000), of_nat (n mod 1000000))"
    and "usecs (of_nat (n div 1000000), of_nat (n mod 1000000)) = n"
    by (simp_all add: norm_usecs_def usecs_def)
qed

lemma plain_time_add:
  assumes "plain_time a" and "plain_time b" and "time_usecs a + time_usecs b < TIME_LIMIT"
  shows "\<exists>c. time_add a b = Some c \<and> plain_time c \<and> time_usecs c = time_usecs a + time_usecs b"
proof -
  obtain p where p: "norm_usecs p" "usecs p = time_usecs a + time_usecs b"
    using usecs_surj [OF assms(3)] by blast
  let ?c = "\<lparr>time_base = TbNone,
    time_context = if time_context a = time_context b then time_context a else 0,
    seconds = fst p, useconds = snd p\<rparr>"
  have "time_add a b = Some ?c"
    using p assms by (subst time_add_exact) (auto simp: plain_time_def valid_time_def time_usecs_def)
  then show ?thesis using p by (auto simp: plain_time_def valid_time_def time_usecs_def)
qed

lemma interval_time:
  "\<exists>t. time_from_seconds_useconds (i div 1000000) (i mod 1000000) = Some t \<and> plain_time t \<and> time_usecs t = unat i"
proof -
  have "unat (i mod 1000000) < 1000000" by (simp add: unat_mod)
  then show ?thesis
    by (auto simp: time_from_seconds_useconds_def time_new_eq_Some plain_time_def valid_time_def norm_usecs_def
      time_usecs_def usecs_def unat_mod unat_div intro!: exI [of _ "\<lparr>time_base = TbNone, time_context = 0,
        seconds = i div 1000000, useconds = i mod 1000000\<rparr>"])
qed

text \<open>
  The loop returns, having advanced the stored time by a number \<open>k\<close> of whole intervals, never past
  the current time, and having added at most \<open>k * rate\<close> tokens, up to the maximum.
\<close>

lemma replenish_loop_exact:
  assumes "0 < rate" and "plain_time interval" and "plain_time now" and "plain_time stored" and "plain_time next_time"
    and "time_usecs next_time = time_usecs stored + time_usecs interval"
    and "time_usecs now + time_usecs interval < TIME_LIMIT"
  shows "\<exists>tk' stored' k. replenish_loop rate mx interval now tk stored next_time = Some (tk', stored') \<and>
    plain_time stored' \<and> time_usecs stored' = time_usecs stored + k * time_usecs interval \<and>
    time_usecs stored' \<le> max (time_usecs stored) (time_usecs now) \<and>
    unat tk' \<le> unat tk + k * unat rate \<and> unat tk \<le> unat tk' \<and> unat tk' \<le> max (unat tk) (unat mx) \<and>
    (tk' < mx \<longrightarrow> time_usecs now < time_usecs stored' + time_usecs interval)"
  using assms(4-6)
proof (induction "unat mx - unat tk" arbitrary: tk stored next_time rule: less_induct)
  case less
  show ?case
  proof (cases "tk < mx \<and> time_le next_time now")
    case True
    then have lt: "unat tk < unat mx" and le: "time_usecs next_time \<le> time_usecs now"
      using less.prems assms(3) by (simp_all add: word_less_nat_alt time_le_usecs)
    define d where "d = min rate (mx - tk)"
    have sub: "csub mx tk = Some (mx - tk)" "unat (mx - tk) = unat mx - unat tk"
      using lt by (simp_all add: csub_def unat_sub word_le_nat_alt)
    have d: "0 < unat d" "unat d \<le> unat rate" "unat d \<le> unat mx - unat tk"
      using assms(1) lt sub(2) by (auto simp: d_def min_def word_less_nat_alt word_le_nat_alt)
    have bound: "unat mx < 2 ^ LENGTH(32)" by (rule unsigned_less)
    have add: "cadd tk d = Some (tk + d)" using d lt bound by (simp add: cadd_def)
    have tk': "unat (tk + d) = unat tk + unat d" using add by (simp add: cadd_eq_Some)
    have "time_usecs next_time + time_usecs interval < TIME_LIMIT" using le assms(7) by simp
    from plain_time_add [OF less.prems(2) assms(2) this]
    obtain n where n: "time_add next_time interval = Some n" "plain_time n"
        "time_usecs n = time_usecs next_time + time_usecs interval" by blast
    have unfold: "replenish_loop rate mx interval now tk stored next_time =
        replenish_loop rate mx interval now (tk + d) next_time n"
      using True sub(1) add n(1) by (subst replenish_loop.simps) (simp add: d_def)
    have "unat mx - unat (tk + d) < unat mx - unat tk" using d lt tk' by simp
    from less.hyps [OF this less.prems(2) n(2,3)]
    obtain tk2 st2 k where ih: "replenish_loop rate mx interval now (tk + d) next_time n = Some (tk2, st2)"
        "plain_time st2" "time_usecs st2 = time_usecs next_time + k * time_usecs interval"
        "time_usecs st2 \<le> max (time_usecs next_time) (time_usecs now)"
        "unat tk2 \<le> unat (tk + d) + k * unat rate" "unat (tk + d) \<le> unat tk2"
        "unat tk2 \<le> max (unat (tk + d)) (unat mx)"
        "tk2 < mx \<longrightarrow> time_usecs now < time_usecs st2 + time_usecs interval" by blast
    have "unat tk2 \<le> unat tk + Suc k * unat rate" using ih(5) d tk' by simp
    moreover have "unat tk2 \<le> max (unat tk) (unat mx)" using ih(7) d lt tk' by simp
    ultimately show ?thesis
      using ih(1-4,6,8) unfold less.prems(3) le tk'
      by (intro exI [of _ tk2] exI [of _ st2] exI [of _ "Suc k"]) auto
  next
    case False
    then have "replenish_loop rate mx interval now tk stored next_time = Some (tk, stored)"
      by (subst replenish_loop.simps) auto
    moreover have "tk < mx \<longrightarrow> time_usecs now < time_usecs stored + time_usecs interval"
      using False less.prems assms(3) by (auto simp: time_le_usecs)
    ultimately show ?thesis using less.prems by (intro exI [of _ tk] exI [of _ stored] exI [of _ 0]) simp
  qed
qed

definition bucket_ok :: "token_bucket \<Rightarrow> bool" where
  "bucket_ok b \<longleftrightarrow> plain_time (tb_time b) \<and> 0 < replenish_interval b"

lemma take_token:
  "(if tokens b > 0 then do { tk \<leftarrow> csub (tokens b) 1; Some (True, b\<lparr>tokens := tk\<rparr>) } else Some (False, b)) =
    Some (0 < tokens b, b\<lparr>tokens := if 0 < tokens b then tokens b - 1 else tokens b\<rparr>)"
  by (auto simp: csub_def word_less_nat_alt)

lemma unat_minus_1: "0 < x \<Longrightarrow> unat (x - 1) + 1 = unat (x :: 'a::len word)"
  by (simp add: unat_sub word_le_nat_alt word_less_nat_alt Suc_le_eq)

text \<open>One call: the tokens it hands out or keeps are paid for by whole intervals of stored time.\<close>

lemma trigger_step:
  assumes ok: "bucket_ok b" and now: "plain_time now"
    and lim: "time_usecs now + unat (replenish_interval b) < TIME_LIMIT"
      "time_usecs (tb_time b) + unat (replenish_interval b) < TIME_LIMIT"
  shows "\<exists>r b'. trigger b now = Some (r, b') \<and> bucket_ok b' \<and>
    replenish_interval b' = replenish_interval b \<and> replenish_rate b' = replenish_rate b \<and>
    max_tokens b' = max_tokens b \<and>
    time_usecs (tb_time b) \<le> time_usecs (tb_time b') \<and>
    time_usecs (tb_time b') \<le> max (time_usecs (tb_time b)) (time_usecs now) \<and>
    of_bool r + unat (tokens b') \<le> unat (tokens b) + unat (replenish_rate b) *
      ((time_usecs (tb_time b') - time_usecs (tb_time b)) div unat (replenish_interval b)) \<and>
    (0 < tokens b \<longrightarrow> r)"
proof (cases "replenish_rate b > 0")
  case True
  obtain interval where iv: "time_from_seconds_useconds (replenish_interval b div 1000000)
      (replenish_interval b mod 1000000) = Some interval" "plain_time interval"
      "time_usecs interval = unat (replenish_interval b)"
    using interval_time by blast
  have st: "plain_time (tb_time b)" using ok by (simp add: bucket_ok_def)
  have pos: "0 < unat (replenish_interval b)" using ok by (simp add: bucket_ok_def word_less_nat_alt)
  obtain nt where nt: "time_add (tb_time b) interval = Some nt" "plain_time nt"
      "time_usecs nt = time_usecs (tb_time b) + time_usecs interval"
    using plain_time_add [OF st iv(2)] lim(2) iv(3) by auto
  obtain tk st' k where lp: "replenish_loop (replenish_rate b) (max_tokens b) interval now (tokens b) (tb_time b) nt =
      Some (tk, st')" "plain_time st'" "time_usecs st' = time_usecs (tb_time b) + k * time_usecs interval"
      "time_usecs st' \<le> max (time_usecs (tb_time b)) (time_usecs now)"
      "unat tk \<le> unat (tokens b) + k * unat (replenish_rate b)" "unat (tokens b) \<le> unat tk"
    using replenish_loop_exact [OF True iv(2) now st nt(2,3)] lim(1) iv(3) by metis
  define st2 where "st2 = (if tk \<ge> max_tokens b \<and> time_lt st' now then now else st')"
  have st2: "plain_time st2" "time_usecs st' \<le> time_usecs st2" "time_usecs st2 \<le> max (time_usecs (tb_time b)) (time_usecs now)"
    using lp now by (auto simp: st2_def time_lt_usecs)
  have k: "k \<le> (time_usecs st2 - time_usecs (tb_time b)) div unat (replenish_interval b)"
    using st2(2) lp(3) iv(3) pos by (simp add: less_eq_div_iff_mult_less_eq le_diff_conv2)
  let ?b = "b\<lparr>tokens := tk, tb_time := st2\<rparr>"
  have run: "trigger b now = Some (0 < tk, ?b\<lparr>tokens := if 0 < tk then tk - 1 else tk\<rparr>)"
    using True iv(1) nt(1) lp(1) take_token [of ?b] by (auto simp: trigger_def st2_def Let_def)
  have "of_bool (0 < tk) + unat (if 0 < tk then tk - 1 else tk) = unat tk"
    using unat_minus_1 [of tk] by auto
  moreover have "unat tk \<le> unat (tokens b) + unat (replenish_rate b) *
      ((time_usecs st2 - time_usecs (tb_time b)) div unat (replenish_interval b))"
    by (rule order_trans [OF lp(5)]) (use k in \<open>simp add: mult.commute\<close>)
  moreover have "0 < tokens b \<longrightarrow> 0 < tk" using lp(6) by (auto simp: word_less_nat_alt)
  ultimately show ?thesis
    using run st2 lp(3) ok by (simp add: bucket_ok_def)
next
  case False
  then have "trigger b now = Some (0 < tokens b, b\<lparr>tokens := if 0 < tokens b then tokens b - 1 else tokens b\<rparr>)"
    using take_token [of b] by (simp add: trigger_def)
  then show ?thesis using unat_minus_1 [of "tokens b"] ok by (auto simp: bucket_ok_def)
qed

text \<open>A call at a time of another base is not comparable: it never replenishes.  A stored time of another base panics.\<close>

lemma trigger_foreign:
  assumes ok: "bucket_ok b" and now: "time_base now \<noteq> TbNone"
    and lim: "time_usecs (tb_time b) + unat (replenish_interval b) < TIME_LIMIT"
  shows "trigger b now = Some (0 < tokens b, b\<lparr>tokens := if 0 < tokens b then tokens b - 1 else tokens b\<rparr>)"
proof (cases "replenish_rate b > 0")
  case True
  obtain interval where iv: "time_from_seconds_useconds (replenish_interval b div 1000000)
      (replenish_interval b mod 1000000) = Some interval" "plain_time interval"
      "time_usecs interval = unat (replenish_interval b)"
    using interval_time by blast
  have st: "plain_time (tb_time b)" using ok by (simp add: bucket_ok_def)
  obtain nt where nt: "time_add (tb_time b) interval = Some nt" "plain_time nt"
    using plain_time_add [OF st iv(2)] lim iv(3) by auto
  have no: "\<not> time_le nt now" "\<not> time_lt (tb_time b) now"
    using now nt(2) st by (auto simp: time_le_def time_lt_def time_compare_def plain_time_def)
  have "replenish_loop (replenish_rate b) (max_tokens b) interval now (tokens b) (tb_time b) nt = Some (tokens b, tb_time b)"
    using no(1) by (subst replenish_loop.simps) simp
  then show ?thesis
    using True iv(1) nt(1) no(2) take_token [of b] by (simp add: trigger_def)
qed (use take_token [of b] in \<open>simp add: trigger_def\<close>)

lemma trigger_other_base:
  assumes "time_base (tb_time b) \<noteq> TbNone" and "0 < replenish_rate b"
  shows "trigger b now = None"
proof -
  obtain interval where "time_from_seconds_useconds (replenish_interval b div 1000000)
      (replenish_interval b mod 1000000) = Some interval" "plain_time interval"
    using interval_time by blast
  then show ?thesis
    using assms by (simp add: trigger_def time_add_def plain_time_def)
qed

definition call_ok :: "nat \<Rightarrow> fw_time \<Rightarrow> bool" where
  "call_ok T t \<longleftrightarrow> (time_base t = TbNone \<longrightarrow> valid_time t \<and> time_usecs t \<le> T)"

lemma trigger_bound:
  assumes "bucket_ok b" and "call_ok T t" and "time_usecs (tb_time b) \<le> T"
    and "T + unat (replenish_interval b) < TIME_LIMIT"
  shows "\<exists>r b'. trigger b t = Some (r, b') \<and> bucket_ok b' \<and>
    replenish_interval b' = replenish_interval b \<and> replenish_rate b' = replenish_rate b \<and>
    time_usecs (tb_time b) \<le> time_usecs (tb_time b') \<and> time_usecs (tb_time b') \<le> T \<and>
    of_bool r + unat (tokens b') \<le> unat (tokens b) + unat (replenish_rate b) *
      ((time_usecs (tb_time b') - time_usecs (tb_time b)) div unat (replenish_interval b))"
proof (cases "time_base t = TbNone")
  case True
  then have "plain_time t" "time_usecs t \<le> T"
    using assms(2) by (simp_all add: call_ok_def plain_time_def)
  then show ?thesis
    using trigger_step [OF assms(1), of t] assms(3,4) by fastforce
next
  case False
  then show ?thesis
    using trigger_foreign [OF assms(1) False] assms unat_minus_1 [of "tokens b"] by (auto simp: bucket_ok_def)
qed

fun bucket_run :: "token_bucket \<Rightarrow> fw_time list \<Rightarrow> (bool list \<times> token_bucket) option" where
  "bucket_run b [] = Some ([], b)"
| "bucket_run b (t # ts) =
     do { (r, b) \<leftarrow> trigger b t; (rs, b) \<leftarrow> bucket_run b ts; Some (r # rs, b) }"

lemma div_add_le: "a div n + b div n \<le> (a + b) div (n :: nat)"
  by (metis add_mult_distrib div_add_self2 div_le_mono div_mult_self_is_m div_times_less_eq_dividend add_mono
    div_by_0 gr0I le_0_eq le_refl add_0 less_eq_div_iff_mult_less_eq)

lemma bucket_run_bound:
  assumes "bucket_ok b" and "list_all (call_ok T) ts" and "time_usecs (tb_time b) \<le> T"
    and "T + unat (replenish_interval b) < TIME_LIMIT"
  shows "\<exists>rs b'. bucket_run b ts = Some (rs, b') \<and>
    time_usecs (tb_time b) \<le> time_usecs (tb_time b') \<and> time_usecs (tb_time b') \<le> T \<and>
    count_list rs True + unat (tokens b') \<le> unat (tokens b) + unat (replenish_rate b) *
      ((time_usecs (tb_time b') - time_usecs (tb_time b)) div unat (replenish_interval b))"
  using assms
proof (induction ts arbitrary: b)
  case Nil
  then show ?case by simp
next
  case (Cons t ts)
  obtain r b1 where b1: "trigger b t = Some (r, b1)" "bucket_ok b1"
      "replenish_interval b1 = replenish_interval b" "replenish_rate b1 = replenish_rate b"
      "time_usecs (tb_time b) \<le> time_usecs (tb_time b1)"
      "time_usecs (tb_time b1) \<le> T"
      "of_bool r + unat (tokens b1) \<le> unat (tokens b) + unat (replenish_rate b) *
        ((time_usecs (tb_time b1) - time_usecs (tb_time b)) div unat (replenish_interval b))"
    using trigger_bound [of b T t] Cons.prems by auto
  with Cons.IH [OF b1(2)] Cons.prems b1(3)
  obtain rs b2 where b2: "bucket_run b1 ts = Some (rs, b2)" "time_usecs (tb_time b1) \<le> time_usecs (tb_time b2)"
      "time_usecs (tb_time b2) \<le> T"
      "count_list rs True + unat (tokens b2) \<le> unat (tokens b1) + unat (replenish_rate b) *
        ((time_usecs (tb_time b2) - time_usecs (tb_time b1)) div unat (replenish_interval b))"
    using b1(4) by auto
  let ?i = "unat (replenish_interval b)"
  let ?d1 = "time_usecs (tb_time b1) - time_usecs (tb_time b)"
  let ?d2 = "time_usecs (tb_time b2) - time_usecs (tb_time b1)"
  have "?d1 div ?i + ?d2 div ?i \<le> (time_usecs (tb_time b2) - time_usecs (tb_time b)) div ?i"
    using div_add_le [of ?d1 ?i ?d2] b1(5) b2(2) by simp
  then have "unat (replenish_rate b) * (?d1 div ?i) + unat (replenish_rate b) * (?d2 div ?i) \<le>
      unat (replenish_rate b) * ((time_usecs (tb_time b2) - time_usecs (tb_time b)) div ?i)"
    by (metis distrib_left mult_le_mono2)
  moreover have "count_list (r # rs) True = of_bool r + count_list rs True" by simp
  ultimately show ?case
    using b1(1,5,7) b2 by (intro exI [of _ "r # rs"] exI [of _ b2]) simp
qed

text \<open>
  C13.  The token bucket enforces its rate.  The bucket keeps times of base \<open>TbNone\<close> and has a non-zero interval; let its
  stored time and the calls of that base be at times up to \<open>T\<close>, with \<open>T\<close> plus an interval representable.  Then over any
  sequence of calls, also at times that move backwards or have other bases, no call panics, the replenishing loop returns
  on every call, and the number of calls let through is at most the tokens it started with plus \<open>replenish_rate\<close> for every
  whole \<open>replenish_interval\<close> between the stored start time and \<open>T\<close>.  A bucket with a replenish rate whose stored time has
  another base panics on its first call.
\<close>

theorem token_bucket_rate:
  assumes "valid_time (tb_time b)" and "0 < replenish_interval b" and "list_all (call_ok T) ts"
    and "time_usecs (tb_time b) \<le> T" and "T + unat (replenish_interval b) < TIME_LIMIT"
  shows "(time_base (tb_time b) = TbNone \<longrightarrow> (\<exists>rs b'. bucket_run b ts = Some (rs, b') \<and>
      count_list rs True \<le> unat (tokens b) +
        unat (replenish_rate b) * ((T - time_usecs (tb_time b)) div unat (replenish_interval b)))) \<and>
    (time_base (tb_time b) \<noteq> TbNone \<and> 0 < replenish_rate b \<and> ts \<noteq> [] \<longrightarrow> bucket_run b ts = None)"
proof (cases "time_base (tb_time b) = TbNone")
  case True
  then have "bucket_ok b"
    using assms(1,2) by (simp add: bucket_ok_def plain_time_def)
  from bucket_run_bound [OF this assms(3-5)] obtain rs b' where run: "bucket_run b ts = Some (rs, b')"
    "time_usecs (tb_time b') \<le> T"
    "count_list rs True + unat (tokens b') \<le> unat (tokens b) + unat (replenish_rate b) *
      ((time_usecs (tb_time b') - time_usecs (tb_time b)) div unat (replenish_interval b))" by blast
  have "(time_usecs (tb_time b') - time_usecs (tb_time b)) div unat (replenish_interval b) \<le>
      (T - time_usecs (tb_time b)) div unat (replenish_interval b)"
    using run(2) by (intro div_le_mono diff_le_mono)
  from mult_le_mono2 [OF this, of "unat (replenish_rate b)"] run(3)
  have "count_list rs True \<le> unat (tokens b) +
      unat (replenish_rate b) * ((T - time_usecs (tb_time b)) div unat (replenish_interval b))"
    by linarith
  with run(1) True show ?thesis by blast
next
  case False
  then show ?thesis
    using trigger_other_base [OF False] by (cases ts) auto
qed

theorem token_bucket_rate_witness:
  "(\<exists>rs b'. bucket_run (token_bucket_with_state 500000 2 1 2 ZERO_TIME)
      [ZERO_TIME, ZERO_TIME\<lparr>seconds := 1\<rparr>, ZERO_TIME\<lparr>time_base := TbWorkstationTime, seconds := 9\<rparr>] = Some (rs, b') \<and>
      count_list rs True \<le> 4) \<and>
   bucket_run (token_bucket_with_state 500000 2 1 2 (ZERO_TIME\<lparr>time_base := TbWorkstationTime\<rparr>)) [ZERO_TIME] = None"
proof -
  note defs = token_bucket_with_state_def call_ok_def valid_time_def norm_usecs_def ZERO_TIME_def time_usecs_def usecs_def
    TIME_LIMIT_def
  show ?thesis
    using token_bucket_rate [of "token_bucket_with_state 500000 2 1 2 ZERO_TIME" 1000000
        "[ZERO_TIME, ZERO_TIME\<lparr>seconds := 1\<rparr>, ZERO_TIME\<lparr>time_base := TbWorkstationTime, seconds := 9\<rparr>]"]
      token_bucket_rate [of "token_bucket_with_state 500000 2 1 2 (ZERO_TIME\<lparr>time_base := TbWorkstationTime\<rparr>)" 1000000
        "[ZERO_TIME]"]
    by (simp add: defs)
qed

section \<open>Counter cycles\<close>

fun limiter_run :: "rate_limiter \<Rightarrow> fw_time list \<Rightarrow> (bool list \<times> rate_limiter) option" where
  "limiter_run r [] = Some ([], r)"
| "limiter_run r (t # ts) =
     do { (x, r) \<leftarrow> rl_trigger r t; (xs, r) \<leftarrow> limiter_run r ts; Some (x # xs, r) }"

lemma counter_step:
  assumes "time_cycle r = 0" and "0 < counter_cycle r" and "unat (counter r) = k mod unat (counter_cycle r)"
  shows "\<exists>r'. rl_trigger r t = Some (k mod unat (counter_cycle r) = 0, r') \<and> time_cycle r' = 0 \<and>
    counter_cycle r' = counter_cycle r \<and> unat (counter r') = Suc k mod unat (counter_cycle r)"
proof -
  let ?n = "unat (counter_cycle r)"
  have n: "0 < ?n" using assms(2) by (simp add: word_less_nat_alt)
  have bound: "?n < 2 ^ LENGTH(32)" by (rule unsigned_less)
  have zero: "counter r = 0 \<longleftrightarrow> k mod ?n = 0" using assms(3) by (metis unat_eq_zero)
  have lt: "k mod ?n < ?n" using n by simp
  have add: "cadd (counter r) 1 = Some (counter r + 1)" and add': "unat (counter r + 1) = Suc (k mod ?n)"
    using assms(3) lt bound by (simp_all add: cadd_def unat_word_ariths)
  define c where "c = (if k mod ?n = 0 then 1 else counter r + 1)"
  have c: "unat c = Suc (k mod ?n)" using add' by (simp add: c_def)
  have "rl_trigger r t = Some (k mod ?n = 0, r\<lparr>counter := if c \<ge> counter_cycle r then 0 else c\<rparr>)"
    using assms(1,2) zero add
    by (auto simp: rl_trigger_def should_counter_trigger_def update_counter_def c_def)
  moreover have "unat (if c \<ge> counter_cycle r then 0 else c) = Suc k mod ?n"
    using c lt by (auto simp: word_le_nat_alt mod_Suc)
  ultimately show ?thesis using assms(1) by auto
qed

lemma counter_run:
  assumes "time_cycle r = 0" and "0 < counter_cycle r" and "unat (counter r) = k mod unat (counter_cycle r)"
  shows "\<exists>r'. limiter_run r ts =
    Some (map (\<lambda>i. (k + i) mod unat (counter_cycle r) = 0) [0..<length ts], r')"
  using assms
proof (induction ts arbitrary: r k)
  case Nil
  then show ?case by simp
next
  case (Cons t ts)
  obtain r1 where r1: "rl_trigger r t = Some (k mod unat (counter_cycle r) = 0, r1)" "time_cycle r1 = 0"
      "counter_cycle r1 = counter_cycle r" "unat (counter r1) = Suc k mod unat (counter_cycle r)"
    using counter_step [OF Cons.prems] by blast
  from Cons.IH [of r1 "Suc k"] r1 Cons.prems obtain r2 where
    "limiter_run r1 ts = Some (map (\<lambda>i. (Suc k + i) mod unat (counter_cycle r) = 0) [0..<length ts], r2)" by auto
  with r1(1) show ?case by (simp add: upt_conv_Cons map_Suc_upt [symmetric] comp_def del: upt_Suc)
qed

text \<open>
  A counter-only limiter fires periodically: with a counter cycle of \<open>n > 0\<close> and no time cycle, a
  fresh limiter fires on the first call and then on exactly every \<open>n\<close>-th call (on every call when
  \<open>n = 1\<close>), whatever times it is given, and never panics.
\<close>

theorem rate_limiter_periodic:
  assumes "0 < n"
  shows "\<exists>r'. limiter_run (rate_limiter_new n 0) ts = Some (map (\<lambda>i. i mod unat n = 0) [0..<length ts], r')"
  using counter_run [of "rate_limiter_new n 0" 0 ts] assms
  by (simp add: rate_limiter_new_def rate_limiter_reset_def reset_time_def reset_counter_def)

theorem rate_limiter_periodic_witness:
  "\<exists>r'. limiter_run (rate_limiter_new 3 0) [ZERO_TIME, ZERO_TIME, ZERO_TIME, ZERO_TIME] =
    Some (map (\<lambda>i. i mod unat (3 :: u32) = 0) [0..<length [ZERO_TIME, ZERO_TIME, ZERO_TIME, ZERO_TIME]], r')"
  by (rule rate_limiter_periodic) simp

section \<open>Time cycles\<close>

text \<open>
  With a time cycle the second call asserts on the time base: the cycle is a \<open>TbNone\<close> time, and the
  time stored by the first call carries the caller's base.
\<close>

lemma time_cycle_base_panic:
  assumes "0 < tc" and "valid_time t" and "time_base t \<noteq> TbNone"
  shows "\<exists>r. rl_trigger (rate_limiter_new 0 tc) t = Some (True, r) \<and> rl_trigger r t' = None"
proof -
  let ?r0 = "rate_limiter_new 0 tc"
  have cyc: "time_from_seconds_useconds tc 0 =
      Some \<lparr>time_base = TbNone, time_context = 0, seconds = tc, useconds = 0\<rparr>"
    by (simp add: time_from_seconds_useconds_def time_new_def)
  have "unat tc < 2 ^ LENGTH(32)" by (rule unsigned_less)
  then have "\<exists>n. time_add ZERO_TIME \<lparr>time_base = TbNone, time_context = 0, seconds = tc, useconds = 0\<rparr> = Some n"
    by (simp add: time_add_def add_carry_def cadd_def ZERO_TIME_def time_new_def)
  then have "rl_trigger ?r0 t = Some (True, ?r0\<lparr>rl_time := t, time_at_negative_infinity := False\<rparr>)"
    using assms(1) cyc
    by (auto simp: rl_trigger_def should_time_trigger_def update_time_def rate_limiter_new_def
      rate_limiter_reset_def reset_time_def reset_counter_def)
  moreover have "rl_trigger (?r0\<lparr>rl_time := t, time_at_negative_infinity := False\<rparr>) t' = None"
    using assms cyc
    by (auto simp: rl_trigger_def should_time_trigger_def rate_limiter_new_def time_add_def
      rate_limiter_reset_def reset_time_def reset_counter_def)
  ultimately show ?thesis by blast
qed

end
