(* ===== verification/Utils_Crc.thy ===== *)
theory Utils_Crc
  imports Fw_Serial
begin

text \<open>
  What makes a table-driven cyclic redundancy check detect errors, once for every polynomial and
  either bit order: the locale \<open>crc_register\<close> takes the bitwise register step and the position of an input
  byte in the register, and derives the detection of every error burst no longer than the register.
\<close>

section \<open>Xor of words\<close>

lemma word_xor_cancel: "(x :: 'a::len word) XOR y = x XOR z \<longleftrightarrow> y = z"
proof
  assume "x XOR y = x XOR z"
  then have "x XOR (x XOR y) = x XOR (x XOR z)" by simp
  then show "y = z" by (simp flip: xor.assoc)
qed simp

lemma word_xor_eq_0: "(x :: 'a::len word) XOR y = 0 \<longleftrightarrow> x = y"
  using word_xor_cancel [of x y x] by auto

section \<open>The register\<close>

text \<open>\<open>load k b\<close> is the register contribution of a byte that is \<open>k\<close> bytes ahead of the shift.\<close>

primrec pack :: "(nat \<Rightarrow> u8 \<Rightarrow> 'w::len word) \<Rightarrow> nat \<Rightarrow> u8 list \<Rightarrow> 'w word" where
  "pack load k [] = 0"
| "pack load k (b # bs) = load k b XOR pack load (Suc k) bs"

locale crc_register =
  fixes bitstep :: "'w::len word \<Rightarrow> 'w word"
    and load :: "nat \<Rightarrow> u8 \<Rightarrow> 'w word"
    and len :: nat
    and absorb :: "'w word \<Rightarrow> u8 \<Rightarrow> 'w word"
  assumes linear: "bitstep (x XOR y) = bitstep x XOR bitstep y"
    and regular: "bitstep x = 0 \<Longrightarrow> x = 0"
    and shift: "Suc k < len \<Longrightarrow> (bitstep ^^ 8) (load (Suc k) b) = load k b"
    and pack_inject: "length as = length bs \<Longrightarrow> length as \<le> len \<Longrightarrow> pack load 0 as = pack load 0 bs \<Longrightarrow> as = bs"
    and absorb_bits: "absorb c b = (bitstep ^^ 8) (c XOR load 0 b)"
begin

lemma linear_pow: "(bitstep ^^ n) (x XOR y) = (bitstep ^^ n) x XOR (bitstep ^^ n) y"
  by (induction n) (simp_all add: linear)

lemma zero_pow: "(bitstep ^^ n) 0 = 0"
  using linear_pow [of n 0 0] by simp

lemma regular_pow: "(bitstep ^^ n) x = 0 \<Longrightarrow> x = 0"
  by (induction n) (auto dest: regular)

lemma inject_pow: "(bitstep ^^ n) x = (bitstep ^^ n) y \<longleftrightarrow> x = y"
  using linear_pow [of n x y] regular_pow [of n "x XOR y"] by (auto simp: word_xor_eq_0)

lemma absorb_inject: "absorb c b = absorb d b \<longleftrightarrow> c = d"
  using word_xor_cancel [of "load 0 b" c d] by (simp add: absorb_bits inject_pow xor.commute)

lemma foldl_absorb_inject: "foldl absorb c bs = foldl absorb d bs \<longleftrightarrow> c = d"
  by (induction bs arbitrary: c d) (simp_all add: absorb_inject)

lemma shift_pack: "k + length bs < len \<Longrightarrow> (bitstep ^^ 8) (pack load (Suc k) bs) = pack load k bs"
  by (induction bs arbitrary: k) (simp_all add: zero_pow linear_pow shift)

text \<open>Absorbing up to \<open>len\<close> bytes is one linear map of the register xored with all of them.\<close>

lemma foldl_absorb_pack:
  "length bs \<le> len \<Longrightarrow> foldl absorb c bs = (bitstep ^^ (8 * length bs)) (c XOR pack load 0 bs)"
proof (induction bs arbitrary: c)
  case Nil
  then show ?case by simp
next
  case (Cons b bs)
  then have "foldl absorb c (b # bs) = (bitstep ^^ (8 * length bs)) (absorb c b XOR pack load 0 bs)" by simp
  also have "absorb c b XOR pack load 0 bs = (bitstep ^^ 8) (c XOR load 0 b XOR pack load (Suc 0) bs)"
    using Cons.prems by (simp add: absorb_bits linear_pow shift_pack xor.assoc)
  also have "(bitstep ^^ (8 * length bs)) \<dots> = (bitstep ^^ (8 * length bs + 8)) (c XOR pack load 0 (b # bs))"
    by (simp only: funpow_add comp_apply pack.simps xor.assoc)
  finally show ?case by (simp add: add.commute)
qed

text \<open>A burst of up to \<open>len\<close> bytes anywhere in a message always changes the register at its end.\<close>

lemma burst_detected:
  assumes "length as = length bs" and "length as \<le> len"
    and "foldl absorb c (xs @ as @ ys) = foldl absorb c (xs @ bs @ ys)"
  shows "as = bs"
proof -
  have "foldl absorb (foldl absorb c xs) as = foldl absorb (foldl absorb c xs) bs"
    using assms(3) by (simp add: foldl_absorb_inject)
  then have "pack load 0 as = pack load 0 bs"
    using assms(1,2) by (simp add: foldl_absorb_pack inject_pow word_xor_cancel)
  with assms show ?thesis by (simp add: pack_inject)
qed

end

end
