(* ===== verification/Utils_Hash.thy ===== *)
theory Utils_Hash
  imports Utils_Crc
begin

text \<open>
  The CRC-32 hash (\<open>fprime-utils/src/hash.rs\<close>): the generated table, the incremental register and
  the digest buffer.  The table-driven update is the bitwise polynomial division, which makes the
  hash an instance of \<open>crc_register\<close>: no burst of up to four corrupted bytes goes undetected.
\<close>

section \<open>The hash\<close>

definition HASH_DIGEST_LENGTH :: nat where "HASH_DIGEST_LENGTH = 4"

definition crc32_bit :: "u32 \<Rightarrow> u32" where
  "crc32_bit crc = (if crc AND 1 \<noteq> 0 then drop_bit 1 crc XOR 0xEDB88320 else drop_bit 1 crc)"

primrec crc32_bits :: "nat \<Rightarrow> u32 \<Rightarrow> u32" where
  "crc32_bits 0 crc = crc"
| "crc32_bits (Suc n) crc = crc32_bits n (crc32_bit crc)"

definition CRC32_TABLE :: "u32 list" where
  "CRC32_TABLE = map (\<lambda>i. crc32_bits 8 (of_nat i)) [0..<256]"

definition crc32_byte :: "u32 \<Rightarrow> u8 \<Rightarrow> u32" where
  "crc32_byte crc b = drop_bit 8 crc XOR (CRC32_TABLE ! unat ((crc XOR ucast b) AND 0xFF))"

record hash =
  handle :: u32

definition hash_new :: hash where
  "hash_new = \<lparr>handle = 0xFFFFFFFF\<rparr>"

definition hash_init :: "hash \<Rightarrow> hash" where
  "hash_init h = h\<lparr>handle := 0xFFFFFFFF\<rparr>"

definition hash_update :: "hash \<Rightarrow> u8 list \<Rightarrow> hash" where
  "hash_update h data = h\<lparr>handle := foldl crc32_byte (handle h) data\<rparr>"

definition finalize :: "hash \<Rightarrow> u32" where
  "finalize h = NOT (handle h)"

definition finalize_buffer :: "hash \<Rightarrow> ser_buf option" where
  "finalize_buffer h =
     do { (status, out) \<leftarrow> serialize_u32 (linear_buffer_new HASH_DIGEST_LENGTH) (NOT (handle h)) Big;
          fw_assert (status = Ok);
          Some out }"

definition set_hash_value :: "hash \<Rightarrow> u32 \<Rightarrow> hash" where
  "set_hash_value h v = h\<lparr>handle := NOT v\<rparr>"

definition set_hash_value_buffer :: "hash \<Rightarrow> ser_buf \<Rightarrow> (hash \<times> ser_buf) option" where
  "set_hash_value_buffer h value =
     do { (status, v, value) \<leftarrow> deserialize_u32 value 0 Big;
          fw_assert (status = Ok);
          Some (h\<lparr>handle := NOT v\<rparr>, value) }"

definition hash_data :: "u8 list \<Rightarrow> ser_buf option" where
  "hash_data data = finalize_buffer (hash_update hash_new data)"

definition hash_u32 :: "u8 list \<Rightarrow> u32" where
  "hash_u32 data = finalize (hash_update hash_new data)"

definition hash_buffer_from_bytes :: "u8 list \<Rightarrow> ser_buf option" where
  "hash_buffer_from_bytes data =
     do { (status, out) \<leftarrow> set_buff (linear_buffer_new HASH_DIGEST_LENGTH) data;
          fw_assert (status = Ok);
          Some out }"

definition as_big_endian_u32 :: "ser_buf \<Rightarrow> u32 option" where
  "as_big_endian_u32 hb =
     do { bs \<leftarrow> slice (bytes hb) 0 HASH_DIGEST_LENGTH;
          Some (foldl (\<lambda>result b. push_bit 8 result OR ucast b) 0 bs) }"

section \<open>The table is polynomial division\<close>

lemma crc32_bits_funpow: "crc32_bits n crc = (crc32_bit ^^ n) crc"
  by (induction n arbitrary: crc) (simp_all add: funpow_Suc_right del: funpow.simps)

lemma crc32_bit_odd: "crc32_bit x = drop_bit 1 x XOR (if bit x 0 then 0xEDB88320 else 0)"
  by (simp add: crc32_bit_def and_one_eq bit_0 odd_iff_mod_2_eq_one)

lemma crc32_linear: "crc32_bit (x XOR y) = crc32_bit x XOR crc32_bit y"
  by (cases "bit x 0"; cases "bit y 0") (simp_all add: crc32_bit_odd bit_xor_iff xor.left_commute xor.commute xor.assoc)

lemma crc32_linear_pow: "(crc32_bit ^^ n) (x XOR y) = (crc32_bit ^^ n) x XOR (crc32_bit ^^ n) y"
  by (induction n) (simp_all add: crc32_linear)

lemma crc32_regular:
  assumes "crc32_bit x = 0"
  shows "x = 0"
proof (cases "bit x 0")
  case True
  then have "bit (drop_bit 1 x) 31 = bit (0xEDB88320 :: u32) 31"
    using assms by (simp add: crc32_bit_odd word_xor_eq_0)
  then show ?thesis by (auto simp: bit_drop_bit_eq dest: bit_imp_le_length)
next
  case False
  then have d: "drop_bit 1 x = 0" using assms by (simp add: crc32_bit_odd)
  show ?thesis
  proof (rule bit_word_eqI)
    fix n
    show "bit x n = bit 0 n"
      using False arg_cong [OF d, of "\<lambda>w. bit w (n - 1)"] by (cases n) (simp_all add: bit_drop_bit_eq)
  qed
qed

lemma crc32_low_zero: "take_bit n x = 0 \<Longrightarrow> (crc32_bit ^^ n) x = drop_bit n x"
proof (induction n arbitrary: x)
  case 0
  then show ?case by simp
next
  case (Suc n)
  have low: "\<not> bit x i" if "i < Suc n" for i
    using arg_cong [OF Suc.prems, of "\<lambda>w. bit w i"] that by (simp add: bit_take_bit_iff)
  have "crc32_bit x = drop_bit 1 x" using low [of 0] by (simp add: crc32_bit_odd)
  moreover have "take_bit n (drop_bit 1 x) = 0"
    by (rule bit_word_eqI) (use low in \<open>simp add: bit_take_bit_iff bit_drop_bit_eq\<close>)
  ultimately show ?case
    using Suc.IH [of "drop_bit 1 x"] by (simp add: funpow_Suc_right drop_bit_drop_bit del: funpow.simps)
qed

lemma and_FF: "x AND 0xFF = take_bit 8 (x :: 'a::len word)"
  by (simp add: take_bit_eq_mask mask_eq_exp_minus_1)

lemma byte_high_bits: "8 \<le> n \<Longrightarrow> \<not> bit (ucast (b :: u8) :: 'a::len word) n"
  by (auto simp: bit_ucast_iff dest: bit_imp_le_length)

lemma crc32_byte_bits: "crc32_byte crc b = (crc32_bit ^^ 8) (crc XOR ucast b)"
proof -
  define x where "x = (crc XOR ucast b :: u32)"
  define hi where "hi = x AND NOT (mask 8)"
  have "unat (take_bit 8 x) < 2 ^ 8"
    using take_bit_nat_less_exp [of 8 "unat x"] by (simp add: unsigned_take_bit_eq)
  then have "crc32_byte crc b = drop_bit 8 crc XOR (crc32_bit ^^ 8) (take_bit 8 x)"
    by (simp add: crc32_byte_def CRC32_TABLE_def crc32_bits_funpow and_FF flip: x_def)
  moreover have "take_bit 8 hi = 0"
    by (rule bit_word_eqI) (simp add: hi_def bit_take_bit_iff bit_and_iff bit_not_iff bit_mask_iff)
  then have "(crc32_bit ^^ 8) hi = drop_bit 8 hi" by (rule crc32_low_zero)
  moreover have "drop_bit 8 hi = drop_bit 8 crc"
    by (rule bit_word_eqI)
      (auto simp: hi_def x_def bit_drop_bit_eq bit_and_iff bit_not_iff bit_mask_iff bit_xor_iff byte_high_bits
        dest: bit_imp_le_length)
  moreover have "x = hi XOR take_bit 8 x"
    by (rule bit_word_eqI) (auto simp: hi_def bit_take_bit_iff bit_and_iff bit_not_iff bit_mask_iff bit_xor_iff)
  ultimately show ?thesis
    using crc32_linear_pow [of 8 hi "take_bit 8 x"] by (simp flip: x_def)
qed

section \<open>The hash as a register\<close>

definition crc32_load :: "nat \<Rightarrow> u8 \<Rightarrow> u32" where
  "crc32_load k b = push_bit (8 * k) (ucast b)"

lemma crc32_pack: "pack crc32_load k bs = push_bit (8 * k) (of_le_bytes bs)"
proof (induction bs arbitrary: k)
  case Nil
  then show ?case by simp
next
  case (Cons b bs)
  have "ucast b OR push_bit 8 (of_le_bytes bs :: u32) = ucast b XOR push_bit 8 (of_le_bytes bs)"
    by (rule bit_word_eqI) (auto simp: bit_or_iff bit_xor_iff bit_push_bit_iff byte_high_bits)
  then show ?case
    unfolding pack.simps Cons.IH of_le_bytes.simps
    by (simp add: crc32_load_def push_bit_xor push_bit_push_bit add.commute)
qed

lemma crc32_load_shift:
  assumes "Suc k < 4"
  shows "take_bit 8 (crc32_load (Suc k) b) = 0" and "drop_bit 8 (crc32_load (Suc k) b) = crc32_load k b"
proof -
  show "take_bit 8 (crc32_load (Suc k) b) = 0"
    by (rule bit_word_eqI) (simp add: crc32_load_def bit_take_bit_iff bit_push_bit_iff)
  show "drop_bit 8 (crc32_load (Suc k) b) = crc32_load k b"
  proof (rule bit_word_eqI)
    fix n
    show "bit (drop_bit 8 (crc32_load (Suc k) b)) n = bit (crc32_load k b) n"
    proof (cases "8 * k \<le> n \<and> bit (ucast b :: u32) (n - 8 * k)")
      case True
      then have "n - 8 * k < 8" using byte_high_bits not_le by blast
      then have "n < 24" using True assms by linarith
      then show ?thesis using True assms by (simp add: crc32_load_def bit_drop_bit_eq bit_push_bit_iff)
    next
      case False
      then show ?thesis by (auto simp: crc32_load_def bit_drop_bit_eq bit_push_bit_iff)
    qed
  qed
qed

interpretation crc32: crc_register crc32_bit crc32_load 4 crc32_byte
proof
  fix k and b :: u8
  assume "Suc k < 4"
  then show "(crc32_bit ^^ 8) (crc32_load (Suc k) b) = crc32_load k b"
    by (simp add: crc32_low_zero crc32_load_shift)
next
  fix as bs :: "u8 list"
  assume len: "length as = length bs" "length as \<le> 4" and "pack crc32_load 0 as = pack crc32_load 0 bs"
  then have eq: "of_le_bytes as = (of_le_bytes bs :: u32)" by (simp add: crc32_pack)
  have "as = le_bytes (length as) (of_le_bytes as :: u32)"
    by (rule le_bytes_of_le_bytes [symmetric]) (use len in simp)
  also have "\<dots> = le_bytes (length bs) (of_le_bytes bs :: u32)" by (simp only: eq len)
  also have "\<dots> = bs" by (rule le_bytes_of_le_bytes) (use len in simp)
  finally show "as = bs" .
qed (simp_all add: crc32_linear crc32_regular crc32_byte_bits crc32_load_def)

section \<open>What the hash promises\<close>

lemma hash_update_append: "hash_update h (xs @ ys) = hash_update (hash_update h xs) ys"
  by (simp add: hash_update_def)

lemma hash_u32_eq: "hash_u32 data = NOT (foldl crc32_byte 0xFFFFFFFF data)"
  by (simp add: hash_u32_def finalize_def hash_update_def hash_new_def)

lemma finalize_buffer_eq:
  "finalize_buffer h = Some (put (linear_buffer_new HASH_DIGEST_LENGTH) (to_be_bytes (finalize h)))"
  by (simp add: finalize_buffer_def serialize_prim_eq HASH_DIGEST_LENGTH_def finalize_def to_bytes_def)

lemma digest_bytes:
  assumes "finalize_buffer h = Some d"
  shows "bytes d = to_be_bytes (finalize h)" and "wf_buf d" and "unread d = to_be_bytes (finalize h)"
  using assms by (auto simp: finalize_buffer_eq linear_buffer_new_def HASH_DIGEST_LENGTH_def buf_defs)

lemma as_big_endian_finalize:
  assumes "finalize_buffer h = Some d"
  shows "as_big_endian_u32 d = Some (finalize h)"
  using digest_bytes [OF assms] by (simp add: as_big_endian_u32_def foldl_be HASH_DIGEST_LENGTH_def)

lemma set_hash_value_finalize:
  assumes "finalize_buffer h = Some d"
  shows "\<exists>d'. set_hash_value_buffer g d = Some (h, d')"
  using digest_bytes [OF assms] deserialize_prim_enc [of d Big "finalize h" "[]" 0]
  by (simp add: set_hash_value_buffer_def to_bytes_def finalize_def)

text \<open>
  C9.  The CRC-32 hash detects every error burst of up to four bytes: two messages of the same length
  that differ only within at most four consecutive bytes, at any position, have different hash values.
\<close>

theorem hash_burst_detected:
  assumes "length as = length bs" and "length as \<le> 4" and "as \<noteq> bs"
  shows "hash_u32 (xs @ as @ ys) \<noteq> hash_u32 (xs @ bs @ ys)"
proof
  assume "hash_u32 (xs @ as @ ys) = hash_u32 (xs @ bs @ ys)"
  then have "NOT (NOT (foldl crc32_byte 0xFFFFFFFF (xs @ as @ ys))) =
      NOT (NOT (foldl crc32_byte 0xFFFFFFFF (xs @ bs @ ys)))"
    by (simp only: hash_u32_eq)
  then have "foldl crc32_byte 0xFFFFFFFF (xs @ as @ ys) = foldl crc32_byte 0xFFFFFFFF (xs @ bs @ ys)"
    by (simp only: bit.double_compl)
  then show False using crc32.burst_detected assms by blast
qed

theorem hash_burst_detected_witness:
  "hash_u32 ([1,2,3] @ [4,5,6,7] @ [8,9]) \<noteq> hash_u32 ([1,2,3] @ [0,255,6,77] @ [8,9])"
  by (rule hash_burst_detected) simp_all

text \<open>
  C10.  The table-driven, incremental hash is the bitwise CRC-32: feeding a message in any pieces gives
  the complement of the register that shifts the all-ones value through the reflected polynomial
  \<open>0xEDB88320\<close> eight times per byte, and the digest buffer carries exactly that value, big-endian, so
  that storing it and continuing from it restores the register.
\<close>

theorem hash_reference:
  "finalize (foldl hash_update hash_new pieces) =
     NOT (foldl (\<lambda>crc b. (crc32_bit ^^ 8) (crc XOR ucast b)) 0xFFFFFFFF (concat pieces)) \<and>
   (\<exists>d. finalize_buffer h = Some d \<and> as_big_endian_u32 d = Some (finalize h) \<and>
     (\<exists>d'. set_hash_value_buffer g d = Some (h, d')))"
proof
  have "foldl hash_update h pieces = hash_update h (concat pieces)" for h
    by (induction pieces arbitrary: h) (simp_all add: hash_update_append, simp add: hash_update_def)
  then show "finalize (foldl hash_update hash_new pieces) =
     NOT (foldl (\<lambda>crc b. (crc32_bit ^^ 8) (crc XOR ucast b)) 0xFFFFFFFF (concat pieces))"
    by (simp add: finalize_def hash_update_def hash_new_def crc32_byte_bits [abs_def])
  show "\<exists>d. finalize_buffer h = Some d \<and> as_big_endian_u32 d = Some (finalize h) \<and>
     (\<exists>d'. set_hash_value_buffer g d = Some (h, d'))"
    using finalize_buffer_eq as_big_endian_finalize set_hash_value_finalize by blast
qed

end
