(* ===== verification/Ccsds_Crc16.thy ===== *)
theory Ccsds_Crc16
  imports Utils_Hash
begin

text \<open>
  The frame error control checksum of the CCSDS transfer frames
  (\<open>fprime-svc/src/ccsds/crc16.rs\<close>): CRC-16/CCITT, most significant bit first.  It is the second
  instance of \<open>crc_register\<close>, with a two-byte register.
\<close>

section \<open>The checksum\<close>

definition CRC16_POLYNOMIAL :: u16 where "CRC16_POLYNOMIAL = 0x1021"
definition CRC16_INIT :: u16 where "CRC16_INIT = 0xFFFF"
definition CRC16_XOR_OUT :: u16 where "CRC16_XOR_OUT = 0x0000"

definition crc16_bit :: "u16 \<Rightarrow> u16" where
  "crc16_bit crc = (if crc AND 0x8000 \<noteq> 0 then push_bit 1 crc XOR CRC16_POLYNOMIAL else push_bit 1 crc)"

primrec crc16_bits :: "nat \<Rightarrow> u16 \<Rightarrow> u16" where
  "crc16_bits 0 crc = crc"
| "crc16_bits (Suc n) crc = crc16_bits n (crc16_bit crc)"

definition CRC16_TABLE :: "u16 list" where
  "CRC16_TABLE = map (\<lambda>i. crc16_bits 8 (push_bit 8 (of_nat i))) [0..<256]"

definition crc16_update :: "u16 \<Rightarrow> u8 \<Rightarrow> u16" where
  "crc16_update crc new_byte =
     (let tmp = (ucast (drop_bit 8 crc XOR ucast new_byte) :: u8)
      in push_bit 8 crc XOR (CRC16_TABLE ! unat tmp))"

definition crc16_update_all :: "u16 \<Rightarrow> u8 list \<Rightarrow> u16" where
  "crc16_update_all crc data = foldl crc16_update crc data"

definition crc16_finalize :: "u16 \<Rightarrow> u16" where
  "crc16_finalize crc = crc XOR CRC16_XOR_OUT"

definition crc16_compute :: "u8 list \<Rightarrow> u16" where
  "crc16_compute data = crc16_finalize (crc16_update_all CRC16_INIT data)"

section \<open>The table is polynomial division\<close>

lemma crc16_bits_funpow: "crc16_bits n crc = (crc16_bit ^^ n) crc"
  by (induction n arbitrary: crc) (simp_all add: funpow_Suc_right del: funpow.simps)

lemma and_top_bit: "(x :: u16) AND 0x8000 \<noteq> 0 \<longleftrightarrow> bit x 15"
proof -
  have "(0x8000 :: u16) = push_bit 15 1" by (simp add: push_bit_eq_mult)
  then show ?thesis by (simp add: bit_iff_and_push_bit_not_eq_0)
qed

definition shl1 :: "u16 \<Rightarrow> u16" where
  "shl1 x = push_bit 1 x"

lemma bit_shl1: "bit (shl1 x) n \<longleftrightarrow> 0 < n \<and> n < 16 \<and> bit x (n - 1)"
  unfolding shl1_def bit_push_bit_iff by (auto simp: Suc_le_eq)

lemma shl1_xor: "shl1 (x XOR y) = shl1 x XOR shl1 y"
  unfolding shl1_def by (rule push_bit_xor)

lemma push_shl1: "push_bit n (shl1 x) = push_bit (Suc n) x"
  unfolding shl1_def push_bit_push_bit by simp

lemma crc16_bit_top: "crc16_bit x = shl1 x XOR (if bit x 15 then 0x1021 else 0)"
  unfolding crc16_bit_def and_top_bit shl1_def CRC16_POLYNOMIAL_def by simp

lemma crc16_linear: "crc16_bit (x XOR y) = crc16_bit x XOR crc16_bit y"
  by (cases "bit x 15"; cases "bit y 15")
    (simp_all add: crc16_bit_top bit_xor_iff shl1_xor xor.left_commute xor.commute xor.assoc)

lemma crc16_linear_pow: "(crc16_bit ^^ n) (x XOR y) = (crc16_bit ^^ n) x XOR (crc16_bit ^^ n) y"
  by (induction n) (simp_all add: crc16_linear)

lemma crc16_regular:
  assumes "crc16_bit x = 0"
  shows "x = 0"
proof (cases "bit x 15")
  case True
  then have "bit (shl1 x) 0 = bit (0x1021 :: u16) 0"
    using assms by (simp add: crc16_bit_top word_xor_eq_0)
  then show ?thesis by (simp add: bit_shl1)
next
  case False
  then have d: "shl1 x = 0" using assms by (simp add: crc16_bit_top)
  have low: "\<not> bit x n" if "n < 15" for n
    using arg_cong [OF d, of "\<lambda>w. bit w (Suc n)"] that by (simp add: bit_shl1)
  show ?thesis
  proof (rule bit_word_eqI)
    fix n assume "n < LENGTH(16)"
    then have "n < 15 \<or> n = 15" by auto
    then show "bit x n = bit 0 n" using low False by auto
  qed
qed

lemma crc16_high_zero: "n \<le> 16 \<Longrightarrow> drop_bit (16 - n) x = 0 \<Longrightarrow> (crc16_bit ^^ n) x = push_bit n x"
proof (induction n arbitrary: x)
  case 0
  then show ?case by simp
next
  case (Suc n)
  have high: "\<not> bit x i" if "16 - Suc n \<le> i" for i
    using arg_cong [OF Suc.prems(2), of "\<lambda>w. bit w (i - (16 - Suc n))"] that by (simp add: bit_drop_bit_eq)
  have "crc16_bit x = shl1 x" using high [of 15] by (simp add: crc16_bit_top)
  moreover have "drop_bit (16 - n) (shl1 x) = 0"
  proof (rule bit_word_eqI)
    fix m
    have "\<not> bit x (16 - n + m - 1)" using high Suc.prems(1) by simp
    then show "bit (drop_bit (16 - n) (shl1 x)) m = bit 0 m"
      unfolding bit_drop_bit_eq comp_apply bit_shl1 by simp
  qed
  ultimately show ?case
    using Suc.IH [of "shl1 x"] Suc.prems(1) by (simp add: funpow_Suc_right push_shl1 del: funpow.simps)
qed

lemma crc16_update_bits: "crc16_update crc b = (crc16_bit ^^ 8) (crc XOR push_bit 8 (ucast b))"
proof -
  define tmp where "tmp = (ucast (drop_bit 8 crc XOR ucast b) :: u8)"
  have "unat tmp < 2 ^ LENGTH(8)" by (rule unsigned_less)
  then have "crc16_update crc b = push_bit 8 crc XOR (crc16_bit ^^ 8) (push_bit 8 (ucast tmp))"
    by (simp add: crc16_update_def CRC16_TABLE_def crc16_bits_funpow Let_def flip: tmp_def)
  moreover have "drop_bit 8 (take_bit 8 crc) = 0"
    by (rule bit_word_eqI) (simp add: bit_drop_bit_eq bit_take_bit_iff)
  then have "(crc16_bit ^^ 8) (take_bit 8 crc) = push_bit 8 (take_bit 8 crc)"
    by (simp add: crc16_high_zero)
  moreover have "push_bit 8 (take_bit 8 crc) = push_bit 8 crc"
    by (rule bit_word_eqI) (auto simp: bit_push_bit_iff bit_take_bit_iff)
  moreover have "crc XOR push_bit 8 (ucast b) = take_bit 8 crc XOR push_bit 8 (ucast tmp)"
    by (rule bit_word_eqI)
      (auto simp: tmp_def bit_xor_iff bit_push_bit_iff bit_take_bit_iff bit_ucast_iff bit_drop_bit_eq)
  ultimately show ?thesis
    using crc16_linear_pow [of 8 "take_bit 8 crc" "push_bit 8 (ucast tmp)"] by simp
qed

definition crc16_load :: "nat \<Rightarrow> u8 \<Rightarrow> u16" where
  "crc16_load k b = push_bit (8 - 8 * k) (ucast b)"

lemma crc16_unpack:
  fixes a b :: u8
  shows "ucast (drop_bit 8 (push_bit 8 (ucast a) XOR ucast b :: u16)) = a"
    and "ucast (push_bit 8 (ucast a) XOR ucast b :: u16) = b"
proof -
  show "ucast (drop_bit 8 (push_bit 8 (ucast a) XOR ucast b :: u16)) = a"
  proof (rule bit_word_eqI)
    fix n assume "n < LENGTH(8)"
    then show "bit (ucast (drop_bit 8 (push_bit 8 (ucast a) XOR ucast b :: u16)) :: u8) n = bit a n"
      using byte_bit_bound [of b "8 + n"] by (auto simp: bit_ucast_iff bit_drop_bit_eq bit_xor_iff bit_push_bit_iff)
  qed
  show "ucast (push_bit 8 (ucast a) XOR ucast b :: u16) = b"
  proof (rule bit_word_eqI)
    fix n assume "n < LENGTH(8)"
    then show "bit (ucast (push_bit 8 (ucast a) XOR ucast b :: u16) :: u8) n = bit b n"
      by (simp add: bit_ucast_iff bit_xor_iff bit_push_bit_iff)
  qed
qed

lemma length_le_2: "length as \<le> 2 \<Longrightarrow> as = [] \<or> (\<exists>a. as = [a]) \<or> (\<exists>a b. as = [a, b])"
  by (cases as; cases "tl as"; cases "tl (tl as)") auto

lemma crc16_pack_inject:
  assumes "length as = length bs" and "length as \<le> 2" and "pack crc16_load 0 as = pack crc16_load 0 bs"
  shows "as = bs"
proof -
  have one: "a = b" if "push_bit 8 (ucast a) = (push_bit 8 (ucast b) :: u16)" for a b :: u8
    using arg_cong [OF that, of "\<lambda>w. ucast (drop_bit 8 (w XOR ucast (0 :: u8))) :: u8"]
    by (simp only: crc16_unpack)
  have two: "a = c \<and> b = d" if "push_bit 8 (ucast a) XOR ucast b = (push_bit 8 (ucast c) XOR ucast d :: u16)"
    for a b c d :: u8
    using arg_cong [OF that, of "\<lambda>w. ucast (drop_bit 8 w) :: u8"] arg_cong [OF that, of "\<lambda>w. ucast w :: u8"]
    by (simp only: crc16_unpack)
  show ?thesis
    using assms length_le_2 [of as] length_le_2 [of bs] one two by (auto simp: crc16_load_def)
qed

interpretation crc16: crc_register crc16_bit crc16_load 2 crc16_update
proof
  fix k and b :: u8
  assume "Suc k < 2"
  moreover have "drop_bit (16 - 8) (ucast b :: u16) = 0"
    by (rule bit_word_eqI) (simp add: bit_drop_bit_eq byte_high_bits)
  ultimately show "(crc16_bit ^^ 8) (crc16_load (Suc k) b) = crc16_load k b"
    using crc16_high_zero [of 8 "ucast b"] by (simp add: crc16_load_def)
qed (simp_all add: crc16_linear crc16_regular crc16_update_bits crc16_pack_inject crc16_load_def)

text \<open>
  C11.  The frame error control field detects every error burst of up to two bytes: two frames of the
  same length that differ only within two consecutive bytes have different checksums.
\<close>

theorem crc16_burst_detected:
  assumes "length as = length bs" and "length as \<le> 2" and "as \<noteq> bs"
  shows "crc16_compute (xs @ as @ ys) \<noteq> crc16_compute (xs @ bs @ ys)"
proof
  assume "crc16_compute (xs @ as @ ys) = crc16_compute (xs @ bs @ ys)"
  then have "foldl crc16_update CRC16_INIT (xs @ as @ ys) = foldl crc16_update CRC16_INIT (xs @ bs @ ys)"
    by (simp only: crc16_compute_def crc16_finalize_def crc16_update_all_def CRC16_XOR_OUT_def xor.right_neutral)
  then show False using crc16.burst_detected assms by blast
qed

theorem crc16_burst_detected_witness:
  "crc16_compute ([1,2,3] @ [4,5] @ [8,9]) \<noteq> crc16_compute ([1,2,3] @ [4,6] @ [8,9])"
  by (rule crc16_burst_detected) simp_all

end
