(* ===== verification/Os_Queue.thy ===== *)
theory Os_Queue
  imports Utils_Ring
begin

text \<open>
  The priority message queue: the facade \<open>Os::Queue\<close> (\<open>fprime-os/src/queue.rs\<close>) over a delegate, and
  the lock-based delegate \<open>PriorityQueue\<close> (\<open>fprime-os/src/generic/priority_queue.rs\<close>) with its slot
  slab, free-index ring and stable max-heap.  Every call runs under the queue's lock, so a run of
  several threads is a sequence of calls; a blocking call that finds the queue full or empty leaves
  the state as it is and is retried (\<open>Blocked\<close>).
\<close>

section \<open>Interface types\<close>

datatype QStatus =
    OpOk | AlreadyCreated | Empty | Uninitialized | SizeMismatch | SendError | ReceiveError
  | InvalidPriority | Full | NotSupported | AllocationFailed | UnknownError

datatype BlockingType = Blocking | NonBlocking

datatype outcome = Done QStatus | Blocked

section \<open>The delegate\<close>

datatype HeapNode = HeapNode (nd_priority: u8) (nd_order: u64) (nd_index: nat)

text \<open>The derived order: priority, then \<open>Reverse\<close> of the insertion order, then the index.\<close>

definition node_le :: "HeapNode \<Rightarrow> HeapNode \<Rightarrow> bool" where
  "node_le a b \<longleftrightarrow> nd_priority a < nd_priority b \<or> nd_priority a = nd_priority b \<and>
     (nd_order b < nd_order a \<or> nd_order a = nd_order b \<and> nd_index a \<le> nd_index b)"

instantiation HeapNode :: linorder
begin

definition less_eq_HeapNode :: "HeapNode \<Rightarrow> HeapNode \<Rightarrow> bool" where
  "less_eq_HeapNode a b \<longleftrightarrow> node_le a b"

definition less_HeapNode :: "HeapNode \<Rightarrow> HeapNode \<Rightarrow> bool" where
  "less_HeapNode a b \<longleftrightarrow> a \<le> b \<and> \<not> b \<le> (a :: HeapNode)"

instance
  by standard (auto simp: less_eq_HeapNode_def node_le_def less_HeapNode_def intro: HeapNode.expand)

end

text \<open>\<open>BinaryHeap\<close>: a collection whose \<open>pop\<close> removes the greatest element.\<close>

definition heap_push :: "HeapNode \<Rightarrow> HeapNode list \<Rightarrow> HeapNode list" where
  "heap_push n h = n # h"

fun heap_pop :: "HeapNode list \<Rightarrow> (HeapNode \<times> HeapNode list) option" where
  "heap_pop [] = None"
| "heap_pop (x # xs) = (let m = fold max xs x in Some (m, remove1 m (x # xs)))"

record pq =
  pq_depth :: nat
  pq_message_size :: nat
  pq_data :: "u8 list"
  pq_sizes :: "nat list"
  pq_indices :: "nat list"
  start_index :: nat
  stop_index :: nat
  heap :: "HeapNode list"
  pq_order :: u64
  high_mark :: nat

definition pq_create :: "nat \<Rightarrow> nat \<Rightarrow> (QStatus + pq) option" where
  "pq_create depth msize =
     do { fw_assert (depth > 0);
          fw_assert (msize > 0);
          fw_assert (depth * msize < 2 ^ 64);
          Some (Inr \<lparr>pq_depth = depth, pq_message_size = msize, pq_data = replicate (depth * msize) 0,
            pq_sizes = replicate depth 0, pq_indices = [0..<depth], start_index = 0, stop_index = 0,
            heap = [], pq_order = 0, high_mark = 0\<rparr>) }"

definition pq_send :: "pq \<Rightarrow> u8 list \<Rightarrow> u8 \<Rightarrow> BlockingType \<Rightarrow> (outcome \<times> pq) option" where
  "pq_send q buffer priority bt =
     (if length buffer > pq_message_size q then Some (Done SizeMismatch, q)
      else if length (heap q) \<ge> pq_depth q
      then Some (if bt = NonBlocking then Done Full else Blocked, q)
      else do {
        i \<leftarrow> index (pq_indices q) (start_index q);
        let start = (start_index q + 1) mod pq_depth q;
        let node = HeapNode priority (pq_order q) i;
        let h = heap_push node (heap q);
        let offset = i * pq_message_size q;
        data \<leftarrow> blit (pq_data q) offset buffer;
        sizes \<leftarrow> store (pq_sizes q) i (length buffer);
        Some (Done OpOk, q\<lparr>start_index := start, pq_order := pq_order q + 1, heap := h, pq_data := data,
          pq_sizes := sizes, high_mark := max (high_mark q) (length h)\<rparr>) })"

definition pq_receive ::
  "pq \<Rightarrow> u8 list \<Rightarrow> BlockingType \<Rightarrow> u64 \<Rightarrow> u8 \<Rightarrow> (outcome \<times> (u8 list \<times> u64 \<times> u8) \<times> pq) option" where
  "pq_receive q destination bt actual_size priority =
     (case heap_pop (heap q) of
        None \<Rightarrow> Some (if bt = NonBlocking then Done Empty else Blocked, (destination, actual_size, priority), q)
      | Some (node, h) \<Rightarrow> do {
          sz \<leftarrow> index (pq_sizes q) (nd_index node);
          fw_assert (sz \<le> length destination);
          let offset = nd_index node * pq_message_size q;
          src \<leftarrow> slice (pq_data q) offset (offset + sz);
          dest \<leftarrow> blit destination 0 src;
          indices \<leftarrow> store (pq_indices q) (stop_index q) (nd_index node);
          let stop = (stop_index q + 1) mod pq_depth q;
          Some (Done OpOk, (dest, of_nat sz, nd_priority node),
            q\<lparr>heap := h, pq_indices := indices, stop_index := stop\<rparr>) })"

definition pq_messages_available :: "pq \<Rightarrow> u64" where
  "pq_messages_available q = of_nat (length (heap q))"

definition pq_high_water_mark :: "pq \<Rightarrow> u64" where
  "pq_high_water_mark q = of_nat (high_mark q)"

section \<open>The facade\<close>

text \<open>
  \<open>Os::Queue\<close> is written against \<open>QueueInterface\<close>: its operations take the delegate's.  The queue
  name and the process-wide queue counter are not modelled.
\<close>

record 'd created =
  os_depth :: nat
  os_message_size :: nat
  delegate :: 'd

type_synonym 'd os_queue = "'d created option"

definition os_queue_new :: "'d os_queue" where
  "os_queue_new = None"

definition os_create ::
  "(nat \<Rightarrow> nat \<Rightarrow> (QStatus + 'd) option) \<Rightarrow> 'd os_queue \<Rightarrow> nat \<Rightarrow> nat \<Rightarrow> (QStatus \<times> 'd os_queue) option" where
  "os_create d_create q depth msize =
     do { fw_assert (depth > 0);
          fw_assert (msize > 0);
          if q \<noteq> None then Some (AlreadyCreated, q)
          else do {
            made \<leftarrow> d_create depth msize;
            case made of
              Inl status \<Rightarrow> Some (status, q)
            | Inr d \<Rightarrow> Some (OpOk, Some \<lparr>os_depth = depth, os_message_size = msize, delegate = d\<rparr>) } }"

definition os_send ::
  "('d \<Rightarrow> u8 list \<Rightarrow> u8 \<Rightarrow> BlockingType \<Rightarrow> (outcome \<times> 'd) option)
    \<Rightarrow> 'd os_queue \<Rightarrow> u8 list \<Rightarrow> u8 \<Rightarrow> BlockingType \<Rightarrow> (outcome \<times> 'd os_queue) option" where
  "os_send d_send q buffer priority bt =
     (case q of
        None \<Rightarrow> Some (Done Uninitialized, q)
      | Some c \<Rightarrow>
          if length buffer > os_message_size c then Some (Done SizeMismatch, q)
          else do { (out, d) \<leftarrow> d_send (delegate c) buffer priority bt; Some (out, Some (c\<lparr>delegate := d\<rparr>)) })"

definition os_receive ::
  "('d \<Rightarrow> u8 list \<Rightarrow> BlockingType \<Rightarrow> u64 \<Rightarrow> u8 \<Rightarrow> (outcome \<times> (u8 list \<times> u64 \<times> u8) \<times> 'd) option)
    \<Rightarrow> 'd os_queue \<Rightarrow> u8 list \<Rightarrow> BlockingType \<Rightarrow> u64 \<Rightarrow> u8
    \<Rightarrow> (outcome \<times> (u8 list \<times> u64 \<times> u8) \<times> 'd os_queue) option" where
  "os_receive d_receive q destination bt actual_size priority =
     (case q of
        None \<Rightarrow> Some (Done Uninitialized, (destination, actual_size, priority), q)
      | Some c \<Rightarrow>
          if length destination < os_message_size c
          then Some (Done SizeMismatch, (destination, actual_size, priority), q)
          else do { (out, res, d) \<leftarrow> d_receive (delegate c) destination bt actual_size priority;
                    Some (out, res, Some (c\<lparr>delegate := d\<rparr>)) })"

definition os_send_serial ::
  "('d \<Rightarrow> u8 list \<Rightarrow> u8 \<Rightarrow> BlockingType \<Rightarrow> (outcome \<times> 'd) option)
    \<Rightarrow> 'd os_queue \<Rightarrow> ser_buf \<Rightarrow> u8 \<Rightarrow> BlockingType \<Rightarrow> (outcome \<times> 'd os_queue) option" where
  "os_send_serial d_send q message priority bt =
     do { buffer \<leftarrow> slice (bytes message) 0 (ser_loc message); os_send d_send q buffer priority bt }"

definition os_receive_serial ::
  "('d \<Rightarrow> u8 list \<Rightarrow> BlockingType \<Rightarrow> u64 \<Rightarrow> u8 \<Rightarrow> (outcome \<times> (u8 list \<times> u64 \<times> u8) \<times> 'd) option)
    \<Rightarrow> 'd os_queue \<Rightarrow> ser_buf \<Rightarrow> BlockingType \<Rightarrow> u8 \<Rightarrow> (outcome \<times> (ser_buf \<times> u8) \<times> 'd os_queue) option" where
  "os_receive_serial d_receive q destination bt priority =
     do { let destination = reset_ser destination;
          window \<leftarrow> slice (bytes destination) 0 (capacity destination);
          (out, (window, actual_size, priority), q) \<leftarrow> os_receive d_receive q window bt 0 priority;
          let destination = destination\<lparr>bytes := window\<rparr>;
          if out = Done OpOk
          then do { let (ser_status, destination) = set_buff_len destination (unat actual_size);
                    if ser_status \<noteq> Ok then Some (Done SizeMismatch, (destination, priority), q)
                    else Some (out, (destination, priority), q) }
          else Some (out, (destination, priority), q) }"

definition os_messages_available :: "('d \<Rightarrow> u64) \<Rightarrow> 'd os_queue \<Rightarrow> u64" where
  "os_messages_available d_available q = (case q of None \<Rightarrow> 0 | Some c \<Rightarrow> d_available (delegate c))"

definition os_high_water_mark :: "('d \<Rightarrow> u64) \<Rightarrow> 'd os_queue \<Rightarrow> u64" where
  "os_high_water_mark d_high q = (case q of None \<Rightarrow> 0 | Some c \<Rightarrow> d_high (delegate c))"

section \<open>The abstract priority queue\<close>

text \<open>
  Messages with their priorities, oldest first.  A receive takes the oldest message among those of
  the highest priority.
\<close>

type_synonym pmsg = "u8 \<times> u8 list"

definition spec_pop :: "pmsg list \<Rightarrow> pmsg \<times> pmsg list" where
  "spec_pop ms =
     (let p = Max (fst ` set ms); lower = (\<lambda>m. fst m \<noteq> p)
      in (hd (dropWhile lower ms), takeWhile lower ms @ tl (dropWhile lower ms)))"

fun spec_send :: "nat \<Rightarrow> nat \<Rightarrow> pmsg list \<Rightarrow> u8 list \<Rightarrow> u8 \<Rightarrow> BlockingType \<Rightarrow> outcome \<times> pmsg list" where
  "spec_send depth msize ms buffer priority bt =
     (if length buffer > msize then (Done SizeMismatch, ms)
      else if length ms \<ge> depth then (if bt = NonBlocking then Done Full else Blocked, ms)
      else (Done OpOk, ms @ [(priority, buffer)]))"

fun spec_receive ::
  "pmsg list \<Rightarrow> u8 list \<Rightarrow> BlockingType \<Rightarrow> u64 \<Rightarrow> u8 \<Rightarrow> outcome \<times> (u8 list \<times> u64 \<times> u8) \<times> pmsg list" where
  "spec_receive ms destination bt actual_size priority =
     (if ms = [] then (if bt = NonBlocking then Done Empty else Blocked, (destination, actual_size, priority), ms)
      else let ((p, m), ms) = spec_pop ms
           in (Done OpOk, (m @ drop (length m) destination, of_nat (length m), p), ms))"

lemma spec_pop_split:
  assumes "\<forall>a \<in> set as. fst a < p" and "\<forall>b \<in> set bs. fst b \<le> p"
  shows "spec_pop (as @ (p, m) # bs) = ((p, m), as @ bs)"
proof -
  have "Max (fst ` set (as @ (p, m) # bs)) = p"
    using assms by (intro Max_eqI) (auto intro: less_imp_le)
  moreover have "takeWhile (\<lambda>x. fst x \<noteq> p) (as @ (p, m) # bs) = as"
    using assms(1) by (subst takeWhile_append2) auto
  moreover have "dropWhile (\<lambda>x. fst x \<noteq> p) (as @ (p, m) # bs) = (p, m) # bs"
    using assms(1) by (subst dropWhile_append2) auto
  ultimately show ?thesis by (simp add: spec_pop_def Let_def)
qed

section \<open>Slots\<close>

lemma slot_frame:
  assumes "blit data (i * m) buf = Some data'" and "length buf \<le> m" and "i \<noteq> j" and "k \<le> m"
  shows "take k (drop (j * m) data') = take k (drop (j * m) data)"
proof (rule nth_equalityI)
  have len: "length data' = length data" using assms(1) by (rule length_blit)
  then show "length (take k (drop (j * m) data')) = length (take k (drop (j * m) data))" by simp
  fix t
  assume t: "t < length (take k (drop (j * m) data'))"
  then have at: "j * m + t < length data" using len by auto
  have "j * m + t < i * m \<or> i * m + length buf \<le> j * m + t"
  proof (cases "j < i")
    case True
    then have "j * m + m \<le> i * m" by (metis Suc_leI add.commute mult_Suc mult_le_mono1)
    then show ?thesis using t assms(4) by simp
  next
    case False
    then have "i * m + m \<le> j * m" using assms(3) by (metis Suc_leI add.commute linorder_neqE_nat mult_Suc mult_le_mono1)
    then show ?thesis using assms(2) by simp
  qed
  then have "data' ! (j * m + t) = data ! (j * m + t)"
    using assms(1) nth_blit [OF _ at, of "i * m" buf] by (auto simp: blit_def split: if_splits)
  then show "take k (drop (j * m) data') ! t = take k (drop (j * m) data) ! t"
    using t len at by simp
qed

lemma slot_hit:
  assumes "blit data off buf = Some data'"
  shows "take (length buf) (drop off data') = buf"
  using assms by (auto simp: blit_def split: if_splits)

lemma slot_fits: "i < d \<Longrightarrow> k \<le> m \<Longrightarrow> i * m + k \<le> d * (m :: nat)"
  by (metis Suc_leI add.commute add_le_mono1 le_trans mult_Suc mult_le_mono1)

section \<open>The representation\<close>

text \<open>
  \<open>ns\<close> are the heap's nodes in insertion order, \<open>fs\<close> the free slots in ring order; together they
  are all slots, each once.
\<close>

definition pq_rep :: "pq \<Rightarrow> HeapNode list \<Rightarrow> nat list \<Rightarrow> bool" where
  "pq_rep q ns fs \<longleftrightarrow>
     0 < pq_depth q \<and> length (pq_data q) = pq_depth q * pq_message_size q \<and>
     length (pq_sizes q) = pq_depth q \<and> length (pq_indices q) = pq_depth q \<and>
     mset (heap q) = mset ns \<and>
     sorted_wrt (\<lambda>a b. nd_order a < nd_order b) ns \<and> (\<forall>n \<in> set ns. nd_order n < pq_order q) \<and>
     length ns + length fs = pq_depth q \<and> distinct (map nd_index ns @ fs) \<and>
     (\<forall>i \<in> set (map nd_index ns @ fs). i < pq_depth q) \<and>
     (\<forall>n \<in> set ns. pq_sizes q ! nd_index n \<le> pq_message_size q) \<and>
     start_index q < pq_depth q \<and> stop_index q = (start_index q + length fs) mod pq_depth q \<and>
     (\<forall>j < length fs. pq_indices q ! ((start_index q + j) mod pq_depth q) = fs ! j)"

definition pq_msg :: "pq \<Rightarrow> HeapNode \<Rightarrow> pmsg" where
  "pq_msg q n = (nd_priority n, take (pq_sizes q ! nd_index n) (drop (nd_index n * pq_message_size q) (pq_data q)))"

lemma pq_create_rep:
  assumes "0 < depth" and "0 < msize" and "depth * msize < 2 ^ 64"
  shows "\<exists>q. pq_create depth msize = Some (Inr q) \<and> pq_rep q [] [0..<depth] \<and> pq_depth q = depth \<and>
    pq_message_size q = msize \<and> pq_order q = 0 \<and> high_mark q = 0"
  using assms by (simp add: pq_create_def pq_rep_def)

lemma pq_rep_heap_length: "pq_rep q ns fs \<Longrightarrow> length (heap q) = length ns"
  unfolding pq_rep_def by (metis size_mset)

lemma ring_pos_inject:
  assumes "a < n" and "b < n" and "(s + a) mod n = (s + b) mod (n :: nat)"
  shows "a = b"
proof -
  have "((s mod n) + a) mod n = ((s mod n) + b) mod n" using assms(3) by (simp add: mod_add_left_eq)
  moreover have "s mod n < n" using assms(1) by simp
  ultimately show ?thesis using assms(1,2) by (auto simp: wrapped_index split: if_splits)
qed

lemma pq_send_room:
  assumes rep: "pq_rep q ns fs" and len: "length buffer \<le> pq_message_size q" and room: "length ns < pq_depth q"
    and ord: "unat (pq_order q) + 1 < 2 ^ 64"
  shows "\<exists>q' n. pq_send q buffer priority bt = Some (Done OpOk, q') \<and> pq_rep q' (ns @ [n]) (tl fs) \<and>
    map (pq_msg q') (ns @ [n]) = map (pq_msg q) ns @ [(priority, buffer)] \<and>
    pq_depth q' = pq_depth q \<and> pq_message_size q' = pq_message_size q \<and>
    unat (pq_order q') = unat (pq_order q) + 1 \<and> high_mark q' = max (high_mark q) (length ns + 1)"
proof -
  let ?d = "pq_depth q" and ?m = "pq_message_size q" and ?s = "start_index q"
  obtain f fs' where fs: "fs = f # fs'" using rep room unfolding pq_rep_def by (cases fs) auto
  have idx: "index (pq_indices q) ?s = Some f"
    using rep fs unfolding pq_rep_def by (auto dest: spec [of _ 0])
  have f: "f < ?d" "f \<notin> nd_index ` set ns" "f \<notin> set fs'"
    using rep fs unfolding pq_rep_def by auto
  have "f * ?m + length buffer \<le> ?d * ?m" using f(1) len by (rule slot_fits)
  then obtain data where data: "blit (pq_data q) (f * ?m) buffer = Some data"
    using rep unfolding pq_rep_def by (simp add: blit_def)
  have sizes: "store (pq_sizes q) f (length buffer) = Some ((pq_sizes q)[f := length buffer])"
    using rep f(1) unfolding pq_rep_def by simp
  define n where "n = HeapNode priority (pq_order q) f"
  define q' where "q' = q\<lparr>start_index := (?s + 1) mod ?d, pq_order := pq_order q + 1, heap := n # heap q,
    pq_data := data, pq_sizes := (pq_sizes q)[f := length buffer], high_mark := max (high_mark q) (length ns + 1)\<rparr>"
  have run: "pq_send q buffer priority bt = Some (Done OpOk, q')"
    using len room idx data sizes pq_rep_heap_length [OF rep]
    by (simp add: pq_send_def heap_push_def Let_def n_def q'_def)
  have ord': "unat (pq_order q') = unat (pq_order q) + 1"
    using ord by (simp add: q'_def unat_word_ariths)
  then have lt: "pq_order q < pq_order q'" by (simp add: word_less_nat_alt)
  have ring: "pq_indices q' ! ((start_index q' + j) mod ?d) = fs' ! j" if "j < length fs'" for j
  proof -
    have "pq_indices q ! ((?s + Suc j) mod ?d) = fs ! Suc j"
      using rep fs that unfolding pq_rep_def by auto
    then show ?thesis using fs by (simp add: q'_def mod_add_left_eq)
  qed
  have stop: "stop_index q' = (start_index q' + length fs') mod ?d"
    using rep fs unfolding pq_rep_def by (simp add: q'_def mod_add_left_eq)
  have msgs: "pq_msg q' x = pq_msg q x" if "x \<in> set ns" for x
  proof -
    have "nd_index x \<noteq> f" using f(2) that by auto
    moreover have "pq_sizes q ! nd_index x \<le> ?m" using rep that unfolding pq_rep_def by auto
    ultimately show ?thesis
      using slot_frame [OF data len, of "nd_index x"] by (simp add: pq_msg_def q'_def)
  qed
  have last: "pq_msg q' n = (priority, buffer)"
    using slot_hit [OF data] rep f(1) unfolding pq_rep_def by (simp add: pq_msg_def n_def q'_def)
  have rep': "pq_rep q' (ns @ [n]) fs'"
    using rep fs f lt ring stop len length_blit [OF data] less_trans [OF _ lt] unfolding pq_rep_def
    by (auto simp: q'_def n_def sorted_wrt_append nth_list_update)
  show ?thesis
    using run rep' msgs last ord' fs
    by (intro exI [of _ q'] exI [of _ n]) (auto simp: q'_def)
qed

lemma heap_pop_max:
  assumes "h \<noteq> []"
  shows "\<exists>m. heap_pop h = Some (m, remove1 m h) \<and> m \<in> set h \<and> (\<forall>x \<in> set h. x \<le> m)"
proof -
  obtain x xs where h: "h = x # xs" using assms by (cases h) auto
  then have "heap_pop h = Some (Max (set h), remove1 (Max (set h)) h)"
    using Max.set_eq_fold [of x xs] by (simp add: Let_def)
  moreover have "Max (set h) \<in> set h" using assms by (intro Max_in) auto
  ultimately show ?thesis by auto
qed

text \<open>The popped node is the oldest of the highest priority.\<close>

lemma heap_pop_rep:
  assumes "mset h = mset ns" and "sorted_wrt (\<lambda>a b. nd_order a < nd_order b) ns" and "ns \<noteq> []"
  shows "\<exists>as n bs h'. ns = as @ n # bs \<and> heap_pop h = Some (n, h') \<and> mset h' = mset (as @ bs) \<and>
    (\<forall>a \<in> set as. nd_priority a < nd_priority n) \<and> (\<forall>b \<in> set bs. nd_priority b \<le> nd_priority n)"
proof -
  have "h \<noteq> []" using assms(1,3) by auto
  then obtain n where n: "heap_pop h = Some (n, remove1 n h)" "n \<in> set h" "\<forall>x \<in> set h. x \<le> n"
    using heap_pop_max by blast
  have set: "set h = set ns" using assms(1) by (rule mset_eq_setD)
  then obtain as bs where ns: "ns = as @ n # bs" using n(2) by (metis split_list)
  have "nd_priority a < nd_priority n" if "a \<in> set as" for a
    using n(3) set ns that assms(2) by (fastforce simp: less_eq_HeapNode_def node_le_def sorted_wrt_append)
  moreover have "nd_priority b \<le> nd_priority n" if "b \<in> set bs" for b
    using n(3) set ns that by (fastforce simp: less_eq_HeapNode_def node_le_def)
  moreover have "mset (remove1 n h) = mset (as @ bs)" using assms(1) ns by simp
  ultimately show ?thesis using n(1) ns by blast
qed

lemma pq_receive_some:
  assumes rep: "pq_rep q ns fs" and ne: "ns \<noteq> []" and len: "pq_message_size q \<le> length destination"
  shows "\<exists>q' as n bs. ns = as @ n # bs \<and>
    pq_receive q destination bt actual priority = Some (Done OpOk,
      (snd (pq_msg q n) @ drop (length (snd (pq_msg q n))) destination, of_nat (length (snd (pq_msg q n))), fst (pq_msg q n)), q') \<and>
    (\<forall>a \<in> set as. nd_priority a < nd_priority n) \<and> (\<forall>b \<in> set bs. nd_priority b \<le> nd_priority n) \<and>
    pq_rep q' (as @ bs) (fs @ [nd_index n]) \<and> map (pq_msg q') (as @ bs) = map (pq_msg q) (as @ bs) \<and>
    pq_depth q' = pq_depth q \<and> pq_message_size q' = pq_message_size q \<and> pq_order q' = pq_order q \<and>
    high_mark q' = high_mark q"
proof -
  let ?d = "pq_depth q" and ?m = "pq_message_size q"
  obtain as n bs h' where pop: "ns = as @ n # bs" "heap_pop (heap q) = Some (n, h')" "mset h' = mset (as @ bs)"
      "\<forall>a \<in> set as. nd_priority a < nd_priority n" "\<forall>b \<in> set bs. nd_priority b \<le> nd_priority n"
    using heap_pop_rep [of "heap q" ns] rep ne unfolding pq_rep_def by blast
  let ?i = "nd_index n"
  have i: "?i < ?d" "pq_sizes q ! ?i \<le> ?m" using rep pop(1) unfolding pq_rep_def by auto
  have fits: "?i * ?m + pq_sizes q ! ?i \<le> length (pq_data q)"
    using slot_fits [OF i] rep unfolding pq_rep_def by simp
  have msg: "snd (pq_msg q n) = take (pq_sizes q ! ?i) (drop (?i * ?m) (pq_data q))"
    and msg_len: "length (snd (pq_msg q n)) = pq_sizes q ! ?i"
    using fits by (auto simp: pq_msg_def)
  have stop: "stop_index q < length (pq_indices q)" using rep unfolding pq_rep_def by simp
  define q' where "q' = q\<lparr>heap := h', pq_indices := (pq_indices q)[stop_index q := ?i],
    stop_index := (stop_index q + 1) mod ?d\<rparr>"
  have run: "pq_receive q destination bt actual priority = Some (Done OpOk,
      (snd (pq_msg q n) @ drop (length (snd (pq_msg q n))) destination, of_nat (length (snd (pq_msg q n))), fst (pq_msg q n)), q')"
    using pop(2) i fits len stop msg msg_len rep unfolding pq_rep_def
    by (simp add: pq_receive_def q'_def pq_msg_def Let_def)
  have ring: "pq_indices q' ! ((start_index q + j) mod ?d) = (fs @ [?i]) ! j" if "j < length (fs @ [?i])" for j
  proof (cases "j = length fs")
    case True
    then show ?thesis using rep stop unfolding pq_rep_def by (simp add: q'_def)
  next
    case False
    have "length fs < ?d" using rep pop(1) unfolding pq_rep_def by auto
    then have "(start_index q + j) mod ?d \<noteq> stop_index q"
      using ring_pos_inject [of j ?d "length fs" "start_index q"] rep False that unfolding pq_rep_def by auto
    then show ?thesis using rep False that unfolding pq_rep_def by (simp add: q'_def nth_append)
  qed
  have rep': "pq_rep q' (as @ bs) (fs @ [?i])"
    using rep pop(1,3) ring unfolding pq_rep_def
    by (auto simp: q'_def sorted_wrt_append mod_Suc_eq)
  show ?thesis
    using pop(1,4,5) run rep' by (intro exI [of _ q'] exI [of _ as] exI [of _ n] exI [of _ bs])
      (auto simp: q'_def pq_msg_def)
qed

section \<open>The delegate contract\<close>

text \<open>
  \<open>repr depth msize d k ms hw\<close>: the delegate \<open>d\<close> holds the messages \<open>ms\<close>, has accepted at most \<open>k\<close>
  messages so far and has high-water mark \<open>hw\<close>.
\<close>

datatype os_op =
    OsSend "u8 list" u8 BlockingType
  | OsReceive "u8 list" BlockingType u64 u8
  | OsCounts

datatype os_out =
    Sent outcome
  | Received outcome "u8 list \<times> u64 \<times> u8"
  | Counts u64 u64

fun spec_os_step :: "nat \<Rightarrow> nat \<Rightarrow> pmsg list \<times> nat \<Rightarrow> os_op \<Rightarrow> os_out \<times> pmsg list \<times> nat" where
  "spec_os_step depth msize (ms, hw) (OsSend b p bt) =
     (let (out, ms') = spec_send depth msize ms b p bt in (Sent out, ms', max hw (length ms')))"
| "spec_os_step depth msize (ms, hw) (OsReceive d bt a p) =
     (if length d < msize then (Received (Done SizeMismatch) (d, a, p), ms, hw)
      else let (out, res, ms') = spec_receive ms d bt a p in (Received out res, ms', hw))"
| "spec_os_step depth msize (ms, hw) OsCounts = (Counts (of_nat (length ms)) (of_nat hw), ms, hw)"

fun spec_os_run :: "nat \<Rightarrow> nat \<Rightarrow> pmsg list \<times> nat \<Rightarrow> os_op list \<Rightarrow> os_out list \<times> pmsg list \<times> nat" where
  "spec_os_run depth msize s [] = ([], s)"
| "spec_os_run depth msize s (op # ops) =
     (let (out, s) = spec_os_step depth msize s op; (outs, s) = spec_os_run depth msize s ops in (out # outs, s))"

fun os_step ::
  "('d \<Rightarrow> u8 list \<Rightarrow> u8 \<Rightarrow> BlockingType \<Rightarrow> (outcome \<times> 'd) option)
    \<Rightarrow> ('d \<Rightarrow> u8 list \<Rightarrow> BlockingType \<Rightarrow> u64 \<Rightarrow> u8 \<Rightarrow> (outcome \<times> (u8 list \<times> u64 \<times> u8) \<times> 'd) option)
    \<Rightarrow> ('d \<Rightarrow> u64) \<Rightarrow> ('d \<Rightarrow> u64) \<Rightarrow> 'd os_queue \<Rightarrow> os_op \<Rightarrow> (os_out \<times> 'd os_queue) option" where
  "os_step tx rx av hi q (OsSend b p bt) = do { (out, q) \<leftarrow> os_send tx q b p bt; Some (Sent out, q) }"
| "os_step tx rx av hi q (OsReceive d bt a p) =
     do { (out, res, q) \<leftarrow> os_receive rx q d bt a p; Some (Received out res, q) }"
| "os_step tx rx av hi q OsCounts = Some (Counts (os_messages_available av q) (os_high_water_mark hi q), q)"

fun os_run ::
  "('d \<Rightarrow> u8 list \<Rightarrow> u8 \<Rightarrow> BlockingType \<Rightarrow> (outcome \<times> 'd) option)
    \<Rightarrow> ('d \<Rightarrow> u8 list \<Rightarrow> BlockingType \<Rightarrow> u64 \<Rightarrow> u8 \<Rightarrow> (outcome \<times> (u8 list \<times> u64 \<times> u8) \<times> 'd) option)
    \<Rightarrow> ('d \<Rightarrow> u64) \<Rightarrow> ('d \<Rightarrow> u64) \<Rightarrow> 'd os_queue \<Rightarrow> os_op list \<Rightarrow> (os_out list \<times> 'd os_queue) option" where
  "os_run tx rx av hi q [] = Some ([], q)"
| "os_run tx rx av hi q (op # ops) =
     do { (out, q) \<leftarrow> os_step tx rx av hi q op;
          (outs, q) \<leftarrow> os_run tx rx av hi q ops;
          Some (out # outs, q) }"

locale queue_delegate =
  fixes d_send :: "'d \<Rightarrow> u8 list \<Rightarrow> u8 \<Rightarrow> BlockingType \<Rightarrow> (outcome \<times> 'd) option"
    and d_receive :: "'d \<Rightarrow> u8 list \<Rightarrow> BlockingType \<Rightarrow> u64 \<Rightarrow> u8 \<Rightarrow> (outcome \<times> (u8 list \<times> u64 \<times> u8) \<times> 'd) option"
    and d_available :: "'d \<Rightarrow> u64"
    and d_high :: "'d \<Rightarrow> u64"
    and repr :: "nat \<Rightarrow> nat \<Rightarrow> 'd \<Rightarrow> nat \<Rightarrow> pmsg list \<Rightarrow> nat \<Rightarrow> bool"
  assumes send_spec: "repr depth msize d k ms hw \<Longrightarrow> k + 1 < 2 ^ 64 \<Longrightarrow>
      spec_send depth msize ms b p bt = (out, ms') \<Longrightarrow>
      \<exists>d'. d_send d b p bt = Some (out, d') \<and> repr depth msize d' (k + 1) ms' (max hw (length ms'))"
    and receive_spec: "repr depth msize d k ms hw \<Longrightarrow> msize \<le> length dst \<Longrightarrow>
      spec_receive ms dst bt a p = (out, res, ms') \<Longrightarrow>
      \<exists>d'. d_receive d dst bt a p = Some (out, res, d') \<and> repr depth msize d' k ms' hw"
    and repr_mono: "repr depth msize d k ms hw \<Longrightarrow> k \<le> k' \<Longrightarrow> repr depth msize d k' ms hw"
    and counts_spec: "repr depth msize d k ms hw \<Longrightarrow>
      d_available d = of_nat (length ms) \<and> d_high d = of_nat hw \<and> length ms \<le> hw"
begin

definition facade_rep :: "nat \<Rightarrow> nat \<Rightarrow> 'd os_queue \<Rightarrow> nat \<Rightarrow> pmsg list \<times> nat \<Rightarrow> bool" where
  "facade_rep depth msize q k s \<longleftrightarrow> (\<exists>c. q = Some c \<and> os_depth c = depth \<and> os_message_size c = msize \<and>
     repr depth msize (delegate c) k (fst s) (snd s))"

lemma facade_step:
  assumes rep: "facade_rep depth msize q k s" and k: "k + 1 < 2 ^ 64"
    and step: "spec_os_step depth msize s op = (out, s')"
  shows "\<exists>q'. os_step d_send d_receive d_available d_high q op = Some (out, q') \<and>
    facade_rep depth msize q' (k + 1) s'"
proof -
  obtain ms hw where s: "s = (ms, hw)" by (cases s)
  obtain c where c: "q = Some c" "os_depth c = depth" "os_message_size c = msize"
      "repr depth msize (delegate c) k ms hw"
    using rep s by (auto simp: facade_rep_def)
  note counts = counts_spec [OF c(4)]
  note later = repr_mono [OF c(4), of "k + 1"]
  show ?thesis
  proof (cases op)
    case (OsSend b p bt)
    obtain o' ms' where sp: "spec_send depth msize ms b p bt = (o', ms')" by fastforce
    show ?thesis
    proof (cases "length b > msize")
      case True
      then show ?thesis using OsSend sp step s c later counts by (auto simp: os_send_def facade_rep_def)
    next
      case False
      with send_spec [OF c(4) k sp] show ?thesis
        using OsSend sp step s c by (auto simp: os_send_def facade_rep_def simp del: spec_send.simps)
    qed
  next
    case (OsReceive d bt a p)
    obtain o' res ms' where sp: "spec_receive ms d bt a p = (o', res, ms')" by (metis prod_cases3)
    show ?thesis
    proof (cases "length d < msize")
      case True
      then show ?thesis using OsReceive step s c later by (auto simp: os_receive_def facade_rep_def)
    next
      case False
      then obtain d' where "d_receive (delegate c) d bt a p = Some (o', res, d')" "repr depth msize d' (k + 1) ms' hw"
        using receive_spec [OF c(4) _ sp] repr_mono by fastforce
      then show ?thesis
        using OsReceive sp step s c False by (auto simp: os_receive_def facade_rep_def simp del: spec_receive.simps)
    qed
  next
    case OsCounts
    then show ?thesis using step s c counts later
      by (auto simp: os_messages_available_def os_high_water_mark_def facade_rep_def)
  qed
qed

lemma facade_run:
  assumes "facade_rep depth msize q k s" and "k + length ops < 2 ^ 64"
    and "spec_os_run depth msize s ops = (outs, s')"
  shows "\<exists>q'. os_run d_send d_receive d_available d_high q ops = Some (outs, q') \<and>
    facade_rep depth msize q' (k + length ops) s'"
  using assms
proof (induction ops arbitrary: q k s outs s')
  case Nil
  then show ?case by simp
next
  case (Cons op ops)
  obtain o1 s1 where step: "spec_os_step depth msize s op = (o1, s1)" by (cases "spec_os_step depth msize s op")
  obtain os s2 where run: "spec_os_run depth msize s1 ops = (os, s2)" by (cases "spec_os_run depth msize s1 ops")
  have outs: "outs = o1 # os" "s' = s2" using Cons.prems(3) step run by simp_all
  have "k + 1 < 2 ^ 64 \<or> ops = []" using Cons.prems(2) by (cases ops) auto
  obtain q1 where q1: "os_step d_send d_receive d_available d_high q op = Some (o1, q1)"
      "facade_rep depth msize q1 (k + 1) s1"
    using facade_step [OF Cons.prems(1) _ step] Cons.prems(2) by auto
  from Cons.IH [OF q1(2) _ run] Cons.prems(2) obtain q2 where
    "os_run d_send d_receive d_available d_high q1 ops = Some (os, q2)"
    "facade_rep depth msize q2 (k + 1 + length ops) s2" by auto
  with q1(1) outs show ?case by simp
qed

end

definition pq_repr :: "nat \<Rightarrow> nat \<Rightarrow> pq \<Rightarrow> nat \<Rightarrow> pmsg list \<Rightarrow> nat \<Rightarrow> bool" where
  "pq_repr depth msize q k ms hw \<longleftrightarrow> (\<exists>ns fs. pq_rep q ns fs \<and> pq_depth q = depth \<and> pq_message_size q = msize \<and>
     ms = map (pq_msg q) ns \<and> unat (pq_order q) \<le> k \<and> high_mark q = hw \<and> length ms \<le> hw)"

lemma pq_send_spec:
  assumes "pq_repr depth msize q k ms hw" and "k + 1 < 2 ^ 64" and "spec_send depth msize ms b p bt = (out, ms')"
  shows "\<exists>q'. pq_send q b p bt = Some (out, q') \<and> pq_repr depth msize q' (k + 1) ms' (max hw (length ms'))"
proof -
  obtain ns fs where rep: "pq_rep q ns fs" "pq_depth q = depth" "pq_message_size q = msize" "ms = map (pq_msg q) ns"
      "unat (pq_order q) \<le> k" "high_mark q = hw" "length ms \<le> hw"
    using assms(1) by (auto simp: pq_repr_def)
  show ?thesis
  proof (cases "length b \<le> msize \<and> length ms < depth")
    case True
    have "unat (pq_order q) + 1 < 2 ^ 64" using rep(5) assms(2) by simp
    with pq_send_room [OF rep(1), of b p bt] True rep
    obtain q' n where "pq_send q b p bt = Some (Done OpOk, q')" "pq_rep q' (ns @ [n]) (tl fs)"
        "map (pq_msg q') (ns @ [n]) = ms @ [(p, b)]" "pq_depth q' = depth" "pq_message_size q' = msize"
        "unat (pq_order q') = unat (pq_order q) + 1" "high_mark q' = max hw (length ns + 1)"
      by auto
    moreover have "out = Done OpOk" "ms' = ms @ [(p, b)]" using assms(3) True by (auto split: if_splits)
    ultimately show ?thesis using rep(4,5)
      by (auto simp: pq_repr_def intro!: exI [of _ "ns @ [n]"] exI [of _ "tl fs"])
  next
    case False
    then have "ms' = ms" "pq_send q b p bt = Some (out, q)"
      using assms(3) rep pq_rep_heap_length [OF rep(1)] by (auto simp: pq_send_def split: if_splits)
    moreover have "max hw (length ms) = hw" using rep(7) by simp
    moreover have "pq_repr depth msize q (k + 1) ms hw" using assms(1) by (fastforce simp: pq_repr_def)
    ultimately show ?thesis by simp
  qed
qed

lemma pq_receive_spec:
  assumes "pq_repr depth msize q k ms hw" and "msize \<le> length d" and "spec_receive ms d bt a p = (out, res, ms')"
  shows "\<exists>q'. pq_receive q d bt a p = Some (out, res, q') \<and> pq_repr depth msize q' k ms' hw"
proof -
  obtain ns fs where rep: "pq_rep q ns fs" "pq_depth q = depth" "pq_message_size q = msize" "ms = map (pq_msg q) ns"
      "unat (pq_order q) \<le> k" "high_mark q = hw" "length ms \<le> hw"
    using assms(1) by (auto simp: pq_repr_def)
  show ?thesis
  proof (cases "ns = []")
    case True
    then have "heap q = []" using pq_rep_heap_length [OF rep(1)] by simp
    with True assms rep(4) show ?thesis by (auto simp: pq_receive_def)
  next
    case False
    from pq_receive_some [OF rep(1) this, of d bt a p] assms(2) rep(3)
    obtain q' as n bs where q': "ns = as @ n # bs"
        "pq_receive q d bt a p = Some (Done OpOk, (snd (pq_msg q n) @ drop (length (snd (pq_msg q n))) d,
          of_nat (length (snd (pq_msg q n))), fst (pq_msg q n)), q')"
        "\<forall>a \<in> set as. nd_priority a < nd_priority n" "\<forall>b \<in> set bs. nd_priority b \<le> nd_priority n"
        "pq_rep q' (as @ bs) (fs @ [nd_index n])" "map (pq_msg q') (as @ bs) = map (pq_msg q) (as @ bs)"
        "pq_depth q' = depth" "pq_message_size q' = msize" "pq_order q' = pq_order q" "high_mark q' = hw"
      using rep by auto
    have n: "(nd_priority n, snd (pq_msg q n)) = pq_msg q n" by (simp add: pq_msg_def)
    have "ms = map (pq_msg q) as @ (nd_priority n, snd (pq_msg q n)) # map (pq_msg q) bs"
      unfolding n using q'(1) rep(4) by simp
    moreover have "spec_pop (map (pq_msg q) as @ (nd_priority n, snd (pq_msg q n)) # map (pq_msg q) bs) =
        ((nd_priority n, snd (pq_msg q n)), map (pq_msg q) as @ map (pq_msg q) bs)"
      by (rule spec_pop_split) (use q'(3,4) in \<open>auto simp: pq_msg_def\<close>)
    ultimately have "spec_pop ms = (pq_msg q n, map (pq_msg q) (as @ bs))" unfolding n by simp
    moreover have "ms \<noteq> []" using False rep(4) by simp
    ultimately have "out = Done OpOk" "res = (snd (pq_msg q n) @ drop (length (snd (pq_msg q n))) d,
          of_nat (length (snd (pq_msg q n))), fst (pq_msg q n))" "ms' = map (pq_msg q) (as @ bs)"
      using assms(3) by (auto simp: split_beta)
    with q' rep(4,5,7) show ?thesis
      by (auto simp: pq_repr_def intro!: exI [of _ "as @ bs"] exI [of _ "fs @ [nd_index n]"])
  qed
qed

interpretation prio: queue_delegate pq_send pq_receive pq_messages_available pq_high_water_mark pq_repr
proof
  fix depth msize d k k' ms hw
  assume "pq_repr depth msize d k ms hw" and "k \<le> k'"
  then show "pq_repr depth msize d k' ms hw" by (fastforce simp: pq_repr_def)
next
  fix depth msize d k ms hw
  assume "pq_repr depth msize d k ms hw"
  then show "pq_messages_available d = of_nat (length ms) \<and> pq_high_water_mark d = of_nat hw \<and> length ms \<le> hw"
    by (auto simp: pq_repr_def pq_messages_available_def pq_high_water_mark_def pq_rep_heap_length)
qed (fact pq_send_spec, fact pq_receive_spec)

lemma os_create_rep:
  assumes "os_create pq_create os_queue_new depth msize = Some (st, q)"
  shows "st = OpOk" and "prio.facade_rep depth msize q 0 ([], 0)"
proof -
  have pos: "0 < depth" "0 < msize" using assms by (auto simp: os_create_def split: if_splits)
  then have "depth * msize < 2 ^ 64"
    using assms by (auto simp: os_create_def os_queue_new_def pq_create_def split: if_splits)
  from pq_create_rep [OF pos this] obtain d where d: "pq_create depth msize = Some (Inr d)" "pq_rep d [] [0..<depth]"
      "pq_depth d = depth" "pq_message_size d = msize" "pq_order d = 0" "high_mark d = 0" by blast
  have "pq_repr depth msize d 0 [] 0"
    using d unfolding pq_repr_def by (intro exI [of _ "[]"] exI [of _ "[0..<depth]"]) simp
  then show "st = OpOk" "prio.facade_rep depth msize q 0 ([], 0)"
    using assms pos d(1) by (auto simp: os_create_def os_queue_new_def prio.facade_rep_def)
qed

section \<open>Conservation of messages\<close>

fun sent_msgs :: "os_op list \<Rightarrow> os_out list \<Rightarrow> pmsg list" where
  "sent_msgs (OsSend b p bt # ops) (Sent out # outs) =
     (if out = Done OpOk then [(p, b)] else []) @ sent_msgs ops outs"
| "sent_msgs (op # ops) (out # outs) = sent_msgs ops outs"
| "sent_msgs _ _ = []"

fun received_msgs :: "os_out list \<Rightarrow> pmsg list" where
  "received_msgs [] = []"
| "received_msgs (Received out (d, n, p) # outs) =
     (if out = Done OpOk then [(p, take (unat n) d)] else []) @ received_msgs outs"
| "received_msgs (out # outs) = received_msgs outs"

lemma spec_pop_mset:
  assumes "ms \<noteq> []"
  shows "add_mset (fst (spec_pop ms)) (mset (snd (spec_pop ms))) = mset ms"
proof -
  let ?lower = "\<lambda>m. fst m \<noteq> Max (fst ` set ms)"
  have "Max (fst ` set ms) \<in> fst ` set ms" using assms by (intro Max_in) auto
  then obtain m where "m \<in> set ms" "\<not> ?lower m" by auto
  then have "dropWhile ?lower ms \<noteq> []" by (auto simp: dropWhile_eq_Nil_conv)
  then have "ms = takeWhile ?lower ms @ hd (dropWhile ?lower ms) # tl (dropWhile ?lower ms)" by simp
  then have "mset ms = mset (takeWhile ?lower ms @ hd (dropWhile ?lower ms) # tl (dropWhile ?lower ms))" by simp
  then show ?thesis by (simp add: spec_pop_def Let_def)
qed

lemma spec_step_conserves:
  assumes "spec_os_step depth msize (ms, hw) op = (out, ms', hw')" and "msize < 2 ^ 64"
    and "\<forall>m \<in> set ms. length (snd m) \<le> msize"
  shows "mset (sent_msgs (op # ops) (out # outs)) + mset ms + mset (received_msgs outs) =
      mset (sent_msgs ops outs) + mset (received_msgs (out # outs)) + mset ms'"
    and "\<forall>m \<in> set ms'. length (snd m) \<le> msize"
proof -
  have pop: "fst (spec_pop ms) \<in> set ms" "set (snd (spec_pop ms)) \<subseteq> set ms" if "ms \<noteq> []"
    using arg_cong [OF spec_pop_mset [OF that], of set_mset] by auto
  have len: "unat (of_nat (length (snd (fst (spec_pop ms)))) :: u64) = length (snd (fst (spec_pop ms)))" if "ms \<noteq> []"
  proof -
    have "length (snd (fst (spec_pop ms))) < 2 ^ 64" using pop(1) [OF that] assms(2,3) by (meson le_less_trans)
    then show ?thesis by (simp add: unat_of_nat)
  qed
  show "mset (sent_msgs (op # ops) (out # outs)) + mset ms + mset (received_msgs outs) =
      mset (sent_msgs ops outs) + mset (received_msgs (out # outs)) + mset ms'"
  proof (cases op)
    case (OsReceive d bt a p)
    show ?thesis
    proof (cases "length d < msize \<or> ms = []")
      case True
      then show ?thesis using OsReceive assms(1) by (auto split: if_splits)
    next
      case False
      then have "mset ms = add_mset (fst (spec_pop ms)) (mset ms')" "received_msgs (out # outs) = fst (spec_pop ms) # received_msgs outs"
          "sent_msgs (op # ops) (out # outs) = sent_msgs ops outs"
        using OsReceive assms(1) spec_pop_mset [of ms] len by (auto simp: Let_def split_beta)
      then show ?thesis by simp
    qed
  qed (use assms(1) in \<open>auto split: if_splits\<close>)
  show "\<forall>m \<in> set ms'. length (snd m) \<le> msize"
    using assms(1,3) pop(2) by (cases op) (auto simp: Let_def split_beta split: if_splits)
qed

lemma spec_run_conserves:
  assumes "spec_os_run depth msize (ms, hw) ops = (outs, ms', hw')" and "msize < 2 ^ 64"
    and "\<forall>m \<in> set ms. length (snd m) \<le> msize"
  shows "mset (sent_msgs ops outs) + mset ms = mset (received_msgs outs) + mset ms'"
  using assms
proof (induction ops arbitrary: ms hw outs)
  case Nil
  then show ?case by simp
next
  case (Cons op ops)
  obtain o1 ms1 hw1 where step: "spec_os_step depth msize (ms, hw) op = (o1, ms1, hw1)"
    by (cases "spec_os_step depth msize (ms, hw) op") auto
  obtain os s2 where run: "spec_os_run depth msize (ms1, hw1) ops = (os, s2)"
    by (cases "spec_os_run depth msize (ms1, hw1) ops")
  have outs: "outs = o1 # os" "s2 = (ms', hw')" using Cons.prems(1) step run by auto
  note one = spec_step_conserves [OF step Cons.prems(2,3)]
  have ih: "mset (sent_msgs ops os) + mset ms1 = mset (received_msgs os) + mset ms'"
    using Cons.IH [OF run [unfolded outs(2)] Cons.prems(2) one(2)] .
  have "mset (sent_msgs (op # ops) outs) + mset ms + mset (received_msgs os) =
      mset (received_msgs outs) + (mset (sent_msgs ops os) + mset ms1)"
    using one(1) [of ops os] unfolding outs(1) by (simp only: ac_simps)
  also have "\<dots> = mset (received_msgs outs) + mset ms' + mset (received_msgs os)"
    unfolding ih by (simp only: ac_simps)
  finally show ?case by simp
qed

text \<open>
  C15.  The message queue delivers by priority and, within one priority, in order of arrival: for every
  interleaving of sends, receives (blocking or not) and counter reads by any number of threads, every
  status, every received message with its size and priority, and both counters are those of the
  abstract bounded queue, from which a receive takes the oldest message of the highest priority; no
  call panics.
\<close>

theorem os_queue_refines:
  assumes "os_create pq_create os_queue_new depth msize = Some (st, q)" and "length ops < 2 ^ 64"
  shows "\<exists>q'. os_run pq_send pq_receive pq_messages_available pq_high_water_mark q ops =
    Some (fst (spec_os_run depth msize ([], 0) ops), q')"
proof -
  obtain outs s' where sp: "spec_os_run depth msize ([], 0) ops = (outs, s')"
    by (cases "spec_os_run depth msize ([], 0) ops")
  from prio.facade_run [OF os_create_rep(2) [OF assms(1)] _ sp] assms(2) sp show ?thesis by auto
qed

theorem os_queue_refines_witness:
  "\<exists>q q'. os_create pq_create os_queue_new 2 4 = Some (OpOk, q) \<and>
    os_run pq_send pq_receive pq_messages_available pq_high_water_mark q
      [OsSend [1] 5 NonBlocking, OsSend [2] 9 Blocking, OsSend [3] 9 Blocking, OsReceive [0,0,0,0] Blocking 0 0] =
    Some ([Sent (Done OpOk), Sent (Done OpOk), Sent Blocked, Received (Done OpOk) ([2,0,0,0], 1, 9)], q')"
proof -
  obtain q where q: "os_create pq_create os_queue_new 2 4 = Some (OpOk, q)"
    by (simp add: os_create_def os_queue_new_def pq_create_def)
  show ?thesis
    using os_queue_refines [OF q, of "[OsSend [1] 5 NonBlocking, OsSend [2] 9 Blocking, OsSend [3] 9 Blocking,
      OsReceive [0,0,0,0] Blocking 0 0]"] q
    by (simp add: spec_pop_def)
qed

text \<open>
  C16.  No message is lost, duplicated or invented: over every interleaving the messages accepted are,
  as a multiset of priority and content, exactly the messages received plus those still queued, and
  the queue reports the number of the latter, which never exceeds its depth.
\<close>

theorem os_queue_conserves:
  assumes "os_create pq_create os_queue_new depth msize = Some (st, q)" and "length ops < 2 ^ 64"
  shows "\<exists>outs q' rest. os_run pq_send pq_receive pq_messages_available pq_high_water_mark q ops = Some (outs, q') \<and>
    mset (sent_msgs ops outs) = mset (received_msgs outs) + mset rest \<and> length rest \<le> depth \<and>
    os_messages_available pq_messages_available q' = of_nat (length rest)"
proof -
  obtain outs ms hw where sp: "spec_os_run depth msize ([], 0) ops = (outs, ms, hw)"
    by (cases "spec_os_run depth msize ([], 0) ops") auto
  from prio.facade_run [OF os_create_rep(2) [OF assms(1)] _ sp] assms(2)
  obtain q' where q': "os_run pq_send pq_receive pq_messages_available pq_high_water_mark q ops = Some (outs, q')"
      "prio.facade_rep depth msize q' (length ops) (ms, hw)" by auto
  have "depth * msize < 2 ^ 64" "0 < depth"
    using assms(1) by (auto simp: os_create_def os_queue_new_def pq_create_def split: if_splits)
  then have "msize < 2 ^ 64" by (metis le_less_trans mult_le_mono1 Suc_leI mult_1 One_nat_def)
  from spec_run_conserves [OF sp this] have "mset (sent_msgs ops outs) = mset (received_msgs outs) + mset ms" by simp
  moreover obtain c where c: "q' = Some c" "pq_repr depth msize (delegate c) (length ops) ms hw"
    using q'(2) by (auto simp: prio.facade_rep_def)
  then have "length ms \<le> depth" by (auto simp: pq_repr_def pq_rep_def)
  moreover have "os_messages_available pq_messages_available q' = of_nat (length ms)"
    using c prio.counts_spec [OF c(2)] by (simp add: os_messages_available_def)
  ultimately show ?thesis using q'(1) by blast
qed

theorem os_queue_conserves_witness:
  "\<exists>q outs q' rest. os_create pq_create os_queue_new 2 4 = Some (OpOk, q) \<and>
    os_run pq_send pq_receive pq_messages_available pq_high_water_mark q
      [OsSend [1] 5 NonBlocking, OsReceive [0,0,0,0] Blocking 0 0] = Some (outs, q') \<and>
    mset (sent_msgs [OsSend [1] 5 NonBlocking, OsReceive [0,0,0,0] Blocking 0 0] outs) =
      mset (received_msgs outs) + mset rest \<and> length rest \<le> 2 \<and>
    os_messages_available pq_messages_available q' = of_nat (length rest)"
proof -
  obtain q where q: "os_create pq_create os_queue_new 2 4 = Some (OpOk, q)"
    by (simp add: os_create_def os_queue_new_def pq_create_def)
  from os_queue_conserves [OF q, of "[OsSend [1] 5 NonBlocking, OsReceive [0,0,0,0] Blocking 0 0]"] q
  show ?thesis by (auto simp del: os_run.simps)
qed

end
