(* ===== verification/Fw_Buffer.thy ===== *)
theory Fw_Buffer
  imports Fw_Enums
begin

text \<open>
  The owned data buffer (\<open>fprime-fw/src/buffer.rs\<close>), a window into a fixed storage, and the frame
  context that travels with it through the communication stack (\<open>fprime-fw/src/com.rs\<close>).
\<close>

section \<open>Buffers\<close>

record fw_buffer =
  storage :: "u8 list"
  offset :: nat
  bsize :: nat
  buf_context :: u32

definition NO_CONTEXT :: u32 where "NO_CONTEXT = 0xFFFFFFFF"

definition buffer_empty :: fw_buffer where
  "buffer_empty = \<lparr>storage = [], offset = 0, bsize = 0, buf_context = NO_CONTEXT\<rparr>"

definition from_storage :: "u8 list \<Rightarrow> u32 \<Rightarrow> fw_buffer" where
  "from_storage st ctx = \<lparr>storage = st, offset = 0, bsize = length st, buf_context = ctx\<rparr>"

definition buffer_allocate :: "nat \<Rightarrow> fw_buffer" where
  "buffer_allocate n = from_storage (replicate n 0) NO_CONTEXT"

definition is_valid :: "fw_buffer \<Rightarrow> bool" where
  "is_valid b \<longleftrightarrow> storage b \<noteq> [] \<and> bsize b > 0"

definition buffer_capacity :: "fw_buffer \<Rightarrow> nat" where
  "buffer_capacity b = length (storage b)"

definition set_context :: "fw_buffer \<Rightarrow> u32 \<Rightarrow> fw_buffer" where
  "set_context b ctx = b\<lparr>buf_context := ctx\<rparr>"

text \<open>\<open>FwSignedSizeType\<close> is \<open>i64\<close>; the amount is taken as an integer.\<close>

definition advance :: "fw_buffer \<Rightarrow> int \<Rightarrow> fw_buffer option" where
  "advance b amount =
     do { fw_assert (storage b \<noteq> []);
          b \<leftarrow>
            (if amount < 0
             then do { let back = nat (- amount);
                       fw_assert (offset b \<ge> back);
                       off \<leftarrow> usub (offset b) back;
                       Some (b\<lparr>offset := off, bsize := bsize b + back\<rparr>) }
             else do { let fwd = nat amount;
                       fw_assert (fwd \<le> bsize b);
                       sz \<leftarrow> usub (bsize b) fwd;
                       Some (b\<lparr>offset := offset b + fwd, bsize := sz\<rparr>) });
          fw_assert (offset b + bsize b \<le> buffer_capacity b);
          Some b }"

definition set_size :: "fw_buffer \<Rightarrow> nat \<Rightarrow> fw_buffer option" where
  "set_size b n = do { fw_assert (offset b + n \<le> buffer_capacity b); Some (b\<lparr>bsize := n\<rparr>) }"

definition buffer_data :: "fw_buffer \<Rightarrow> u8 list option" where
  "buffer_data b = slice (storage b) (offset b) (offset b + bsize b)"

text \<open>Writing the window back after it was changed through \<open>data_mut\<close> or a serialization view.\<close>

definition put_data :: "fw_buffer \<Rightarrow> u8 list \<Rightarrow> fw_buffer option" where
  "put_data b bs = do { st \<leftarrow> blit (storage b) (offset b) bs; Some (b\<lparr>storage := st\<rparr>) }"

definition get_serializer :: "fw_buffer \<Rightarrow> ser_buf option" where
  "get_serializer b =
     (if storage b = [] \<or> bsize b = 0 then Some (ext_buf_new [])
      else do { w \<leftarrow> buffer_data b; Some (ext_buf_new w) })"

definition get_deserializer :: "fw_buffer \<Rightarrow> ser_buf option" where
  "get_deserializer b =
     (if storage b = [] \<or> bsize b = 0 then Some (ext_buf_new [])
      else do { w \<leftarrow> buffer_data b; ext_buf_with_len w (bsize b) })"

section \<open>The frame context\<close>

record frame_context =
  com_queue_index :: i16
  apid :: ComPacketType
  has_sec_hdr :: bool
  sequence_flags :: u8
  sequence_count :: u16
  vc_id :: u8
  fc_pvn :: Pvn
  send_now :: bool
  sa_index :: u16
  first_header_pointer :: u16

definition SA_INDEX_UNSET :: u16 where "SA_INDEX_UNSET = 0xFFFF"

definition frame_context_default :: frame_context where
  "frame_context_default =
     \<lparr>com_queue_index = 0, apid = FwPacketUnknown, has_sec_hdr = False, sequence_flags = 0x3,
      sequence_count = 0, vc_id = 1, fc_pvn = Pvn_InvalidUninitialized, send_now = False,
      sa_index = SA_INDEX_UNSET, first_header_pointer = 0\<rparr>"

section \<open>The window\<close>

definition wf_buffer :: "fw_buffer \<Rightarrow> bool" where
  "wf_buffer b \<longleftrightarrow> offset b + bsize b \<le> length (storage b)"

definition window :: "fw_buffer \<Rightarrow> u8 list" where
  "window b = take (bsize b) (drop (offset b) (storage b))"

lemma length_window [simp]: "wf_buffer b \<Longrightarrow> length (window b) = bsize b"
  by (simp add: wf_buffer_def window_def)

lemma buffer_data_eq [simp]: "wf_buffer b \<Longrightarrow> buffer_data b = Some (window b)"
  by (simp add: buffer_data_def wf_buffer_def window_def)

lemma wf_from_storage [simp]: "wf_buffer (from_storage st ctx)" "window (from_storage st ctx) = st"
  by (simp_all add: from_storage_def wf_buffer_def window_def)

lemma wf_allocate [simp]: "wf_buffer (buffer_allocate n)" "window (buffer_allocate n) = replicate n 0"
  by (simp_all add: buffer_allocate_def)

lemma put_data_eq:
  assumes "wf_buffer b" and "length bs \<le> bsize b"
  shows "\<exists>b'. put_data b bs = Some b' \<and> wf_buffer b' \<and> window b' = bs @ drop (length bs) (window b) \<and>
    bsize b' = bsize b \<and> offset b' = offset b \<and> buf_context b' = buf_context b \<and> length (storage b') = length (storage b)"
  using assms
  by (auto simp: put_data_def wf_buffer_def window_def blit_def min_def drop_take add.commute)

lemma set_size_eq:
  assumes "wf_buffer b" and "n \<le> bsize b"
  shows "\<exists>b'. set_size b n = Some b' \<and> wf_buffer b' \<and> window b' = take n (window b) \<and> bsize b' = n \<and>
    offset b' = offset b \<and> storage b' = storage b \<and> buf_context b' = buf_context b"
  using assms by (auto simp: set_size_def wf_buffer_def window_def buffer_capacity_def min_def)

lemma advance_forward:
  assumes "wf_buffer b" and "n \<le> bsize b" and "storage b \<noteq> []"
  shows "\<exists>b'. advance b (int n) = Some b' \<and> wf_buffer b' \<and> window b' = drop n (window b) \<and> bsize b' = bsize b - n \<and>
    offset b' = offset b + n \<and> storage b' = storage b \<and> buf_context b' = buf_context b"
  using assms
  by (auto simp: advance_def wf_buffer_def window_def buffer_capacity_def drop_take add.commute)

lemma advance_back:
  assumes "wf_buffer b" and "n \<le> offset b" and "storage b \<noteq> []" and "0 < n"
  shows "advance b (- int n) = Some (b\<lparr>offset := offset b - n, bsize := bsize b + n\<rparr>)"
  using assms by (simp add: advance_def wf_buffer_def buffer_capacity_def)

lemma get_serializer_eq:
  assumes "wf_buffer b" and "is_valid b"
  shows "\<exists>v. get_serializer b = Some v \<and> wf_buf v \<and> capacity v = bsize b \<and> content v = [] \<and> room v = bsize b \<and>
    bytes v = window b \<and> ser_loc v = 0"
  using assms by (auto simp: get_serializer_def is_valid_def ext_buf_new_def buf_defs)

lemma get_deserializer_eq:
  assumes "wf_buffer b" and "is_valid b"
  shows "\<exists>v. get_deserializer b = Some v \<and> wf_buf v \<and> unread v = window b \<and> content v = window b \<and> deser_loc v = 0"
  using assms by (auto simp: get_deserializer_def is_valid_def ext_buf_with_len_def buf_defs)

text \<open>Writing \<open>bs\<close> through a fresh serialization view replaces the front of the window.\<close>

lemma view_put [simp]: "ser_loc v = 0 \<Longrightarrow> bytes (put v bs) = bs @ drop (length bs) (bytes v)"
  by (simp add: put_def)

lemma view_write:
  assumes "wf_buffer b" and "is_valid b" and "length bs \<le> bsize b" and "get_serializer b = Some v"
  shows "\<exists>b'. put_data b (bytes (put v bs)) = Some b' \<and> wf_buffer b' \<and> is_valid b' \<and> bsize b' = bsize b \<and>
    window b' = bs @ drop (length bs) (window b) \<and> length (storage b') = length (storage b) \<and>
    buf_context b' = buf_context b"
proof -
  have v: "bytes v = window b" "ser_loc v = 0"
    using get_serializer_eq [OF assms(1,2)] assms(4) by auto
  then have wr: "bytes (put v bs) = bs @ drop (length bs) (window b)" by simp
  then have len: "length (bytes (put v bs)) = bsize b" using assms(1,3) by simp
  then obtain b' where b': "put_data b (bytes (put v bs)) = Some b'" "wf_buffer b'"
      "window b' = bytes (put v bs) @ drop (length (bytes (put v bs))) (window b)"
      "bsize b' = bsize b" "length (storage b') = length (storage b)" "buf_context b' = buf_context b"
    using put_data_eq [OF assms(1), of "bytes (put v bs)"] by auto
  have "drop (length (bytes (put v bs))) (window b) = []" using assms(1) len by simp
  with b' wr have "window b' = bs @ drop (length bs) (window b)" by simp
  moreover have "is_valid b'" using b'(4,5) assms(2) by (auto simp: is_valid_def)
  ultimately show ?thesis using b' by blast
qed

text \<open>
  Moving the window of a buffer is reversible: advancing it by \<open>n\<close> bytes within its size exposes
  exactly the data after the first \<open>n\<close> bytes, keeps the window inside the storage, and moving it back
  by \<open>n\<close> restores the buffer, data included; neither move panics.
\<close>

theorem buffer_advance_roundtrip:
  assumes "wf_buffer b" and "n \<le> bsize b" and "storage b \<noteq> []"
  shows "\<exists>b'. advance b (int n) = Some b' \<and> wf_buffer b' \<and> buffer_data b' = Some (drop n (window b)) \<and>
    advance b' (- int n) = Some b \<and> buffer_data b = Some (window b)"
proof -
  obtain b' where b': "advance b (int n) = Some b'" "wf_buffer b'" "window b' = drop n (window b)"
      "bsize b' = bsize b - n" "offset b' = offset b + n" "storage b' = storage b" "buf_context b' = buf_context b"
    using advance_forward [OF assms] by blast
  have "advance b' (- int n) = Some b"
  proof (cases "n = 0")
    case True
    then have "b' = b" using b' by (cases b; cases b') simp
    then show ?thesis using b'(1) True by simp
  next
    case False
    then have "advance b' (- int n) = Some (b'\<lparr>offset := offset b' - n, bsize := bsize b' + n\<rparr>)"
      using b' assms(3) by (intro advance_back) simp_all
    then show ?thesis using b' assms(2) by (cases b; cases b') simp
  qed
  with b' assms(1) show ?thesis by simp
qed

theorem buffer_advance_roundtrip_witness:
  "\<exists>b'. advance (buffer_allocate 12) (int 8) = Some b' \<and> wf_buffer b' \<and>
    buffer_data b' = Some (drop 8 (window (buffer_allocate 12))) \<and>
    advance b' (- int 8) = Some (buffer_allocate 12) \<and> buffer_data (buffer_allocate 12) = Some (window (buffer_allocate 12))"
  by (rule buffer_advance_roundtrip) (simp_all add: buffer_allocate_def from_storage_def wf_buffer_def)

end
