(* ===== verification/Comp_Throttle.thy ===== *)
theory Comp_Throttle
  imports Fw_Prelude
begin

text \<open>
  The per-event throttle of the component layer (\<open>fprime-comp/src/glue.rs\<close>, \<open>EventThrottle\<close>).  The
  counter is updated by one atomic step, so an operation is a function of the counter.
\<close>

record event_throttle =
  throttle_count :: u32
  throttle_limit :: u32

definition throttle_new :: "u32 \<Rightarrow> event_throttle" where
  "throttle_new lim = \<lparr>throttle_count = 0, throttle_limit = lim\<rparr>"

definition ok_to_emit :: "event_throttle \<Rightarrow> bool \<times> event_throttle" where
  "ok_to_emit t =
     (if throttle_count t \<ge> throttle_limit t then (False, t)
      else (True, t\<lparr>throttle_count := throttle_count t + 1\<rparr>))"

definition throttle_clear :: "event_throttle \<Rightarrow> event_throttle" where
  "throttle_clear t = t\<lparr>throttle_count := 0\<rparr>"

text \<open>The emissions among \<open>n\<close> attempts in a row.\<close>

primrec attempts :: "nat \<Rightarrow> event_throttle \<Rightarrow> bool list \<times> event_throttle" where
  "attempts 0 t = ([], t)"
| "attempts (Suc n) t =
     (let (e, t) = ok_to_emit t; (es, t) = attempts n t in (e # es, t))"

lemma word_step:
  assumes "(c :: u32) < lim"
  shows "unat (c + 1) = Suc (unat c)" and "c + 1 \<le> lim"
proof -
  have "unat lim < 2 ^ 32" using unsigned_less [of lim] by simp
  with assms have "unat c + 1 < 2 ^ LENGTH(32)" by (simp add: word_less_nat_alt)
  then have "unat (c + 1) = unat c + 1" by (simp add: unat_word_ariths)
  with assms show "unat (c + 1) = Suc (unat c)" "c + 1 \<le> lim"
    by (simp_all add: word_less_nat_alt word_le_nat_alt)
qed

lemma attempts_from:
  "throttle_count t \<le> throttle_limit t \<Longrightarrow>
   length (filter id (fst (attempts n t))) = min n (unat (throttle_limit t) - unat (throttle_count t)) \<and>
   unat (throttle_count (snd (attempts n t))) =
     min (unat (throttle_count t) + n) (unat (throttle_limit t)) \<and>
   throttle_limit (snd (attempts n t)) = throttle_limit t"
proof (induction n arbitrary: t)
  case 0
  then show ?case by (simp add: word_le_nat_alt)
next
  case (Suc n)
  show ?case
  proof (cases "throttle_count t \<ge> throttle_limit t")
    case True
    with Suc.prems have "throttle_count t = throttle_limit t" by simp
    with Suc.IH [of t] show ?thesis
      by (auto simp: ok_to_emit_def Let_def split: prod.splits)
  next
    case False
    define t' where "t' = t\<lparr>throttle_count := throttle_count t + 1\<rparr>"
    have lt: "throttle_count t < throttle_limit t" using False by simp
    note step = word_step [OF lt]
    have "unat (throttle_count t) < unat (throttle_limit t)" using lt by (simp add: word_less_nat_alt)
    moreover have "ok_to_emit t = (True, t')" using False by (simp add: ok_to_emit_def t'_def)
    moreover have "throttle_count t' = throttle_count t + 1" "throttle_limit t' = throttle_limit t"
      by (simp_all add: t'_def)
    ultimately show ?thesis
      using Suc.IH [of t'] step by (auto simp: Let_def split: prod.splits)
  qed
qed

text \<open>
  An event throttled at \<open>lim\<close> is emitted exactly \<open>min n lim\<close> times in any \<open>n\<close> attempts after
  creation or after a clear, and the counter saturates at the limit without wrapping.
\<close>

theorem throttle_bounds_emissions:
  fixes t :: event_throttle
  shows "(let (es, t') = attempts n (throttle_clear t) in
      length (filter id es) = min n (unat (throttle_limit t)) \<and>
      unat (throttle_count t') = min n (unat (throttle_limit t))) \<and>
    (let (es, t') = attempts n (throttle_new lim) in
      length (filter id es) = min n (unat lim) \<and> unat (throttle_count t') = min n (unat lim))"
  using attempts_from [of "throttle_clear t" n] attempts_from [of "throttle_new lim" n]
  by (auto simp: throttle_clear_def throttle_new_def split: prod.splits)

end
