(* ===== verification/Fw_Packets.thy ===== *)
theory Fw_Packets
  imports Fw_Time
begin

text \<open>
  The ground packets of \<open>fprime-fw/src/packets.rs\<close>: the command packet (decoded on board), the event
  packet (both directions) and the telemetry packet, an accumulator of channel samples.
\<close>

section \<open>Buffer sizes\<close>

definition FW_COM_BUFFER_MAX_SIZE :: nat where "FW_COM_BUFFER_MAX_SIZE = 512"
definition FW_CMD_ARG_BUFFER_MAX_SIZE :: nat where "FW_CMD_ARG_BUFFER_MAX_SIZE = FW_COM_BUFFER_MAX_SIZE - 4 - 2"
definition FW_LOG_BUFFER_MAX_SIZE :: nat where "FW_LOG_BUFFER_MAX_SIZE = FW_COM_BUFFER_MAX_SIZE - 4 - 2"
definition FW_TLM_BUFFER_MAX_SIZE :: nat where "FW_TLM_BUFFER_MAX_SIZE = FW_COM_BUFFER_MAX_SIZE - 4 - 2"

lemmas size_defs = FW_COM_BUFFER_MAX_SIZE_def FW_CMD_ARG_BUFFER_MAX_SIZE_def FW_LOG_BUFFER_MAX_SIZE_def
  FW_TLM_BUFFER_MAX_SIZE_def

section \<open>Opcodes in events\<close>

definition INCLUDE_COMMAND_OPCODES_IN_EVENTS :: bool where "INCLUDE_COMMAND_OPCODES_IN_EVENTS = True"

definition get_event_opcode :: "u32 \<Rightarrow> u32" where
  "get_event_opcode op = (if INCLUDE_COMMAND_OPCODES_IN_EVENTS then op else - 1)"

lemma event_opcode [simp]: "get_event_opcode op = op"
  by (simp add: get_event_opcode_def INCLUDE_COMMAND_OPCODES_IN_EVENTS_def)

section \<open>The command packet\<close>

record cmd_packet =
  opcode :: u32
  arg_buffer :: ser_buf

definition cmd_packet_new :: cmd_packet where
  "cmd_packet_new = \<lparr>opcode = 0, arg_buffer = linear_buffer_new FW_CMD_ARG_BUFFER_MAX_SIZE\<rparr>"

definition cmd_packet_deserialize_from ::
  "cmd_packet \<Rightarrow> ser_buf \<Rightarrow> Endianness \<Rightarrow> (SerializeStatus \<times> cmd_packet \<times> ser_buf) option" where
  "cmd_packet_deserialize_from p b e =
     fw_try (deserialize_u16 b 0 Big) (\<lambda>(_, b). (p, b)) (\<lambda>(descriptor, b).
       if descriptor \<noteq> ComPacketType_repr FwPacketCommand then Some (DeserTypeMismatch, p, b)
       else fw_try (deserialize_u32 b (opcode p) e) (\<lambda>(op, b). (p\<lparr>opcode := op\<rparr>, b)) (\<lambda>(op, b).
         do { let p = p\<lparr>opcode := op\<rparr>;
              left \<leftarrow> deserialize_size_left b;
              if left > 0
              then do { (st, args, b) \<leftarrow> copy_raw b (arg_buffer p) left;
                        Some (st, p\<lparr>arg_buffer := args\<rparr>, b) }
              else Some (Ok, p\<lparr>arg_buffer := reset_ser (arg_buffer p)\<rparr>, b) }))"

section \<open>The event packet\<close>

record log_packet =
  log_id :: u32
  log_time_tag :: fw_time
  log_buffer :: ser_buf

definition log_packet_new :: log_packet where
  "log_packet_new = \<lparr>log_id = 0, log_time_tag = ZERO_TIME, log_buffer = linear_buffer_new FW_LOG_BUFFER_MAX_SIZE\<rparr>"

definition set_id :: "log_packet \<Rightarrow> u32 \<Rightarrow> log_packet" where
  "set_id p v = p\<lparr>log_id := v\<rparr>"

definition set_time_tag :: "log_packet \<Rightarrow> fw_time \<Rightarrow> log_packet" where
  "set_time_tag p t = p\<lparr>log_time_tag := t\<rparr>"

definition set_log_buffer :: "log_packet \<Rightarrow> ser_buf \<Rightarrow> log_packet" where
  "set_log_buffer p b = p\<lparr>log_buffer := b\<rparr>"

definition log_packet_serialize_to ::
  "log_packet \<Rightarrow> ser_buf \<Rightarrow> Endianness \<Rightarrow> (SerializeStatus \<times> ser_buf) option" where
  "log_packet_serialize_to p b e =
     fw_try (serialize_u16 b (ComPacketType_repr FwPacketLog) Big) id (\<lambda>b.
     fw_try (serialize_u32 b (log_id p) e) id (\<lambda>b.
     fw_try (time_serialize_to (log_time_tag p) b e) id (\<lambda>b.
       do { args \<leftarrow> as_slice (log_buffer p); serialize_bytes b args OmitLength e })))"

definition log_packet_serialized_size :: "log_packet \<Rightarrow> nat" where
  "log_packet_serialized_size p = 2 + 4 + TIME_SERIALIZED_SIZE + ser_loc (log_buffer p)"

definition log_packet_deserialize_from ::
  "log_packet \<Rightarrow> ser_buf \<Rightarrow> Endianness \<Rightarrow> (SerializeStatus \<times> log_packet \<times> ser_buf) option" where
  "log_packet_deserialize_from p b e =
     fw_try (deserialize_u16 b 0 Big) (\<lambda>(_, b). (p, b)) (\<lambda>(descriptor, b).
       if descriptor \<noteq> ComPacketType_repr FwPacketLog then Some (DeserTypeMismatch, p, b)
       else fw_try (deserialize_u32 b (log_id p) e) (\<lambda>(i, b). (p\<lparr>log_id := i\<rparr>, b)) (\<lambda>(i, b).
         fw_try (time_deserialize_from (log_time_tag p) b e)
           (\<lambda>(t, b). (p\<lparr>log_id := i, log_time_tag := t\<rparr>, b)) (\<lambda>(t, b).
           do { let p = p\<lparr>log_id := i, log_time_tag := t\<rparr>;
                sz \<leftarrow> deserialize_size_left b;
                if sz > capacity (log_buffer p) then Some (DeserSizeMismatch, p, b)
                else do {
                  src \<leftarrow> slice (bytes b) (deser_loc b) (deser_loc b + sz);
                  (status, args) \<leftarrow> set_buff (log_buffer p) src;
                  fw_assert (status = Ok);
                  Some (Ok, p\<lparr>log_buffer := args\<rparr>, b\<lparr>deser_loc := deser_loc b + sz\<rparr>) } })))"

section \<open>The telemetry packet\<close>

record tlm_packet =
  tlm_buffer :: ser_buf
  num_entries :: u64

definition tlm_packet_new :: tlm_packet where
  "tlm_packet_new = \<lparr>tlm_buffer = linear_buffer_new FW_COM_BUFFER_MAX_SIZE, num_entries = 0\<rparr>"

definition reset_pkt_ser :: "tlm_packet \<Rightarrow> (SerializeStatus \<times> tlm_packet) option" where
  "reset_pkt_ser p =
     do { (st, b) \<leftarrow> serialize_u16 (reset_ser (tlm_buffer p)) (ComPacketType_repr FwPacketTelem) Big;
          Some (st, p\<lparr>tlm_buffer := b, num_entries := 0\<rparr>) }"

definition reset_pkt_deser :: "tlm_packet \<Rightarrow> (SerializeStatus \<times> tlm_packet) option" where
  "reset_pkt_deser p =
     do { (st, descriptor, b) \<leftarrow> deserialize_u16 (reset_deser (tlm_buffer p)) 0 Big;
          let p = p\<lparr>tlm_buffer := b\<rparr>;
          if st \<noteq> Ok then Some (st, p)
          else if descriptor \<noteq> ComPacketType_repr FwPacketTelem then Some (DeserTypeMismatch, p)
          else Some (Ok, p) }"

definition set_buffer :: "tlm_packet \<Rightarrow> ser_buf \<Rightarrow> tlm_packet" where
  "set_buffer p b = p\<lparr>tlm_buffer := b\<rparr>"

definition add_value :: "tlm_packet \<Rightarrow> u32 \<Rightarrow> fw_time \<Rightarrow> ser_buf \<Rightarrow> (SerializeStatus \<times> tlm_packet) option" where
  "add_value p i time_tag buffer =
     do { left \<leftarrow> usub (capacity (tlm_buffer p)) (ser_loc (tlm_buffer p));
          if 4 + TIME_SERIALIZED_SIZE + ser_loc buffer > left then Some (NoRoomLeft, p)
          else
            fw_try (serialize_u32 (tlm_buffer p) i Big) (\<lambda>b. p\<lparr>tlm_buffer := b\<rparr>) (\<lambda>b.
            fw_try (time_serialize_to time_tag b Big) (\<lambda>b. p\<lparr>tlm_buffer := b\<rparr>) (\<lambda>b.
            do { value \<leftarrow> as_slice buffer;
                 fw_try (serialize_bytes b value OmitLength Big) (\<lambda>b. p\<lparr>tlm_buffer := b\<rparr>) (\<lambda>b.
                   do { n \<leftarrow> cadd (num_entries p) 1;
                        Some (Ok, p\<lparr>tlm_buffer := b, num_entries := n\<rparr>) }) })) }"

definition extract_value ::
  "tlm_packet \<Rightarrow> u32 \<Rightarrow> fw_time \<Rightarrow> ser_buf \<Rightarrow> nat
    \<Rightarrow> (SerializeStatus \<times> (u32 \<times> fw_time \<times> ser_buf) \<times> tlm_packet) option" where
  "extract_value p i time_tag buffer buffer_size =
     fw_try (deserialize_u32 (tlm_buffer p) i Big)
       (\<lambda>(i, b). ((i, time_tag, buffer), p\<lparr>tlm_buffer := b\<rparr>)) (\<lambda>(i, b).
     fw_try (time_deserialize_from time_tag b Big)
       (\<lambda>(t, b). ((i, t, buffer), p\<lparr>tlm_buffer := b\<rparr>)) (\<lambda>(t, b).
     do { let scratch = replicate FW_TLM_BUFFER_MAX_SIZE 0;
          fw_assert (buffer_size \<le> length scratch);
          fw_try (deserialize_bytes b scratch buffer_size OmitLength Big)
            (\<lambda>(_, _, b). ((i, t, buffer), p\<lparr>tlm_buffer := b\<rparr>)) (\<lambda>(scratch, len, b).
            do { src \<leftarrow> slice scratch 0 buffer_size;
                 (st, buffer) \<leftarrow> set_buff buffer src;
                 Some (st, (i, t, buffer), p\<lparr>tlm_buffer := b\<rparr>) }) }))"

definition tlm_packet_serialize_to ::
  "tlm_packet \<Rightarrow> ser_buf \<Rightarrow> Endianness \<Rightarrow> (SerializeStatus \<times> ser_buf) option" where
  "tlm_packet_serialize_to p b e =
     fw_try (serialize_u64 b (num_entries p) e) id (\<lambda>b.
       do { raw \<leftarrow> as_slice (tlm_buffer p); serialize_bytes b raw OmitLength e })"

definition tlm_packet_deserialize_from ::
  "tlm_packet \<Rightarrow> ser_buf \<Rightarrow> Endianness \<Rightarrow> (SerializeStatus \<times> tlm_packet \<times> ser_buf) option" where
  "tlm_packet_deserialize_from p b e =
     fw_try (deserialize_u64 b (num_entries p) e) (\<lambda>(n, b). (p\<lparr>num_entries := n\<rparr>, b)) (\<lambda>(n, b).
       do { let p = p\<lparr>num_entries := n\<rparr>;
            sz \<leftarrow> deserialize_size_left b;
            if sz > capacity (tlm_buffer p) then Some (DeserSizeMismatch, p, b)
            else do {
              src \<leftarrow> slice (bytes b) (deser_loc b) (deser_loc b + sz);
              (status, raw) \<leftarrow> set_buff (tlm_buffer p) src;
              fw_assert (status = Ok);
              Some (Ok, p\<lparr>tlm_buffer := raw\<rparr>, b\<lparr>deser_loc := deser_loc b + sz\<rparr>) } })"

lemma ser_loc_set_content: "ser_loc (set_content b bs) = length bs"
  by (simp add: set_content_def)

section \<open>Decoding commands\<close>

lemma to_bytes_not_Nil [simp]: "8 dvd LENGTH('a) \<Longrightarrow> to_bytes e (v :: 'a::len word) \<noteq> []"
  by (metis dvd_div_eq_0_iff len_not_eq_0 length_to_bytes list.size(3) nbytes_def)

lemma cmd_packet_decode:
  assumes "wf_buf b" and "unread b = to_bytes Big (ComPacketType_repr FwPacketCommand) @ to_bytes e op @ args"
    and "length args \<le> capacity (arg_buffer p)"
  shows "cmd_packet_deserialize_from p b e = Some (Ok,
    p\<lparr>opcode := op, arg_buffer := if args = [] then reset_ser (arg_buffer p) else set_content (arg_buffer p) args\<rparr>,
    adv b (6 + length args))"
proof -
  have d: "deserialize_prim b 0 Big = Some (Ok, ComPacketType_repr FwPacketCommand, adv b 2)"
    using deserialize_prim_enc [OF assms(1,2)] by simp
  have "deserialize_prim (adv b 2) (opcode p) e = Some (Ok, op, adv b 6)"
    using deserialize_prim_enc [of "adv b 2" e op args] assms(1,2) by simp
  with d show ?thesis
    using assms by (simp add: cmd_packet_deserialize_from_def fw_try_def size_left_eq copy_raw_eq)
qed

lemma cmd_packet_wrong_type:
  assumes "wf_buf b" and "unread b = to_bytes Big d @ rest" and "d \<noteq> ComPacketType_repr FwPacketCommand"
  shows "cmd_packet_deserialize_from p b e = Some (DeserTypeMismatch, p, adv b 2)"
  using deserialize_prim_enc [OF assms(1,2)] assms(3)
  by (simp add: cmd_packet_deserialize_from_def fw_try_def)

lemma cmd_packet_short:
  assumes "wf_buf b" and "length (unread b) < 6"
  shows "\<exists>st p' b'. cmd_packet_deserialize_from p b e = Some (st, p', b') \<and> st \<noteq> Ok"
  using assms by (auto simp: cmd_packet_deserialize_from_def fw_try_def deserialize_prim_eq)

lemma cmd_packet_too_long:
  assumes "wf_buf b" and "unread b = to_bytes Big (ComPacketType_repr FwPacketCommand) @ to_bytes e (op :: u32) @ args"
    and "capacity (arg_buffer p) < length args"
  shows "\<exists>p' b'. cmd_packet_deserialize_from p b e = Some (NoRoomLeft, p', b')"
proof -
  have d: "deserialize_prim b 0 Big = Some (Ok, ComPacketType_repr FwPacketCommand, adv b 2)"
    using deserialize_prim_enc [OF assms(1,2)] by simp
  have "deserialize_prim (adv b 2) (opcode p) e = Some (Ok, op, adv b 6)"
    using deserialize_prim_enc [of "adv b 2" e op args] assms(1,2) by simp
  with d show ?thesis
    using assms by (auto simp: cmd_packet_deserialize_from_def fw_try_def size_left_eq copy_raw_eq Let_def)
qed

lemma cmd_fields:
  assumes "6 \<le> length xs"
  shows "xs = to_bytes Big (from_bytes Big (take 2 xs) :: u16) @ to_bytes e (from_bytes e (take 4 (drop 2 xs)) :: u32) @ drop 6 xs"
  using assms by (simp add: to_bytes_from_bytes take_drop_append)

section \<open>Event packets\<close>

definition log_enc :: "Endianness \<Rightarrow> log_packet \<Rightarrow> u8 list" where
  "log_enc e p = to_bytes Big (ComPacketType_repr FwPacketLog) @ to_bytes e (log_id p) @
     time_enc e (log_time_tag p) @ content (log_buffer p)"

lemma log_packet_serialize_eq:
  assumes "wf_buf b" and "wf_buf (log_buffer p)" and "length (log_enc e p) \<le> room b"
  shows "log_packet_serialize_to p b e = Some (Ok, put b (log_enc e p))"
proof -
  have "17 + length (content (log_buffer p)) \<le> room b"
    using assms(3) by (simp add: log_enc_def TIME_SERIALIZED_SIZE_def)
  with assms show ?thesis
    by (simp add: log_packet_serialize_to_def fw_try_def serialize_prim_eq time_serialize_eq
      TIME_SERIALIZED_SIZE_def slices_eq serialize_bytes_eq log_enc_def) arith
qed

lemma log_packet_deserialize_eq:
  assumes wf: "wf_buf b" and u: "unread b = log_enc e v" and valid: "valid_time (log_time_tag v)"
    and fits: "length (content (log_buffer v)) \<le> capacity (log_buffer p)"
  shows "log_packet_deserialize_from p b e = Some (Ok,
    p\<lparr>log_id := log_id v, log_time_tag := log_time_tag v,
      log_buffer := set_content (log_buffer p) (content (log_buffer v))\<rparr>,
    adv b (length (log_enc e v)))"
proof -
  let ?n = "length (content (log_buffer v))"
  have d: "deserialize_prim b 0 Big = Some (Ok, ComPacketType_repr FwPacketLog, adv b 2)"
    using deserialize_prim_enc [OF wf u [unfolded log_enc_def]] by simp
  have i: "deserialize_prim (adv b 2) (log_id p) e = Some (Ok, log_id v, adv b 6)"
    using deserialize_prim_enc [of "adv b 2" e "log_id v"] wf u by (simp add: log_enc_def)
  have t: "time_deserialize_from (log_time_tag p) (adv b 6) e = Some (Ok, log_time_tag v, adv b 17)"
    using time_codec.deser_enc [where b = "adv b 6" and v = "log_time_tag v" and t = "log_time_tag p" and e = e] wf u valid
    by (simp add: log_enc_def TIME_SERIALIZED_SIZE_def)
  have u': "unread (adv b 17) = content (log_buffer v)" "wf_buf (adv b 17)"
    using wf u by (simp_all add: log_enc_def TIME_SERIALIZED_SIZE_def)
  then have "slice (bytes (adv b 17)) (deser_loc (adv b 17)) (deser_loc (adv b 17) + ?n) =
      Some (content (log_buffer v))"
    using unread_slice [of "adv b 17" ?n] by simp
  with d i t u' fits wf u show ?thesis
    by (simp add: log_packet_deserialize_from_def fw_try_def size_left_eq set_buff_eq fold_adv
      log_enc_def TIME_SERIALIZED_SIZE_def)
qed

section \<open>Telemetry packets\<close>

type_synonym sample = "u32 \<times> fw_time \<times> u8 list"

fun sample_enc :: "sample \<Rightarrow> u8 list" where
  "sample_enc (i, t, v) = to_bytes Big i @ time_enc Big t @ v"

lemma length_sample_enc: "length (sample_enc (i, t, v)) = 15 + length v"
  by (simp add: TIME_SERIALIZED_SIZE_def)

lemma add_value_eq:
  assumes "wf_buf (tlm_buffer p)" and "wf_buf buffer" and "unat (num_entries p) + 1 < 2 ^ 64"
  shows "add_value p i t buffer = Some (
    if length (sample_enc (i, t, content buffer)) > room (tlm_buffer p) then (NoRoomLeft, p)
    else (Ok, p\<lparr>tlm_buffer := put (tlm_buffer p) (sample_enc (i, t, content buffer)),
                num_entries := num_entries p + 1\<rparr>))"
proof -
  have "usub (capacity (tlm_buffer p)) (ser_loc (tlm_buffer p)) = Some (room (tlm_buffer p))"
    using assms(1) by (simp add: room_def wf_buf_def)
  moreover have "cadd (num_entries p) 1 = Some (num_entries p + 1)"
    using assms(3) by (simp add: cadd_def)
  moreover have "ser_loc buffer = length (content buffer)"
    using assms(2) by (simp add: length_content)
  ultimately show ?thesis
    using assms(1,2)
    by (auto simp: add_value_def fw_try_def serialize_prim_eq time_serialize_eq slices_eq serialize_bytes_eq
      TIME_SERIALIZED_SIZE_def)
qed

lemma extract_value_eq:
  assumes wf: "wf_buf (tlm_buffer p)" and u: "unread (tlm_buffer p) = sample_enc (i, t, v) @ rest"
    and valid: "valid_time t" and len: "length v \<le> FW_TLM_BUFFER_MAX_SIZE" "length v \<le> capacity buffer"
  shows "extract_value p i0 t0 buffer (length v) =
    Some (Ok, (i, t, set_content buffer v), p\<lparr>tlm_buffer := adv (tlm_buffer p) (15 + length v)\<rparr>)"
proof -
  let ?b = "tlm_buffer p"
  have i: "deserialize_prim ?b i0 Big = Some (Ok, i, adv ?b 4)"
    using deserialize_prim_enc [of ?b Big i] wf u by simp
  have t: "time_deserialize_from t0 (adv ?b 4) Big = Some (Ok, t, adv ?b 15)"
    using time_codec.deser_enc [where b = "adv ?b 4" and v = t and t = t0 and e = Big] wf u valid by (simp add: TIME_SERIALIZED_SIZE_def)
  have "unread (adv ?b 15) = v @ rest" "wf_buf (adv ?b 15)"
    using wf u by (simp_all add: TIME_SERIALIZED_SIZE_def)
  then have "deserialize_bytes (adv ?b 15) (replicate FW_TLM_BUFFER_MAX_SIZE 0) (length v) OmitLength Big =
      Some (Ok, v @ drop (length v) (replicate FW_TLM_BUFFER_MAX_SIZE 0), length v, adv ?b (15 + length v))"
    using len wf u by (simp add: deserialize_bytes_eq TIME_SERIALIZED_SIZE_def)
  with i t len show ?thesis
    by (simp add: extract_value_def fw_try_def set_buff_eq)
qed

lemma extract_value_end:
  assumes "wf_buf (tlm_buffer p)" and "unread (tlm_buffer p) = []"
  shows "extract_value p i t buffer n = Some (DeserBufferEmpty, (i, t, buffer), p)"
  using assms by (simp add: extract_value_def fw_try_def deserialize_prim_eq)

text \<open>Filling a packet with samples and taking them out again, as the telemetry service and the ground do.\<close>

fun add_values :: "tlm_packet \<Rightarrow> sample list \<Rightarrow> (SerializeStatus \<times> tlm_packet) option" where
  "add_values p [] = Some (Ok, p)"
| "add_values p ((i, t, v) # es) =
     fw_try (add_value p i t (set_content (linear_buffer_new FW_TLM_BUFFER_MAX_SIZE) v)) id (\<lambda>p. add_values p es)"

fun extract_values :: "tlm_packet \<Rightarrow> nat list \<Rightarrow> (SerializeStatus \<times> sample list \<times> tlm_packet) option" where
  "extract_values p [] = Some (Ok, [], p)"
| "extract_values p (n # ns) =
     fw_try (extract_value p 0 ZERO_TIME (linear_buffer_new FW_TLM_BUFFER_MAX_SIZE) n) (\<lambda>(_, p). ([], p))
       (\<lambda>((i, t, b), p). do { (st, es, p) \<leftarrow> extract_values p ns; Some (st, (i, t, content b) # es, p) })"

definition sample_ok :: "sample \<Rightarrow> bool" where
  "sample_ok e \<longleftrightarrow> valid_time (fst (snd e)) \<and> length (snd (snd e)) \<le> FW_TLM_BUFFER_MAX_SIZE"

lemma add_values_content:
  assumes "wf_buf (tlm_buffer p)" and "list_all sample_ok es" and "unat (num_entries p) + length es < 2 ^ 64"
    and "length (concat (map sample_enc es)) \<le> room (tlm_buffer p)"
  shows "\<exists>p'. add_values p es = Some (Ok, p') \<and> wf_buf (tlm_buffer p') \<and>
    content (tlm_buffer p') = content (tlm_buffer p) @ concat (map sample_enc es) \<and>
    unat (num_entries p') = unat (num_entries p) + length es"
  using assms
proof (induction es arbitrary: p)
  case Nil
  then show ?case by simp
next
  case (Cons e es)
  obtain i t v where e: "e = (i, t, v)" by (cases e)
  let ?enc = "sample_enc (i, t, v)"
  let ?p = "p\<lparr>tlm_buffer := put (tlm_buffer p) ?enc, num_entries := num_entries p + 1\<rparr>"
  have len: "length v \<le> FW_TLM_BUFFER_MAX_SIZE" using Cons.prems(2) e by (simp add: sample_ok_def)
  have room: "length ?enc \<le> room (tlm_buffer p)" using Cons.prems(4) e by simp
  have "unat (num_entries p + 1) = unat (num_entries p) + 1"
    using Cons.prems(3) by (simp add: unat_word_ariths)
  moreover have add: "add_value p i t (set_content (linear_buffer_new FW_TLM_BUFFER_MAX_SIZE) v) = Some (Ok, ?p)"
    using Cons.prems(1,3) len room by (simp add: add_value_eq del: sample_enc.simps)
  ultimately show ?case
    using Cons.IH [of ?p] Cons.prems room e by (auto simp: fw_try_def simp del: sample_enc.simps)
qed

lemma extract_values_content:
  assumes "wf_buf (tlm_buffer p)" and "list_all sample_ok es"
    and "unread (tlm_buffer p) = concat (map sample_enc es) @ rest"
  shows "\<exists>p'. extract_values p (map (\<lambda>e. length (snd (snd e))) es) = Some (Ok, es, p') \<and>
    wf_buf (tlm_buffer p') \<and> unread (tlm_buffer p') = rest"
  using assms
proof (induction es arbitrary: p)
  case Nil
  then show ?case by simp
next
  case (Cons e es)
  obtain i t v where e: "e = (i, t, v)" by (cases e)
  let ?p = "p\<lparr>tlm_buffer := adv (tlm_buffer p) (15 + length v)\<rparr>"
  have ok: "valid_time t" "length v \<le> FW_TLM_BUFFER_MAX_SIZE" using Cons.prems(2) e by (simp_all add: sample_ok_def)
  have u: "unread (tlm_buffer p) = sample_enc (i, t, v) @ concat (map sample_enc es) @ rest"
    using Cons.prems(3) e by simp
  have "extract_value p 0 ZERO_TIME (linear_buffer_new FW_TLM_BUFFER_MAX_SIZE) (length v) =
      Some (Ok, (i, t, set_content (linear_buffer_new FW_TLM_BUFFER_MAX_SIZE) v), ?p)"
    using extract_value_eq [OF Cons.prems(1) u ok] ok by simp
  moreover have "wf_buf (tlm_buffer ?p)" "unread (tlm_buffer ?p) = concat (map sample_enc es) @ rest"
    using Cons.prems(1) u by (simp_all add: TIME_SERIALIZED_SIZE_def)
  ultimately show ?case
    using Cons.IH [of ?p] Cons.prems(2) ok(2) e by (auto simp: fw_try_def)
qed

lemma reset_pkt_ser_eq:
  assumes "wf_buf (tlm_buffer p)" and "2 \<le> capacity (tlm_buffer p)"
  shows "reset_pkt_ser p = Some (Ok,
    p\<lparr>tlm_buffer := put (reset_ser (tlm_buffer p)) (to_bytes Big (ComPacketType_repr FwPacketTelem)),
      num_entries := 0\<rparr>)"
  using assms by (simp add: reset_pkt_ser_def serialize_prim_eq)

lemma reset_pkt_deser_eq:
  assumes "wf_buf (tlm_buffer p)" and "content (tlm_buffer p) = to_bytes Big (ComPacketType_repr FwPacketTelem) @ rest"
  shows "reset_pkt_deser p = Some (Ok, p\<lparr>tlm_buffer := adv (reset_deser (tlm_buffer p)) 2\<rparr>)"
  using assms deserialize_prim_enc [of "reset_deser (tlm_buffer p)" Big "ComPacketType_repr FwPacketTelem" rest]
  by (simp add: reset_pkt_deser_def)

text \<open>
  C6.  Decoding a command packet accepts exactly the wire format, whatever the packet object held before.  It succeeds
  if and only if the bytes left are the command descriptor, an opcode and at most 506 argument bytes; the decoded packet
  then has that opcode and exactly those argument bytes (none of an earlier packet's), ready to be read from the start,
  and the source buffer is consumed to its end.  Bytes that begin with another packet descriptor are refused with a type
  mismatch that leaves the packet object as it was.
\<close>

theorem cmd_packet_decode_exact:
  assumes "wf_buf b" and "capacity (arg_buffer p) = FW_CMD_ARG_BUFFER_MAX_SIZE" and "wf_buf (arg_buffer p)"
  shows "\<exists>st p' b'. cmd_packet_deserialize_from p b e = Some (st, p', b') \<and>
    (if st = Ok
     then unread b = to_bytes Big (ComPacketType_repr FwPacketCommand) @ to_bytes e (opcode p') @ content (arg_buffer p') \<and>
       wf_buf (arg_buffer p') \<and> unread (arg_buffer p') = content (arg_buffer p') \<and> unread b' = []
     else \<nexists>op args. unread b = to_bytes Big (ComPacketType_repr FwPacketCommand) @ to_bytes e (op :: u32) @ args \<and>
       length args \<le> FW_CMD_ARG_BUFFER_MAX_SIZE) \<and>
    (\<forall>d rest. unread b = to_bytes Big d @ rest \<and> d \<noteq> ComPacketType_repr FwPacketCommand \<longrightarrow>
       st = DeserTypeMismatch \<and> p' = p)"
proof (cases "length (unread b) < 6")
  case True
  obtain st p' b' where r: "cmd_packet_deserialize_from p b e = Some (st, p', b')" "st \<noteq> Ok"
    using cmd_packet_short [OF assms(1) True] by blast
  moreover have "unread b \<noteq> to_bytes Big (ComPacketType_repr FwPacketCommand) @ to_bytes e (op :: u32) @ args" for op args
    using True by auto
  moreover have "st = DeserTypeMismatch \<and> p' = p"
    if "unread b = to_bytes Big d @ rest" "d \<noteq> ComPacketType_repr FwPacketCommand" for d rest
    using cmd_packet_wrong_type [OF assms(1) that, of p e] r(1) by simp
  ultimately show ?thesis
    by auto
next
  case False
  define d op args where "d = (from_bytes Big (take 2 (unread b)) :: u16)"
    and "op = (from_bytes e (take 4 (drop 2 (unread b))) :: u32)" and "args = drop 6 (unread b)"
  have u: "unread b = to_bytes Big d @ to_bytes e op @ args"
    using cmd_fields [of "unread b" e] False by (simp add: d_def op_def args_def)
  have inj: "d = d'" if "unread b = to_bytes Big d' @ rest" for d' rest
    using that u by (simp add: to_bytes_inject)
  consider "d \<noteq> ComPacketType_repr FwPacketCommand"
    | "d = ComPacketType_repr FwPacketCommand" "length args \<le> FW_CMD_ARG_BUFFER_MAX_SIZE"
    | "d = ComPacketType_repr FwPacketCommand" "FW_CMD_ARG_BUFFER_MAX_SIZE < length args"
    by linarith
  then show ?thesis
  proof cases
    case 1
    then show ?thesis
      using cmd_packet_wrong_type [OF assms(1) u 1, of p e] inj [of "ComPacketType_repr FwPacketCommand"] by auto
  next
    case 2
    then have "\<not> (unread b = to_bytes Big d' @ rest \<and> d' \<noteq> ComPacketType_repr FwPacketCommand)" for d' rest
      using inj [of d' rest] by blast
    then show ?thesis
      using cmd_packet_decode [OF assms(1), of e op args p] u assms 2 by simp
  next
    case 3
    then have n: "\<not> (unread b = to_bytes Big d' @ rest \<and> d' \<noteq> ComPacketType_repr FwPacketCommand)" for d' rest
      using inj [of d' rest] by blast
    have "args' = args" if "unread b = to_bytes Big (ComPacketType_repr FwPacketCommand) @ to_bytes e (op' :: u32) @ args'" for op' args'
      using that u by simp
    moreover obtain p' b' where "cmd_packet_deserialize_from p b e = Some (NoRoomLeft, p', b')"
      using cmd_packet_too_long [OF assms(1), of e op args p] u assms(2) 3 by auto
    ultimately show ?thesis
      using n 3(2) by auto
  qed
qed

lemma cmd_bytes_example:
  "[0,0,0,0,1,2,7,8,9] = to_bytes Big (ComPacketType_repr FwPacketCommand) @ to_bytes Big (0x102 :: u32) @ [7,8,9]"
  by code_simp

theorem cmd_packet_decode_exact_witness:
  "\<exists>p' b'. cmd_packet_deserialize_from cmd_packet_new
      \<lparr>bytes = [0,0,0,0,1,2,7,8,9,0], ser_loc = 9, deser_loc = 0\<rparr> Big = Some (Ok, p', b') \<and> unread b' = [] \<and>
    to_bytes Big (opcode p') @ content (arg_buffer p') = [0,0,1,2,7,8,9]"
proof -
  let ?b = "\<lparr>bytes = [0,0,0,0,1,2,7,8,9,0], ser_loc = 9, deser_loc = 0\<rparr> :: ser_buf"
  have b: "wf_buf ?b" "unread ?b = [0,0,0,0,1,2,7,8,9]"
    by (simp_all add: buf_defs)
  have p: "capacity (arg_buffer cmd_packet_new) = FW_CMD_ARG_BUFFER_MAX_SIZE" "wf_buf (arg_buffer cmd_packet_new)"
    by (simp_all add: cmd_packet_new_def linear_buffer_new_def buf_defs)
  have desc: "to_bytes Big (ComPacketType_repr FwPacketCommand) = [0, 0]"
    by code_simp
  have "\<exists>op args. unread ?b = to_bytes Big (ComPacketType_repr FwPacketCommand) @ to_bytes Big (op :: u32) @ args \<and>
      length args \<le> FW_CMD_ARG_BUFFER_MAX_SIZE"
    using cmd_bytes_example b(2) by (intro exI [of _ "0x102"] exI [of _ "[7,8,9]"]) (simp add: size_defs)
  then show ?thesis
    using cmd_packet_decode_exact [OF b(1) p, of Big] b(2) desc by (auto split: if_splits)
qed

text \<open>
  An event packet survives the wire: serialized into a buffer with room, in either byte order, it
  takes exactly \<open>serialized_size\<close> bytes, and deserializing those bytes into any packet object gives back
  the event id, the time tag and the argument bytes.
\<close>

theorem log_packet_roundtrip:
  assumes "wf_buf b" and "wf_buf (log_buffer v)" and "valid_time (log_time_tag v)"
    and "log_packet_serialized_size v \<le> capacity b"
    and "wf_buf (log_buffer p)" and "ser_loc (log_buffer v) \<le> capacity (log_buffer p)"
  shows "\<exists>b' p' b''. log_packet_serialize_to v (reset_ser b) e = Some (Ok, b') \<and>
    ser_loc b' = log_packet_serialized_size v \<and>
    log_packet_deserialize_from p b' e = Some (Ok, p', b'') \<and> unread b'' = [] \<and>
    log_id p' = log_id v \<and> log_time_tag p' = log_time_tag v \<and>
    content (log_buffer p') = content (log_buffer v)"
proof -
  have len: "length (log_enc e v) = log_packet_serialized_size v"
    using assms(2) by (simp add: log_enc_def log_packet_serialized_size_def length_content)
  let ?b = "put (reset_ser b) (log_enc e v)"
  have ser: "log_packet_serialize_to v (reset_ser b) e = Some (Ok, ?b)"
    using assms len by (intro log_packet_serialize_eq) simp_all
  have wf: "wf_buf ?b" and u: "unread ?b = log_enc e v"
    using assms len by simp_all
  note deser = log_packet_deserialize_eq [OF wf u assms(3), of p]
  show ?thesis
    using ser deser wf u assms len by (auto simp: length_content)
qed

theorem log_packet_roundtrip_witness:
  "\<exists>b' p' b''. log_packet_serialize_to \<lparr>log_id = 5, log_time_tag = ZERO_TIME,
        log_buffer = set_content (linear_buffer_new 506) [1,2,3]\<rparr> (reset_ser (linear_buffer_new 512)) Little = Some (Ok, b') \<and>
    ser_loc b' = log_packet_serialized_size \<lparr>log_id = 5, log_time_tag = ZERO_TIME,
        log_buffer = set_content (linear_buffer_new 506) [1,2,3]\<rparr> \<and>
    log_packet_deserialize_from log_packet_new b' Little = Some (Ok, p', b'') \<and> unread b'' = [] \<and>
    log_id p' = log_id \<lparr>log_id = 5, log_time_tag = ZERO_TIME,
        log_buffer = set_content (linear_buffer_new 506) [1,2,3]\<rparr> \<and>
    log_time_tag p' = log_time_tag \<lparr>log_id = 5, log_time_tag = ZERO_TIME,
        log_buffer = set_content (linear_buffer_new 506) [1,2,3]\<rparr> \<and>
    content (log_buffer p') = content (log_buffer \<lparr>log_id = 5, log_time_tag = ZERO_TIME,
        log_buffer = set_content (linear_buffer_new 506) [1,2,3]\<rparr>)"
  by (rule log_packet_roundtrip)
    (simp_all add: log_packet_new_def size_defs log_packet_serialized_size_def TIME_SERIALIZED_SIZE_def
      valid_time_def norm_usecs_def ZERO_TIME_def ser_loc_set_content)

text \<open>
  C8.  A telemetry packet returns the samples put into it: after a reset, any samples that fit the com
  buffer are all accepted, the entry counter is their number, and reading the packet back with the
  value sizes of the dictionary yields the same samples (channel id, time tag, value) in the same
  order, up to the end of the packet, where a further read reports an empty buffer.
\<close>

theorem tlm_packet_roundtrip:
  assumes "wf_buf (tlm_buffer p)" and "capacity (tlm_buffer p) = FW_COM_BUFFER_MAX_SIZE"
    and "list_all sample_ok es" and "2 + length (concat (map sample_enc es)) \<le> FW_COM_BUFFER_MAX_SIZE"
  shows "\<exists>p0 p1 p2 p3. reset_pkt_ser p = Some (Ok, p0) \<and> add_values p0 es = Some (Ok, p1) \<and>
    unat (num_entries p1) = length es \<and> reset_pkt_deser p1 = Some (Ok, p2) \<and>
    extract_values p2 (map (\<lambda>e. length (snd (snd e))) es) = Some (Ok, es, p3) \<and>
    extract_value p3 i t buffer n = Some (DeserBufferEmpty, (i, t, buffer), p3)"
proof -
  let ?d = "to_bytes Big (ComPacketType_repr FwPacketTelem)"
  let ?p0 = "p\<lparr>tlm_buffer := put (reset_ser (tlm_buffer p)) ?d, num_entries := 0\<rparr>"
  have p0: "reset_pkt_ser p = Some (Ok, ?p0)" using assms by (intro reset_pkt_ser_eq) (simp_all add: size_defs)
  have few: "length es \<le> length (concat (map sample_enc es))"
    by (induction es) (auto simp: length_sample_enc simp del: sample_enc.simps)
  have "unat (num_entries ?p0) + length es < 2 ^ 64" using few assms(4) by (simp add: size_defs)
  from add_values_content [OF _ assms(3) this] assms
  obtain p1 where p1: "add_values ?p0 es = Some (Ok, p1)" "wf_buf (tlm_buffer p1)"
      "content (tlm_buffer p1) = ?d @ concat (map sample_enc es)" "unat (num_entries p1) = length es"
    by (auto simp: size_defs)
  let ?p2 = "p1\<lparr>tlm_buffer := adv (reset_deser (tlm_buffer p1)) 2\<rparr>"
  have p2: "reset_pkt_deser p1 = Some (Ok, ?p2)" using p1 by (intro reset_pkt_deser_eq) simp_all
  have "wf_buf (tlm_buffer ?p2)" "unread (tlm_buffer ?p2) = concat (map sample_enc es) @ []"
    using p1 by simp_all
  from extract_values_content [OF this(1) assms(3) this(2)]
  obtain p3 where p3: "extract_values ?p2 (map (\<lambda>e. length (snd (snd e))) es) = Some (Ok, es, p3)"
      "wf_buf (tlm_buffer p3)" "unread (tlm_buffer p3) = []" by auto
  with p0 p1 p2 extract_value_end [OF p3(2,3)] show ?thesis by blast
qed

theorem tlm_packet_roundtrip_witness:
  "\<exists>p0 p1 p2 p3. reset_pkt_ser tlm_packet_new = Some (Ok, p0) \<and>
    add_values p0 [(3, ZERO_TIME, [1,2]), (4, ZERO_TIME, [])] = Some (Ok, p1) \<and>
    unat (num_entries p1) = length [(3 :: u32, ZERO_TIME, [1 :: u8,2]), (4, ZERO_TIME, [])] \<and>
    reset_pkt_deser p1 = Some (Ok, p2) \<and>
    extract_values p2 (map (\<lambda>e. length (snd (snd e))) [(3 :: u32, ZERO_TIME, [1 :: u8,2]), (4, ZERO_TIME, [])]) =
      Some (Ok, [(3, ZERO_TIME, [1,2]), (4, ZERO_TIME, [])], p3) \<and>
    extract_value p3 0 ZERO_TIME (linear_buffer_new 506) 1 =
      Some (DeserBufferEmpty, (0, ZERO_TIME, linear_buffer_new 506), p3)"
  by (rule tlm_packet_roundtrip)
    (simp_all add: tlm_packet_new_def size_defs sample_ok_def valid_time_def norm_usecs_def ZERO_TIME_def
      TIME_SERIALIZED_SIZE_def)

end
