(* ===== verification/Svc_Framer.thy ===== *)
theory Svc_Framer
  imports Fw_Buffer Utils_Hash Comp_Throttle Fw_Packets
begin

text \<open>
  The F Prime framer and deframer (\<open>fprime-svc/src/fprime_framer.rs\<close>, \<open>fprime_deframer.rs\<close>).  The
  buffer allocator behind \<open>bufferAllocate\<close> is another component: it is the parameter \<open>alloc\<close>, a
  function of its own state and the requested size.  What a handler sends through its output ports
  is the list of port calls it makes, in order.
\<close>

section \<open>The frame protocol\<close>

definition START_WORD :: u32 where "START_WORD = 0xdeadbeef"
definition HEADER_SIZE :: nat where "HEADER_SIZE = 8"
definition TRAILER_SIZE :: nat where "TRAILER_SIZE = 4"
definition MIN_FRAME_SIZE :: nat where "MIN_FRAME_SIZE = HEADER_SIZE + TRAILER_SIZE"

lemmas frame_sizes = HEADER_SIZE_def TRAILER_SIZE_def MIN_FRAME_SIZE_def

section \<open>The framer\<close>

datatype framer_call =
    Fr_NoBufferAvailable
  | Fr_Deallocate fw_buffer
  | Fr_DataOut fw_buffer frame_context
  | Fr_DataReturnOut fw_buffer frame_context
  | Fr_ComStatusOut Success

definition EVENTID_NO_BUFFER_AVAILABLE_THROTTLE :: u32 where
  "EVENTID_NO_BUFFER_AVAILABLE_THROTTLE = 5"

record fprime_framer =
  no_buffer_available_throttle :: event_throttle

definition framer_new :: fprime_framer where
  "framer_new = \<lparr>no_buffer_available_throttle = throttle_new EVENTID_NO_BUFFER_AVAILABLE_THROTTLE\<rparr>"

definition clear_no_buffer_available_throttle :: "fprime_framer \<Rightarrow> fprime_framer" where
  "clear_no_buffer_available_throttle f =
     f\<lparr>no_buffer_available_throttle := throttle_clear (no_buffer_available_throttle f)\<rparr>"

definition framer_data_in ::
  "('s \<Rightarrow> nat \<Rightarrow> fw_buffer \<times> 's) \<Rightarrow> fprime_framer \<Rightarrow> 's \<Rightarrow> fw_buffer \<Rightarrow> frame_context
    \<Rightarrow> (framer_call list \<times> fprime_framer \<times> 's) option" where
  "framer_data_in alloc f s data context =
     do { let frame_size = HEADER_SIZE + bsize data + TRAILER_SIZE;
          fw_assert (bsize data \<le> 2 ^ 32 - 1);
          let (frame_buffer, s) = alloc s frame_size;
          if \<not> is_valid frame_buffer \<or> bsize frame_buffer < frame_size
          then do { let (emit, t) = ok_to_emit (no_buffer_available_throttle f);
                    Some ((if emit then [Fr_NoBufferAvailable] else []) @
                          (if is_valid frame_buffer then [Fr_Deallocate frame_buffer] else []) @
                          [Fr_DataReturnOut data context],
                          f\<lparr>no_buffer_available_throttle := t\<rparr>, s) }
          else do {
            ser \<leftarrow> get_serializer frame_buffer;
            (status, ser) \<leftarrow> serialize_u32 ser START_WORD Big;
            fw_assert (status = Ok);
            (status, ser) \<leftarrow> serialize_u32 ser (of_nat (bsize data)) Big;
            fw_assert (status = Ok);
            payload \<leftarrow> buffer_data data;
            (status, ser) \<leftarrow> serialize_bytes ser payload OmitLength Big;
            fw_assert (status = Ok);
            frame_buffer \<leftarrow> put_data frame_buffer (bytes ser);
            w \<leftarrow> buffer_data frame_buffer;
            n \<leftarrow> usub frame_size TRAILER_SIZE;
            covered \<leftarrow> slice w 0 n;
            let crc = hash_u32 covered;
            ser \<leftarrow> get_serializer frame_buffer;
            (status, ser) \<leftarrow> move_ser_to_offset ser n;
            fw_assert (status = Ok);
            (status, ser) \<leftarrow> serialize_u32 ser crc Big;
            fw_assert (status = Ok);
            frame_buffer \<leftarrow> put_data frame_buffer (bytes ser);
            frame_buffer \<leftarrow> set_size frame_buffer frame_size;
            Some ([Fr_DataOut frame_buffer context, Fr_DataReturnOut data context], f, s) } }"

definition framer_data_return_in :: "fw_buffer \<Rightarrow> framer_call list" where
  "framer_data_return_in b = [Fr_Deallocate b]"

text \<open>\<open>comStatusOut\<close> is the one output port that may be unconnected.\<close>

definition framer_com_status_in :: "bool \<Rightarrow> Success \<Rightarrow> framer_call list" where
  "framer_com_status_in connected condition = (if connected then [Fr_ComStatusOut condition] else [])"

section \<open>The deframer\<close>

datatype deframer_event =
  InvalidBufferReceived | InvalidStartWord | InvalidLengthReceived | InvalidChecksum | PayloadTooShort

datatype deframer_call =
    Df_Event deframer_event LogSeverity
  | Df_DataOut fw_buffer frame_context
  | Df_DataReturnOut fw_buffer frame_context

text \<open>The attempt to read the packet descriptor, which precedes the checksum test.\<close>

definition extract_apid :: "fw_buffer \<Rightarrow> frame_context \<Rightarrow> (deframer_call list \<times> frame_context) option" where
  "extract_apid data context =
     do { remaining_after_header \<leftarrow> usub (bsize data) HEADER_SIZE;
          if remaining_after_header < TRAILER_SIZE + 2
          then Some ([Df_Event PayloadTooShort LogSeverity_WarningLo], context)
          else do {
            deser \<leftarrow> get_deserializer data;
            (status, deser) \<leftarrow> move_deser_to_offset deser HEADER_SIZE;
            fw_assert (status = Ok);
            (status, descriptor, deser) \<leftarrow> deserialize_u16 deser 0 Big;
            fw_assert (status = Ok);
            Some ([], context\<lparr>apid :=
              (case try_from ComPacketType_repr ComPacketType_values descriptor of
                 Some a \<Rightarrow> a | None \<Rightarrow> InvalidUninitialized)\<rparr>) } }"

definition deframer_data_in :: "fw_buffer \<Rightarrow> frame_context \<Rightarrow> deframer_call list option" where
  "deframer_data_in data context =
     (if bsize data < MIN_FRAME_SIZE
      then Some [Df_Event InvalidBufferReceived LogSeverity_WarningHi, Df_DataReturnOut data context]
      else do {
        deser \<leftarrow> get_deserializer data;
        (status, start_word, deser) \<leftarrow> deserialize_u32 deser 0 Big;
        fw_assert (status = Ok);
        (status, length_field, deser) \<leftarrow> deserialize_u32 deser 0 Big;
        fw_assert (status = Ok);
        if start_word \<noteq> START_WORD
        then Some [Df_Event InvalidStartWord LogSeverity_WarningHi, Df_DataReturnOut data context]
        else do {
          let expected_frame_size = HEADER_SIZE + unat length_field + TRAILER_SIZE;
          if bsize data \<noteq> expected_frame_size
          then Some [Df_Event InvalidLengthReceived LogSeverity_WarningHi, Df_DataReturnOut data context]
          else do {
            (early, context_copy) \<leftarrow> extract_apid data context;
            deser \<leftarrow> get_deserializer data;
            (status, deser) \<leftarrow> move_deser_to_offset deser (HEADER_SIZE + unat length_field);
            fw_assert (status = Ok);
            (status, transmitted_crc, deser) \<leftarrow> deserialize_u32 deser 0 Big;
            fw_assert (status = Ok);
            w \<leftarrow> buffer_data data;
            covered \<leftarrow> slice w 0 (HEADER_SIZE + unat length_field);
            if transmitted_crc \<noteq> hash_u32 covered
            then Some (early @ [Df_Event InvalidChecksum LogSeverity_WarningHi, Df_DataReturnOut data context])
            else do {
              data \<leftarrow> advance data (int HEADER_SIZE);
              n \<leftarrow> usub (bsize data) TRAILER_SIZE;
              data \<leftarrow> set_size data n;
              Some (early @ [Df_DataOut data context_copy]) } } } })"

definition deframer_data_return_in :: "fw_buffer \<Rightarrow> frame_context \<Rightarrow> deframer_call list" where
  "deframer_data_return_in b context = [Df_DataReturnOut b context]"

section \<open>The wire format\<close>

definition frame_head :: "u8 list \<Rightarrow> u8 list" where
  "frame_head p = to_be_bytes START_WORD @ to_be_bytes (of_nat (length p) :: u32) @ p"

definition frame_of :: "u8 list \<Rightarrow> u8 list" where
  "frame_of p = frame_head p @ to_be_bytes (hash_u32 (frame_head p))"

lemma length_frame_head [simp]: "length (frame_head p) = 8 + length p"
  by (simp add: frame_head_def)

lemma length_frame_of [simp]: "length (frame_of p) = 12 + length p"
  by (simp add: frame_of_def)


section \<open>What the framer does\<close>

lemma move_ser_eq:
  assumes "wf_buf v" and "n \<le> capacity v" and "n < 2 ^ 64"
  shows "\<exists>u. move_ser_to_offset v n = Some (Ok, u) \<and> wf_buf u \<and> ser_loc u = n \<and> bytes u = bytes v \<and> room u = capacity v - n"
  using assms by (auto simp: move_ser_to_offset_def serialize_skip_def reset_ser_def buf_defs)

lemma framer_payload:
  assumes "wf_buffer fb" and "is_valid fb" and "8 + length p \<le> bsize fb"
  shows "\<exists>ser1 ser2 ser3 ser4 fb'. get_serializer fb = Some ser1 \<and>
    serialize_u32 ser1 START_WORD Big = Some (Ok, ser2) \<and>
    serialize_u32 ser2 (of_nat (length p)) Big = Some (Ok, ser3) \<and>
    serialize_bytes ser3 p OmitLength Big = Some (Ok, ser4) \<and>
    put_data fb (bytes ser4) = Some fb' \<and> wf_buffer fb' \<and> is_valid fb' \<and> bsize fb' = bsize fb \<and>
    window fb' = frame_head p @ drop (8 + length p) (window fb) \<and>
    length (storage fb') = length (storage fb) \<and> buf_context fb' = buf_context fb"
proof -
  obtain v where v: "get_serializer fb = Some v" "wf_buf v" "content v = []" "room v = bsize fb"
      "bytes v = window fb" "ser_loc v = 0"
    using get_serializer_eq [OF assms(1,2)] by blast
  obtain fb' where fb': "put_data fb (bytes (put v (frame_head p))) = Some fb'" "wf_buffer fb'" "is_valid fb'"
      "bsize fb' = bsize fb" "window fb' = frame_head p @ drop (length (frame_head p)) (window fb)"
      "length (storage fb') = length (storage fb)" "buf_context fb' = buf_context fb"
    using view_write [OF assms(1,2) _ v(1), of "frame_head p"] assms(3) by auto
  then have "window fb' = frame_head p @ drop (8 + length p) (window fb)" by simp
  moreover have "serialize_u32 v START_WORD Big = Some (Ok, put v (to_be_bytes START_WORD))"
    using v assms(3) by (simp add: serialize_prim_eq to_bytes_def)
  moreover have "serialize_u32 (put v (to_be_bytes START_WORD)) (of_nat (length p)) Big =
      Some (Ok, put v (to_be_bytes START_WORD @ to_be_bytes (of_nat (length p) :: u32)))"
    using v assms(3) by (simp add: serialize_prim_eq to_bytes_def)
  moreover have "serialize_bytes (put v (to_be_bytes START_WORD @ to_be_bytes (of_nat (length p) :: u32))) p OmitLength Big =
      Some (Ok, put v (frame_head p))"
    using v assms(3) by (simp add: serialize_bytes_eq Let_def frame_head_def)
  ultimately show ?thesis
    using v(1) fb'(1-4,6,7) by blast
qed

lemma framer_trailer:
  assumes "wf_buffer fb" and "is_valid fb" and "n + 4 \<le> bsize fb" and "n < 2 ^ 64"
  shows "\<exists>ser1 ser2 ser3 fb' out. get_serializer fb = Some ser1 \<and> move_ser_to_offset ser1 n = Some (Ok, ser2) \<and>
    serialize_u32 ser2 crc Big = Some (Ok, ser3) \<and> put_data fb (bytes ser3) = Some fb' \<and>
    set_size fb' (n + 4) = Some out \<and> wf_buffer out \<and> window out = take n (window fb) @ to_be_bytes crc \<and>
    length (storage out) = length (storage fb) \<and> buf_context out = buf_context fb"
proof -
  obtain v where v: "get_serializer fb = Some v" "wf_buf v" "capacity v = bsize fb" "bytes v = window fb"
    using get_serializer_eq [OF assms(1,2)] by blast
  obtain u where u: "move_ser_to_offset v n = Some (Ok, u)" "wf_buf u" "ser_loc u = n" "bytes u = window fb"
      "room u = bsize fb - n"
    using move_ser_eq [OF v(2), of n] v assms(3,4) by auto
  let ?u = "put u (to_be_bytes crc)"
  have s: "serialize_u32 u crc Big = Some (Ok, ?u)"
    using u assms(3) by (simp add: serialize_prim_eq to_bytes_def)
  have b: "bytes ?u = take n (window fb) @ to_be_bytes crc @ drop (n + 4) (window fb)"
    using u by (simp add: put_def)
  then have len: "length (bytes ?u) = bsize fb" using assms by simp
  then obtain fb' where fb': "put_data fb (bytes ?u) = Some fb'" "wf_buffer fb'"
      "window fb' = bytes ?u @ drop (length (bytes ?u)) (window fb)" "bsize fb' = bsize fb"
      "length (storage fb') = length (storage fb)" "buf_context fb' = buf_context fb"
    using put_data_eq [OF assms(1), of "bytes ?u"] by auto
  have w: "window fb' = take n (window fb) @ to_be_bytes crc @ drop (n + 4) (window fb)"
    using fb'(3) len assms(1) by (simp add: b)
  obtain out where out: "set_size fb' (n + 4) = Some out" "wf_buffer out" "window out = take (n + 4) (window fb')"
      "storage out = storage fb'" "buf_context out = buf_context fb'"
    using set_size_eq [OF fb'(2), of "n + 4"] fb'(4) assms(3) by auto
  have "window out = take n (window fb) @ to_be_bytes crc"
    using out(3) w assms by (simp add: min_def)
  then show ?thesis
    using v(1) u(1) s fb'(1,5,6) out(1,2,4,5) by auto
qed

lemma framer_frames:
  assumes wf: "wf_buffer data" "bsize data < 2 ^ 32"
    and al: "alloc s (12 + bsize data) = (fb, s')" "wf_buffer fb" "12 + bsize data \<le> bsize fb" "is_valid fb"
  shows "\<exists>out. framer_data_in alloc f s data ctx =
      Some ([Fr_DataOut out ctx, Fr_DataReturnOut data ctx], f, s') \<and>
    wf_buffer out \<and> window out = frame_of (window data) \<and>
    length (storage out) = length (storage fb) \<and> buf_context out = buf_context fb"
proof -
  let ?p = "window data"
  have lp: "length ?p = bsize data" using wf by simp
  obtain ser1 ser2 ser3 ser4 fb1 where head: "get_serializer fb = Some ser1"
      "serialize_u32 ser1 START_WORD Big = Some (Ok, ser2)"
      "serialize_u32 ser2 (of_nat (length ?p)) Big = Some (Ok, ser3)"
      "serialize_bytes ser3 ?p OmitLength Big = Some (Ok, ser4)" "put_data fb (bytes ser4) = Some fb1"
      "wf_buffer fb1" "is_valid fb1" "bsize fb1 = bsize fb"
      "window fb1 = frame_head ?p @ drop (8 + length ?p) (window fb)"
      "length (storage fb1) = length (storage fb)" "buf_context fb1 = buf_context fb"
    using framer_payload [OF al(2,4), of ?p] al(3) lp by auto
  have cov: "slice (window fb1) 0 (8 + bsize data) = Some (frame_head ?p)"
    using head(6,8,9) al(3) lp by (simp add: slice_def)
  obtain ser1' ser2' ser3' fb2 out where tail: "get_serializer fb1 = Some ser1'"
      "move_ser_to_offset ser1' (8 + bsize data) = Some (Ok, ser2')"
      "serialize_u32 ser2' (hash_u32 (frame_head ?p)) Big = Some (Ok, ser3')"
      "put_data fb1 (bytes ser3') = Some fb2" "set_size fb2 (8 + bsize data + 4) = Some out" "wf_buffer out"
      "window out = take (8 + bsize data) (window fb1) @ to_be_bytes (hash_u32 (frame_head ?p))"
      "length (storage out) = length (storage fb1)" "buf_context out = buf_context fb1"
    using framer_trailer [OF head(6,7), of "8 + bsize data"] head(8) al(3) wf(2) by fastforce
  have "window out = frame_of ?p"
    using tail(7) head(9) lp by (simp add: frame_of_def)
  moreover have "framer_data_in alloc f s data ctx = Some ([Fr_DataOut out ctx, Fr_DataReturnOut data ctx], f, s')"
    using wf al head tail cov lp
    by (simp add: framer_data_in_def frame_sizes add.assoc add.left_commute add.commute)
  ultimately show ?thesis using tail(6,8,9) head(10,11) by auto
qed


lemma framer_no_buffer:
  assumes "bsize data < 2 ^ 32" and "alloc s (12 + bsize data) = (fb, s')"
    and "\<not> is_valid fb \<or> bsize fb < 12 + bsize data"
  shows "\<exists>f' ev. framer_data_in alloc f s data ctx =
      Some (ev @ (if is_valid fb then [Fr_Deallocate fb] else []) @ [Fr_DataReturnOut data ctx], f', s') \<and>
    set ev \<subseteq> {Fr_NoBufferAvailable}"
proof (cases "ok_to_emit (no_buffer_available_throttle f)")
  case (Pair e t)
  have "8 + bsize data + 4 = 12 + bsize data" by simp
  with assms Pair show ?thesis
    by (intro exI [of _ "f\<lparr>no_buffer_available_throttle := t\<rparr>"]
        exI [of _ "if e then [Fr_NoBufferAvailable] else []"])
      (auto simp: framer_data_in_def frame_sizes)
qed

section \<open>What the deframer does\<close>

definition with_apid :: "u8 list \<Rightarrow> frame_context \<Rightarrow> frame_context" where
  "with_apid p ctx =
     (if length p < 2 then ctx
      else ctx\<lparr>apid := (case try_from ComPacketType_repr ComPacketType_values (from_be_bytes (take 2 p)) of
                          Some a \<Rightarrow> a | None \<Rightarrow> InvalidUninitialized)\<rparr>)"

definition payload_buffer :: "fw_buffer \<Rightarrow> fw_buffer" where
  "payload_buffer b = b\<lparr>offset := offset b + 8, bsize := bsize b - 12\<rparr>"

lemma payload_buffer_simps:
  assumes "wf_buffer b" and "12 \<le> bsize b"
  shows "wf_buffer (payload_buffer b)" and "window (payload_buffer b) = take (bsize b - 12) (drop 8 (window b))"
  using assms by (auto simp: payload_buffer_def wf_buffer_def window_def drop_take min_def add.commute)

lemma payload_buffer_step:
  assumes "wf_buffer b" and "12 \<le> bsize b"
  shows "advance b 8 = Some (b\<lparr>offset := offset b + 8, bsize := bsize b - 8\<rparr>)"
    and "set_size (b\<lparr>offset := offset b + 8, bsize := bsize b - 8\<rparr>) (bsize b - 12) = Some (payload_buffer b)"
  using assms by (auto simp: advance_def set_size_def payload_buffer_def wf_buffer_def buffer_capacity_def)

lemma move_deser_eq:
  assumes "wf_buf v" and "n \<le> length (content v)" and "0 < length (content v)"
  shows "\<exists>u. move_deser_to_offset v n = Some (Ok, u) \<and> wf_buf u \<and> unread u = drop n (content v)"
  using assms
  by (auto simp: move_deser_to_offset_def deserialize_skip_def reset_deser_def buf_defs)

lemma deser_at:
  assumes "wf_buffer b" and "is_valid b" and "n + nbytes TYPE('a) \<le> bsize b" and "0 < nbytes TYPE('a)"
  shows "\<exists>d u d'. get_deserializer b = Some d \<and> move_deser_to_offset d n = Some (Ok, u) \<and>
    deserialize_prim u (v :: 'a::len word) Big =
      Some (Ok, from_be_bytes (take (nbytes TYPE('a)) (drop n (window b))), d')"
proof -
  obtain d where d: "get_deserializer b = Some d" "wf_buf d" "content d = window b"
    using get_deserializer_eq [OF assms(1,2)] by blast
  obtain u where u: "move_deser_to_offset d n = Some (Ok, u)" "wf_buf u" "unread u = drop n (window b)"
    using move_deser_eq [OF d(2), of n] d(3) assms by auto
  have "length (unread u) = bsize b - n" using u assms by simp
  then have "\<not> length (unread u) < nbytes TYPE('a)" "unread u \<noteq> []" using assms(3,4) by auto
  then show ?thesis
    using d(1) u by (auto simp: deserialize_prim_eq from_bytes_def)
qed

lemma deser_header:
  assumes "wf_buffer b" and "is_valid b" and "12 \<le> bsize b"
  shows "\<exists>d d' d''. get_deserializer b = Some d \<and>
    deserialize_u32 d 0 Big = Some (Ok, from_be_bytes (take 4 (window b)), d') \<and>
    deserialize_u32 d' 0 Big = Some (Ok, from_be_bytes (take 4 (drop 4 (window b))), d'')"
proof -
  obtain d where d: "get_deserializer b = Some d" "wf_buf d" "unread d = window b"
    using get_deserializer_eq [OF assms(1,2)] by blast
  have len: "length (window b) = bsize b" using assms by simp
  then have ne: "window b \<noteq> []" "drop 4 (window b) \<noteq> []"
    using assms(3) by (metis list.size(3) not_numeral_le_zero, simp)
  have "deserialize_u32 d 0 Big = Some (Ok, from_be_bytes (take 4 (window b)), adv d 4)"
    using d ne len assms(3) by (simp add: deserialize_prim_eq from_bytes_def)
  moreover have "deserialize_u32 (adv d 4) 0 Big = Some (Ok, from_be_bytes (take 4 (drop 4 (window b))), adv d 8)"
    using d ne len assms(3) by (simp add: deserialize_prim_eq from_bytes_def)
  ultimately show ?thesis using d(1) by blast
qed

lemma deframer_apid:
  assumes "wf_buffer b" and "is_valid b" and "12 \<le> bsize b"
  shows "extract_apid b context
    = Some (if bsize b < 14 then [Df_Event PayloadTooShort LogSeverity_WarningLo] else [],
        with_apid (window (payload_buffer b)) context)"
proof (cases "bsize b < 14")
  case True
  then show ?thesis
    using assms payload_buffer_simps [OF assms(1,3)] by (auto simp: extract_apid_def frame_sizes with_apid_def)
next
  case False
  obtain d u d' where "get_deserializer b = Some d" "move_deser_to_offset d 8 = Some (Ok, u)"
      "deserialize_u16 u 0 Big = Some (Ok, from_be_bytes (take 2 (drop 8 (window b))), d')"
    using deser_at [OF assms(1,2), of 8, where 'a = 16 and v = 0] False by auto
  moreover have "take 2 (window (payload_buffer b)) = take 2 (drop 8 (window b))"
    using False payload_buffer_simps [OF assms(1,3)] by (simp add: min_def)
  moreover have "\<not> length (window (payload_buffer b)) < 2"
    using False assms payload_buffer_simps [OF assms(1,3)] by simp
  ultimately show ?thesis
    using False by (simp add: extract_apid_def frame_sizes with_apid_def)
qed

lemma deframer_eq:
  assumes wf: "wf_buffer b"
  defines "w \<equiv> window b"
  defines "len \<equiv> unat (from_be_bytes (take 4 (drop 4 w)) :: u32)"
  defines "early \<equiv> (if bsize b < 14 then [Df_Event PayloadTooShort LogSeverity_WarningLo] else [])"
  shows "deframer_data_in b ctx = Some (
    if bsize b < 12 then [Df_Event InvalidBufferReceived LogSeverity_WarningHi, Df_DataReturnOut b ctx]
    else if from_be_bytes (take 4 w) \<noteq> START_WORD
      then [Df_Event InvalidStartWord LogSeverity_WarningHi, Df_DataReturnOut b ctx]
    else if bsize b \<noteq> 12 + len
      then [Df_Event InvalidLengthReceived LogSeverity_WarningHi, Df_DataReturnOut b ctx]
    else if from_be_bytes (take 4 (drop (8 + len) w)) \<noteq> hash_u32 (take (8 + len) w)
      then early @ [Df_Event InvalidChecksum LogSeverity_WarningHi, Df_DataReturnOut b ctx]
    else early @ [Df_DataOut (payload_buffer b) (with_apid (window (payload_buffer b)) ctx)])"
proof (cases "12 \<le> bsize b")
  case False
  then show ?thesis by (simp add: deframer_data_in_def frame_sizes)
next
  case True
  have valid: "is_valid b" using wf True by (auto simp: is_valid_def wf_buffer_def)
  obtain d d' d'' where hdr: "get_deserializer b = Some d"
      "deserialize_u32 d 0 Big = Some (Ok, from_be_bytes (take 4 w), d')"
      "deserialize_u32 d' 0 Big = Some (Ok, from_be_bytes (take 4 (drop 4 w)), d'')"
    using deser_header [OF wf valid True] unfolding w_def by blast
  show ?thesis
  proof (cases "from_be_bytes (take 4 w) = START_WORD \<and> bsize b = 12 + len")
    case False
    then show ?thesis
      using True hdr by (auto simp: deframer_data_in_def frame_sizes len_def)
  next
    case ok: True
    have sz: "bsize b = 12 + len" using ok by simp
    obtain e u e' where crc: "get_deserializer b = Some e" "move_deser_to_offset e (8 + len) = Some (Ok, u)"
        "deserialize_u32 u 0 Big = Some (Ok, from_be_bytes (take 4 (drop (8 + len) w)), e')"
      using deser_at [OF wf valid, of "8 + len", where 'a = 32 and v = 0] sz unfolding w_def by auto
    have "e = d" using crc(1) hdr(1) by simp
    have cov: "slice w 0 (8 + len) = Some (take (8 + len) w)"
      using sz wf unfolding w_def by (simp add: slice_def)
    note apid = deframer_apid [OF wf valid True, of ctx, folded early_def]
    note steps = payload_buffer_step [OF wf True]
    have len: "unat (from_be_bytes (take 4 (drop 4 (window b))) :: u32) = len" by (simp add: len_def w_def)
    have tail: "do { data \<leftarrow> advance b (int HEADER_SIZE);
          n \<leftarrow> usub (bsize data) TRAILER_SIZE;
          data \<leftarrow> set_size data n;
          Some (calls @ [Df_DataOut data c]) } = Some (calls @ [Df_DataOut (payload_buffer b) c])" for calls c
      using steps True by (simp add: frame_sizes)
    have "deframer_data_in b ctx = do {
        (early, context_copy) \<leftarrow> extract_apid b ctx;
        deser \<leftarrow> get_deserializer b;
        (status, deser) \<leftarrow> move_deser_to_offset deser (8 + len);
        fw_assert (status = Ok);
        (status, transmitted_crc, deser) \<leftarrow> deserialize_u32 deser 0 Big;
        fw_assert (status = Ok);
        covered \<leftarrow> slice w 0 (8 + len);
        if transmitted_crc \<noteq> hash_u32 covered
        then Some (early @ [Df_Event InvalidChecksum LogSeverity_WarningHi, Df_DataReturnOut b ctx])
        else Some (early @ [Df_DataOut (payload_buffer b) context_copy]) }"
      unfolding deframer_data_in_def tail
      using True ok hdr wf len by (simp add: frame_sizes w_def)
    also have "\<dots> = Some (early @ (if from_be_bytes (take 4 (drop (8 + len) w)) \<noteq> hash_u32 (take (8 + len) w)
        then [Df_Event InvalidChecksum LogSeverity_WarningHi, Df_DataReturnOut b ctx]
        else [Df_DataOut (payload_buffer b) (with_apid (window (payload_buffer b)) ctx)]))"
      using crc cov by (simp add: apid)
    finally show ?thesis
      using True ok by simp
  qed
qed


text \<open>The four tests of the deframer succeed exactly on the frames the protocol defines.\<close>

definition frame_checks :: "u8 list \<Rightarrow> bool" where
  "frame_checks w \<longleftrightarrow>
     (let len = unat (from_be_bytes (take 4 (drop 4 w)) :: u32)
      in 12 \<le> length w \<and> from_be_bytes (take 4 w) = START_WORD \<and> length w = 12 + len \<and>
         from_be_bytes (take 4 (drop (8 + len) w)) = hash_u32 (take (8 + len) w))"

lemma be_take4:
  "4 \<le> length w \<Longrightarrow> (from_be_bytes (take 4 w) :: u32) = v \<longleftrightarrow> take 4 w = to_be_bytes v"
  using to_be_bytes_from_be_bytes [of "take 4 w", where 'a = 32] by auto

lemma frame_of_checks:
  assumes "length p < 2 ^ 32"
  shows "frame_checks (frame_of p)"
proof -
  have "unat (of_nat (length p) :: u32) = length p" using assms by (simp add: unat_of_nat)
  then have "unat (from_be_bytes (take 4 (drop 4 (frame_of p))) :: u32) = length p"
    by (simp add: frame_of_def frame_head_def)
  moreover have "take 4 (frame_of p) = to_be_bytes START_WORD"
    by (simp add: frame_of_def frame_head_def)
  moreover have "take (8 + length p) (frame_of p) = frame_head p"
      "drop (8 + length p) (frame_of p) = to_be_bytes (hash_u32 (frame_head p))"
    by (simp_all add: frame_of_def)
  ultimately show ?thesis by (simp add: frame_checks_def)
qed

lemma checks_frame_of:
  assumes "frame_checks w"
  shows "w = frame_of (take (length w - 12) (drop 8 w)) \<and> length w < 12 + 2 ^ 32"
proof -
  define n where "n = (from_be_bytes (take 4 (drop 4 w)) :: u32)"
  define p where "p = take (unat n) (drop 8 w)"
  have c: "length w = 12 + unat n" "from_be_bytes (take 4 w) = START_WORD"
      "from_be_bytes (take 4 (drop (8 + unat n) w)) = hash_u32 (take (8 + unat n) w)"
    using assms unfolding frame_checks_def Let_def n_def by blast+
  have w: "length w = 12 + unat n" "take 4 w = to_be_bytes START_WORD"
      "take 4 (drop (8 + unat n) w) = to_be_bytes (hash_u32 (take (8 + unat n) w))"
    using c(1) be_take4 [of w START_WORD] c(2)
      be_take4 [of "drop (8 + unat n) w" "hash_u32 (take (8 + unat n) w)"] c(3) by simp_all
  have p: "length p = unat n" using w(1) by (simp add: p_def)
  have "take 4 (drop 4 w) = to_be_bytes n"
    using be_take4 [of "drop 4 w" n, folded n_def] w(1) by simp
  then have "take 4 (drop 4 w) = to_be_bytes (of_nat (length p) :: u32)" by (simp add: p)
  moreover have "take (4 + (4 + unat n)) w = take 4 w @ take 4 (drop 4 w) @ p"
    unfolding take_add p_def by simp
  ultimately have "take (4 + (4 + unat n)) w = frame_head p"
    using w(2) by (simp add: frame_head_def)
  then have head: "take (8 + unat n) w = frame_head p" by simp
  have "w = take (8 + unat n) w @ take 4 (drop (8 + unat n) w)"
    using w(1) by simp
  then have "w = frame_of p" using head w(3) by (simp add: frame_of_def)
  moreover have "p = take (length w - 12) (drop 8 w)" using w(1) by (simp add: p_def)
  moreover have "length w < 12 + 2 ^ 32" using w(1) unsigned_less [of n] by simp
  ultimately show ?thesis by simp
qed

lemma frame_checks_iff:
  "frame_checks w \<longleftrightarrow> (\<exists>p. length p < 2 ^ 32 \<and> w = frame_of p)"
proof
  assume c: "frame_checks w"
  note conjunct1 [OF checks_frame_of [OF c]]
  moreover have "length (take (length w - 12) (drop 8 w)) < 2 ^ 32"
    using conjunct2 [OF checks_frame_of [OF c]] by (simp add: min_def, linarith)
  ultimately show "\<exists>p. length p < 2 ^ 32 \<and> w = frame_of p" by blast
qed (auto simp: frame_of_checks)

lemma frame_of_inject: "frame_of p = frame_of q \<longleftrightarrow> p = q"
proof
  assume eq: "frame_of p = frame_of q"
  then have "length p = length q" using length_frame_of by (metis add_left_cancel)
  moreover have "take (length r) (drop 8 (frame_of r)) = r" for r
    by (simp add: frame_of_def frame_head_def)
  ultimately show "p = q" using eq by metis
qed simp

lemma deframer_accepts:
  assumes "wf_buffer b" and "frame_checks (window b)"
  shows "deframer_data_in b ctx = Some (
    (if bsize b < 14 then [Df_Event PayloadTooShort LogSeverity_WarningLo] else []) @
    [Df_DataOut (payload_buffer b) (with_apid (window (payload_buffer b)) ctx)])"
proof -
  define n where "n = unat (from_be_bytes (take 4 (drop 4 (window b))) :: u32)"
  have "from_be_bytes (take 4 (window b)) = START_WORD" "length (window b) = 12 + n"
      "from_be_bytes (take 4 (drop (8 + n) (window b))) = hash_u32 (take (8 + n) (window b))"
    using assms(2) unfolding frame_checks_def Let_def n_def by blast+
  then show ?thesis
    using assms(1) deframer_eq [OF assms(1), of ctx, folded n_def] by simp
qed

lemma deframer_rejects:
  assumes "wf_buffer b" and "\<not> frame_checks (window b)"
  shows "\<exists>evs. deframer_data_in b ctx = Some (evs @ [Df_DataReturnOut b ctx]) \<and>
    evs \<noteq> [] \<and> (\<forall>c \<in> set evs. \<exists>e sev. c = Df_Event e sev)"
proof -
  define n where "n = unat (from_be_bytes (take 4 (drop 4 (window b))) :: u32)"
  have "\<not> (12 \<le> bsize b \<and> from_be_bytes (take 4 (window b)) = START_WORD \<and> bsize b = 12 + n \<and>
      from_be_bytes (take 4 (drop (8 + n) (window b))) = hash_u32 (take (8 + n) (window b)))"
    using assms(2) unfolding frame_checks_def Let_def n_def length_window [OF assms(1)] by blast
  then show ?thesis
    using deframer_eq [OF assms(1), of ctx, folded n_def]
    by (cases "bsize b < 14") (auto split: if_splits)
qed

lemma payload_of_frame:
  assumes "wf_buffer b" and "window b = frame_of p"
  shows "window (payload_buffer b) = p" and "wf_buffer (payload_buffer b)"
proof -
  have "bsize b = 12 + length p" using assms length_window by fastforce
  then show "window (payload_buffer b) = p" "wf_buffer (payload_buffer b)"
    using assms payload_buffer_simps [of b] by (simp_all add: frame_of_def frame_head_def)
qed


section \<open>Framing and deframing\<close>

text \<open>What a list of port calls delivers downstream and what it gives back upstream.\<close>

fun deframed :: "deframer_call list \<Rightarrow> (u8 list \<times> frame_context) list" where
  "deframed [] = []"
| "deframed (Df_DataOut b ctx # cs) = (window b, ctx) # deframed cs"
| "deframed (c # cs) = deframed cs"

fun returned :: "deframer_call list \<Rightarrow> (fw_buffer \<times> frame_context) list" where
  "returned [] = []"
| "returned (Df_DataReturnOut b ctx # cs) = (b, ctx) # returned cs"
| "returned (c # cs) = returned cs"

lemma port_calls_events:
  "(\<forall>c \<in> set evs. \<exists>e sev. c = Df_Event e sev) \<Longrightarrow>
    deframed (evs @ cs) = deframed cs \<and> returned (evs @ cs) = returned cs"
  by (induction evs) auto

lemma deframer_outcome:
  assumes "wf_buffer b"
  shows "\<exists>calls. deframer_data_in b ctx = Some calls \<and>
    (if frame_checks (window b)
     then deframed calls = [(window (payload_buffer b), with_apid (window (payload_buffer b)) ctx)] \<and> returned calls = []
     else deframed calls = [] \<and> returned calls = [(b, ctx)])"
proof (cases "frame_checks (window b)")
  case True
  then show ?thesis using deframer_accepts [OF assms True, of ctx] by auto
next
  case False
  obtain evs where "deframer_data_in b ctx = Some (evs @ [Df_DataReturnOut b ctx])"
      "\<forall>c \<in> set evs. \<exists>e sev. c = Df_Event e sev"
    using deframer_rejects [OF assms False] by blast
  then show ?thesis using False by (auto simp: port_calls_events)
qed

text \<open>
  C19.  The deframer never panics, whatever bytes a buffer holds, and is exact: a buffer that is a
  frame of the protocol (start word, length, payload, CRC-32 of all before it) is delivered as its
  payload with the packet type read from the payload in the context; every other buffer is returned
  to its owner unchanged with its original context, and nothing is delivered.
\<close>

theorem deframer_exact:
  assumes "wf_buffer b"
  shows "\<exists>calls. deframer_data_in b ctx = Some calls \<and>
    (\<forall>p. length p < 2 ^ 32 \<and> window b = frame_of p \<longrightarrow>
       deframed calls = [(p, with_apid p ctx)] \<and> returned calls = []) \<and>
    ((\<nexists>p. length p < 2 ^ 32 \<and> window b = frame_of p) \<longrightarrow>
       deframed calls = [] \<and> returned calls = [(b, ctx)])"
  using deframer_outcome [OF assms, of ctx] payload_of_frame [OF assms]
  unfolding frame_checks_iff by (auto split: if_splits)

theorem deframer_exact_witness:
  "\<exists>calls. deframer_data_in (from_storage (frame_of [0, 1, 42]) 7) frame_context_default = Some calls \<and>
    deframed calls = [([0, 1, 42], with_apid [0, 1, 42] frame_context_default)] \<and> returned calls = []"
proof -
  have "length [0, 1, 42 :: u8] < 2 ^ 32" by simp
  then show ?thesis
    using deframer_exact [of "from_storage (frame_of [0, 1, 42]) 7" frame_context_default]
    by (metis wf_from_storage)
qed

text \<open>
  C20.  Framing and then deframing delivers the payload.  With an allocator that returns a buffer of at
  least the size asked for, the framer sends exactly one frame, gives the payload buffer back, and
  the deframer turns that frame into the payload bytes.
\<close>

theorem frame_deframe_roundtrip:
  assumes "wf_buffer data" and "bsize data < 2 ^ 32"
    and "alloc s (12 + bsize data) = (fb, s')"
    and "wf_buffer fb" and "12 + bsize data \<le> bsize fb" and "is_valid fb"
  shows "\<exists>out calls. framer_data_in alloc f s data ctx =
      Some ([Fr_DataOut out ctx, Fr_DataReturnOut data ctx], f, s') \<and>
    deframer_data_in out ctx' = Some calls \<and>
    deframed calls = [(window data, with_apid (window data) ctx')] \<and> returned calls = []"
proof -
  obtain out where out: "framer_data_in alloc f s data ctx =
      Some ([Fr_DataOut out ctx, Fr_DataReturnOut data ctx], f, s')"
      "wf_buffer out" "window out = frame_of (window data)"
    using framer_frames [of data alloc s fb s' f ctx, OF assms] by blast
  have "frame_checks (window out)"
    using assms(1,2) out(3) by (simp add: frame_of_checks)
  then show ?thesis
    using deframer_outcome [OF out(2), of ctx'] payload_of_frame [OF out(2,3)] out(1) by auto
qed

theorem frame_deframe_roundtrip_witness:
  "\<exists>out calls. framer_data_in (\<lambda>(k :: nat) n. (buffer_allocate (n + 5), Suc k)) framer_new 0
      (from_storage [0, 3, 9] 1) frame_context_default =
      Some ([Fr_DataOut out frame_context_default, Fr_DataReturnOut (from_storage [0, 3, 9] 1) frame_context_default],
        framer_new, 1) \<and>
    deframer_data_in out frame_context_default = Some calls \<and>
    deframed calls = [([0, 3, 9], with_apid [0, 3, 9] frame_context_default)] \<and> returned calls = []"
  using frame_deframe_roundtrip [of "from_storage [0, 3, 9] 1" "\<lambda>k n. (buffer_allocate (n + 5), Suc k)" 0
      "buffer_allocate 20" 1 framer_new frame_context_default frame_context_default]
  by (simp add: from_storage_def buffer_allocate_def wf_buffer_def is_valid_def window_def)

text \<open>
  C21.  A frame damaged on the way is never delivered: when up to four consecutive bytes of the header
  and payload are changed, or the checksum itself is, the deframer gives the buffer back.
\<close>

theorem corrupted_frame_rejected:
  assumes "length p < 2 ^ 32" and "frame_head p = xs @ as @ ys"
    and "length as = length bs" and "length as \<le> 4" and "length crc = 4"
    and "as \<noteq> bs \<and> crc = to_be_bytes (hash_u32 (frame_head p)) \<or>
      as = bs \<and> crc \<noteq> to_be_bytes (hash_u32 (frame_head p))"
    and "wf_buffer b" and "window b = xs @ bs @ ys @ crc"
  shows "\<exists>calls. deframer_data_in b ctx = Some calls \<and> deframed calls = [] \<and> returned calls = [(b, ctx)]"
proof -
  have "\<not> frame_checks (window b)"
  proof
    assume "frame_checks (window b)"
    then obtain q where q: "xs @ bs @ ys @ crc = frame_head q @ to_be_bytes (hash_u32 (frame_head q))"
      using assms(8) by (auto simp: frame_checks_iff frame_of_def)
    then have "(xs @ bs @ ys) @ crc = frame_head q @ to_be_bytes (hash_u32 (frame_head q))" by simp
    then have "xs @ bs @ ys = frame_head q \<and> crc = to_be_bytes (hash_u32 (frame_head q))"
      using assms(5) by (subst (asm) append_eq_append_conv) simp_all
    then have "xs @ bs @ ys = frame_head q" and crc: "crc = to_be_bytes (hash_u32 (frame_head q))" by simp_all
    then have h: "crc = to_be_bytes (hash_u32 (xs @ bs @ ys))" by simp
    with assms(2,6) have "as \<noteq> bs" by auto
    moreover from this assms(6) h assms(2) have "hash_u32 (xs @ as @ ys) = hash_u32 (xs @ bs @ ys)"
      by (simp add: to_be_bytes_inject)
    then have "foldl crc32_byte 0xFFFFFFFF (xs @ as @ ys) = foldl crc32_byte 0xFFFFFFFF (xs @ bs @ ys)"
      unfolding hash_u32_eq by (metis bit.double_compl)
    then have "as = bs"
      using assms(3,4) crc32.burst_detected by blast
    ultimately show False by simp
  qed
  with deframer_outcome [OF assms(7), of ctx] show ?thesis by auto
qed

theorem corrupted_frame_rejected_witness:
  "\<exists>calls. deframer_data_in (from_storage (to_be_bytes START_WORD @ to_be_bytes (2 :: u32) @ [7, 9] @
      to_be_bytes (hash_u32 (frame_head [7, 8]))) 0) frame_context_default = Some calls \<and>
    deframed calls = [] \<and>
    returned calls = [(from_storage (to_be_bytes START_WORD @ to_be_bytes (2 :: u32) @ [7, 9] @
      to_be_bytes (hash_u32 (frame_head [7, 8]))) 0, frame_context_default)]"
  by (rule corrupted_frame_rejected [of "[7, 8]" "to_be_bytes START_WORD @ to_be_bytes (2 :: u32) @ [7]" "[8]" "[]" "[9]"
        "to_be_bytes (hash_u32 (frame_head [7, 8]))"]) (simp_all add: frame_head_def)

end
