(* ===== verification/Fw_Struct.thy ===== *)
theory Fw_Struct
  imports Fw_Serial
begin

text \<open>
  FPP structs (\<open>fprime-fw/src/fpp.rs\<close>, \<open>fpp_struct!\<close>): the codec the macro generates, for a struct
  given by its members in declaration order.  The locale \<open>fpp_struct\<close> is the contract of a struct
  whose members are integers: decoding inverts encoding on every byte string that is long enough,
  and a short one leaves the target untouched.
\<close>

section \<open>The generated codec\<close>

definition struct_serialize_to ::
  "('s \<Rightarrow> prim list) \<Rightarrow> 's \<Rightarrow> ser_buf \<Rightarrow> Endianness \<Rightarrow> (SerializeStatus \<times> ser_buf) option" where
  "struct_serialize_to members s b e = ser_list (\<lambda>v b. prim_serialize_to v b e) (members s) b"

definition struct_deserialize_from ::
  "('s \<Rightarrow> prim list) \<Rightarrow> (prim list \<Rightarrow> 's) \<Rightarrow> 's \<Rightarrow> 's \<Rightarrow> ser_buf \<Rightarrow> Endianness
    \<Rightarrow> (SerializeStatus \<times> 's \<times> ser_buf) option" where
  "struct_deserialize_from members build dflt self b e =
     do { (st, tmp, b) \<leftarrow> deser_list (\<lambda>t b. prim_deserialize_from t b e) (members dflt) b;
          Some (st, if st = Ok then build tmp else self, b) }"

definition struct_serialized_size :: "('s \<Rightarrow> prim list) \<Rightarrow> 's \<Rightarrow> nat" where
  "struct_serialized_size members s = sum_list (map prim_serialized_size (members s))"

section \<open>Reading integer members\<close>

primrec word_prim :: "prim \<Rightarrow> bool" where
  "word_prim (PU8 _) = True"
| "word_prim (PI8 _) = True"
| "word_prim (PU16 _) = True"
| "word_prim (PI16 _) = True"
| "word_prim (PU32 _) = True"
| "word_prim (PI32 _) = True"
| "word_prim (PU64 _) = True"
| "word_prim (PI64 _) = True"
| "word_prim (PF32 _) = True"
| "word_prim (PF64 _) = True"
| "word_prim (PBool _) = False"

lemma to_bytes_of_bytes:
  "8 dvd LENGTH('a) \<Longrightarrow> length bs = nbytes TYPE('a) \<Longrightarrow> to_bytes e (from_bytes e bs :: 'a::len word) = bs"
  by (cases e) (simp_all add: to_bytes_def from_bytes_def to_be_bytes_from_be_bytes to_le_bytes_from_le_bytes)

lemma word_prim_decode:
  assumes "wf_buf b" and "word_prim t" and "prim_serialized_size t \<le> length (unread b)"
  shows "\<exists>v. prim_deserialize_from t b e = Some (Ok, v, adv b (prim_serialized_size t)) \<and> same_kind t v \<and>
    prim_enc e v = take (prim_serialized_size t) (unread b) \<and> prim_serialized_size v = prim_serialized_size t"
  using assms
  by (cases t)
    (auto simp: read_as_def same_kind_def deserialize_f_eq deserialize_prim_eq to_bytes_of_bytes min_def)

lemma word_prim_decode_short:
  assumes "wf_buf b" and "word_prim t" and "length (unread b) < prim_serialized_size t"
  shows "\<exists>st v. prim_deserialize_from t b e = Some (st, v, b) \<and> st \<noteq> Ok"
  using assms
  by (cases t) (auto simp: read_as_def deserialize_f_eq deserialize_prim_eq)

lemma prim_size_pos: "0 < prim_serialized_size t"
  by (cases t) simp_all

lemma deser_words:
  assumes "wf_buf b" and "list_all word_prim ts" and "sum_list (map prim_serialized_size ts) \<le> length (unread b)"
  shows "\<exists>vs. deser_list (\<lambda>t b. prim_deserialize_from t b e) ts b =
      Some (Ok, vs, adv b (sum_list (map prim_serialized_size ts))) \<and> list_all2 same_kind ts vs \<and>
    concat (map (prim_enc e) vs) = take (sum_list (map prim_serialized_size ts)) (unread b)"
  using assms
proof (induction ts arbitrary: b)
  case Nil
  then show ?case by (simp add: adv_def)
next
  case (Cons t ts)
  then obtain v where v: "prim_deserialize_from t b e = Some (Ok, v, adv b (prim_serialized_size t))"
      "same_kind t v" "prim_enc e v = take (prim_serialized_size t) (unread b)"
    using word_prim_decode [of b t e] by auto
  have "sum_list (map prim_serialized_size ts) \<le> length (unread b) - prim_serialized_size t"
    using Cons.prems by simp
  then obtain vs where "deser_list (\<lambda>t b. prim_deserialize_from t b e) ts (adv b (prim_serialized_size t)) =
      Some (Ok, vs, adv (adv b (prim_serialized_size t)) (sum_list (map prim_serialized_size ts)))"
      "list_all2 same_kind ts vs"
      "concat (map (prim_enc e) vs) = take (sum_list (map prim_serialized_size ts)) (drop (prim_serialized_size t) (unread b))"
    using Cons.IH [of "adv b (prim_serialized_size t)"] Cons.prems by auto
  with v Cons.prems show ?case by (simp add: fw_try_def take_add)
qed

lemma deser_words_short:
  assumes "wf_buf b" and "list_all word_prim ts" and "length (unread b) < sum_list (map prim_serialized_size ts)"
  shows "\<exists>st vs b'. deser_list (\<lambda>t b. prim_deserialize_from t b e) ts b = Some (st, vs, b') \<and> st \<noteq> Ok \<and>
    wf_buf b' \<and> content b' = content b"
  using assms
proof (induction ts arbitrary: b)
  case Nil
  then show ?case by simp
next
  case (Cons t ts)
  show ?case
  proof (cases "length (unread b) < prim_serialized_size t")
    case True
    then show ?thesis
      using word_prim_decode_short [of b t e] Cons.prems by (auto simp: fw_try_def)
  next
    case False
    then obtain v where "prim_deserialize_from t b e = Some (Ok, v, adv b (prim_serialized_size t))"
      using word_prim_decode [of b t e] Cons.prems by auto
    moreover have "\<exists>st vs b'. deser_list (\<lambda>t b. prim_deserialize_from t b e) ts (adv b (prim_serialized_size t)) =
        Some (st, vs, b') \<and> st \<noteq> Ok \<and> wf_buf b' \<and> content b' = content (adv b (prim_serialized_size t))"
      using Cons.prems False by (intro Cons.IH) auto
    ultimately show ?thesis
      using Cons.prems False by (auto simp: fw_try_def)
  qed
qed

lemmas kind_simps = same_kind_def list_all2_Cons1

lemma prim_kind_cases [simp]:
  "0 = prim_kind v \<longleftrightarrow> (\<exists>x. v = PU8 x)" "2 = prim_kind v \<longleftrightarrow> (\<exists>x. v = PU16 x)" "4 = prim_kind v \<longleftrightarrow> (\<exists>x. v = PU32 x)"
  by (cases v; simp)+

section \<open>The struct contract\<close>

definition struct_enc :: "('s \<Rightarrow> prim list) \<Rightarrow> Endianness \<Rightarrow> 's \<Rightarrow> u8 list" where
  "struct_enc members e s = concat (map (prim_enc e) (members s))"

locale fpp_struct =
  fixes members :: "'s \<Rightarrow> prim list"
    and build :: "prim list \<Rightarrow> 's"
  assumes build_members: "build (members s) = s"
    and members_build: "list_all2 same_kind (members s) vs \<Longrightarrow> members (build vs) = vs"
    and members_kind: "list_all2 same_kind (members s) (members t)"
    and members_words: "list_all word_prim (members s)"
    and members_some: "members s \<noteq> []"
begin

lemma length_struct_enc: "length (struct_enc members e s) = struct_serialized_size members s"
  by (simp add: struct_enc_def struct_serialized_size_def length_concat comp_def)

lemma same_size: "struct_serialized_size members s = struct_serialized_size members t"
proof -
  have "list_all2 same_kind xs ys \<Longrightarrow> map prim_serialized_size xs = map prim_serialized_size ys" for xs ys
  proof (induction rule: list_all2_induct)
    case (Cons x xs y ys)
    then show ?case by (cases x; cases y) (simp_all add: same_kind_def)
  qed simp
  then show ?thesis
    using members_kind [of s t] by (simp add: struct_serialized_size_def)
qed

lemma size_pos: "0 < struct_serialized_size members s"
  using members_some [of s] prim_size_pos by (cases "members s") (auto simp: struct_serialized_size_def)

lemma serialize:
  assumes "wf_buf b" and "struct_serialized_size members s \<le> room b"
  shows "struct_serialize_to members s b e = Some (Ok, put b (struct_enc members e s))"
  using assms members_some [of s] length_struct_enc [of e s]
  by (simp add: struct_serialize_to_def struct_enc_def prim.ser_list_enc list_all_iff)

lemma decode:
  assumes "wf_buf b" and "struct_serialized_size members d \<le> length (unread b)"
  shows "\<exists>s. struct_deserialize_from members build d self b e =
      Some (Ok, s, adv b (struct_serialized_size members d)) \<and>
    struct_enc members e s = take (struct_serialized_size members d) (unread b)"
proof -
  obtain vs where vs: "deser_list (\<lambda>t b. prim_deserialize_from t b e) (members d) b =
        Some (Ok, vs, adv b (struct_serialized_size members d))" "list_all2 same_kind (members d) vs"
      "concat (map (prim_enc e) vs) = take (struct_serialized_size members d) (unread b)"
    using deser_words [OF assms(1) members_words, of d e] assms(2) by (auto simp: struct_serialized_size_def)
  with members_build [OF vs(2)] show ?thesis
    by (auto simp: struct_deserialize_from_def struct_enc_def)
qed

lemma decode_short:
  assumes "wf_buf b" and "length (unread b) < struct_serialized_size members d"
  shows "\<exists>st b'. struct_deserialize_from members build d self b e = Some (st, self, b') \<and> st \<noteq> Ok \<and>
    wf_buf b' \<and> content b' = content b"
  using deser_words_short [OF assms(1) members_words, of d e] assms(2)
  by (auto simp: struct_deserialize_from_def struct_serialized_size_def)

lemma decode_enc:
  assumes "wf_buf b" and "unread b = struct_enc members e s @ rest"
  shows "struct_deserialize_from members build d self b e = Some (Ok, s, adv b (length (struct_enc members e s)))"
proof -
  have "deser_list (\<lambda>t b. prim_deserialize_from t b e) (members d) b =
      Some (Ok, members s, adv b (length (concat (map (prim_enc e) (members s)))))"
    using assms members_kind by (intro prim.deser_list_enc) (simp_all add: struct_enc_def list_all_iff)
  then show ?thesis
    by (simp add: struct_deserialize_from_def struct_enc_def build_members)
qed

lemma enc_inject: "struct_enc members e s = struct_enc members e t \<longleftrightarrow> s = t"
proof
  assume eq: "struct_enc members e s = struct_enc members e t"
  let ?b = "put (linear_buffer_new (length (struct_enc members e s))) (struct_enc members e s)"
  have "wf_buf ?b" "unread ?b = struct_enc members e s" by simp_all
  then have "struct_deserialize_from members build s s ?b e = Some (Ok, s, adv ?b (length (struct_enc members e s)))"
      "struct_deserialize_from members build s s ?b e = Some (Ok, t, adv ?b (length (struct_enc members e t)))"
    using eq by (intro decode_enc [where rest = "[]"]; simp)+
  then show "s = t" by simp
qed simp

end

sublocale fpp_struct < codec: fw_codec "struct_enc members e" "\<lambda>s b. struct_serialize_to members s b e"
  "\<lambda>t b. struct_deserialize_from members build d t b e" "\<lambda>_. True" "\<lambda>_ _. True" for e d
  by unfold_locales (simp_all add: serialize decode_enc length_struct_enc)

end
