(* ===== verification/Ccsds_Types.thy ===== *)
theory Ccsds_Types
  imports Fw_Struct Fw_Enums
begin

text \<open>
  The CCSDS wire types (\<open>fprime-svc/src/ccsds/types.rs\<close>): the Space Packet, TM, TC and AOS headers as
  FPP structs of integer members, and the packing and extraction of their bit fields.
\<close>

section \<open>Constants and errors\<close>

definition SPACECRAFT_ID :: u16 where "SPACECRAFT_ID = 0x0044"
definition TM_FRAME_FIXED_SIZE :: nat where "TM_FRAME_FIXED_SIZE = 1024"

datatype FrameError =
    SpInvalidPacket | SpInvalidLength | TcInvalidScid | TcInvalidLength | TcInvalidVcid | TcInvalidCrc
  | AosInvalidScid | AosInvalidLength | AosInvalidVcid | AosInvalidCrc | AosInvalidVersion | AosInvalidEpp
  | AosVcFrameCountGap | SdlsDecryptionFailure

section \<open>Space Packet header\<close>

record space_packet_header =
  packet_identification :: u16
  packet_sequence_control :: u16
  packet_data_length :: u16

definition sp_header_members :: "space_packet_header \<Rightarrow> prim list" where
  "sp_header_members h = [PU16 (packet_identification h), PU16 (packet_sequence_control h), PU16 (packet_data_length h)]"

fun sp_header_build :: "prim list \<Rightarrow> space_packet_header" where
  "sp_header_build [PU16 a, PU16 b, PU16 c] =
     \<lparr>packet_identification = a, packet_sequence_control = b, packet_data_length = c\<rparr>"
| "sp_header_build _ = \<lparr>packet_identification = 0, packet_sequence_control = 0, packet_data_length = 0\<rparr>"

definition sp_header_default :: space_packet_header where
  "sp_header_default = \<lparr>packet_identification = 0, packet_sequence_control = 0, packet_data_length = 0\<rparr>"

definition SP_HEADER_SIZE :: nat where "SP_HEADER_SIZE = 6"

definition build_packet_identification :: "u8 \<Rightarrow> u8 \<Rightarrow> bool \<Rightarrow> u16 \<Rightarrow> u16" where
  "build_packet_identification pvn packet_type sec_hdr apid =
     (push_bit 13 (ucast pvn) AND 0xE000) OR (push_bit 12 (ucast packet_type) AND 0x1000)
       OR (push_bit 11 (if sec_hdr then 1 else 0) AND 0x0800) OR (apid AND 0x07FF)"

definition build_packet_sequence_control :: "u8 \<Rightarrow> u16 \<Rightarrow> u16" where
  "build_packet_sequence_control flags cnt =
     (push_bit 14 (ucast flags) AND 0xC000) OR (cnt AND 0x3FFF)"

definition sp_pvn :: "space_packet_header \<Rightarrow> u8" where
  "sp_pvn h = ucast (drop_bit 13 (packet_identification h AND 0xE000))"

definition sp_packet_type :: "space_packet_header \<Rightarrow> u8" where
  "sp_packet_type h = ucast (drop_bit 12 (packet_identification h AND 0x1000))"

definition sp_has_sec_hdr :: "space_packet_header \<Rightarrow> bool" where
  "sp_has_sec_hdr h \<longleftrightarrow> packet_identification h AND 0x0800 \<noteq> 0"

definition sp_apid_value :: "space_packet_header \<Rightarrow> u16" where
  "sp_apid_value h = packet_identification h AND 0x07FF"

definition sp_sequence_flags :: "space_packet_header \<Rightarrow> u8" where
  "sp_sequence_flags h = ucast (drop_bit 14 (packet_sequence_control h AND 0xC000))"

definition sp_sequence_count :: "space_packet_header \<Rightarrow> u16" where
  "sp_sequence_count h = packet_sequence_control h AND 0x3FFF"

definition sp_data_field_length :: "space_packet_header \<Rightarrow> u32" where
  "sp_data_field_length h = ucast (packet_data_length h) + 1"

definition sp_length_token :: "u16 \<Rightarrow> u16 option" where
  "sp_length_token n = csub n 1"

section \<open>TM header and trailer\<close>

record tm_header =
  tm_global_vc_id :: u16
  master_frame_count :: u8
  virtual_frame_count :: u8
  data_field_status :: u16

definition tm_header_members :: "tm_header \<Rightarrow> prim list" where
  "tm_header_members h =
     [PU16 (tm_global_vc_id h), PU8 (master_frame_count h), PU8 (virtual_frame_count h), PU16 (data_field_status h)]"

fun tm_header_build :: "prim list \<Rightarrow> tm_header" where
  "tm_header_build [PU16 a, PU8 b, PU8 c, PU16 d] =
     \<lparr>tm_global_vc_id = a, master_frame_count = b, virtual_frame_count = c, data_field_status = d\<rparr>"
| "tm_header_build _ = \<lparr>tm_global_vc_id = 0, master_frame_count = 0, virtual_frame_count = 0, data_field_status = 0\<rparr>"

definition TM_HEADER_SIZE :: nat where "TM_HEADER_SIZE = 6"
definition TM_TRAILER_SIZE :: nat where "TM_TRAILER_SIZE = 2"

definition build_global_vc_id :: "u16 \<Rightarrow> u8 \<Rightarrow> bool \<Rightarrow> u16" where
  "build_global_vc_id scid vcid ocf =
     push_bit 1 (ucast vcid) OR push_bit 4 scid OR (if ocf then 1 else 0)"

definition build_data_field_status :: "bool \<Rightarrow> bool \<Rightarrow> bool \<Rightarrow> u8 \<Rightarrow> u16 \<Rightarrow> u16" where
  "build_data_field_status sec sync order seg fhp =
     (if sec then 0x8000 else 0) OR (if sync then 0x4000 else 0) OR (if order then 0x2000 else 0)
       OR (push_bit 11 (ucast seg) AND 0x1800) OR (fhp AND 0x07FF)"

definition tm_frame_version :: "tm_header \<Rightarrow> u8" where
  "tm_frame_version h = ucast (drop_bit 14 (tm_global_vc_id h AND 0xC000))"

definition tm_spacecraft_id :: "tm_header \<Rightarrow> u16" where
  "tm_spacecraft_id h = drop_bit 4 (tm_global_vc_id h AND 0x3FF0)"

definition tm_vc_id :: "tm_header \<Rightarrow> u8" where
  "tm_vc_id h = ucast (drop_bit 1 (tm_global_vc_id h AND 0x000E))"

definition tm_ocf_flag :: "tm_header \<Rightarrow> bool" where
  "tm_ocf_flag h \<longleftrightarrow> tm_global_vc_id h AND 0x0001 \<noteq> 0"

definition tm_segment_length_id :: "tm_header \<Rightarrow> u8" where
  "tm_segment_length_id h = ucast (drop_bit 11 (data_field_status h AND 0x1800))"

definition tm_first_header_pointer :: "tm_header \<Rightarrow> u16" where
  "tm_first_header_pointer h = data_field_status h AND 0x07FF"

section \<open>TC header and trailer\<close>

record tc_header =
  flags_and_sc_id :: u16
  vc_id_and_length :: u16
  frame_sequence_num :: u8

definition tc_header_members :: "tc_header \<Rightarrow> prim list" where
  "tc_header_members h = [PU16 (flags_and_sc_id h), PU16 (vc_id_and_length h), PU8 (frame_sequence_num h)]"

fun tc_header_build :: "prim list \<Rightarrow> tc_header" where
  "tc_header_build [PU16 a, PU16 b, PU8 c] = \<lparr>flags_and_sc_id = a, vc_id_and_length = b, frame_sequence_num = c\<rparr>"
| "tc_header_build _ = \<lparr>flags_and_sc_id = 0, vc_id_and_length = 0, frame_sequence_num = 0\<rparr>"

definition tc_header_default :: tc_header where
  "tc_header_default = \<lparr>flags_and_sc_id = 0, vc_id_and_length = 0, frame_sequence_num = 0\<rparr>"

definition TC_HEADER_SIZE :: nat where "TC_HEADER_SIZE = 5"
definition TC_TRAILER_SIZE :: nat where "TC_TRAILER_SIZE = 2"

definition build_flags_and_sc_id :: "bool \<Rightarrow> bool \<Rightarrow> u16 \<Rightarrow> u16" where
  "build_flags_and_sc_id bypass control scid =
     (if bypass then 0x2000 else 0) OR (if control then 0x1000 else 0) OR (scid AND 0x03FF)"

definition build_vc_id_and_length :: "u8 \<Rightarrow> u16 \<Rightarrow> u16 option" where
  "build_vc_id_and_length vcid n =
     do { len \<leftarrow> csub n 1;
          Some ((push_bit 10 (ucast vcid) AND 0xFC00) OR (len AND 0x03FF)) }"

definition tc_frame_version :: "tc_header \<Rightarrow> u8" where
  "tc_frame_version h = ucast (drop_bit 14 (flags_and_sc_id h AND 0xC000))"

definition tc_bypass_flag :: "tc_header \<Rightarrow> bool" where
  "tc_bypass_flag h \<longleftrightarrow> flags_and_sc_id h AND 0x2000 \<noteq> 0"

definition tc_control_command_flag :: "tc_header \<Rightarrow> bool" where
  "tc_control_command_flag h \<longleftrightarrow> flags_and_sc_id h AND 0x1000 \<noteq> 0"

definition tc_spacecraft_id :: "tc_header \<Rightarrow> u16" where
  "tc_spacecraft_id h = flags_and_sc_id h AND 0x03FF"

definition tc_vc_id :: "tc_header \<Rightarrow> u8" where
  "tc_vc_id h = ucast (drop_bit 10 (vc_id_and_length h AND 0xFC00))"

definition tc_total_frame_length :: "tc_header \<Rightarrow> u16" where
  "tc_total_frame_length h = (vc_id_and_length h AND 0x03FF) + 1"

text \<open>The one-member trailers (\<open>TMTrailer\<close>, \<open>TCTrailer\<close>, \<open>AOSTrailer\<close>).\<close>

record fecf_trailer =
  fecf :: u16

definition trailer_members :: "fecf_trailer \<Rightarrow> prim list" where
  "trailer_members t = [PU16 (fecf t)]"

fun trailer_build :: "prim list \<Rightarrow> fecf_trailer" where
  "trailer_build [PU16 a] = \<lparr>fecf = a\<rparr>"
| "trailer_build _ = \<lparr>fecf = 0\<rparr>"

section \<open>The headers are structs\<close>

interpretation sp_header: fpp_struct sp_header_members sp_header_build
  by unfold_locales (auto simp: sp_header_members_def kind_simps)

interpretation tm_header: fpp_struct tm_header_members tm_header_build
  by unfold_locales (auto simp: tm_header_members_def kind_simps)

interpretation tc_header: fpp_struct tc_header_members tc_header_build
  by unfold_locales (auto simp: tc_header_members_def kind_simps)

interpretation fecf_trailer: fpp_struct trailer_members trailer_build
  by unfold_locales (auto simp: trailer_members_def kind_simps)

lemma header_sizes [simp]:
  "struct_serialized_size sp_header_members h = 6" "struct_serialized_size tm_header_members g = 6"
  "struct_serialized_size tc_header_members k = 5" "struct_serialized_size trailer_members t = 2"
  by (simp_all add: struct_serialized_size_def sp_header_members_def tm_header_members_def tc_header_members_def
      trailer_members_def)


section \<open>Bit fields\<close>

lemma field_masks:
  "(0xE000 :: u16) = push_bit 13 (mask 3)" "(0x1000 :: u16) = push_bit 12 (mask 1)" "(0x0800 :: u16) = push_bit 11 (mask 1)"
  "(0x07FF :: u16) = mask 11" "(0xC000 :: u16) = push_bit 14 (mask 2)" "(0x3FFF :: u16) = mask 14"
  "(0x2000 :: u16) = push_bit 13 (mask 1)" "(0x03FF :: u16) = mask 10" "(0xFC00 :: u16) = push_bit 10 (mask 6)"
  "(0x1800 :: u16) = push_bit 11 (mask 2)" "(0x8000 :: u16) = push_bit 15 (mask 1)" "(0x4000 :: u16) = push_bit 14 (mask 1)"
  "(0x3FF0 :: u16) = push_bit 4 (mask 10)" "(0x000E :: u16) = push_bit 1 (mask 3)"
  by (simp_all add: mask_eq_exp_minus_1)

lemma flag_bits:
  "(x :: u16) AND 0x0800 \<noteq> 0 \<longleftrightarrow> bit x 11" "x AND 0x2000 \<noteq> 0 \<longleftrightarrow> bit x 13"
  "x AND 0x1000 \<noteq> 0 \<longleftrightarrow> bit x 12" "x AND 0x0001 \<noteq> 0 \<longleftrightarrow> bit x 0"
  using and_exp_eq_0_iff_not_bit [of x 11] and_exp_eq_0_iff_not_bit [of x 13] and_exp_eq_0_iff_not_bit [of x 12]
    and_exp_eq_0_iff_not_bit [of x 0]
  by simp_all

text \<open>The simplifier reads a bit of a word literal as a bit of an integer literal.\<close>

lemma single_bits:
  "bit (0x0800 :: int) n \<longleftrightarrow> n = 11" "bit (0x2000 :: int) n \<longleftrightarrow> n = 13" "bit (0x1000 :: int) n \<longleftrightarrow> n = 12"
  "bit (0x8000 :: int) n \<longleftrightarrow> n = 15" "bit (0x4000 :: int) n \<longleftrightarrow> n = 14"
  using bit_exp_iff [of 11 n, where 'a = int] bit_exp_iff [of 13 n, where 'a = int]
    bit_exp_iff [of 12 n, where 'a = int] bit_exp_iff [of 15 n, where 'a = int] bit_exp_iff [of 14 n, where 'a = int]
  by simp_all

lemma sp_identification_fields:
  assumes "pvn < 2 ^ 3" and "ptype < 2 ^ 1" and "a < 2 ^ 11"
    and "packet_identification h = build_packet_identification pvn ptype sec a"
  shows "sp_pvn h = pvn" and "sp_packet_type h = ptype" and "sp_has_sec_hdr h = sec" and "sp_apid_value h = a"
proof -
  note bits = small_bits [OF assms(1)] small_bits [OF assms(2)] small_bits [OF assms(3)]
  note defs = assms(4) build_packet_identification_def field_masks
  show "sp_pvn h = pvn"
    unfolding sp_pvn_def defs by (rule bit_word_eqI) (auto simp: bit_simps single_bits dest: bits)
  show "sp_packet_type h = ptype"
    unfolding sp_packet_type_def defs by (rule bit_word_eqI) (auto simp: bit_simps single_bits dest: bits)
  show "sp_apid_value h = a"
    unfolding sp_apid_value_def defs by (rule bit_word_eqI) (auto simp: bit_simps single_bits dest: bits)
  show "sp_has_sec_hdr h = sec"
    unfolding sp_has_sec_hdr_def flag_bits unfolding defs by (auto simp: bit_simps single_bits dest: bits)
qed


lemma sp_sequence_fields:
  assumes "flags < 2 ^ 2" and "cnt < 2 ^ 14" and "packet_sequence_control h = build_packet_sequence_control flags cnt"
  shows "sp_sequence_flags h = flags" and "sp_sequence_count h = cnt"
proof -
  note bits = small_bits [OF assms(1)] small_bits [OF assms(2)]
  note defs = assms(3) build_packet_sequence_control_def field_masks
  show "sp_sequence_flags h = flags"
    unfolding sp_sequence_flags_def defs by (rule bit_word_eqI) (auto simp: bit_simps single_bits dest: bits)
  show "sp_sequence_count h = cnt"
    unfolding sp_sequence_count_def defs by (rule bit_word_eqI) (auto simp: bit_simps single_bits dest: bits)
qed

lemma tc_fields:
  assumes "scid < 2 ^ 10" and "vc < 2 ^ 6" and "0 < n" and "n \<le> 2 ^ 10"
    and "flags_and_sc_id h = build_flags_and_sc_id bypass control scid"
    and "build_vc_id_and_length vc n = Some (vc_id_and_length h)"
  shows "tc_spacecraft_id h = scid" and "tc_bypass_flag h = bypass" and "tc_control_command_flag h = control"
    and "tc_frame_version h = 0" and "tc_vc_id h = vc" and "tc_total_frame_length h = n"
proof -
  have n: "unat n \<le> 1024" "0 < unat n" using assms(3,4) by (simp_all add: word_le_nat_alt unat_gt_0)
  then have one: "csub n 1 = Some (n - 1)" by (simp add: csub_def)
  have "unat (n - 1) < 1024" using n one by (auto simp: csub_eq_Some)
  then have len: "n - 1 < 2 ^ 10" by (simp add: word_less_nat_alt)
  have v: "vc_id_and_length h = (push_bit 10 (ucast vc) AND 0xFC00) OR ((n - 1) AND 0x03FF)"
    using assms(6) one by (simp add: build_vc_id_and_length_def)
  note bits = small_bits [OF assms(1)] small_bits [OF assms(2)] small_bits [OF len]
  note defs = assms(5) v build_flags_and_sc_id_def field_masks
  show "tc_spacecraft_id h = scid"
    unfolding tc_spacecraft_id_def defs by (rule bit_word_eqI) (auto simp: bit_simps single_bits dest: bits)
  show "tc_bypass_flag h = bypass" "tc_control_command_flag h = control"
    unfolding tc_bypass_flag_def tc_control_command_flag_def flag_bits unfolding defs by (auto simp: bit_simps single_bits dest: bits)
  show "tc_frame_version h = 0"
    unfolding tc_frame_version_def defs by (rule bit_word_eqI) (auto simp: bit_simps single_bits dest: bits)
  show "tc_vc_id h = vc"
    unfolding tc_vc_id_def defs by (rule bit_word_eqI) (auto simp: bit_simps single_bits dest: bits)
  have "vc_id_and_length h AND mask 10 = n - 1"
    unfolding defs by (rule bit_word_eqI) (auto simp: bit_simps single_bits dest: bits)
  then show "tc_total_frame_length h = n"
    by (simp add: tc_total_frame_length_def field_masks)
qed

end
