(* ===== verification/Ccsds_Apid.thy ===== *)
theory Ccsds_Apid
  imports Fw_Enums
begin

text \<open>
  The APID manager (\<open>fprime-svc/src/ccsds/apid_manager.rs\<close>): one 14-bit sequence counter per packet
  type, in a fixed array with one slot per enum constant.  The locale \<open>seq_counters\<close> is the contract
  of its two ports: a counter per APID that is handed out and advanced, or checked and resynchronised.
\<close>

section \<open>The manager\<close>

definition SEQ_COUNT_MODULUS :: u32 where "SEQ_COUNT_MODULUS = push_bit 14 1"

record apid_entry =
  en_apid :: ComPacketType
  en_seq_count :: u16

type_synonym apid_table = "apid_entry option list"

definition MAX_TRACKED_APIDS :: nat where
  "MAX_TRACKED_APIDS = length ComPacketType_values"

definition apid_manager_new :: apid_table where
  "apid_manager_new = replicate MAX_TRACKED_APIDS None"

fun apid_find :: "apid_table \<Rightarrow> ComPacketType \<Rightarrow> u16 option" where
  "apid_find [] a = None"
| "apid_find (None # ts) a = apid_find ts a"
| "apid_find (Some e # ts) a = (if en_apid e = a then Some (en_seq_count e) else apid_find ts a)"

fun apid_insert :: "apid_table \<Rightarrow> ComPacketType \<Rightarrow> u16 \<Rightarrow> bool \<times> apid_table" where
  "apid_insert [] a c = (False, [])"
| "apid_insert (None # ts) a c = (True, Some \<lparr>en_apid = a, en_seq_count = c\<rparr> # ts)"
| "apid_insert (Some e # ts) a c =
     (if en_apid e = a then (True, Some (e\<lparr>en_seq_count := c\<rparr>) # ts)
      else let (ok, ts) = apid_insert ts a c in (ok, Some e # ts))"

definition calculate_next_seq_count :: "u16 \<Rightarrow> u16" where
  "calculate_next_seq_count c = ucast (((ucast c :: u32) + 1) mod SEQ_COUNT_MODULUS)"

definition get_and_increment_locked :: "apid_table \<Rightarrow> ComPacketType \<Rightarrow> (u16 \<times> apid_table) option" where
  "get_and_increment_locked t a =
     do { let seq_count = (case apid_find t a of Some c \<Rightarrow> c | None \<Rightarrow> 0);
          let (inserted, t) = apid_insert t a (calculate_next_seq_count seq_count);
          fw_assert inserted;
          Some (seq_count, t) }"

definition get_apid_seq_count_in :: "apid_table \<Rightarrow> ComPacketType \<Rightarrow> (u16 \<times> apid_table) option" where
  "get_apid_seq_count_in t a = get_and_increment_locked t a"

datatype apid_event = UnexpectedSequenceCount u16 u16

definition validate_apid_seq_count_in ::
  "apid_table \<Rightarrow> ComPacketType \<Rightarrow> u16 \<Rightarrow> (u16 \<times> apid_event list \<times> apid_table) option" where
  "validate_apid_seq_count_in t a received =
     do { (expected, t) \<leftarrow> get_and_increment_locked t a;
          (mismatch, t) \<leftarrow>
            (if received = expected then Some (None, t)
             else do {
               let (inserted, t) = apid_insert t a (calculate_next_seq_count received);
               fw_assert inserted;
               Some (Some expected, t) });
          Some (received,
                (case mismatch of Some expected \<Rightarrow> [UnexpectedSequenceCount received expected] | None \<Rightarrow> []),
                t) }"

section \<open>The counter contract\<close>

definition next_count :: "u16 \<Rightarrow> u16" where
  "next_count c = (if unat c mod 2 ^ 14 = 2 ^ 14 - 1 then 0 else of_nat (unat c mod 2 ^ 14) + 1)"

locale seq_counters =
  fixes inv :: "'m \<Rightarrow> bool"
    and cnt :: "'m \<Rightarrow> ComPacketType \<Rightarrow> u16"
    and get_count :: "'m \<Rightarrow> ComPacketType \<Rightarrow> (u16 \<times> 'm) option"
    and validate :: "'m \<Rightarrow> ComPacketType \<Rightarrow> u16 \<Rightarrow> (u16 \<times> apid_event list \<times> 'm) option"
  assumes get_count: "inv m \<Longrightarrow>
      \<exists>m'. get_count m a = Some (cnt m a, m') \<and> inv m' \<and> cnt m' = (cnt m)(a := next_count (cnt m a))"
    and validate: "inv m \<Longrightarrow>
      \<exists>m'. validate m a c = Some (c, if c = cnt m a then [] else [UnexpectedSequenceCount c (cnt m a)], m') \<and>
        inv m' \<and> cnt m' = (cnt m)(a := next_count c)"
begin

text \<open>Two managers with equal counters stay equal when one validates what the other hands out.\<close>

lemma in_step:
  assumes "inv m" and "inv n" and "cnt m = cnt n"
  shows "\<exists>c m' n'. get_count m a = Some (c, m') \<and> validate n a c = Some (c, [], n') \<and>
    inv m' \<and> inv n' \<and> cnt m' = cnt n' \<and> c = cnt m a"
proof -
  obtain m' where m': "get_count m a = Some (cnt m a, m')" "inv m'" "cnt m' = (cnt m)(a := next_count (cnt m a))"
    using get_count [OF assms(1)] by blast
  obtain n' where n': "validate n a (cnt m a) = Some (cnt m a, [], n')" "inv n'" "cnt n' = (cnt n)(a := next_count (cnt m a))"
    using validate [OF assms(2), of a "cnt m a"] assms(3) by auto
  from m' n' assms(3) show ?thesis by auto
qed

end

section \<open>The manager satisfies it\<close>

definition apids :: "apid_table \<Rightarrow> ComPacketType list" where
  "apids t = map en_apid (map the (filter (\<lambda>s. s \<noteq> None) t))"

definition apid_count :: "apid_table \<Rightarrow> ComPacketType \<Rightarrow> u16" where
  "apid_count t a = (case apid_find t a of Some c \<Rightarrow> c | None \<Rightarrow> 0)"

lemma apids_simps [simp]: "apids [] = []" "apids (None # t) = apids t" "apids (Some e # t) = en_apid e # apids t"
  by (simp_all add: apids_def)

lemma values_complete: "set ComPacketType_values = UNIV" "distinct ComPacketType_values"
proof -
  show "set ComPacketType_values = UNIV"
    using ComPacketType.nchotomy by (auto simp: ComPacketType_values_def)
qed (simp add: ComPacketType_values_def)

lemma apid_find_None: "a \<notin> set (apids t) \<Longrightarrow> apid_find t a = None"
  by (induction t a rule: apid_find.induct) auto

text \<open>Occupied slots may be followed by free ones only.\<close>

fun packed :: "apid_table \<Rightarrow> bool" where
  "packed [] = True"
| "packed (None # t) = (\<forall>s \<in> set t. s = None)"
| "packed (Some e # t) = packed t"

lemma packed_None: "\<forall>s \<in> set t. s = None \<Longrightarrow> apids t = [] \<and> apid_find t a = None \<and> packed t"
  by (induction t) auto

lemma apid_insert_eq:
  assumes "packed t" and "distinct (apids t)" and "a \<in> set (apids t) \<or> None \<in> set t"
  shows "\<exists>t'. apid_insert t a c = (True, t') \<and> packed t' \<and> length t' = length t \<and> distinct (apids t') \<and>
    set (apids t') = insert a (set (apids t)) \<and> apid_find t' = (apid_find t)(a := Some c)"
  using assms
proof (induction t a c rule: apid_insert.induct)
  case (2 t a c)
  then show ?case using packed_None [of t] by (auto simp: fun_eq_iff)
next
  case (3 e t a c)
  show ?case
  proof (cases "en_apid e = a")
    case True
    then show ?thesis using 3 apid_find_None [of a t] by (auto simp: fun_eq_iff)
  next
    case False
    then have "\<exists>t'. apid_insert t a c = (True, t') \<and> packed t' \<and> length t' = length t \<and> distinct (apids t') \<and>
        set (apids t') = insert a (set (apids t)) \<and> apid_find t' = (apid_find t)(a := Some c)"
      using "3.IH" "3.prems" by (simp del: fun_upd_apply)
    then obtain t' where t': "apid_insert t a c = (True, t')" "packed t'" "length t' = length t"
        "distinct (apids t')" "set (apids t') = insert a (set (apids t))" "apid_find t' = (apid_find t)(a := Some c)"
      by blast
    have "apid_find (Some e # t') = (apid_find (Some e # t))(a := Some c)"
      using False by (intro ext) (simp add: t'(6))
    with t' False "3.prems"(2) show ?thesis by (simp del: fun_upd_apply apid_find.simps add: insert_commute)
  qed
qed simp

lemma room_for_apid:
  assumes "length t = MAX_TRACKED_APIDS" and "distinct (apids t)"
  shows "a \<in> set (apids t) \<or> None \<in> set t"
proof (rule ccontr)
  assume no: "\<not> (a \<in> set (apids t) \<or> None \<in> set t)"
  then have "length (apids t) = length t" by (induction t) (auto simp: apids_def)
  moreover have "card (set (apids t)) < card (set ComPacketType_values)"
    using no by (intro psubset_card_mono finite_set) (auto simp: values_complete(1))
  ultimately show False
    using assms values_complete(2) by (simp add: distinct_card MAX_TRACKED_APIDS_def)
qed

definition apid_ok :: "apid_table \<Rightarrow> bool" where
  "apid_ok t \<longleftrightarrow> packed t \<and> length t = MAX_TRACKED_APIDS \<and> distinct (apids t)"

lemma apid_insert_ok:
  assumes "apid_ok t"
  shows "\<exists>t'. apid_insert t a c = (True, t') \<and> apid_ok t' \<and> apid_count t' = (apid_count t)(a := c)"
  using apid_insert_eq [of t a c] room_for_apid [of t a] assms
  by (auto simp: apid_ok_def apid_count_def fun_eq_iff)

lemma next_seq_count: "calculate_next_seq_count c = next_count c"
proof -
  have u: "unat (ucast c + 1 :: u32) = unat c + 1"
    using unsigned_less [of c, where ?'a = nat] by (simp add: unat_word_ariths unsigned_ucast_eq take_bit_nat_eq_self)
  have "unat (((ucast c :: u32) + 1) mod 16384) = (unat c + 1) mod 16384"
    by (simp add: unat_mod u)
  then have "ucast (((ucast c :: u32) + 1) mod 16384) = (of_nat ((unat c + 1) mod 16384) :: u16)"
    by (metis of_nat_unat)
  then have "calculate_next_seq_count c = of_nat ((unat c + 1) mod 16384)"
    by (simp add: calculate_next_seq_count_def SEQ_COUNT_MODULUS_def push_bit_eq_mult)
  also have "\<dots> = next_count c"
    by (simp add: next_count_def mod_Suc)
  finally show ?thesis .
qed

interpretation apid_manager: seq_counters apid_ok apid_count get_apid_seq_count_in validate_apid_seq_count_in
proof
  fix t a c
  assume ok: "apid_ok t"
  have get: "\<exists>t'. get_and_increment_locked t a = Some (apid_count t a, t') \<and> apid_ok t' \<and>
      apid_count t' = (apid_count t)(a := next_count (apid_count t a))"
    using apid_insert_ok [OF ok, of a "next_count (apid_count t a)"]
    by (auto simp: get_and_increment_locked_def next_seq_count apid_count_def)
  then show "\<exists>t'. get_apid_seq_count_in t a = Some (apid_count t a, t') \<and> apid_ok t' \<and>
      apid_count t' = (apid_count t)(a := next_count (apid_count t a))"
    by (simp add: get_apid_seq_count_in_def)
  from get obtain t1 where t1: "get_and_increment_locked t a = Some (apid_count t a, t1)" "apid_ok t1"
      "apid_count t1 = (apid_count t)(a := next_count (apid_count t a))" by blast
  show "\<exists>t'. validate_apid_seq_count_in t a c =
        Some (c, if c = apid_count t a then [] else [UnexpectedSequenceCount c (apid_count t a)], t') \<and>
      apid_ok t' \<and> apid_count t' = (apid_count t)(a := next_count c)"
    using apid_insert_ok [OF t1(2), of a "next_count c"] t1
    by (auto simp: validate_apid_seq_count_in_def next_seq_count)
qed

lemma apid_new [simp]: "apid_ok apid_manager_new" "apid_count apid_manager_new = (\<lambda>_. 0)"
proof -
  have free: "\<forall>s \<in> set apid_manager_new. s = None" by (simp add: apid_manager_new_def)
  show "apid_ok apid_manager_new"
    using packed_None [OF free] by (simp add: apid_ok_def apid_manager_new_def)
  show "apid_count apid_manager_new = (\<lambda>_. 0)"
    using packed_None [OF free] by (simp add: apid_count_def fun_eq_iff)
qed

section \<open>Any sequence of port calls\<close>

datatype apid_op = GetCount ComPacketType | Validate ComPacketType u16

fun apid_run :: "apid_table \<Rightarrow> apid_op list \<Rightarrow> (u16 \<times> apid_event list) list option" where
  "apid_run t [] = Some []"
| "apid_run t (GetCount a # ops) =
     do { (c, t) \<leftarrow> get_apid_seq_count_in t a; rs \<leftarrow> apid_run t ops; Some ((c, []) # rs) }"
| "apid_run t (Validate a c # ops) =
     do { (r, evs, t) \<leftarrow> validate_apid_seq_count_in t a c; rs \<leftarrow> apid_run t ops; Some ((r, evs) # rs) }"

text \<open>The contract: every APID has a counter of its own, starting at zero.\<close>

fun apid_spec :: "(ComPacketType \<Rightarrow> u16) \<Rightarrow> apid_op list \<Rightarrow> (u16 \<times> apid_event list) list" where
  "apid_spec f [] = []"
| "apid_spec f (GetCount a # ops) = (f a, []) # apid_spec (f(a := next_count (f a))) ops"
| "apid_spec f (Validate a c # ops) =
     (c, if c = f a then [] else [UnexpectedSequenceCount c (f a)]) # apid_spec (f(a := next_count c)) ops"

lemma apid_run_spec: "apid_ok t \<Longrightarrow> apid_run t ops = Some (apid_spec (apid_count t) ops)"
proof (induction ops arbitrary: t)
  case (Cons opn ops)
  show ?case
  proof (cases opn)
    case (GetCount a)
    then show ?thesis using apid_manager.get_count [OF Cons.prems, of a] Cons.IH by (auto simp del: fun_upd_apply)
  next
    case (Validate a c)
    then show ?thesis using apid_manager.validate [OF Cons.prems, of a c] Cons.IH by (auto simp del: fun_upd_apply)
  qed
qed simp

text \<open>
  C24: The fixed array of slots implements one independent 14-bit counter per APID: for every
  sequence of port calls on a new manager, whatever APIDs they name and however many there are, no
  assertion fails (the array never fills up), every call answers what the counters answer, and a
  mismatch is reported exactly when the received count differs from the expected one.
\<close>

theorem apid_manager_refines: "apid_run apid_manager_new ops = Some (apid_spec (\<lambda>_. 0) ops)"
  using apid_run_spec [of apid_manager_new ops] by simp

end
