(* ===== verification/Ccsds_SpacePacket.thy ===== *)
theory Ccsds_SpacePacket
  imports Svc_Framer Ccsds_Types Ccsds_Apid
begin

text \<open>
  The Space Packet framer and deframer (\<open>fprime-svc/src/ccsds/space_packet_framer.rs\<close>,
  \<open>space_packet_deframer.rs\<close>).  The component behind their sequence-count ports is a parameter, an
  instance of the locale \<open>seq_counters\<close>; the composition runs them with the APID manager.
\<close>

section \<open>The framer\<close>

record sp_framer =
  sp_no_buffer_throttle :: event_throttle

definition SP_NO_BUFFER_AVAILABLE_THROTTLE :: u32 where "SP_NO_BUFFER_AVAILABLE_THROTTLE = 5"

definition sp_framer_new :: sp_framer where
  "sp_framer_new = \<lparr>sp_no_buffer_throttle = throttle_new SP_NO_BUFFER_AVAILABLE_THROTTLE\<rparr>"

definition sp_clear_throttle :: "sp_framer \<Rightarrow> sp_framer" where
  "sp_clear_throttle f = f\<lparr>sp_no_buffer_throttle := throttle_clear (sp_no_buffer_throttle f)\<rparr>"

definition sp_framer_data_in ::
  "('s \<Rightarrow> nat \<Rightarrow> fw_buffer \<times> 's) \<Rightarrow> ('m \<Rightarrow> ComPacketType \<Rightarrow> (u16 \<times> 'm) option) \<Rightarrow>
    sp_framer \<Rightarrow> 's \<Rightarrow> 'm \<Rightarrow> fw_buffer \<Rightarrow> frame_context
    \<Rightarrow> (framer_call list \<times> sp_framer \<times> 's \<times> 'm) option" where
  "sp_framer_data_in alloc get_count f s m data context =
     do { let frame_size = SP_HEADER_SIZE + bsize data;
          fw_assert (bsize data \<le> (2 ^ 32 - 1) - SP_HEADER_SIZE);
          fw_assert (bsize data > 0);
          let (frame_buffer, s) = alloc s frame_size;
          if \<not> is_valid frame_buffer \<or> bsize frame_buffer < frame_size
          then do { let (emit, t) = ok_to_emit (sp_no_buffer_throttle f);
                    Some ((if emit then [Fr_NoBufferAvailable] else []) @
                          (if is_valid frame_buffer then [Fr_Deallocate frame_buffer] else []) @
                          [Fr_DataReturnOut data context],
                          f\<lparr>sp_no_buffer_throttle := t\<rparr>, s, m) }
          else do {
            let a = apid context;
            fw_assert (drop_bit 11 (ComPacketType_repr a) = 0);
            let ident = build_packet_identification 0 0 (has_sec_hdr context) (ComPacketType_repr a);
            (seq_count, m) \<leftarrow> get_count m a;
            let seq_control = build_packet_sequence_control (sequence_flags context) seq_count;
            fw_assert (bsize data \<le> 65535);
            data_length \<leftarrow> sp_length_token (of_nat (bsize data));
            let header = \<lparr>packet_identification = ident, packet_sequence_control = seq_control,
                          packet_data_length = data_length\<rparr>;
            ser \<leftarrow> get_serializer frame_buffer;
            (status, ser) \<leftarrow> struct_serialize_to sp_header_members header ser Big;
            fw_assert (status = Ok);
            payload \<leftarrow> buffer_data data;
            (status, ser) \<leftarrow> serialize_bytes ser payload OmitLength Big;
            fw_assert (status = Ok);
            frame_buffer \<leftarrow> put_data frame_buffer (bytes ser);
            frame_buffer \<leftarrow> set_size frame_buffer frame_size;
            Some ([Fr_DataOut frame_buffer context, Fr_DataReturnOut data context], f, s, m) } }"

definition sp_framer_data_return_in :: "fw_buffer \<Rightarrow> framer_call list" where
  "sp_framer_data_return_in b = [Fr_Deallocate b]"

definition sp_framer_com_status_in :: "bool \<Rightarrow> Success \<Rightarrow> framer_call list" where
  "sp_framer_com_status_in connected condition = (if connected then [Fr_ComStatusOut condition] else [])"

section \<open>The deframer\<close>

datatype sp_deframer_call =
    Sd_InvalidPacket
  | Sd_InvalidLength u64 u64
  | Sd_ErrorNotify FrameError
  | Sd_DataOut fw_buffer frame_context
  | Sd_DataReturnOut fw_buffer frame_context

definition sp_error_notify :: "bool \<Rightarrow> FrameError \<Rightarrow> sp_deframer_call list" where
  "sp_error_notify connected e = (if connected then [Sd_ErrorNotify e] else [])"

definition reject_invalid_packet :: "bool \<Rightarrow> fw_buffer \<Rightarrow> frame_context \<Rightarrow> sp_deframer_call list" where
  "reject_invalid_packet connected data context =
     [Sd_InvalidPacket] @ sp_error_notify connected SpInvalidPacket @ [Sd_DataReturnOut data context]"

text \<open>The second component of the result is what the sequence-count component reported.\<close>

definition sp_deframer_data_in ::
  "('m \<Rightarrow> ComPacketType \<Rightarrow> u16 \<Rightarrow> (u16 \<times> 'e list \<times> 'm) option) \<Rightarrow> bool \<Rightarrow> 'm \<Rightarrow>
    fw_buffer \<Rightarrow> frame_context \<Rightarrow> (sp_deframer_call list \<times> 'e list \<times> 'm) option" where
  "sp_deframer_data_in validate connected m data context =
     (if bsize data \<le> SP_HEADER_SIZE
      then Some (reject_invalid_packet connected data context, [], m)
      else do {
        deser \<leftarrow> get_deserializer data;
        (status, header, deser) \<leftarrow>
          struct_deserialize_from sp_header_members sp_header_build sp_header_default sp_header_default deser Big;
        if status \<noteq> Ok then Some (reject_invalid_packet connected data context, [], m)
        else if sp_pvn header \<noteq> Pvn_repr SpacePacketProtocol
          then Some (reject_invalid_packet connected data context, [], m)
        else do {
          let pkt_length = sp_data_field_length header;
          max_data_available \<leftarrow> usub (bsize data) SP_HEADER_SIZE;
          if unat pkt_length > max_data_available
          then Some ([Sd_InvalidLength (ucast pkt_length) (of_nat max_data_available)] @
                     sp_error_notify connected SpInvalidLength @ [Sd_DataReturnOut data context], [], m)
          else do {
            let a = (case try_from ComPacketType_repr ComPacketType_values (sp_apid_value header) of
                       Some a \<Rightarrow> a | None \<Rightarrow> InvalidUninitialized);
            let received = sp_sequence_count header;
            (_, evs, m) \<leftarrow> validate m a received;
            let context_copy = context\<lparr>apid := a, has_sec_hdr := sp_has_sec_hdr header,
                  sequence_flags := sp_sequence_flags header, sequence_count := received\<rparr>;
            data \<leftarrow> advance data (int SP_HEADER_SIZE);
            data \<leftarrow> set_size data (unat pkt_length);
            Some ([Sd_DataOut data context_copy], evs, m) } } })"

definition sp_deframer_data_return_in :: "fw_buffer \<Rightarrow> frame_context \<Rightarrow> sp_deframer_call list" where
  "sp_deframer_data_return_in b context = [Sd_DataReturnOut b context]"

section \<open>The framer writes a Space Packet\<close>

definition sp_header_for :: "frame_context \<Rightarrow> u16 \<Rightarrow> nat \<Rightarrow> space_packet_header" where
  "sp_header_for ctx c n =
     \<lparr>packet_identification = build_packet_identification 0 0 (has_sec_hdr ctx) (ComPacketType_repr (apid ctx)),
      packet_sequence_control = build_packet_sequence_control (sequence_flags ctx) c,
      packet_data_length = of_nat n - 1\<rparr>"

definition space_packet :: "space_packet_header \<Rightarrow> u8 list \<Rightarrow> u8 list" where
  "space_packet h p = struct_enc sp_header_members Big h @ p"

lemma length_sp_enc [simp]: "length (struct_enc sp_header_members e h) = 6"
  by (simp add: sp_header.length_struct_enc)

lemma length_token: "0 < n \<Longrightarrow> n \<le> 65535 \<Longrightarrow> sp_length_token (of_nat n) = Some (of_nat n - 1)"
  by (simp add: sp_length_token_def csub_def unat_of_nat)

lemma apid_fits:
  "drop_bit 11 (ComPacketType_repr a) = 0 \<longleftrightarrow> a \<noteq> InvalidUninitialized"
  "a \<noteq> InvalidUninitialized \<Longrightarrow> ComPacketType_repr a < 2 ^ 11"
  by (cases a; simp add: drop_bit_eq_div)+

lemma sp_write:
  assumes "wf_buffer fb" and "is_valid fb" and "6 + length p \<le> bsize fb"
  shows "\<exists>ser1 ser2 ser3 fb' out. get_serializer fb = Some ser1 \<and>
    struct_serialize_to sp_header_members h ser1 Big = Some (Ok, ser2) \<and>
    serialize_bytes ser2 p OmitLength Big = Some (Ok, ser3) \<and> put_data fb (bytes ser3) = Some fb' \<and>
    set_size fb' (6 + length p) = Some out \<and> wf_buffer out \<and> window out = space_packet h p"
proof -
  obtain v where v: "get_serializer fb = Some v" "wf_buf v" "room v = bsize fb"
    using get_serializer_eq [OF assms(1,2)] by blast
  obtain fb' where fb': "put_data fb (bytes (put v (space_packet h p))) = Some fb'" "wf_buffer fb'" "bsize fb' = bsize fb"
      "window fb' = space_packet h p @ drop (length (space_packet h p)) (window fb)"
    using view_write [OF assms(1,2) _ v(1), of "space_packet h p"] assms(3) by (auto simp: space_packet_def)
  obtain out where out: "set_size fb' (6 + length p) = Some out" "wf_buffer out" "window out = take (6 + length p) (window fb')"
    using set_size_eq [OF fb'(2), of "6 + length p"] fb'(3) assms(3) by auto
  have "struct_serialize_to sp_header_members h v Big = Some (Ok, put v (struct_enc sp_header_members Big h))"
    using v assms(3) by (intro sp_header.serialize) auto
  moreover have "serialize_bytes (put v (struct_enc sp_header_members Big h)) p OmitLength Big = Some (Ok, put v (space_packet h p))"
    using v assms(3) by (simp add: serialize_bytes_eq Let_def space_packet_def)
  moreover have "window out = space_packet h p"
    using out(3) fb'(4) by (simp add: space_packet_def)
  ultimately show ?thesis using v(1) fb'(1) out(1,2) by blast
qed

context seq_counters
begin

lemma sp_framer_frames:
  assumes m: "inv m" and wf: "wf_buffer data" "0 < bsize data" "bsize data \<le> 65535" "apid ctx \<noteq> InvalidUninitialized"
    and al: "alloc s (6 + bsize data) = (fb, s')" "wf_buffer fb" "6 + bsize data \<le> bsize fb" "is_valid fb"
  shows "\<exists>out m'. sp_framer_data_in alloc get_count f s m data ctx =
      Some ([Fr_DataOut out ctx, Fr_DataReturnOut data ctx], f, s', m') \<and> wf_buffer out \<and>
    window out = space_packet (sp_header_for ctx (cnt m (apid ctx)) (bsize data)) (window data) \<and>
    get_count m (apid ctx) = Some (cnt m (apid ctx), m')"
proof -
  let ?h = "sp_header_for ctx (cnt m (apid ctx)) (bsize data)"
  obtain m' where m': "get_count m (apid ctx) = Some (cnt m (apid ctx), m')"
    using get_count [OF m] by blast
  have lp: "length (window data) = bsize data" using wf by simp
  obtain ser1 ser2 ser3 fb' out where w: "get_serializer fb = Some ser1"
      "struct_serialize_to sp_header_members ?h ser1 Big = Some (Ok, ser2)"
      "serialize_bytes ser2 (window data) OmitLength Big = Some (Ok, ser3)" "put_data fb (bytes ser3) = Some fb'"
      "set_size fb' (6 + bsize data) = Some out" "wf_buffer out" "window out = space_packet ?h (window data)"
    using sp_write [OF al(2,4), of "window data" ?h] al(3) lp by auto
  have "sp_framer_data_in alloc get_count f s m data ctx =
      Some ([Fr_DataOut out ctx, Fr_DataReturnOut data ctx], f, s', m')"
    using wf al m' w(1-5) length_token [OF wf(2,3)]
    by (simp add: sp_framer_data_in_def SP_HEADER_SIZE_def apid_fits(1) sp_header_for_def)
  with w(6,7) m' show ?thesis by blast
qed

end

section \<open>The deframer reads it\<close>

definition sp_header_of :: "u8 list \<Rightarrow> space_packet_header" where
  "sp_header_of w =
     \<lparr>packet_identification = from_be_bytes (take 2 w), packet_sequence_control = from_be_bytes (take 2 (drop 2 w)),
      packet_data_length = from_be_bytes (take 2 (drop 4 w))\<rparr>"

lemma sp_header_of_enc: "6 \<le> length w \<Longrightarrow> struct_enc sp_header_members Big (sp_header_of w) = take 6 w"
proof -
  assume len: "6 \<le> length w"
  have "take (2 + (2 + 2)) w = take 2 w @ take 2 (drop 2 w) @ take 2 (drop (2 + 2) w)"
    unfolding take_add by simp
  then show ?thesis
    using len by (simp add: struct_enc_def sp_header_members_def sp_header_of_def to_bytes_def to_be_bytes_from_be_bytes)
qed

lemma sp_header_of_packet: "sp_header_of (space_packet h p) = h"
  using sp_header_of_enc [of "space_packet h p"]
  by (simp add: space_packet_def sp_header.enc_inject)

lemma sp_deser_header:
  assumes "wf_buffer b" and "6 < bsize b"
  shows "\<exists>d d'. get_deserializer b = Some d \<and>
    struct_deserialize_from sp_header_members sp_header_build sp_header_default sp_header_default d Big =
      Some (Ok, sp_header_of (window b), d')"
proof -
  have "is_valid b" using assms by (auto simp: is_valid_def wf_buffer_def)
  then obtain d where d: "get_deserializer b = Some d" "wf_buf d" "unread d = window b"
    using get_deserializer_eq [OF assms(1)] by blast
  have "unread d = struct_enc sp_header_members Big (sp_header_of (window b)) @ drop 6 (window b)"
    using d(3) assms by (simp add: sp_header_of_enc)
  then show ?thesis
    using sp_header.decode_enc [OF d(2)] d(1) by blast
qed

definition sp_apid :: "space_packet_header \<Rightarrow> ComPacketType" where
  "sp_apid h = (case try_from ComPacketType_repr ComPacketType_values (sp_apid_value h) of
     Some a \<Rightarrow> a | None \<Rightarrow> InvalidUninitialized)"

definition sp_context :: "space_packet_header \<Rightarrow> frame_context \<Rightarrow> frame_context" where
  "sp_context h ctx = ctx\<lparr>apid := sp_apid h, has_sec_hdr := sp_has_sec_hdr h,
     sequence_flags := sp_sequence_flags h, sequence_count := sp_sequence_count h\<rparr>"

definition data_field :: "fw_buffer \<Rightarrow> nat \<Rightarrow> nat \<Rightarrow> fw_buffer" where
  "data_field b k n = b\<lparr>offset := offset b + k, bsize := n\<rparr>"

lemma data_field_step:
  assumes "wf_buffer b" and "k + n \<le> bsize b" and "storage b \<noteq> []"
  shows "\<exists>b'. advance b (int k) = Some b' \<and> bsize b' = bsize b - k \<and> set_size b' n = Some (data_field b k n)"
    and "wf_buffer (data_field b k n)" and "window (data_field b k n) = take n (drop k (window b))"
  using assms
  by (auto simp: advance_def set_size_def data_field_def wf_buffer_def buffer_capacity_def window_def drop_take min_def add.commute)

lemma sp_length_bounds: "unat (sp_data_field_length h) = unat (packet_data_length h) + 1"
proof -
  have "unat (packet_data_length h) < 2 ^ LENGTH(16)" by (rule unsigned_less)
  then show ?thesis
    by (simp add: sp_data_field_length_def unat_word_ariths unsigned_ucast_eq take_bit_nat_eq_self)
qed

context seq_counters
begin

lemma sp_deframer_eq:
  assumes wf: "wf_buffer b" and m: "inv m"
  defines "h \<equiv> sp_header_of (window b)"
  defines "n \<equiv> unat (packet_data_length h) + 1"
  shows "\<exists>m' evs. validate m (sp_apid h) (sp_sequence_count h) = Some (sp_sequence_count h, evs, m') \<and>
    sp_deframer_data_in validate con m b ctx = Some (
      if bsize b \<le> 6 \<or> sp_pvn h \<noteq> 0 then (reject_invalid_packet con b ctx, [], m)
      else if bsize b < 6 + n
        then ([Sd_InvalidLength (of_nat n) (of_nat (bsize b - 6))] @ sp_error_notify con SpInvalidLength @
              [Sd_DataReturnOut b ctx], [], m)
      else ([Sd_DataOut (data_field b 6 n) (sp_context h ctx)], evs, m'))"
proof -
  obtain m' evs where v: "validate m (sp_apid h) (sp_sequence_count h) = Some (sp_sequence_count h, evs, m')"
    using validate [OF m] by blast
  show ?thesis
  proof (cases "bsize b \<le> 6")
    case True
    then show ?thesis using v by (simp add: sp_deframer_data_in_def SP_HEADER_SIZE_def)
  next
    case False
    obtain d d' where d: "get_deserializer b = Some d"
      "struct_deserialize_from sp_header_members sp_header_build sp_header_default sp_header_default d Big =
        Some (Ok, h, d')"
      using sp_deser_header [OF wf] False unfolding h_def by auto
    have len: "unat (sp_data_field_length h) = n" by (simp add: sp_length_bounds n_def)
    have u: "ucast (sp_data_field_length h) = (of_nat n :: u64)" by (metis len of_nat_unat)
    show ?thesis
    proof (cases "sp_pvn h = 0 \<and> 6 + n \<le> bsize b")
      case ok: True
      have "storage b \<noteq> []" using wf False by (auto simp: wf_buffer_def)
      then obtain b' where b': "advance b 6 = Some b'" "set_size b' n = Some (data_field b 6 n)"
        using data_field_step(1) [OF wf, of 6 n] ok by auto
      moreover have "\<not> bsize b - 6 < n" "\<not> bsize b < 6 + n" using ok by auto
      ultimately show ?thesis
        using False d ok v len
        by (simp add: sp_deframer_data_in_def SP_HEADER_SIZE_def Let_def sp_apid_def [symmetric] sp_context_def)
    next
      case bad: False
      then have "sp_pvn h \<noteq> 0 \<or> bsize b - 6 < n \<and> bsize b < 6 + n" using False by auto
      then show ?thesis
        using False d v len u by (elim disjE) (simp_all add: sp_deframer_data_in_def SP_HEADER_SIZE_def Let_def)
    qed
  qed
qed

end

section \<open>The two ends of a link\<close>

lemma sp_header_fields:
  assumes "apid ctx \<noteq> InvalidUninitialized" and "sequence_flags ctx < 2 ^ 2" and "c < 2 ^ 14"
    and "0 < n" and "n \<le> 65535"
  defines "h \<equiv> sp_header_for ctx c n"
  shows "sp_pvn h = 0" and "sp_apid h = apid ctx" and "sp_has_sec_hdr h = has_sec_hdr ctx"
    and "sp_sequence_flags h = sequence_flags ctx" and "sp_sequence_count h = c"
    and "unat (packet_data_length h) + 1 = n"
proof -
  have id: "packet_identification h = build_packet_identification 0 0 (has_sec_hdr ctx) (ComPacketType_repr (apid ctx))"
    and sq: "packet_sequence_control h = build_packet_sequence_control (sequence_flags ctx) c"
    by (simp_all add: h_def sp_header_for_def)
  note ident = sp_identification_fields [OF _ _ apid_fits(2) [OF assms(1)] id]
  show "sp_pvn h = 0" "sp_has_sec_hdr h = has_sec_hdr ctx" using ident by simp_all
  have "sp_apid_value h = ComPacketType_repr (apid ctx)" using ident by simp
  then show "sp_apid h = apid ctx" by (simp add: sp_apid_def com_packet_type.try_from_repr)
  show "sp_sequence_flags h = sequence_flags ctx" "sp_sequence_count h = c"
    using sp_sequence_fields [OF assms(2,3) sq] by simp_all
  have "unat (of_nat (n - 1) :: u16) = n - 1"
    using assms(5) by (simp only: unat_of_nat) simp
  moreover have "of_nat n - 1 = (of_nat (n - 1) :: u16)" using assms(4) by simp
  ultimately have "unat (packet_data_length h) = n - 1" by (simp only: h_def sp_header_for_def space_packet_header.simps)
  then show "unat (packet_data_length h) + 1 = n" using assms(4) by simp
qed

lemma next_count_small: "next_count c < 2 ^ 14"
proof -
  have "unat c mod 2 ^ 14 < 2 ^ 14" by simp
  then have "unat c mod 2 ^ 14 \<noteq> 2 ^ 14 - 1 \<Longrightarrow> Suc (unat c mod 2 ^ 14) < 2 ^ 14" by linarith
  then show ?thesis
    by (auto simp: next_count_def word_less_nat_alt unat_word_ariths unat_of_nat)
qed

context seq_counters
begin

text \<open>One packet through the framer and the deframer, with counters in step.\<close>

lemma sp_link_step:
  assumes m: "inv m" "inv k" "cnt m = cnt k" "\<forall>a. cnt m a < 2 ^ 14"
    and wf: "wf_buffer data" "0 < bsize data" "bsize data \<le> 65535" "apid ctx \<noteq> InvalidUninitialized"
      "sequence_flags ctx < 2 ^ 2"
    and al: "alloc s (6 + bsize data) = (fb, s')" "wf_buffer fb" "6 + bsize data \<le> bsize fb" "is_valid fb"
  shows "\<exists>out b m' k'. sp_framer_data_in alloc get_count f s m data ctx =
      Some ([Fr_DataOut out ctx, Fr_DataReturnOut data ctx], f, s', m') \<and>
    sp_deframer_data_in validate con k out ctx' = Some ([Sd_DataOut b
      (ctx'\<lparr>apid := apid ctx, has_sec_hdr := has_sec_hdr ctx, sequence_flags := sequence_flags ctx,
        sequence_count := cnt m (apid ctx)\<rparr>)], [], k') \<and>
    window b = window data \<and> inv m' \<and> inv k' \<and> cnt m' = cnt k' \<and>
    cnt m' = (cnt m)(apid ctx := next_count (cnt m (apid ctx)))"
proof -
  let ?c = "cnt m (apid ctx)"
  let ?h = "sp_header_for ctx ?c (bsize data)"
  obtain out m' where out: "sp_framer_data_in alloc get_count f s m data ctx =
        Some ([Fr_DataOut out ctx, Fr_DataReturnOut data ctx], f, s', m')" "wf_buffer out"
      "window out = space_packet ?h (window data)" "get_count m (apid ctx) = Some (?c, m')"
    using sp_framer_frames [of m data ctx alloc s fb s' f, OF m(1) wf(1-4) al] by blast
  obtain k' where k': "validate k (apid ctx) ?c = Some (?c, [], k')" "inv m'" "inv k'" "cnt m' = cnt k'"
      "cnt m' = (cnt m)(apid ctx := next_count ?c)"
    using in_step [OF m(1-3), of "apid ctx"] get_count [OF m(1), of "apid ctx"] out(4) by auto
  note fields = sp_header_fields [OF wf(4,5) spec [OF m(4)] wf(2,3), of "apid ctx"]
  have h: "sp_header_of (window out) = ?h" using out(3) by (simp add: sp_header_of_packet)
  have sz: "bsize out = 6 + bsize data"
    using out(2,3) wf(1) by (metis length_append length_sp_enc length_window space_packet_def)
  have "sp_deframer_data_in validate con k out ctx' =
      Some ([Sd_DataOut (data_field out 6 (bsize data)) (sp_context ?h ctx')], [], k')"
    using sp_deframer_eq [OF out(2) m(2), of con ctx'] h fields k'(1) sz wf(2) by simp
  moreover have "storage out \<noteq> []" using out(2) sz by (auto simp: wf_buffer_def)
  then have "window (data_field out 6 (bsize data)) = window data"
    using data_field_step(3) [OF out(2), of 6 "bsize data"] sz wf(1)
    by (simp add: out(3) space_packet_def)
  ultimately show ?thesis
    using out(1) k' fields by (auto simp: sp_context_def)
qed

end

text \<open>
  The framer with its APID manager at one end and the deframer with its own at the other: the packets
  of a list of payloads, what the deframer sends and what its manager reports.
\<close>

fun framed_packets :: "framer_call list \<Rightarrow> fw_buffer list" where
  "framed_packets [] = []"
| "framed_packets (Fr_DataOut b ctx # cs) = b # framed_packets cs"
| "framed_packets (c # cs) = framed_packets cs"

fun sp_deframe_all ::
  "bool \<Rightarrow> apid_table \<Rightarrow> fw_buffer list \<Rightarrow> (sp_deframer_call list \<times> apid_event list \<times> apid_table) option" where
  "sp_deframe_all con k [] = Some ([], [], k)"
| "sp_deframe_all con k (b # bs) =
     do { (cs, evs, k) \<leftarrow> sp_deframer_data_in validate_apid_seq_count_in con k b frame_context_default;
          (cs', evs', k) \<leftarrow> sp_deframe_all con k bs;
          Some (cs @ cs', evs @ evs', k) }"

fun sp_link ::
  "('s \<Rightarrow> nat \<Rightarrow> fw_buffer \<times> 's) \<Rightarrow> bool \<Rightarrow> sp_framer \<Rightarrow> 's \<Rightarrow> apid_table \<Rightarrow> apid_table \<Rightarrow>
    (fw_buffer \<times> frame_context) list \<Rightarrow> (sp_deframer_call list \<times> apid_event list) option" where
  "sp_link alloc con f s m k [] = Some ([], [])"
| "sp_link alloc con f s m k ((data, ctx) # ins) =
     do { (calls, f, s, m) \<leftarrow> sp_framer_data_in alloc get_apid_seq_count_in f s m data ctx;
          (cs, evs, k) \<leftarrow> sp_deframe_all con k (framed_packets calls);
          (cs', evs') \<leftarrow> sp_link alloc con f s m k ins;
          Some (cs @ cs', evs @ evs') }"

fun sp_delivered :: "sp_deframer_call list \<Rightarrow> (u8 list \<times> frame_context) list" where
  "sp_delivered [] = []"
| "sp_delivered (Sd_DataOut b ctx # cs) = (window b, ctx) # sp_delivered cs"
| "sp_delivered (c # cs) = sp_delivered cs"

definition sp_allocates :: "('s \<Rightarrow> nat \<Rightarrow> fw_buffer \<times> 's) \<Rightarrow> bool" where
  "sp_allocates alloc \<longleftrightarrow> (\<forall>s n. 0 < n \<and> n \<le> 65541 \<longrightarrow> wf_buffer (fst (alloc s n)) \<and> n \<le> bsize (fst (alloc s n)))"

definition sp_input_ok :: "fw_buffer \<times> frame_context \<Rightarrow> bool" where
  "sp_input_ok i \<longleftrightarrow> wf_buffer (fst i) \<and> 0 < bsize (fst i) \<and> bsize (fst i) \<le> 65535 \<and>
     apid (snd i) \<noteq> InvalidUninitialized \<and> sequence_flags (snd i) < 4"

text \<open>The contexts the other end sees, numbering the packets of each APID from \<open>g\<close> on.\<close>

fun numbered :: "(ComPacketType \<Rightarrow> nat) \<Rightarrow> (fw_buffer \<times> frame_context) list \<Rightarrow> (u8 list \<times> frame_context) list" where
  "numbered g [] = []"
| "numbered g ((data, ctx) # ins) =
     (window data, frame_context_default\<lparr>apid := apid ctx, has_sec_hdr := has_sec_hdr ctx,
        sequence_flags := sequence_flags ctx, sequence_count := of_nat (g (apid ctx) mod 2 ^ 14)\<rparr>)
     # numbered (g(apid ctx := Suc (g (apid ctx)))) ins"

lemma next_count_nat: "next_count (of_nat (n mod 2 ^ 14)) = of_nat (Suc n mod 2 ^ 14)"
  by (simp add: next_count_def unat_of_nat mod_Suc)

lemma sp_link_numbered:
  assumes "sp_allocates alloc" and "\<forall>i \<in> set ins. sp_input_ok i"
    and "apid_ok m" and "apid_ok k" and "apid_count m = apid_count k"
    and "apid_count m = (\<lambda>a. of_nat (g a mod 2 ^ 14))"
  shows "\<exists>cs. sp_link alloc con f s m k ins = Some (cs, []) \<and> sp_delivered cs = numbered g ins \<and> length cs = length ins"
  using assms(2-)
proof (induction ins arbitrary: s m k g)
  case Nil
  then show ?case by simp
next
  case (Cons i ins)
  obtain data ctx where i: "i = (data, ctx)" by (cases i)
  obtain fb s' where al: "alloc s (6 + bsize data) = (fb, s')" by fastforce
  have ok: "wf_buffer data" "0 < bsize data" "bsize data \<le> 65535" "apid ctx \<noteq> InvalidUninitialized"
      "sequence_flags ctx < 2 ^ 2"
    using Cons.prems(1) by (simp_all add: i sp_input_ok_def)
  have fb: "wf_buffer fb" "6 + bsize data \<le> bsize fb"
    using spec [OF spec [OF assms(1) [unfolded sp_allocates_def]], of "6 + bsize data" s] ok(3) al by simp_all
  then have "is_valid fb" by (auto simp: is_valid_def wf_buffer_def)
  have small: "\<forall>a. apid_count m a < 2 ^ 14"
    by (simp add: Cons.prems(5) word_less_nat_alt unat_of_nat)
  obtain out b m' k' where st: "sp_framer_data_in alloc get_apid_seq_count_in f s m data ctx =
        Some ([Fr_DataOut out ctx, Fr_DataReturnOut data ctx], f, s', m')"
      "sp_deframer_data_in validate_apid_seq_count_in con k out frame_context_default = Some ([Sd_DataOut b
        (frame_context_default\<lparr>apid := apid ctx, has_sec_hdr := has_sec_hdr ctx, sequence_flags := sequence_flags ctx,
          sequence_count := apid_count m (apid ctx)\<rparr>)], [], k')"
      "window b = window data" "apid_ok m'" "apid_ok k'" "apid_count m' = apid_count k'"
      "apid_count m' = (apid_count m)(apid ctx := next_count (apid_count m (apid ctx)))"
    using apid_manager.sp_link_step [of m k data ctx alloc s fb s' f con frame_context_default,
        OF Cons.prems(2-4) small ok al fb \<open>is_valid fb\<close>] by blast
  let ?g = "g(apid ctx := Suc (g (apid ctx)))"
  have "apid_count m' = (\<lambda>a. of_nat (?g a mod 2 ^ 14))"
    unfolding st(7) Cons.prems(5) by (rule ext) (simp add: next_count_nat [simplified])
  then obtain cs where "sp_link alloc con f s' m' k' ins = Some (cs, [])" "sp_delivered cs = numbered ?g ins"
      "length cs = length ins"
    using Cons.IH [OF _ st(4-6)] Cons.prems(1) by (metis list.set_intros(2))
  then show ?case
    using st(1-3) by (auto simp: i Cons.prems(5))
qed

lemma numbered_nth:
  "j < length ins \<Longrightarrow> numbered g ins ! j = (window (fst (ins ! j)),
     frame_context_default\<lparr>apid := apid (snd (ins ! j)), has_sec_hdr := has_sec_hdr (snd (ins ! j)),
        sequence_flags := sequence_flags (snd (ins ! j)),
        sequence_count := of_nat ((g (apid (snd (ins ! j))) +
          length (filter (\<lambda>i. apid (snd i) = apid (snd (ins ! j))) (take j ins))) mod 2 ^ 14)\<rparr>)"
proof (induction ins arbitrary: g j)
  case (Cons i ins)
  obtain data ctx where i: "i = (data, ctx)" by (cases i)
  show ?case
  proof (cases j)
    case (Suc l)
    then show ?thesis using Cons.IH [of l "g(apid ctx := Suc (g (apid ctx)))"] Cons.prems
      by (auto simp: i fun_upd_def)
  qed (simp add: i)
qed simp

lemma length_numbered [simp]: "length (numbered g ins) = length ins"
  by (induction g ins rule: numbered.induct) (simp_all add: fun_upd_def)

fun sp_returned :: "sp_deframer_call list \<Rightarrow> (fw_buffer \<times> frame_context) list" where
  "sp_returned [] = []"
| "sp_returned (Sd_DataReturnOut b ctx # cs) = (b, ctx) # sp_returned cs"
| "sp_returned (c # cs) = sp_returned cs"

lemma sp_reject_calls [simp]:
  "sp_delivered (sp_error_notify con e @ cs) = sp_delivered cs" "sp_returned (sp_error_notify con e @ cs) = sp_returned cs"
  "sp_delivered (reject_invalid_packet con b ctx) = []" "sp_returned (reject_invalid_packet con b ctx) = [(b, ctx)]"
  by (simp_all add: sp_error_notify_def reject_invalid_packet_def)

text \<open>
  C25: The Space Packet deframer never panics, whatever bytes a buffer holds.  It delivers a buffer
  exactly when it is longer than the header, has packet version 0 and holds the data field its length
  token announces; then it delivers that data field with the header's fields in the context, reports
  a sequence error exactly when the received count is not the expected one, and expects the next
  count.  Any other buffer goes back unchanged and leaves the counters as they are.
\<close>

theorem sp_deframer_exact:
  assumes "wf_buffer b" and "apid_ok m"
  defines "h \<equiv> sp_header_of (window b)"
  defines "n \<equiv> unat (packet_data_length h) + 1"
  shows "\<exists>cs evs m'. sp_deframer_data_in validate_apid_seq_count_in con m b ctx = Some (cs, evs, m') \<and> apid_ok m' \<and>
    (if 6 < bsize b \<and> sp_pvn h = 0 \<and> 6 + n \<le> bsize b
     then sp_delivered cs = [(take n (drop 6 (window b)), sp_context h ctx)] \<and> sp_returned cs = [] \<and>
       evs = (if sp_sequence_count h = apid_count m (sp_apid h) then []
              else [UnexpectedSequenceCount (sp_sequence_count h) (apid_count m (sp_apid h))]) \<and>
       apid_count m' = (apid_count m)(sp_apid h := next_count (sp_sequence_count h))
     else sp_delivered cs = [] \<and> sp_returned cs = [(b, ctx)] \<and> evs = [] \<and> m' = m)"
proof -
  obtain m' evs where v: "validate_apid_seq_count_in m (sp_apid h) (sp_sequence_count h) = Some (sp_sequence_count h, evs, m')"
      "sp_deframer_data_in validate_apid_seq_count_in con m b ctx = Some (
      if bsize b \<le> 6 \<or> sp_pvn h \<noteq> 0 then (reject_invalid_packet con b ctx, [], m)
      else if bsize b < 6 + n
        then ([Sd_InvalidLength (of_nat n) (of_nat (bsize b - 6))] @ sp_error_notify con SpInvalidLength @
              [Sd_DataReturnOut b ctx], [], m)
      else ([Sd_DataOut (data_field b 6 n) (sp_context h ctx)], evs, m'))"
    using apid_manager.sp_deframer_eq [OF assms(1,2), of con ctx] unfolding h_def n_def by blast
  have m': "apid_ok m'" "apid_count m' = (apid_count m)(sp_apid h := next_count (sp_sequence_count h))"
      "evs = (if sp_sequence_count h = apid_count m (sp_apid h) then []
              else [UnexpectedSequenceCount (sp_sequence_count h) (apid_count m (sp_apid h))])"
    using apid_manager.validate [OF assms(2), of "sp_apid h" "sp_sequence_count h"] v(1) by auto
  show ?thesis
  proof (cases "6 < bsize b \<and> sp_pvn h = 0 \<and> 6 + n \<le> bsize b")
    case True
    then have "storage b \<noteq> []" using assms(1) by (auto simp: wf_buffer_def)
    with True have "window (data_field b 6 n) = take n (drop 6 (window b))"
      using data_field_step(3) [OF assms(1)] by simp
    then show ?thesis using True v(2) m' by simp
  next
    case False
    then show ?thesis using v(2) assms(2) by (auto simp: not_less)
  qed
qed

theorem sp_deframer_exact_witness:
  "\<exists>cs evs m'. sp_deframer_data_in validate_apid_seq_count_in True apid_manager_new
      (from_storage [0, 1, 0xC0, 5, 0, 1, 7, 8, 9] 0) frame_context_default = Some (cs, evs, m') \<and>
    map fst (sp_delivered cs) = [[7, 8]] \<and> evs = [UnexpectedSequenceCount 5 0]"
proof -
  have "sp_pvn (sp_header_of [0, 1, 0xC0, 5, 0, 1, 7, 8, 9]) = 0"
      "sp_sequence_count (sp_header_of [0, 1, 0xC0, 5, 0, 1, 7, 8, 9]) = 5"
      "packet_data_length (sp_header_of [0, 1, 0xC0, 5, 0, 1, 7, 8, 9]) = 1"
    by code_simp+
  then show ?thesis
    using sp_deframer_exact [of "from_storage [0, 1, 0xC0, 5, 0, 1, 7, 8, 9] 0" apid_manager_new True frame_context_default]
    by (auto simp: from_storage_def wf_buffer_def window_def)
qed

text \<open>
  C26: A link of Space Packets is lossless and correctly numbered.  With the framer and its APID
  manager at one end, the deframer and its own manager at the other, and an allocator that delivers,
  every list of payloads of 1 to 65535 bytes arrives complete and in order, with the packet type,
  flags and secondary-header bit of its context; the packet counts run per APID, from zero and
  modulo \<open>2 ^ 14\<close>, for however many packets; and the receiving manager never reports a gap.
\<close>

theorem sp_link_lossless:
  assumes "sp_allocates alloc" and "\<forall>i \<in> set ins. sp_input_ok i"
  shows "\<exists>cs. sp_link alloc con f s apid_manager_new apid_manager_new ins = Some (cs, []) \<and>
    map fst (sp_delivered cs) = map (\<lambda>i. window (fst i)) ins \<and>
    (\<forall>j < length ins. let ctx = snd (ins ! j); ctx' = snd (sp_delivered cs ! j) in
       apid ctx' = apid ctx \<and> has_sec_hdr ctx' = has_sec_hdr ctx \<and> sequence_flags ctx' = sequence_flags ctx \<and>
       sequence_count ctx' = of_nat (length (filter (\<lambda>i. apid (snd i) = apid ctx) (take j ins)) mod 2 ^ 14))"
proof -
  have "apid_count apid_manager_new = (\<lambda>a. of_nat (0 mod 2 ^ 14))" by simp
  then obtain cs where cs: "sp_link alloc con f s apid_manager_new apid_manager_new ins = Some (cs, [])"
      "sp_delivered cs = numbered (\<lambda>_. 0) ins"
    using sp_link_numbered [OF assms, of apid_manager_new apid_manager_new "\<lambda>_. 0" con f s] by auto
  have "map fst (sp_delivered cs) = map (\<lambda>i. window (fst i)) ins"
    unfolding cs(2) by (rule nth_equalityI) (simp_all add: numbered_nth)
  with cs show ?thesis by (auto simp: numbered_nth Let_def)
qed

theorem sp_link_lossless_witness:
  "\<exists>cs. sp_link (\<lambda>(k :: nat) n. (buffer_allocate n, Suc k)) True sp_framer_new 0 apid_manager_new apid_manager_new
      [(from_storage [1, 2, 3] 0, frame_context_default), (from_storage [4] 0, frame_context_default)] = Some (cs, []) \<and>
    map fst (sp_delivered cs) = [[1, 2, 3], [4]]"
proof -
  have "sp_allocates (\<lambda>(k :: nat) n. (buffer_allocate n, Suc k))"
    by (simp add: sp_allocates_def) (simp add: buffer_allocate_def from_storage_def)
  moreover have "\<forall>i \<in> set [(from_storage [1, 2, 3] 0, frame_context_default), (from_storage [4] 0, frame_context_default)].
      sp_input_ok i"
    by (simp add: sp_input_ok_def) (simp add: from_storage_def frame_context_default_def word_less_nat_alt)
  ultimately show ?thesis
    using sp_link_lossless [of "\<lambda>(k :: nat) n. (buffer_allocate n, Suc k)"
        "[(from_storage [1, 2, 3] 0, frame_context_default), (from_storage [4] 0, frame_context_default)]" True sp_framer_new 0]
    by auto
qed

end
