(* ===== verification/Svc_Accumulator.thy ===== *)
theory Svc_Accumulator
  imports Svc_Framer Ccsds_Types Ccsds_Crc16 Utils_Ring
begin

text \<open>
  The frame accumulator and the two stock frame detectors (\<open>fprime-svc/src/frame_accumulator.rs\<close>).
  Bytes arrive in buffers of any size, are copied into a ring, and whole frames are cut out of it.
  The locale \<open>frame_detector\<close> is the \<open>FrameDetector\<close> trait with the laws the accumulator relies on;
  both detectors satisfy it.  Under it the accumulator computes the scan of the byte stream,
  however the stream is divided into buffers.
\<close>

section \<open>Detectors\<close>

datatype DetectorStatus = FrameDetected nat | NoFrameDetected | MoreDataNeeded nat

text \<open>The byte-by-byte checksum loops: peek every byte and absorb it.\<close>

fun fold_ring :: "('c \<Rightarrow> u8 \<Rightarrow> 'c) \<Rightarrow> ring \<Rightarrow> 'c \<Rightarrow> nat \<Rightarrow> nat \<Rightarrow> 'c option" where
  "fold_ring upd r c i 0 = Some c"
| "fold_ring upd r c i (Suc n) =
     do { (status, byte) \<leftarrow> peek_u8 r 0 i;
          fw_assert (status = Ok);
          fold_ring upd r (upd c byte) (i + 1) n }"

definition fprime_detect :: "ring \<Rightarrow> DetectorStatus option" where
  "fprime_detect r =
     (let available = get_allocated_size r
      in if available < MIN_FRAME_SIZE then Some (MoreDataNeeded MIN_FRAME_SIZE)
         else do {
           (st, start_word) \<leftarrow> peek_u32_be r 0 0;
           if st \<noteq> Ok then Some NoFrameDetected
           else if start_word \<noteq> START_WORD then Some NoFrameDetected
           else do {
             (st, length_field) \<leftarrow> peek_u32_be r 0 4;
             if st \<noteq> Ok then Some NoFrameDetected
             else do {
               let expected = unat length_field + MIN_FRAME_SIZE;
               if get_capacity r < expected then Some NoFrameDetected
               else if available < expected then Some (MoreDataNeeded expected)
               else do {
                 (st, transmitted_crc) \<leftarrow> peek_u32_be r 0 (HEADER_SIZE + unat length_field);
                 if st \<noteq> Ok then Some NoFrameDetected
                 else do {
                   h \<leftarrow> fold_ring (\<lambda>h byte. hash_update h [byte]) r (hash_init hash_new) 0
                          (HEADER_SIZE + unat length_field);
                   if transmitted_crc \<noteq> finalize h then Some NoFrameDetected
                   else Some (FrameDetected expected) } } } } })"

definition TC_MIN_FRAME_SIZE :: nat where "TC_MIN_FRAME_SIZE = TC_HEADER_SIZE + TC_TRAILER_SIZE"

definition for_spacecraft :: "u16 \<Rightarrow> u16" where
  "for_spacecraft spacecraft_id = push_bit 13 1 OR spacecraft_id"

definition tc_detector_new :: u16 where
  "tc_detector_new = for_spacecraft SPACECRAFT_ID"

definition tc_detect :: "u16 \<Rightarrow> ring \<Rightarrow> DetectorStatus option" where
  "tc_detect expected_flags_and_sc_id r =
     (let available = get_allocated_size r
      in if available < TC_MIN_FRAME_SIZE then Some (MoreDataNeeded TC_MIN_FRAME_SIZE)
         else do {
           (st, header_bytes) \<leftarrow> peek_bytes r (replicate TC_HEADER_SIZE 0) 0;
           if st \<noteq> Ok then Some NoFrameDetected
           else do {
             buf \<leftarrow> ext_buf_with_len header_bytes TC_HEADER_SIZE;
             (status, header, buf) \<leftarrow> struct_deserialize_from tc_header_members tc_header_build
                tc_header_default tc_header_default buf Big;
             fw_assert (status = Ok);
             if flags_and_sc_id header \<noteq> expected_flags_and_sc_id then Some NoFrameDetected
             else do {
               let expected_frame_length = unat (tc_total_frame_length header);
               if available < expected_frame_length then Some (MoreDataNeeded expected_frame_length)
               else if expected_frame_length < TC_MIN_FRAME_SIZE then Some NoFrameDetected
               else do {
                 data_to_crc_length \<leftarrow> usub expected_frame_length TC_TRAILER_SIZE;
                 crc \<leftarrow> fold_ring crc16_update r CRC16_INIT 0 data_to_crc_length;
                 let computed_fecf = crc16_finalize crc;
                 (st, trailer_bytes) \<leftarrow> peek_bytes r (replicate TC_TRAILER_SIZE 0) data_to_crc_length;
                 if st \<noteq> Ok then Some NoFrameDetected
                 else do {
                   buf \<leftarrow> ext_buf_with_len trailer_bytes TC_TRAILER_SIZE;
                   (status, trailer, buf) \<leftarrow> struct_deserialize_from trailer_members trailer_build
                      \<lparr>fecf = 0\<rparr> \<lparr>fecf = 0\<rparr> buf Big;
                   fw_assert (status = Ok);
                   if fecf trailer \<noteq> computed_fecf then Some NoFrameDetected
                   else Some (FrameDetected expected_frame_length) } } } } })"

section \<open>The accumulator\<close>

datatype acc_call =
    Acc_NoBufferAvailable
  | Acc_FrameDetectionSizeError nat
  | Acc_FrameDetectionValidFrameDropped
  | Acc_Deallocate fw_buffer
  | Acc_DataOut fw_buffer frame_context
  | Acc_DataReturnOut fw_buffer frame_context

text \<open>The detector is configured together with the ring; before that both are absent.\<close>

record accumulator =
  acc_ring :: "ring option"
  acc_detector :: "(ring \<Rightarrow> DetectorStatus option) option"

definition accumulator_new :: accumulator where
  "accumulator_new = \<lparr>acc_ring = None, acc_detector = None\<rparr>"

definition acc_configure :: "(ring \<Rightarrow> DetectorStatus option) \<Rightarrow> nat \<Rightarrow> accumulator option" where
  "acc_configure detector store_size =
     do { r \<leftarrow> circular_buffer_new store_size;
          Some \<lparr>acc_ring = Some r, acc_detector = Some detector\<rparr> }"

definition size_out :: "DetectorStatus \<Rightarrow> nat" where
  "size_out status = (case status of FrameDetected s \<Rightarrow> s | MoreDataNeeded s \<Rightarrow> s | NoFrameDetected \<Rightarrow> 0)"

text \<open>Copying a detected frame into an allocated buffer.\<close>

definition extract_frame :: "ring \<Rightarrow> fw_buffer \<Rightarrow> nat \<Rightarrow> (fw_buffer \<times> ring) option" where
  "extract_frame ring buffer n =
     do { fw_assert (bsize buffer \<ge> n);
          w \<leftarrow> buffer_data buffer;
          dest \<leftarrow> slice w 0 n;
          (status, dest) \<leftarrow> peek_bytes ring dest 0;
          buffer \<leftarrow> put_data buffer dest;
          fw_assert (status = Ok);
          buffer \<leftarrow> set_size buffer n;
          (status, ring) \<leftarrow> rotate_ring ring n;
          fw_assert (status = Ok);
          Some (buffer, ring) }"

fun process_ring_loop ::
  "(ring \<Rightarrow> DetectorStatus option) \<Rightarrow> ('s \<Rightarrow> nat \<Rightarrow> fw_buffer \<times> 's) \<Rightarrow> frame_context \<Rightarrow> nat \<Rightarrow> nat
    \<Rightarrow> ring \<Rightarrow> 's \<Rightarrow> (acc_call list \<times> ring \<times> 's) option" where
  "process_ring_loop detect alloc context ring_capacity 0 ring s = Some ([], ring, s)"
| "process_ring_loop detect alloc context ring_capacity (Suc k) ring s =
     (let remaining = get_allocated_size ring
      in if remaining = 0 then Some ([], ring, s)
         else do {
           status \<leftarrow> detect ring;
           fw_assert (get_allocated_size ring = remaining);
           if size_out status > ring_capacity
           then do {
             (_, ring) \<leftarrow> rotate_ring ring 1;
             fw_assert (get_allocated_size ring = remaining - 1);
             (cs, ring, s) \<leftarrow> process_ring_loop detect alloc context ring_capacity k ring s;
             Some (Acc_FrameDetectionSizeError (size_out status) # cs, ring, s) }
           else case status of
             FrameDetected n \<Rightarrow>
               do { fw_assert (n \<noteq> 0);
                    fw_assert (n \<le> remaining);
                    let (buffer, s) = alloc s n;
                    if is_valid buffer
                    then do {
                      (buffer, ring) \<leftarrow> extract_frame ring buffer n;
                      fw_assert (get_allocated_size ring = remaining - n);
                      (cs, ring, s) \<leftarrow> process_ring_loop detect alloc context ring_capacity k ring s;
                      Some (Acc_DataOut buffer context # cs, ring, s) }
                    else do {
                      free \<leftarrow> get_free_size ring;
                      if free = 0
                      then do {
                        (status, ring) \<leftarrow> rotate_ring ring n;
                        fw_assert (status = Ok);
                        fw_assert (get_allocated_size ring = remaining - n);
                        Some ([Acc_NoBufferAvailable, Acc_FrameDetectionValidFrameDropped], ring, s) }
                      else Some ([Acc_NoBufferAvailable], ring, s) } }
           | MoreDataNeeded n \<Rightarrow> do { fw_assert (n > remaining); Some ([], ring, s) }
           | NoFrameDetected \<Rightarrow>
               do { (_, ring) \<leftarrow> rotate_ring ring 1;
                    fw_assert (get_allocated_size ring = remaining - 1);
                    process_ring_loop detect alloc context ring_capacity k ring s } })"

definition process_ring ::
  "('s \<Rightarrow> nat \<Rightarrow> fw_buffer \<times> 's) \<Rightarrow> frame_context \<Rightarrow> accumulator \<Rightarrow> 's
    \<Rightarrow> (acc_call list \<times> accumulator \<times> 's) option" where
  "process_ring alloc context a s =
     do { detector \<leftarrow> acc_detector a;
          ring \<leftarrow> acc_ring a;
          let ring_capacity = get_capacity ring;
          (cs, ring, s) \<leftarrow> process_ring_loop detector alloc context ring_capacity ring_capacity ring s;
          Some (cs, a\<lparr>acc_ring := Some ring\<rparr>, s) }"

fun process_buffer_loop ::
  "('s \<Rightarrow> nat \<Rightarrow> fw_buffer \<times> 's) \<Rightarrow> frame_context \<Rightarrow> nat \<Rightarrow> u8 list \<Rightarrow> nat \<Rightarrow> nat \<Rightarrow> accumulator \<Rightarrow> 's
    \<Rightarrow> (acc_call list \<times> nat \<times> accumulator \<times> 's) option" where
  "process_buffer_loop alloc context 0 data off remaining a s = Some ([], remaining, a, s)"
| "process_buffer_loop alloc context (Suc k) data off remaining a s =
     do { ring \<leftarrow> acc_ring a;
          ring_free \<leftarrow> get_free_size ring;
          if remaining = 0 \<or> ring_free = 0 then Some ([], remaining, a, s)
          else do {
            let ser_size = min ring_free remaining;
            chunk \<leftarrow> slice data off (off + ser_size);
            (status, ring) \<leftarrow> ring_serialize ring chunk;
            fw_assert (status = Ok);
            (cs, a, s) \<leftarrow> process_ring alloc context (a\<lparr>acc_ring := Some ring\<rparr>) s;
            left \<leftarrow> usub remaining ser_size;
            (ds, remaining, a, s) \<leftarrow> process_buffer_loop alloc context k data (off + ser_size) left a s;
            Some (cs @ ds, remaining, a, s) } }"

definition process_buffer ::
  "('s \<Rightarrow> nat \<Rightarrow> fw_buffer \<times> 's) \<Rightarrow> frame_context \<Rightarrow> u8 list \<Rightarrow> accumulator \<Rightarrow> 's
    \<Rightarrow> (acc_call list \<times> accumulator \<times> 's) option" where
  "process_buffer alloc context data a s =
     do { (cs, remaining, a, s) \<leftarrow> process_buffer_loop alloc context (length data) data 0 (length data) a s;
          ring \<leftarrow> acc_ring a;
          free \<leftarrow> get_free_size ring;
          fw_assert (remaining = 0 \<or> free = 0);
          Some (cs, a, s) }"

definition acc_data_in ::
  "('s \<Rightarrow> nat \<Rightarrow> fw_buffer \<times> 's) \<Rightarrow> accumulator \<Rightarrow> 's \<Rightarrow> fw_buffer \<Rightarrow> frame_context
    \<Rightarrow> (acc_call list \<times> accumulator \<times> 's) option" where
  "acc_data_in alloc a s buffer context =
     do { (cs, a, s) \<leftarrow>
            (if is_valid buffer
             then do { data \<leftarrow> buffer_data buffer; process_buffer alloc context data a s }
             else Some ([], a, s));
          Some (cs @ [Acc_DataReturnOut buffer context], a, s) }"

definition acc_data_return_in :: "fw_buffer \<Rightarrow> acc_call list" where
  "acc_data_return_in buffer = [Acc_Deallocate buffer]"


section \<open>The detectors on byte strings\<close>

lemma fold_ring_eq:
  assumes "wf_ring r" and "i + n \<le> length (ring_list r)"
  shows "fold_ring upd r c i n = Some (foldl upd c (take n (drop i (ring_list r))))"
  using assms(2)
proof (induction n arbitrary: i c)
  case (Suc n)
  then have "drop i (ring_list r) = ring_list r ! i # drop (Suc i) (ring_list r)"
    by (simp add: Cons_nth_drop_Suc)
  with Suc assms(1) show ?case by (simp add: peek_u8_eq)
qed simp

definition fprime_det :: "nat \<Rightarrow> u8 list \<Rightarrow> DetectorStatus" where
  "fprime_det cap xs =
     (if length xs < 12 then MoreDataNeeded 12
      else if from_be_bytes (take 4 xs) \<noteq> START_WORD then NoFrameDetected
      else let n = unat (from_be_bytes (take 4 (drop 4 xs)) :: u32)
           in if cap < 12 + n then NoFrameDetected
              else if length xs < 12 + n then MoreDataNeeded (12 + n)
              else if frame_checks (take (12 + n) xs) then FrameDetected (12 + n) else NoFrameDetected)"

lemma frame_checks_take:
  fixes xs :: "u8 list"
  defines "n \<equiv> unat (from_be_bytes (take 4 (drop 4 xs)) :: u32)"
  assumes "12 + n \<le> length xs" and "from_be_bytes (take 4 xs) = START_WORD"
  shows "frame_checks (take (12 + n) xs) \<longleftrightarrow>
    from_be_bytes (take 4 (drop (8 + n) xs)) = hash_u32 (take (8 + n) xs)"
proof -
  define w where "w = take (12 + n) xs"
  have "take 4 w = take 4 xs" "take 4 (drop 4 w) = take 4 (drop 4 xs)" "length w = 12 + n"
      "take 4 (drop (8 + n) w) = take 4 (drop (8 + n) xs)" "take (8 + n) w = take (8 + n) xs"
    using assms(2) by (simp_all add: w_def drop_take min_def)
  then show ?thesis
    using assms(3) unfolding w_def [symmetric] frame_checks_def Let_def n_def [symmetric]
    by (simp add: n_def [symmetric])
qed

lemma foldl_hash: "foldl (\<lambda>h byte. hash_update h [byte]) h bs = hash_update h bs"
  by (induction bs arbitrary: h) (simp_all add: hash_update_def)

lemma hash_ring:
  "wf_ring r \<Longrightarrow> n \<le> length (ring_list r) \<Longrightarrow>
    map_option finalize (fold_ring (\<lambda>h byte. hash_update h [byte]) r (hash_init hash_new) 0 n) =
      Some (hash_u32 (take n (ring_list r)))"
  by (simp add: fold_ring_eq foldl_hash hash_u32_def hash_init_def hash_new_def)

lemma fprime_detect_eq:
  assumes "wf_ring r"
  shows "fprime_detect r = Some (fprime_det (get_capacity r) (ring_list r))"
proof (cases "length (ring_list r) < 12 \<or> from_be_bytes (take 4 (ring_list r)) \<noteq> START_WORD")
  case True
  then show ?thesis
    using assms by (auto simp: fprime_detect_def fprime_det_def get_allocated_size_def frame_sizes peek_u32_be_eq Let_def)
next
  case False
  define n where "n = unat (from_be_bytes (take 4 (drop 4 (ring_list r))) :: u32)"
  have len: "12 \<le> allocated_size r" and start: "from_be_bytes (take 4 (ring_list r)) = START_WORD"
    using False by simp_all
  have heads: "peek_u32_be r 0 0 = Some (Ok, START_WORD)"
      "peek_u32_be r 0 4 = Some (Ok, from_be_bytes (take 4 (drop 4 (ring_list r))))"
    using assms len start by (simp_all add: peek_u32_be_eq)
  show ?thesis
  proof (cases "get_capacity r < 12 + n \<or> length (ring_list r) < 12 + n")
    case True
    then show ?thesis
      using len start heads n_def
      by (auto simp: fprime_detect_def fprime_det_def get_allocated_size_def frame_sizes Let_def add.commute)
  next
    case fits: False
    have crc: "peek_u32_be r 0 (8 + n) = Some (Ok, from_be_bytes (take 4 (drop (8 + n) (ring_list r))))"
      using assms fits by (simp add: peek_u32_be_eq)
    obtain h where h: "fold_ring (\<lambda>h byte. hash_update h [byte]) r (hash_init hash_new) 0 (8 + n) = Some h"
        "finalize h = hash_u32 (take (8 + n) (ring_list r))"
      using hash_ring [OF assms, of "8 + n"] fits by auto
    note checks = frame_checks_take [of "ring_list r", folded n_def, OF _ start]
    have "fprime_detect r = Some (if from_be_bytes (take 4 (drop (8 + n) (ring_list r))) \<noteq>
        hash_u32 (take (8 + n) (ring_list r)) then NoFrameDetected else FrameDetected (12 + n))"
      using len heads fits crc h n_def [symmetric]
      by (simp add: fprime_detect_def get_allocated_size_def frame_sizes Let_def add.commute)
    then show ?thesis
      using len start fits checks n_def [symmetric] by (simp add: fprime_det_def Let_def)
  qed
qed


definition tc_length :: "u8 list \<Rightarrow> nat" where
  "tc_length xs = unat ((from_be_bytes (take 2 (drop 2 xs)) AND 0x03FF) + 1 :: u16)"

definition tc_det :: "u16 \<Rightarrow> nat \<Rightarrow> u8 list \<Rightarrow> DetectorStatus" where
  "tc_det token cap xs =
     (if length xs < 7 then MoreDataNeeded 7
      else if from_be_bytes (take 2 xs) \<noteq> token then NoFrameDetected
      else let n = tc_length xs
           in if length xs < n then MoreDataNeeded n
              else if n < 7 then NoFrameDetected
              else if from_be_bytes (take 2 (drop (n - 2) xs)) \<noteq> crc16_compute (take (n - 2) xs) then NoFrameDetected
              else FrameDetected n)"

lemma ext_view:
  "length bs = n \<Longrightarrow> \<exists>v. ext_buf_with_len bs n = Some v \<and> wf_buf v \<and> unread v = bs"
  by (simp add: ext_buf_with_len_def buf_defs)

lemma tc_header_view:
  assumes "length bs = 5"
  shows "\<exists>b h b'. ext_buf_with_len bs 5 = Some b \<and>
    struct_deserialize_from tc_header_members tc_header_build d t b Big = Some (Ok, h, b') \<and>
    flags_and_sc_id h = from_be_bytes (take 2 bs) \<and> vc_id_and_length h = from_be_bytes (take 2 (drop 2 bs))"
proof -
  obtain v where v: "ext_buf_with_len bs 5 = Some v" "wf_buf v" "unread v = bs" using ext_view [OF assms] by blast
  obtain h where h: "struct_deserialize_from tc_header_members tc_header_build d t v Big = Some (Ok, h, adv v 5)"
      "struct_enc tc_header_members Big h = bs"
    using tc_header.decode [OF v(2), of d t Big] assms v(3) by auto
  then have "bs = to_be_bytes (flags_and_sc_id h) @ to_be_bytes (vc_id_and_length h) @ to_be_bytes (frame_sequence_num h)"
    by (simp add: struct_enc_def tc_header_members_def to_bytes_def)
  then have "from_be_bytes (take 2 bs) = flags_and_sc_id h" "from_be_bytes (take 2 (drop 2 bs)) = vc_id_and_length h"
    by simp_all
  then show ?thesis using h(1) v(1) by auto
qed

lemma trailer_view:
  assumes "length bs = 2"
  shows "\<exists>b t' b'. ext_buf_with_len bs 2 = Some b \<and>
    struct_deserialize_from trailer_members trailer_build d t b Big = Some (Ok, t', b') \<and> fecf t' = from_be_bytes bs"
proof -
  obtain v where v: "ext_buf_with_len bs 2 = Some v" "wf_buf v" "unread v = bs" using ext_view [OF assms] by blast
  obtain t' where h: "struct_deserialize_from trailer_members trailer_build d t v Big = Some (Ok, t', adv v 2)"
      "struct_enc trailer_members Big t' = bs"
    using fecf_trailer.decode [OF v(2), of d t Big] assms v(3) by auto
  then have "bs = to_be_bytes (fecf t')"
    by (simp add: struct_enc_def trailer_members_def to_bytes_def)
  then have "from_be_bytes bs = fecf t'" by simp
  then show ?thesis using h(1) v(1) by auto
qed

lemma tc_detect_eq:
  assumes "wf_ring r"
  shows "tc_detect token r = Some (tc_det token (get_capacity r) (ring_list r))"
proof (cases "length (ring_list r) < 7")
  case True
  then show ?thesis
    by (simp add: tc_detect_def tc_det_def get_allocated_size_def TC_MIN_FRAME_SIZE_def TC_HEADER_SIZE_def TC_TRAILER_SIZE_def)
next
  case False
  let ?xs = "ring_list r"
  note sizes = TC_MIN_FRAME_SIZE_def TC_HEADER_SIZE_def TC_TRAILER_SIZE_def
  have hb: "peek_bytes r (replicate 5 0) 0 = Some (Ok, take 5 ?xs)"
    using assms False by (simp add: peek_bytes_eq)
  obtain b h b' where h: "ext_buf_with_len (take 5 ?xs) 5 = Some b"
      "struct_deserialize_from tc_header_members tc_header_build tc_header_default tc_header_default b Big = Some (Ok, h, b')"
      "flags_and_sc_id h = from_be_bytes (take 2 ?xs)" "vc_id_and_length h = from_be_bytes (take 2 (drop 2 ?xs))"
    using tc_header_view [of "take 5 ?xs" tc_header_default tc_header_default] False by (auto simp: min_def drop_take)
  have len: "unat (tc_total_frame_length h) = tc_length ?xs"
    by (simp add: tc_total_frame_length_def tc_length_def h(4))
  define n where "n = tc_length ?xs"
  show ?thesis
  proof (cases "flags_and_sc_id h \<noteq> token \<or> length ?xs < n \<or> n < 7")
    case True
    then show ?thesis
      using False hb h len [folded n_def]
      by (auto simp: tc_detect_def tc_det_def get_allocated_size_def sizes Let_def n_def)
  next
    case ok: False
    have crc: "fold_ring crc16_update r CRC16_INIT 0 (n - 2) = Some (foldl crc16_update CRC16_INIT (take (n - 2) ?xs))"
    proof -
      have "0 + (n - 2) \<le> length ?xs" using ok by auto
      from fold_ring_eq [OF assms this] show ?thesis by simp
    qed
    have tb: "peek_bytes r (replicate 2 0) (n - 2) = Some (Ok, take 2 (drop (n - 2) ?xs))"
      using assms ok by (auto simp: peek_bytes_eq)
    obtain c t c' where t: "ext_buf_with_len (take 2 (drop (n - 2) ?xs)) 2 = Some c"
        "struct_deserialize_from trailer_members trailer_build \<lparr>fecf = 0\<rparr> \<lparr>fecf = 0\<rparr> c Big = Some (Ok, t, c')"
        "fecf t = from_be_bytes (take 2 (drop (n - 2) ?xs))"
      using trailer_view [of "take 2 (drop (n - 2) ?xs)" "\<lparr>fecf = 0\<rparr>" "\<lparr>fecf = 0\<rparr>"] ok by auto
    have "tc_detect token r = Some (if fecf t \<noteq> crc16_compute (take (n - 2) ?xs) then NoFrameDetected else FrameDetected n)"
      using False hb h len [folded n_def] ok crc tb t
      by (simp add: tc_detect_def get_allocated_size_def sizes Let_def crc16_compute_def crc16_update_all_def)
    then show ?thesis
      using False ok h(3) t(3) n_def by (simp add: tc_det_def Let_def)
  qed
qed


section \<open>The detector contract\<close>

text \<open>A verdict that makes the accumulator drop one byte and look again.\<close>

definition skips :: "nat \<Rightarrow> DetectorStatus \<Rightarrow> bool" where
  "skips cap status \<longleftrightarrow> status = NoFrameDetected \<or> cap < size_out status"

text \<open>The stream reading of a detector: the frames cut from the front of a byte string and what is left.\<close>

function scan :: "(nat \<Rightarrow> u8 list \<Rightarrow> DetectorStatus) \<Rightarrow> nat \<Rightarrow> u8 list \<Rightarrow> u8 list list \<times> u8 list" where
  "scan det cap xs =
     (if xs = [] then ([], [])
      else if skips cap (det cap xs) then scan det cap (tl xs)
      else case det cap xs of
        FrameDetected n \<Rightarrow> (let (fs, rest) = scan det cap (drop (max 1 n) xs) in (take n xs # fs, rest))
      | _ \<Rightarrow> ([], xs))"
  by pat_completeness auto
termination
  by (relation "measure (\<lambda>(_, _, xs). length xs)") auto

declare scan.simps [simp del]

locale frame_detector =
  fixes detect :: "ring \<Rightarrow> DetectorStatus option"
    and det :: "nat \<Rightarrow> u8 list \<Rightarrow> DetectorStatus"
  assumes detect_det: "wf_ring r \<Longrightarrow> detect r = Some (det (get_capacity r) (ring_list r))"
    and det_frame: "det cap xs = FrameDetected n \<Longrightarrow> 0 < n \<and> n \<le> length xs"
    and det_more: "det cap xs = MoreDataNeeded n \<Longrightarrow> length xs < n"
    and stable_frame: "det cap xs = FrameDetected n \<Longrightarrow> det cap (xs @ ys) = FrameDetected n"
    and stable_skip: "skips cap (det cap xs) \<Longrightarrow> xs \<noteq> [] \<Longrightarrow> skips cap (det cap (xs @ ys))"
begin

lemma scan_skip: "xs \<noteq> [] \<Longrightarrow> skips cap (det cap xs) \<Longrightarrow> scan det cap xs = scan det cap (tl xs)"
  by (subst scan.simps) simp

lemma scan_frame:
  assumes "det cap xs = FrameDetected n" and "n \<le> cap"
  shows "scan det cap xs = (take n xs # fst (scan det cap (drop n xs)), snd (scan det cap (drop n xs)))"
proof -
  have n: "0 < n" "n \<le> length xs" using det_frame [OF assms(1)] by auto
  then have "xs \<noteq> []" "max 1 n = n" by auto
  with assms show ?thesis by (subst scan.simps) (simp add: skips_def size_out_def split: prod.splits)
qed

lemma scan_wait: "det cap xs = MoreDataNeeded n \<Longrightarrow> n \<le> cap \<Longrightarrow> scan det cap xs = ([], xs)"
  by (subst scan.simps) (auto simp: skips_def size_out_def)

lemma scan_Nil: "scan det cap [] = ([], [])"
  by (subst scan.simps) simp

lemma scan_cases:
  assumes "xs \<noteq> []"
  obtains "skips cap (det cap xs)" | n where "det cap xs = FrameDetected n" "n \<le> cap" "0 < n" "n \<le> length xs"
  | n where "det cap xs = MoreDataNeeded n" "n \<le> cap" "length xs < n"
proof (cases "skips cap (det cap xs)")
  case False
  then have "size_out (det cap xs) \<le> cap" "det cap xs \<noteq> NoFrameDetected" by (auto simp: skips_def)
  then show ?thesis
    using that(2,3) det_frame det_more by (cases "det cap xs") (auto simp: size_out_def)
qed (use that(1) in blast)

text \<open>What waits for more data is shorter than the ring, so there is always room for a byte.\<close>

lemma scan_rest: "snd (scan det cap xs) = [] \<or> length (snd (scan det cap xs)) < cap"
proof (induction xs rule: measure_induct_rule [of length])
  case (less xs)
  show ?case
  proof (cases "xs = []")
    case False
    then show ?thesis
    proof (cases rule: scan_cases [of xs cap])
      case 1
      with False less [of "tl xs"] show ?thesis by (simp add: scan_skip)
    next
      case (2 n)
      with less [of "drop n xs"] show ?thesis by (simp add: scan_frame)
    next
      case (3 n)
      then show ?thesis by (simp add: scan_wait)
    qed
  qed (simp add: scan_Nil)
qed

text \<open>Scanning may stop anywhere and resume when more bytes have arrived.\<close>

lemma scan_append:
  "scan det cap (xs @ ys) =
    (fst (scan det cap xs) @ fst (scan det cap (snd (scan det cap xs) @ ys)),
     snd (scan det cap (snd (scan det cap xs) @ ys)))"
proof (induction xs rule: measure_induct_rule [of length])
  case (less xs)
  show ?case
  proof (cases "xs = []")
    case False
    then show ?thesis
    proof (cases rule: scan_cases [of xs cap])
      case 1
      then have "scan det cap (xs @ ys) = scan det cap (tl xs @ ys)"
        using False stable_skip [of cap xs ys] by (simp add: scan_skip)
      with 1 False less [of "tl xs"] show ?thesis by (simp add: scan_skip)
    next
      case (2 n)
      have "scan det cap (xs @ ys) = (take n xs # fst (scan det cap (drop n xs @ ys)), snd (scan det cap (drop n xs @ ys)))"
        using scan_frame [OF stable_frame [OF 2(1)] 2(2), of ys] 2(4) by simp
      with 2 less [of "drop n xs"] show ?thesis by (simp add: scan_frame)
    next
      case (3 n)
      then show ?thesis by (simp add: scan_wait)
    qed
  qed (simp add: scan_Nil)
qed

end

section \<open>Both detectors satisfy it\<close>

lemma fprime_det_stable:
  assumes more: "\<And>m. fprime_det cap xs \<noteq> MoreDataNeeded m"
  shows "fprime_det cap (xs @ ys) = fprime_det cap xs"
proof -
  define k where "k = unat (from_be_bytes (take 4 (drop 4 xs)) :: u32)"
  have len: "12 \<le> length xs" using more [of 12] by (simp add: fprime_det_def not_less split: if_splits)
  then have pre: "take 4 (xs @ ys) = take 4 xs" "take 4 (drop 4 (xs @ ys)) = take 4 (drop 4 xs)" by simp_all
  show ?thesis
  proof (cases "from_be_bytes (take 4 xs) = START_WORD \<and> 12 + k \<le> cap")
    case True
    with more [of "12 + k"] len have "12 + k \<le> length xs"
      unfolding fprime_det_def Let_def k_def [symmetric] by (simp split: if_splits)
    with True len show ?thesis
      unfolding fprime_det_def Let_def pre k_def [symmetric] by simp
  next
    case False
    with len show ?thesis
      unfolding fprime_det_def Let_def pre k_def [symmetric] by auto
  qed
qed

lemma fprime_det_bounds:
  "fprime_det cap xs = FrameDetected n \<Longrightarrow> 0 < n \<and> n \<le> length xs \<and> n \<le> cap \<and> frame_checks (take n xs)"
  "fprime_det cap xs = MoreDataNeeded n \<Longrightarrow> length xs < n \<and> (n = 12 \<or> n \<le> cap)"
  by (auto simp: fprime_det_def Let_def split: if_splits)

lemma fprime_det_tiny: "cap < 12 \<Longrightarrow> skips cap (fprime_det cap xs)"
  by (auto simp: fprime_det_def Let_def skips_def size_out_def)

interpretation fprime_detector: frame_detector fprime_detect fprime_det
proof
  fix cap n and xs ys :: "u8 list"
  show "fprime_det cap (xs @ ys) = FrameDetected n" if "fprime_det cap xs = FrameDetected n"
    using that fprime_det_stable [of cap xs ys] by simp
  show "skips cap (fprime_det cap (xs @ ys))" if skip: "skips cap (fprime_det cap xs)"
  proof (cases "cap < 12")
    case False
    with skip have "\<And>m. fprime_det cap xs \<noteq> MoreDataNeeded m"
      using fprime_det_bounds(2) [of cap xs] by (fastforce simp: skips_def size_out_def)
    with skip show ?thesis using fprime_det_stable [of cap xs ys] by simp
  qed (rule fprime_det_tiny)
qed (use fprime_detect_eq fprime_det_bounds in auto)

lemma tc_length_le: "1 \<le> tc_length xs" "tc_length xs \<le> 1024"
proof -
  define y where "y = (from_be_bytes (take 2 (drop 2 xs)) :: u16) AND 0x03FF"
  have "y = take_bit 10 (from_be_bytes (take 2 (drop 2 xs)))"
    by (simp add: y_def take_bit_eq_mask mask_eq_exp_minus_1)
  then have "unat y < 1024"
    using take_bit_nat_less_exp [of 10 "unat (from_be_bytes (take 2 (drop 2 xs)) :: u16)"]
    by (simp add: unsigned_take_bit_eq)
  then have "unat (y + 1) = unat y + 1" by (simp add: unat_word_ariths)
  with \<open>unat y < 1024\<close> show "1 \<le> tc_length xs" "tc_length xs \<le> 1024"
    by (simp_all add: tc_length_def y_def [symmetric])
qed

lemma tc_det_append:
  assumes "7 \<le> length xs"
  shows "tc_length (xs @ ys) = tc_length xs" and "take 2 (xs @ ys) = take 2 xs"
  using assms by (simp_all add: tc_length_def)

interpretation tc_detector: frame_detector "tc_detect token" "tc_det token" for token
proof
  fix r assume "wf_ring r"
  then show "tc_detect token r = Some (tc_det token (get_capacity r) (ring_list r))" by (rule tc_detect_eq)
next
  fix cap n and xs ys :: "u8 list"
  show "0 < n \<and> n \<le> length xs" if "tc_det token cap xs = FrameDetected n"
    using that by (auto simp: tc_det_def Let_def split: if_splits)
  show "length xs < n" if "tc_det token cap xs = MoreDataNeeded n"
    using that by (auto simp: tc_det_def Let_def split: if_splits)
  show "tc_det token cap (xs @ ys) = FrameDetected n" if "tc_det token cap xs = FrameDetected n"
    using that by (auto simp: tc_det_def Let_def tc_det_append split: if_splits)
  show "skips cap (tc_det token cap (xs @ ys))" if "skips cap (tc_det token cap xs)"
  proof (cases "7 \<le> length xs")
    case True
    with that show ?thesis
      by (auto simp: tc_det_def Let_def tc_det_append skips_def size_out_def split: if_splits)
  next
    case False
    with that have "cap < 7" by (simp add: tc_det_def skips_def size_out_def)
    then show ?thesis by (auto simp: tc_det_def Let_def skips_def size_out_def split: if_splits)
  qed
qed


section \<open>The accumulator scans the stream\<close>

definition alloc_ok :: "('s \<Rightarrow> nat \<Rightarrow> fw_buffer \<times> 's) \<Rightarrow> nat \<Rightarrow> bool" where
  "alloc_ok alloc cap \<longleftrightarrow>
     (\<forall>s n. 0 < n \<and> n \<le> cap \<longrightarrow> wf_buffer (fst (alloc s n)) \<and> is_valid (fst (alloc s n)) \<and> n \<le> bsize (fst (alloc s n)))"

fun frames_out :: "acc_call list \<Rightarrow> u8 list list" where
  "frames_out [] = []"
| "frames_out (Acc_DataOut b ctx # cs) = window b # frames_out cs"
| "frames_out (c # cs) = frames_out cs"

text \<open>Every buffer that goes downstream is well formed and carries the context it came with; nothing is returned.\<close>

definition calls_ok :: "frame_context \<Rightarrow> acc_call list \<Rightarrow> bool" where
  "calls_ok ctx cs \<longleftrightarrow> (\<forall>b c. Acc_DataOut b c \<in> set cs \<longrightarrow> wf_buffer b \<and> c = ctx) \<and>
     (\<forall>b c. Acc_DataReturnOut b c \<notin> set cs)"

lemma frames_out_append [simp]: "frames_out (cs @ ds) = frames_out cs @ frames_out ds"
  by (induction cs rule: frames_out.induct) simp_all

lemma calls_ok_simps [simp]:
  "calls_ok ctx []" "calls_ok ctx (cs @ ds) \<longleftrightarrow> calls_ok ctx cs \<and> calls_ok ctx ds"
  "calls_ok ctx (c # cs) \<longleftrightarrow> calls_ok ctx cs \<and> (\<forall>b d. c = Acc_DataOut b d \<longrightarrow> wf_buffer b \<and> d = ctx) \<and>
     (\<forall>b d. c \<noteq> Acc_DataReturnOut b d)"
  by (auto simp: calls_ok_def)

lemma extract_frame_eq:
  assumes "wf_ring r" and "n \<le> length (ring_list r)" and "wf_buffer b" and "n \<le> bsize b"
  shows "\<exists>b'. extract_frame r b n = Some (b', ring_drop r n) \<and> wf_buffer b' \<and> window b' = take n (ring_list r)"
proof -
  have sl: "slice (window b) 0 n = Some (take n (window b))" using assms by (simp add: slice_def)
  have pk: "peek_bytes r (take n (window b)) 0 = Some (Ok, take n (ring_list r))"
    using assms by (simp add: peek_bytes_eq min_def)
  have len: "length (take n (ring_list r)) = n" using assms(2) by simp
  then obtain b1 where b1: "put_data b (take n (ring_list r)) = Some b1" "wf_buffer b1"
      "window b1 = take n (ring_list r) @ drop n (window b)" "bsize b1 = bsize b"
    using put_data_eq [OF assms(3), of "take n (ring_list r)"] assms(4) by auto
  obtain b2 where b2: "set_size b1 n = Some b2" "wf_buffer b2" "window b2 = take n (window b1)"
    using set_size_eq [OF b1(2), of n] b1(4) assms(4) by auto
  have "window b2 = take n (ring_list r)" using b1(3) b2(3) len by simp
  with sl pk b1(1) b2(1,2) assms show ?thesis
    by (simp add: extract_frame_def rotate_ring_eq)
qed

text \<open>A configured accumulator between calls: the ring is never left full.\<close>

definition ready :: "(ring \<Rightarrow> DetectorStatus option) \<Rightarrow> accumulator \<Rightarrow> ring \<Rightarrow> bool" where
  "ready detect a r \<longleftrightarrow> acc_ring a = Some r \<and> acc_detector a = Some detect \<and> wf_ring r \<and>
     length (ring_list r) < get_capacity r"

definition input_bytes :: "fw_buffer \<Rightarrow> u8 list" where
  "input_bytes b = (if is_valid b then window b else [])"

fun acc_feed ::
  "('s \<Rightarrow> nat \<Rightarrow> fw_buffer \<times> 's) \<Rightarrow> accumulator \<Rightarrow> 's \<Rightarrow> (fw_buffer \<times> frame_context) list
    \<Rightarrow> (acc_call list \<times> accumulator \<times> 's) option" where
  "acc_feed alloc a s [] = Some ([], a, s)"
| "acc_feed alloc a s ((b, ctx) # ins) =
     do { (cs, a, s) \<leftarrow> acc_data_in alloc a s b ctx;
          (ds, a, s) \<leftarrow> acc_feed alloc a s ins;
          Some (cs @ ds, a, s) }"

fun acc_returned :: "acc_call list \<Rightarrow> (fw_buffer \<times> frame_context) list" where
  "acc_returned [] = []"
| "acc_returned (Acc_DataReturnOut b ctx # cs) = (b, ctx) # acc_returned cs"
| "acc_returned (c # cs) = acc_returned cs"

lemma acc_returned_append [simp]: "acc_returned (cs @ ds) = acc_returned cs @ acc_returned ds"
  by (induction cs rule: acc_returned.induct) simp_all

lemma acc_returned_calls: "calls_ok ctx cs \<Longrightarrow> acc_returned cs = []"
  by (induction cs rule: acc_returned.induct) simp_all

text \<open>Well-formedness of everything sent downstream.\<close>

definition out_ok :: "acc_call list \<Rightarrow> bool" where
  "out_ok cs \<longleftrightarrow> (\<forall>b c. Acc_DataOut b c \<in> set cs \<longrightarrow> wf_buffer b)"

context frame_detector
begin

lemma process_ring_loop_eq:
  assumes "wf_ring r" and "alloc_ok alloc (get_capacity r)" and "length (ring_list r) \<le> k"
  shows "\<exists>cs r' s'. process_ring_loop detect alloc ctx (get_capacity r) k r s = Some (cs, r', s') \<and>
    wf_ring r' \<and> get_capacity r' = get_capacity r \<and> calls_ok ctx cs \<and>
    scan det (get_capacity r) (ring_list r) = (frames_out cs, ring_list r')"
  using assms
proof (induction k arbitrary: r s)
  case 0
  then have "ring_list r = []" by (simp add: ring_list_def)
  with 0 show ?case by (simp add: scan_Nil)
next
  case (Suc k)
  let ?c = "get_capacity r" and ?xs = "ring_list r"
  have det: "detect r = Some (det ?c ?xs)" using Suc.prems(1) by (rule detect_det)
  show ?case
  proof (cases "?xs = []")
    case True
    then have "allocated_size r = 0" by (metis length_ring_list list.size(3))
    with True Suc.prems(1) show ?thesis by (simp add: get_allocated_size_def scan_Nil)
  next
    case False
    then have pos: "0 < allocated_size r" by (metis length_ring_list length_greater_0_conv)
    show ?thesis
      using False
    proof (cases rule: scan_cases [of ?xs ?c])
      case 1
      let ?r = "ring_drop r 1"
      have r: "wf_ring ?r" "get_capacity ?r = ?c" "ring_list ?r = tl ?xs" "rotate_ring r 1 = Some (Ok, ?r)"
          "allocated_size ?r = allocated_size r - 1"
        using Suc.prems(1) pos by (simp_all add: drop_Suc rotate_ring_eq) (simp add: ring_drop_def)
      have "length (ring_list ?r) \<le> k" using Suc.prems(3) r(3) by simp
      then obtain cs r' s' where "process_ring_loop detect alloc ctx ?c k ?r s = Some (cs, r', s')" "wf_ring r'"
          "get_capacity r' = ?c" "calls_ok ctx cs" "scan det ?c (tl ?xs) = (frames_out cs, ring_list r')"
        using Suc.IH [of ?r s] Suc.prems(2) r(1,2,3) by auto
      with 1 r pos False det show ?thesis
        by (cases "det ?c ?xs") (auto simp: get_allocated_size_def scan_skip skips_def size_out_def)
    next
      case (2 n)
      let ?r = "ring_drop r n"
      obtain b s1 where al: "alloc s n = (b, s1)" by fastforce
      with Suc.prems(2) 2 have b: "wf_buffer b" "is_valid b" "n \<le> bsize b"
        unfolding alloc_ok_def by (metis fst_conv)+
      obtain b' where b': "extract_frame r b n = Some (b', ?r)" "wf_buffer b'" "window b' = take n ?xs"
        using extract_frame_eq [OF Suc.prems(1) 2(4) b(1,3)] by blast
      have r: "wf_ring ?r" "get_capacity ?r = ?c" "ring_list ?r = drop n ?xs" "allocated_size ?r = allocated_size r - n"
        using Suc.prems(1) 2(4) by simp_all (simp add: ring_drop_def)
      have "length (ring_list ?r) \<le> k" using Suc.prems(3) r(3) 2(3) by simp
      then obtain cs r' s' where "process_ring_loop detect alloc ctx ?c k ?r s1 = Some (cs, r', s')" "wf_ring r'"
          "get_capacity r' = ?c" "calls_ok ctx cs" "scan det ?c (drop n ?xs) = (frames_out cs, ring_list r')"
        using Suc.IH [of ?r s1] Suc.prems(2) r(1,2,3) by auto
      with 2 r pos det al b b' show ?thesis
        by (auto simp: get_allocated_size_def size_out_def scan_frame)
    next
      case (3 n)
      then show ?thesis
        using Suc.prems pos det by (auto simp: get_allocated_size_def size_out_def scan_wait)
    qed
  qed
qed

lemma process_ring_eq:
  assumes "acc_ring a = Some r" and "acc_detector a = Some detect" and "wf_ring r" and "alloc_ok alloc (get_capacity r)"
  shows "\<exists>cs r' s'. process_ring alloc ctx a s = Some (cs, a\<lparr>acc_ring := Some r'\<rparr>, s') \<and>
    ready detect (a\<lparr>acc_ring := Some r'\<rparr>) r' \<and> get_capacity r' = get_capacity r \<and> calls_ok ctx cs \<and>
    scan det (get_capacity r) (ring_list r) = (frames_out cs, ring_list r')"
proof -
  have "length (ring_list r) \<le> get_capacity r" using wf_ring_bound [OF assms(3)] by simp
  then obtain cs r' s' where p: "process_ring_loop detect alloc ctx (get_capacity r) (get_capacity r) r s = Some (cs, r', s')"
      "wf_ring r'" "get_capacity r' = get_capacity r" "calls_ok ctx cs"
      "scan det (get_capacity r) (ring_list r) = (frames_out cs, ring_list r')"
    using process_ring_loop_eq [OF assms(3,4)] by blast
  have "0 < get_capacity r" using wf_ring_pos [OF assms(3)] by (simp add: get_capacity_def)
  then have "length (ring_list r') < get_capacity r'"
    using scan_rest [of "get_capacity r" "ring_list r"] unfolding p(3,5) snd_conv by (metis list.size(3))
  with p assms show ?thesis
    by (auto simp: process_ring_def ready_def)
qed

lemma process_buffer_loop_eq:
  assumes "ready detect a r" and "alloc_ok alloc (get_capacity r)" and "off + remaining = length data" and "remaining \<le> k"
  shows "\<exists>cs r' s'. process_buffer_loop alloc ctx k data off remaining a s = Some (cs, 0, a\<lparr>acc_ring := Some r'\<rparr>, s') \<and>
    ready detect (a\<lparr>acc_ring := Some r'\<rparr>) r' \<and> get_capacity r' = get_capacity r \<and> calls_ok ctx cs \<and>
    (remaining > 0 \<longrightarrow> scan det (get_capacity r) (ring_list r @ drop off data) = (frames_out cs, ring_list r')) \<and>
    (remaining = 0 \<longrightarrow> r' = r \<and> cs = [])"
  using assms
proof (induction k arbitrary: a r off remaining s)
  case 0
  then show ?case by (auto simp: ready_def)
next
  case (Suc k)
  have a: "acc_ring a = Some r" "acc_detector a = Some detect" "wf_ring r" "length (ring_list r) < get_capacity r"
    using Suc.prems(1) by (simp_all add: ready_def)
  show ?case
  proof (cases "remaining = 0")
    case True
    with a show ?thesis by (auto simp: get_free_size_eq ready_def)
  next
    case False
    define n where "n = min (get_capacity r - length (ring_list r)) remaining"
    have n: "0 < n" "n \<le> remaining" using False a(4) by (auto simp: n_def)
    define chunk where "chunk = take n (drop off data)"
    have sl: "slice data off (off + n) = Some chunk"
      using n Suc.prems(3) by (simp add: chunk_def slice_def)
    have "length chunk = n" using n Suc.prems(3) by (simp add: chunk_def)
    then have fit: "length (ring_list r) + length chunk \<le> get_capacity r" using a(4) by (auto simp: n_def)
    let ?r = "ring_push r chunk" and ?a = "a\<lparr>acc_ring := Some (ring_push r chunk)\<rparr>"
    have push: "ring_serialize r chunk = Some (Ok, ?r)" "wf_ring ?r" "get_capacity ?r = get_capacity r"
        "ring_list ?r = ring_list r @ chunk"
      using fit a(3) by (simp_all add: ring_serialize_eq)
    obtain cs r1 s1 where p: "process_ring alloc ctx ?a s = Some (cs, a\<lparr>acc_ring := Some r1\<rparr>, s1)"
        "ready detect (a\<lparr>acc_ring := Some r1\<rparr>) r1" "get_capacity r1 = get_capacity r" "calls_ok ctx cs"
        "scan det (get_capacity r) (ring_list r @ chunk) = (frames_out cs, ring_list r1)"
      using process_ring_eq [of ?a ?r alloc ctx s] a(2) push Suc.prems(2) by auto
    have le: "remaining - n \<le> k" "off + n + (remaining - n) = length data" using Suc.prems(3,4) n by simp_all
    have al: "alloc_ok alloc (get_capacity r1)" using Suc.prems(2) p(3) by simp
    note ih = Suc.IH [OF p(2) al le(2) le(1), of s1, unfolded p(3)]
    obtain ds r2 s2 where q: "process_buffer_loop alloc ctx k data (off + n) (remaining - n) (a\<lparr>acc_ring := Some r1\<rparr>) s1 =
          Some (ds, 0, a\<lparr>acc_ring := Some r2\<rparr>, s2)"
        "ready detect (a\<lparr>acc_ring := Some r2\<rparr>) r2" "get_capacity r2 = get_capacity r" "calls_ok ctx ds"
        "remaining - n > 0 \<longrightarrow> scan det (get_capacity r) (ring_list r1 @ drop (off + n) data) = (frames_out ds, ring_list r2)"
        "remaining - n = 0 \<longrightarrow> r2 = r1 \<and> ds = []"
      using ih by auto
    have split: "ring_list r @ drop off data = (ring_list r @ chunk) @ drop (off + n) data"
      by (simp add: chunk_def add.commute flip: drop_drop)
    have "scan det (get_capacity r) (ring_list r @ drop off data) = (frames_out (cs @ ds), ring_list r2)"
    proof (cases "remaining - n = 0")
      case True
      then have "drop (off + n) data = []" using n Suc.prems(3) by simp
      with True p(5) q(6) split show ?thesis by simp
    next
      case False
      with p(5) q(5) scan_append [of "get_capacity r" "ring_list r @ chunk" "drop (off + n) data"]
      show ?thesis unfolding split by simp
    qed
    moreover have "process_buffer_loop alloc ctx (Suc k) data off remaining a s = Some (cs @ ds, 0, a\<lparr>acc_ring := Some r2\<rparr>, s2)"
      using a False n n_def sl push(1) p(1) q(1) by (simp add: get_free_size_eq Let_def)
    ultimately show ?thesis using False p(4) q(2,3,4) by auto
  qed
qed

lemma acc_data_in_eq:
  assumes "ready detect a r" and "alloc_ok alloc (get_capacity r)" and "wf_buffer b"
    and scanned: "scan det (get_capacity r) (ring_list r) = ([], ring_list r)"
  shows "\<exists>cs r' s'. acc_data_in alloc a s b ctx = Some (cs @ [Acc_DataReturnOut b ctx], a\<lparr>acc_ring := Some r'\<rparr>, s') \<and>
    ready detect (a\<lparr>acc_ring := Some r'\<rparr>) r' \<and> get_capacity r' = get_capacity r \<and> calls_ok ctx cs \<and>
    scan det (get_capacity r) (ring_list r @ input_bytes b) = (frames_out cs, ring_list r')"
proof (cases "is_valid b")
  case True
  then have ne: "length (window b) > 0" using assms(3) by (simp add: is_valid_def)
  obtain cs r' s' where p: "process_buffer_loop alloc ctx (length (window b)) (window b) 0 (length (window b)) a s =
        Some (cs, 0, a\<lparr>acc_ring := Some r'\<rparr>, s')"
      "ready detect (a\<lparr>acc_ring := Some r'\<rparr>) r'" "get_capacity r' = get_capacity r" "calls_ok ctx cs"
      "scan det (get_capacity r) (ring_list r @ window b) = (frames_out cs, ring_list r')"
    using process_buffer_loop_eq [OF assms(1,2), of 0 "length (window b)" "window b" "length (window b)" ctx s] ne by auto
  have "wf_ring r'" using p(2) by (simp add: ready_def)
  then have "process_buffer alloc ctx (window b) a s = Some (cs, a\<lparr>acc_ring := Some r'\<rparr>, s')"
    using p(1) by (simp add: process_buffer_def get_free_size_eq)
  with p True assms(3) show ?thesis by (auto simp: acc_data_in_def input_bytes_def)
next
  case False
  have "a\<lparr>acc_ring := Some r\<rparr> = a" using assms(1) by (simp add: ready_def)
  with False assms show ?thesis
    by (intro exI [of _ "[]"] exI [of _ r] exI [of _ s]) (simp add: acc_data_in_def input_bytes_def)
qed

lemma scan_rest_fixed: "scan det cap xs = (fs, rest) \<Longrightarrow> scan det cap rest = ([], rest)"
  using scan_append [of cap xs "[]"] by (cases "scan det cap rest") simp

lemma acc_feed_eq:
  assumes "ready detect a r" and "alloc_ok alloc (get_capacity r)" and "\<forall>(b, ctx) \<in> set ins. wf_buffer b"
    and "scan det (get_capacity r) (ring_list r) = ([], ring_list r)"
  shows "\<exists>cs r' s'. acc_feed alloc a s ins = Some (cs, a\<lparr>acc_ring := Some r'\<rparr>, s') \<and> out_ok cs \<and> acc_returned cs = ins \<and>
    scan det (get_capacity r) (ring_list r @ concat (map (\<lambda>i. input_bytes (fst i)) ins)) = (frames_out cs, ring_list r')"
  using assms
proof (induction ins arbitrary: a r s)
  case Nil
  then have "a\<lparr>acc_ring := Some r\<rparr> = a" by (simp add: ready_def)
  with Nil show ?case by (intro exI [of _ "[]"] exI [of _ r]) (simp add: out_ok_def)
next
  case (Cons i ins)
  obtain b ctx where i: "i = (b, ctx)" by fastforce
  let ?cap = "get_capacity r" and ?rest = "concat (map (\<lambda>i. input_bytes (fst i)) ins)"
  have "wf_buffer b" using Cons.prems(3) i by simp
  then obtain cs r1 s1 where p: "acc_data_in alloc a s b ctx = Some (cs @ [Acc_DataReturnOut b ctx], a\<lparr>acc_ring := Some r1\<rparr>, s1)"
      "ready detect (a\<lparr>acc_ring := Some r1\<rparr>) r1" "get_capacity r1 = ?cap" "calls_ok ctx cs"
      "scan det ?cap (ring_list r @ input_bytes b) = (frames_out cs, ring_list r1)"
    using acc_data_in_eq [OF Cons.prems(1,2) _ Cons.prems(4), of b s ctx] by blast
  have al: "alloc_ok alloc (get_capacity r1)" and wf: "\<forall>(b, ctx) \<in> set ins. wf_buffer b"
    using Cons.prems(2,3) p(3) by auto
  have "scan det (get_capacity r1) (ring_list r1) = ([], ring_list r1)"
    using scan_rest_fixed [OF p(5)] p(3) by simp
  from Cons.IH [OF p(2) al wf this, of s1] obtain ds r2 s2 where
    q: "acc_feed alloc (a\<lparr>acc_ring := Some r1\<rparr>) s1 ins = Some (ds, a\<lparr>acc_ring := Some r2\<rparr>, s2)"
      "out_ok ds" "acc_returned ds = ins" "scan det ?cap (ring_list r1 @ ?rest) = (frames_out ds, ring_list r2)"
    using p(3) by auto
  have "scan det ?cap (ring_list r @ input_bytes b @ ?rest) = (frames_out cs @ frames_out ds, ring_list r2)"
    using scan_append [of ?cap "ring_list r @ input_bytes b" ?rest] p(5) q(4) by simp
  moreover have "out_ok (cs @ Acc_DataReturnOut b ctx # ds)"
    using p(4) q(2) by (auto simp: calls_ok_def out_ok_def)
  ultimately show ?case
    using p(1,4) q(1,3) i by (auto simp: acc_returned_calls)
qed

lemma configured_feed:
  assumes "0 < cap" and "alloc_ok alloc cap" and "\<forall>(b, ctx) \<in> set ins. wf_buffer b"
  shows "\<exists>a cs r' s'. acc_configure detect cap = Some a \<and>
    acc_feed alloc a s ins = Some (cs, a\<lparr>acc_ring := Some r'\<rparr>, s') \<and> out_ok cs \<and> acc_returned cs = ins \<and>
    scan det cap (concat (map (\<lambda>i. input_bytes (fst i)) ins)) = (frames_out cs, ring_list r')"
proof -
  obtain r where r: "circular_buffer_new cap = Some r" "wf_ring r" "ring_list r = []" "get_capacity r = cap"
    using ring_new_simps [OF assms(1)] by blast
  define a where "a = \<lparr>acc_ring = Some r, acc_detector = Some detect\<rparr>"
  have "ready detect a r" using r assms(1) by (simp add: a_def ready_def)
  then have "\<exists>cs r' s'. acc_feed alloc a s ins = Some (cs, a\<lparr>acc_ring := Some r'\<rparr>, s') \<and> out_ok cs \<and> acc_returned cs = ins \<and>
      scan det (get_capacity r) (ring_list r @ concat (map (\<lambda>i. input_bytes (fst i)) ins)) = (frames_out cs, ring_list r')"
    using assms r by (intro acc_feed_eq) (simp_all add: scan_Nil)
  moreover have "acc_configure detect cap = Some a" using r by (simp add: acc_configure_def a_def)
  ultimately show ?thesis using r by auto
qed

end

section \<open>Streams of frames\<close>

text \<open>Bytes in front of a frame in which the start word begins nowhere.\<close>

definition clean :: "u8 list \<Rightarrow> u8 list \<Rightarrow> bool" where
  "clean junk rest \<longleftrightarrow> (\<forall>i < length junk. take 4 (drop i (junk @ rest)) \<noteq> to_be_bytes START_WORD)"

lemma fprime_det_frame:
  assumes "length p < 2 ^ 32" and "12 + length p \<le> cap"
  shows "fprime_det cap (frame_of p @ ys) = FrameDetected (12 + length p)"
proof -
  have chk: "frame_checks (frame_of p)" using assms(1) by (rule frame_of_checks)
  have "take 4 (frame_of p) = to_be_bytes START_WORD" by (simp add: frame_of_def frame_head_def)
  moreover have "take 4 (drop 4 (frame_of p)) = to_be_bytes (of_nat (length p) :: u32)"
    by (simp add: frame_of_def frame_head_def)
  moreover have "unat (of_nat (length p) :: u32) = length p" using assms(1) by (simp add: unat_of_nat)
  ultimately have "fprime_det cap (frame_of p) = FrameDetected (12 + length p)"
    using assms chk by (simp add: fprime_det_def)
  then show ?thesis by (rule fprime_detector.stable_frame)
qed

lemma scan_clean:
  assumes "clean junk rest" and "12 \<le> length rest"
  shows "scan fprime_det cap (junk @ rest) = scan fprime_det cap rest"
  using assms
proof (induction junk)
  case (Cons x junk)
  have "take 4 ((x # junk) @ rest) \<noteq> to_be_bytes START_WORD"
    using Cons.prems(1) by (auto simp: clean_def dest: spec [of _ 0])
  then have "from_be_bytes (take 4 ((x # junk) @ rest)) \<noteq> START_WORD"
    using be_take4 [of "(x # junk) @ rest" START_WORD] Cons.prems(2) by simp
  then have "fprime_det cap ((x # junk) @ rest) = NoFrameDetected"
    using Cons.prems(2) by (simp add: fprime_det_def)
  then have "scan fprime_det cap ((x # junk) @ rest) = scan fprime_det cap (junk @ rest)"
    using fprime_detector.scan_skip [of "(x # junk) @ rest" cap] by (simp add: skips_def)
  moreover have "clean junk rest"
    using Cons.prems(1) unfolding clean_def by (metis append_Cons drop_Suc_Cons length_Cons Suc_less_eq)
  ultimately show ?case using Cons.IH Cons.prems(2) by simp
qed simp


lemma scan_frames:
  assumes "\<forall>(junk, p) \<in> set jps. length p < 2 ^ 32 \<and> 12 + length p \<le> cap \<and> clean junk (frame_of p)"
  shows "scan fprime_det cap (concat (map (\<lambda>(junk, p). junk @ frame_of p) jps)) = (map (frame_of \<circ> snd) jps, [])"
  using assms
proof (induction jps)
  case Nil
  show ?case by (simp add: fprime_detector.scan_Nil)
next
  case (Cons jp jps)
  obtain junk p where jp: "jp = (junk, p)" by fastforce
  let ?rest = "concat (map (\<lambda>(junk, p). junk @ frame_of p) jps)"
  have ok: "length p < 2 ^ 32" "12 + length p \<le> cap" "clean junk (frame_of p)" using Cons.prems jp by auto
  have "take 4 (drop i (junk @ frame_of p @ ?rest)) = take 4 (drop i (junk @ frame_of p))" if "i < length junk" for i
    using that by simp
  then have "clean junk (frame_of p @ ?rest)" using ok(3) by (simp add: clean_def)
  then have "scan fprime_det cap (junk @ frame_of p @ ?rest) = scan fprime_det cap (frame_of p @ ?rest)"
    by (rule scan_clean) simp
  also have "\<dots> = (frame_of p # fst (scan fprime_det cap ?rest), snd (scan fprime_det cap ?rest))"
    using fprime_detector.scan_frame [OF fprime_det_frame [OF ok(1,2)] ok(2), of ?rest]
    by simp
  finally show ?case using Cons jp by simp
qed


text \<open>The frames the accumulator sends, passed on to the deframer.\<close>

fun pass_frames :: "acc_call list \<Rightarrow> deframer_call list option" where
  "pass_frames [] = Some []"
| "pass_frames (Acc_DataOut b ctx # cs) =
     do { ds \<leftarrow> deframer_data_in b ctx; es \<leftarrow> pass_frames cs; Some (ds @ es) }"
| "pass_frames (c # cs) = pass_frames cs"

lemma port_calls_append [simp]:
  "deframed (cs @ ds) = deframed cs @ deframed ds" "returned (cs @ ds) = returned cs @ returned ds"
  by (induction cs rule: deframed.induct) simp_all

lemma pass_frames_deliver:
  assumes "out_ok cs" and "frames_out cs = map frame_of ps" and "\<forall>p \<in> set ps. length p < 2 ^ 32"
  shows "\<exists>ds. pass_frames cs = Some ds \<and> map fst (deframed ds) = ps \<and> returned ds = []"
  using assms
proof (induction cs arbitrary: ps rule: pass_frames.induct)
  case (2 b ctx cs)
  then obtain p ps' where ps: "ps = p # ps'" "window b = frame_of p" "frames_out cs = map frame_of ps'"
    by (cases ps) auto
  have wf: "wf_buffer b" "out_ok cs" using "2.prems"(1) by (auto simp: out_ok_def)
  have "frame_checks (window b)" using ps "2.prems"(3) by (simp add: frame_of_checks)
  then obtain ds where ds: "deframer_data_in b ctx = Some ds" "map fst (deframed ds) = [p]" "returned ds = []"
    using deframer_outcome [OF wf(1), of ctx] payload_of_frame [OF wf(1) ps(2)] by auto
  obtain es where "pass_frames cs = Some es" "map fst (deframed es) = ps'" "returned es = []"
    using "2.IH" [OF ds(1) wf(2) ps(3)] "2.prems"(3) ps(1) by auto
  then show ?case using ps(1) ds by simp
qed (auto simp: out_ok_def)

text \<open>
  C22.  The accumulator is independent of how the byte stream is cut into buffers: whatever the sizes of
  the incoming buffers and of the ring, with either detector and an allocator that delivers every time, it sends
  downstream exactly the frames of the scan of the concatenated input, keeps exactly the unfinished
  rest in the ring, hands every incoming buffer back in order, and never panics.
\<close>

theorem accumulator_chunking:
  assumes "detect = fprime_detect \<and> det = fprime_det \<or> detect = tc_detect token \<and> det = tc_det token"
    and "0 < cap" and "alloc_ok alloc cap" and "\<forall>(b, ctx) \<in> set ins. wf_buffer b"
  shows "\<exists>a cs r' s'. acc_configure detect cap = Some a \<and>
    acc_feed alloc a s ins = Some (cs, a\<lparr>acc_ring := Some r'\<rparr>, s') \<and> acc_returned cs = ins \<and>
    scan det cap (concat (map (\<lambda>i. input_bytes (fst i)) ins)) = (frames_out cs, ring_list r')"
  using assms(1)
proof
  assume "detect = fprime_detect \<and> det = fprime_det"
  then show ?thesis using fprime_detector.configured_feed [OF assms(2-4), of s] by auto
next
  assume "detect = tc_detect token \<and> det = tc_det token"
  then show ?thesis using tc_detector.configured_feed [OF assms(2-4), of token s] by auto
qed

theorem accumulator_chunking_witness:
  "\<exists>a cs r' s'. acc_configure fprime_detect 16 = Some a \<and>
    acc_feed (\<lambda>(k :: nat) n. (buffer_allocate n, Suc k)) a 0
      [(buffer_allocate 3, frame_context_default), (buffer_empty, frame_context_default)] =
        Some (cs, a\<lparr>acc_ring := Some r'\<rparr>, s') \<and>
    acc_returned cs = [(buffer_allocate 3, frame_context_default), (buffer_empty, frame_context_default)] \<and>
    scan fprime_det 16 (concat (map (\<lambda>i. input_bytes (fst i))
      [(buffer_allocate 3, frame_context_default), (buffer_empty, frame_context_default)])) = (frames_out cs, ring_list r')"
  by (rule accumulator_chunking)
    (simp_all add: alloc_ok_def is_valid_def buffer_allocate_def from_storage_def wf_buffer_def buffer_empty_def)

text \<open>
  C23.  The uplink path is lossless and resynchronises: when a byte stream consists of frames that fit the
  ring (payloads below \<open>2 ^ 32\<close> bytes), with arbitrary other bytes in front of each frame in which the start word
  begins nowhere, and the allocator always delivers, then however the stream is cut into buffers, the accumulator
  and the deframer deliver exactly the payloads, in order, and every incoming buffer is handed back.
\<close>

theorem uplink_lossless:
  assumes "\<forall>(junk, p) \<in> set jps. length p < 2 ^ 32 \<and> 12 + length p \<le> cap \<and> clean junk (frame_of p)"
    and "concat (map (\<lambda>i. input_bytes (fst i)) ins) = concat (map (\<lambda>(junk, p). junk @ frame_of p) jps)"
    and "0 < cap" and "alloc_ok alloc cap" and "\<forall>(b, ctx) \<in> set ins. wf_buffer b"
  shows "\<exists>a cs a' s' ds. acc_configure fprime_detect cap = Some a \<and> acc_feed alloc a s ins = Some (cs, a', s') \<and>
    pass_frames cs = Some ds \<and> map fst (deframed ds) = map snd jps \<and> returned ds = [] \<and> acc_returned cs = ins"
proof -
  obtain a cs r' s' where acc: "acc_configure fprime_detect cap = Some a"
      "acc_feed alloc a s ins = Some (cs, a\<lparr>acc_ring := Some r'\<rparr>, s')" "out_ok cs" "acc_returned cs = ins"
      "scan fprime_det cap (concat (map (\<lambda>i. input_bytes (fst i)) ins)) = (frames_out cs, ring_list r')"
    using fprime_detector.configured_feed [OF assms(3-5), of s] by blast
  have frames: "frames_out cs = map frame_of (map snd jps)"
    using acc(5) scan_frames [OF assms(1)] assms(2) by simp
  have small: "\<forall>p \<in> set (map snd jps). length p < 2 ^ 32" using assms(1) by auto
  show ?thesis
    using pass_frames_deliver [OF acc(3) frames small] acc(1,2,4) by auto
qed

theorem uplink_lossless_witness:
  "\<exists>a cs a' s' ds. acc_configure fprime_detect 20 = Some a \<and>
    acc_feed (\<lambda>(k :: nat) n. (buffer_allocate n, Suc k)) a 0
      [(from_storage (0xAB # take 5 (frame_of [1, 2])) 0, frame_context_default),
       (from_storage (drop 5 (frame_of [1, 2]) @ frame_of [7]) 0, frame_context_default)] = Some (cs, a', s') \<and>
    pass_frames cs = Some ds \<and> map fst (deframed ds) = map snd [([0xAB :: u8], [1, 2]), ([], [7])] \<and> returned ds = [] \<and>
    acc_returned cs = [(from_storage (0xAB # take 5 (frame_of [1, 2])) 0, frame_context_default),
       (from_storage (drop 5 (frame_of [1, 2]) @ frame_of [7]) 0, frame_context_default)]"
proof (rule uplink_lossless)
  have "to_be_bytes START_WORD = [0xde, 0xad, 0xbe, 0xef]"
    by code_simp
  then show "\<forall>(junk, p) \<in> set [([0xAB :: u8], [1, 2]), ([], [7])].
      length p < 2 ^ 32 \<and> 12 + length p \<le> 20 \<and> clean junk (frame_of p)"
    by (simp add: clean_def)
qed (simp_all add: alloc_ok_def is_valid_def buffer_allocate_def from_storage_def wf_buffer_def input_bytes_def window_def)

end
