(* ===== verification/Ccsds_Transfer.thy ===== *)
theory Ccsds_Transfer
  imports Ccsds_SpacePacket Svc_Accumulator
begin

text \<open>
  The transfer-frame components: the TC deframer (\<open>fprime-svc/src/ccsds/tc_deframer.rs\<close>), the TM framer
  (\<open>tm_framer.rs\<close>) with its one frame buffer, and the idle packet that fills a TM frame
  (\<open>idle_packet.rs\<close>).
\<close>

section \<open>The TC deframer\<close>

record tc_deframer =
  cfg_vc_id :: u16
  cfg_spacecraft_id :: u16
  accept_all_vcid :: bool

definition MIN_TC_FRAME_SIZE :: nat where "MIN_TC_FRAME_SIZE = TC_HEADER_SIZE + TC_TRAILER_SIZE"

definition tc_deframer_new :: tc_deframer where
  "tc_deframer_new = \<lparr>cfg_vc_id = 0, cfg_spacecraft_id = SPACECRAFT_ID, accept_all_vcid = True\<rparr>"

definition tc_configure :: "tc_deframer \<Rightarrow> u16 \<Rightarrow> u16 \<Rightarrow> bool \<Rightarrow> tc_deframer" where
  "tc_configure st vcid scid all = st\<lparr>cfg_vc_id := vcid, cfg_spacecraft_id := scid, accept_all_vcid := all\<rparr>"

datatype tc_call =
    Tc_InvalidPacket
  | Tc_InvalidSpacecraftId u16 u16
  | Tc_InvalidFrameLength u16 u64
  | Tc_InvalidVcId u16 u16
  | Tc_InvalidCrc u16 u16
  | Tc_ErrorNotify FrameError
  | Tc_DataOut fw_buffer frame_context
  | Tc_DataReturnOut fw_buffer frame_context

definition tc_error_notify :: "bool \<Rightarrow> FrameError \<Rightarrow> tc_call list" where
  "tc_error_notify connected e = (if connected then [Tc_ErrorNotify e] else [])"

definition tc_data_in :: "bool \<Rightarrow> tc_deframer \<Rightarrow> fw_buffer \<Rightarrow> frame_context \<Rightarrow> tc_call list option" where
  "tc_data_in connected st data context =
     (if bsize data \<le> MIN_TC_FRAME_SIZE then Some [Tc_InvalidPacket, Tc_DataReturnOut data context]
      else do {
        deser \<leftarrow> get_deserializer data;
        (status, header, deser) \<leftarrow>
          struct_deserialize_from tc_header_members tc_header_build tc_header_default tc_header_default deser Big;
        fw_assert (status = Ok);
        let total_frame_length = tc_total_frame_length header;
        let vcid = (ucast (tc_vc_id header) :: u16);
        let scid = tc_spacecraft_id header;
        if scid \<noteq> cfg_spacecraft_id st
        then Some ([Tc_InvalidSpacecraftId scid (cfg_spacecraft_id st)] @ tc_error_notify connected TcInvalidScid @
                   [Tc_DataReturnOut data context])
        else if bsize data < unat total_frame_length \<or> unat total_frame_length < MIN_TC_FRAME_SIZE
        then Some ([Tc_InvalidFrameLength total_frame_length (of_nat (bsize data))] @
                   tc_error_notify connected TcInvalidLength @ [Tc_DataReturnOut data context])
        else if \<not> accept_all_vcid st \<and> vcid \<noteq> cfg_vc_id st
        then Some ([Tc_InvalidVcId vcid (cfg_vc_id st)] @ tc_error_notify connected TcInvalidVcid @
                   [Tc_DataReturnOut data context])
        else do {
          crc_len \<leftarrow> usub (unat total_frame_length) TC_TRAILER_SIZE;
          w \<leftarrow> buffer_data data;
          covered \<leftarrow> slice w 0 crc_len;
          let computed_crc = crc16_compute covered;
          deser \<leftarrow> get_deserializer data;
          (status, deser) \<leftarrow> move_deser_to_offset deser crc_len;
          fw_assert (status = Ok);
          (status, trailer, deser) \<leftarrow>
            struct_deserialize_from trailer_members trailer_build \<lparr>fecf = 0\<rparr> \<lparr>fecf = 0\<rparr> deser Big;
          fw_assert (status = Ok);
          let transmitted_crc = fecf trailer;
          if transmitted_crc \<noteq> computed_crc
          then Some ([Tc_InvalidCrc computed_crc transmitted_crc] @ tc_error_notify connected TcInvalidCrc @
                     [Tc_DataReturnOut data context])
          else do {
            data \<leftarrow> advance data (int TC_HEADER_SIZE);
            n \<leftarrow> usub (unat total_frame_length) TC_HEADER_SIZE;
            n \<leftarrow> usub n TC_TRAILER_SIZE;
            data \<leftarrow> set_size data n;
            Some [Tc_DataOut data (context\<lparr>vc_id := ucast vcid\<rparr>)] } } })"

definition tc_data_return_in :: "fw_buffer \<Rightarrow> frame_context \<Rightarrow> tc_call list" where
  "tc_data_return_in b context = [Tc_DataReturnOut b context]"

section \<open>The idle packet\<close>

definition IDLE_DATA_PATTERN :: u8 where "IDLE_DATA_PATTERN = 0x44"
definition IDLE_MIN_SIZE :: nat where "IDLE_MIN_SIZE = SP_HEADER_SIZE + 1"

fun idle_fill :: "SerializeStatus \<Rightarrow> ser_buf \<Rightarrow> nat \<Rightarrow> (SerializeStatus \<times> ser_buf) option" where
  "idle_fill status ser 0 = Some (status, ser)"
| "idle_fill status ser (Suc k) =
     (if status = Ok then do { (status, ser) \<leftarrow> serialize_u8 ser IDLE_DATA_PATTERN Big; idle_fill status ser k }
      else Some (status, ser))"

definition idle_serialize :: "ser_buf \<Rightarrow> nat \<Rightarrow> (SerializeStatus \<times> ser_buf) option" where
  "idle_serialize ser n =
     do { fw_assert (n \<ge> IDLE_MIN_SIZE);
          k \<leftarrow> usub n SP_HEADER_SIZE;
          length_token \<leftarrow> usub k 1;
          fw_assert (length_token \<le> 65535);
          let header = \<lparr>packet_identification = ComPacketType_repr SppIdlePacket,
                        packet_sequence_control = push_bit 14 0x3, packet_data_length = of_nat length_token\<rparr>;
          (status, ser) \<leftarrow> struct_serialize_to sp_header_members header ser Big;
          idle_fill status ser (n - SP_HEADER_SIZE) }"

section \<open>The TM framer\<close>

definition TRAILER_OFFSET :: nat where "TRAILER_OFFSET = TM_FRAME_FIXED_SIZE - TM_TRAILER_SIZE"
definition TM_PAYLOAD_CAPACITY :: nat where
  "TM_PAYLOAD_CAPACITY = TM_FRAME_FIXED_SIZE - TM_HEADER_SIZE - TM_TRAILER_SIZE"
definition SEGMENT_LENGTH_ID :: u8 where "SEGMENT_LENGTH_ID = 0x3"
definition FHP_MASK :: u16 where "FHP_MASK = 0x07FF"

record tm_framer =
  frame_storage :: "u8 list option"
  tm_master_count :: u8
  tm_virtual_count :: u8

definition tm_framer_new :: tm_framer where
  "tm_framer_new = \<lparr>frame_storage = Some (replicate TM_FRAME_FIXED_SIZE 0), tm_master_count = 0, tm_virtual_count = 0\<rparr>"

definition owns_frame_buffer :: "tm_framer \<Rightarrow> bool" where
  "owns_frame_buffer st \<longleftrightarrow> frame_storage st \<noteq> None"

definition fill_with_idle_packet :: "ser_buf \<Rightarrow> ser_buf option" where
  "fill_with_idle_packet ser =
     do { let start_index = ser_loc ser;
          fw_assert (start_index \<le> TRAILER_OFFSET);
          idle_packet_size \<leftarrow> usub TRAILER_OFFSET start_index;
          fw_assert (idle_packet_size \<ge> IDLE_MIN_SIZE);
          fw_assert (idle_packet_size \<le> TM_FRAME_FIXED_SIZE);
          (status, ser) \<leftarrow> idle_serialize ser idle_packet_size;
          fw_assert (status = Ok);
          Some ser }"

definition tm_data_in :: "tm_framer \<Rightarrow> fw_buffer \<Rightarrow> frame_context \<Rightarrow> (framer_call list \<times> tm_framer) option" where
  "tm_data_in st data context =
     do { fw_assert (bsize data \<le> TM_PAYLOAD_CAPACITY);
          residual \<leftarrow> usub TM_PAYLOAD_CAPACITY (bsize data);
          fw_assert (residual = 0 \<or> residual \<ge> IDLE_MIN_SIZE);
          fw_assert (first_header_pointer context \<le> FHP_MASK);
          storage \<leftarrow> frame_storage st;
          let header = \<lparr>tm_global_vc_id = build_global_vc_id SPACECRAFT_ID (vc_id context) False,
                master_frame_count = tm_master_count st, virtual_frame_count = tm_virtual_count st,
                data_field_status =
                  build_data_field_status False False False SEGMENT_LENGTH_ID (first_header_pointer context)\<rparr>;
          let st = st\<lparr>frame_storage := None, tm_master_count := tm_master_count st + 1,
                      tm_virtual_count := tm_virtual_count st + 1\<rparr>;
          let frame_buffer = from_storage storage NO_CONTEXT;
          ser \<leftarrow> get_serializer frame_buffer;
          (status, ser) \<leftarrow> struct_serialize_to tm_header_members header ser Big;
          fw_assert (status = Ok);
          payload \<leftarrow> buffer_data data;
          (status, ser) \<leftarrow> serialize_bytes ser payload OmitLength Big;
          fw_assert (status = Ok);
          ser \<leftarrow> (if residual > 0 then fill_with_idle_packet ser else Some ser);
          frame_buffer \<leftarrow> put_data frame_buffer (bytes ser);
          w \<leftarrow> buffer_data frame_buffer;
          covered \<leftarrow> slice w 0 TRAILER_OFFSET;
          let crc = crc16_compute covered;
          ser \<leftarrow> get_serializer frame_buffer;
          (status, ser) \<leftarrow> move_ser_to_offset ser TRAILER_OFFSET;
          fw_assert (status = Ok);
          (status, ser) \<leftarrow> struct_serialize_to trailer_members \<lparr>fecf = crc\<rparr> ser Big;
          fw_assert (status = Ok);
          frame_buffer \<leftarrow> put_data frame_buffer (bytes ser);
          Some ([Fr_DataOut frame_buffer context, Fr_DataReturnOut data context], st) }"

definition tm_data_return_in :: "tm_framer \<Rightarrow> fw_buffer \<Rightarrow> tm_framer option" where
  "tm_data_return_in st b =
     do { fw_assert (frame_storage st = None);
          fw_assert (buffer_capacity b = TM_FRAME_FIXED_SIZE);
          Some (st\<lparr>frame_storage := Some (storage b)\<rparr>) }"

definition tm_com_status_in :: "bool \<Rightarrow> Success \<Rightarrow> framer_call list" where
  "tm_com_status_in connected condition = (if connected then [Fr_ComStatusOut condition] else [])"

section \<open>What the TC deframer does\<close>

lemmas tc_sizes = TC_HEADER_SIZE_def TC_TRAILER_SIZE_def MIN_TC_FRAME_SIZE_def

context fpp_struct
begin

lemma read_at:
  assumes "wf_buffer b" and "is_valid b" and "n + struct_serialized_size members d \<le> bsize b"
  shows "\<exists>v u v' s. get_deserializer b = Some v \<and> move_deser_to_offset v n = Some (Ok, u) \<and>
    struct_deserialize_from members build d self u e = Some (Ok, s, v') \<and>
    struct_enc members e s = take (struct_serialized_size members d) (drop n (window b))"
proof -
  obtain v where v: "get_deserializer b = Some v" "wf_buf v" "content v = window b"
    using get_deserializer_eq [OF assms(1,2)] by blast
  have "0 < bsize b" using assms(2) by (simp add: is_valid_def)
  then obtain u where u: "move_deser_to_offset v n = Some (Ok, u)" "wf_buf u" "unread u = drop n (window b)"
    using move_deser_eq [OF v(2), of n] v(3) assms by auto
  have "struct_serialized_size members d \<le> length (unread u)" using u(3) assms by simp
  from decode [OF u(2) this] obtain s where
      "struct_deserialize_from members build d self u e = Some (Ok, s, adv u (struct_serialized_size members d))"
      "struct_enc members e s = take (struct_serialized_size members d) (unread u)"
    by blast
  with v(1) u show ?thesis by auto
qed

lemma read_front:
  assumes "wf_buffer b" and "is_valid b" and "struct_serialized_size members d \<le> bsize b"
  shows "\<exists>v v' s. get_deserializer b = Some v \<and> struct_deserialize_from members build d self v e = Some (Ok, s, v') \<and>
    struct_enc members e s = take (struct_serialized_size members d) (window b)"
proof -
  obtain v where v: "get_deserializer b = Some v" "wf_buf v" "unread v = window b"
    using get_deserializer_eq [OF assms(1,2)] by blast
  have "struct_serialized_size members d \<le> length (unread v)" using v(3) assms by simp
  from decode [OF v(2) this] v show ?thesis by metis
qed

end

definition tc_header_of :: "u8 list \<Rightarrow> tc_header" where
  "tc_header_of w = \<lparr>flags_and_sc_id = from_be_bytes (take 2 w), vc_id_and_length = from_be_bytes (take 2 (drop 2 w)),
     frame_sequence_num = from_be_bytes (take 1 (drop 4 w))\<rparr>"

lemma tc_enc_header_of:
  assumes "struct_enc tc_header_members Big h = take 5 w" and "5 \<le> length w"
  shows "h = tc_header_of w"
proof -
  have t: "take 5 w = to_be_bytes (flags_and_sc_id h) @ to_be_bytes (vc_id_and_length h) @ to_be_bytes (frame_sequence_num h)"
    using assms(1) by (simp add: struct_enc_def tc_header_members_def to_bytes_def)
  have "take 2 w = take 2 (take 5 w)" "take 2 (drop 2 w) = take 2 (drop 2 (take 5 w))" "take 1 (drop 4 w) = take 1 (drop 4 (take 5 w))"
    by (simp_all add: drop_take)
  then show ?thesis by (simp add: t tc_header_of_def)
qed

text \<open>The tests a frame passes, with the deframer's configuration.\<close>

definition tc_accepts :: "tc_deframer \<Rightarrow> u8 list \<Rightarrow> bool" where
  "tc_accepts st w \<longleftrightarrow>
     (let h = tc_header_of w; n = unat (tc_total_frame_length h)
      in 7 < length w \<and> tc_spacecraft_id h = cfg_spacecraft_id st \<and> 7 \<le> n \<and> n \<le> length w \<and>
         (accept_all_vcid st \<or> ucast (tc_vc_id h) = cfg_vc_id st) \<and>
         from_be_bytes (take 2 (drop (n - 2) w)) = crc16_compute (take (n - 2) w))"

lemma tc_deframer_eq:
  fixes con :: bool and ctx :: frame_context
  assumes wf: "wf_buffer b"
  defines "w \<equiv> window b"
  defines "h \<equiv> tc_header_of w"
  defines "n \<equiv> unat (tc_total_frame_length h)"
  defines "rx \<equiv> (from_be_bytes (take 2 (drop (n - 2) w)) :: u16)"
  defines "refuse \<equiv> (\<lambda>ev e. Some ([ev] @ tc_error_notify con e @ [Tc_DataReturnOut b ctx]))"
  shows "tc_data_in con st b ctx =
    (if bsize b \<le> 7 then Some [Tc_InvalidPacket, Tc_DataReturnOut b ctx]
     else if tc_spacecraft_id h \<noteq> cfg_spacecraft_id st
       then refuse (Tc_InvalidSpacecraftId (tc_spacecraft_id h) (cfg_spacecraft_id st)) TcInvalidScid
     else if bsize b < n \<or> n < 7
       then refuse (Tc_InvalidFrameLength (tc_total_frame_length h) (of_nat (bsize b))) TcInvalidLength
     else if \<not> accept_all_vcid st \<and> ucast (tc_vc_id h) \<noteq> cfg_vc_id st
       then refuse (Tc_InvalidVcId (ucast (tc_vc_id h)) (cfg_vc_id st)) TcInvalidVcid
     else if rx \<noteq> crc16_compute (take (n - 2) w) then refuse (Tc_InvalidCrc (crc16_compute (take (n - 2) w)) rx) TcInvalidCrc
     else Some [Tc_DataOut (data_field b 5 (n - 7)) (ctx\<lparr>vc_id := tc_vc_id h\<rparr>)])"
proof (cases "bsize b \<le> 7")
  case True
  then show ?thesis by (simp add: tc_data_in_def tc_sizes)
next
  case False
  have len: "length w = bsize b" using wf by (simp add: w_def)
  have valid: "is_valid b" "storage b \<noteq> []" using wf False by (auto simp: is_valid_def wf_buffer_def)
  obtain v v' h' where "get_deserializer b = Some v"
      "struct_deserialize_from tc_header_members tc_header_build tc_header_default tc_header_default v Big = Some (Ok, h', v')"
      "struct_enc tc_header_members Big h' = take 5 w"
    using tc_header.read_front [OF wf valid(1), of tc_header_default tc_header_default Big] False unfolding w_def by auto
  then have hd: "get_deserializer b = Some v"
      "struct_deserialize_from tc_header_members tc_header_build tc_header_default tc_header_default v Big = Some (Ok, h, v')"
    using tc_enc_header_of [of h' w] False len unfolding h_def by auto
  show ?thesis
  proof (cases "bsize b < n \<or> n < 7")
    case True
    then show ?thesis
      using False hd by (auto simp: tc_data_in_def tc_sizes Let_def refuse_def n_def)
  next
    case sz: False
    have cov: "slice w 0 (n - 2) = Some (take (n - 2) w)" using sz len by (auto simp: slice_def)
    have le: "n - 2 + struct_serialized_size trailer_members \<lparr>fecf = 0\<rparr> \<le> bsize b" using sz by simp linarith
    obtain u u' t where "move_deser_to_offset v (n - 2) = Some (Ok, u)"
        "struct_deserialize_from trailer_members trailer_build \<lparr>fecf = 0\<rparr> \<lparr>fecf = 0\<rparr> u Big = Some (Ok, t, u')"
        "struct_enc trailer_members Big t = take 2 (drop (n - 2) w)"
      using fecf_trailer.read_at [OF wf valid(1) le, of "\<lparr>fecf = 0\<rparr>" Big] hd(1)
      unfolding w_def by auto
    moreover from this(3) have "take 2 (drop (n - 2) w) = to_be_bytes (fecf t)"
      by (simp add: struct_enc_def trailer_members_def to_bytes_def)
    then have "fecf t = rx" by (simp add: rx_def)
    ultimately have tr: "move_deser_to_offset v (n - 2) = Some (Ok, u)"
        "struct_deserialize_from trailer_members trailer_build \<lparr>fecf = 0\<rparr> \<lparr>fecf = 0\<rparr> u Big = Some (Ok, t, u')" "fecf t = rx"
      by simp_all
    have le5: "5 + (n - 7) \<le> bsize b" using sz by auto
    obtain b' where b': "advance b 5 = Some b'" "set_size b' (n - 7) = Some (data_field b 5 (n - 7))"
      using data_field_step(1) [OF wf le5 valid(2)] by auto
    have "usub n 2 = Some (n - 2)" "usub n 5 = Some (n - 5)" "usub (n - 5) 2 = Some (n - 7)" using sz by auto
    moreover have "ucast (ucast (tc_vc_id h) :: u16) = tc_vc_id h" by (rule bit_word_eqI) (auto simp: bit_simps)
    ultimately show ?thesis
      using False sz hd tr cov b' wf
      by (simp add: tc_data_in_def tc_sizes Let_def refuse_def n_def [symmetric] w_def [symmetric]) metis
  qed
qed

fun tc_delivered :: "tc_call list \<Rightarrow> (u8 list \<times> frame_context) list" where
  "tc_delivered [] = []"
| "tc_delivered (Tc_DataOut b ctx # cs) = (window b, ctx) # tc_delivered cs"
| "tc_delivered (c # cs) = tc_delivered cs"

fun tc_returned :: "tc_call list \<Rightarrow> (fw_buffer \<times> frame_context) list" where
  "tc_returned [] = []"
| "tc_returned (Tc_DataReturnOut b ctx # cs) = (b, ctx) # tc_returned cs"
| "tc_returned (c # cs) = tc_returned cs"

lemma tc_notify_calls [simp]:
  "tc_delivered (tc_error_notify con e @ cs) = tc_delivered cs" "tc_returned (tc_error_notify con e @ cs) = tc_returned cs"
  by (simp_all add: tc_error_notify_def)

lemma tc_deframer_outcome:
  assumes "wf_buffer b"
  defines "h \<equiv> tc_header_of (window b)"
  shows "\<exists>cs. tc_data_in con st b ctx = Some cs \<and>
    (if tc_accepts st (window b)
     then tc_delivered cs = [(take (unat (tc_total_frame_length h) - 7) (drop 5 (window b)), ctx\<lparr>vc_id := tc_vc_id h\<rparr>)] \<and>
       tc_returned cs = []
     else tc_delivered cs = [] \<and> tc_returned cs = [(b, ctx)])"
proof (cases "tc_accepts st (window b)")
  case True
  define n where "n = unat (tc_total_frame_length h)"
  have acc: "7 < bsize b" "tc_spacecraft_id h = cfg_spacecraft_id st" "7 \<le> n" "n \<le> bsize b"
      "accept_all_vcid st \<or> ucast (tc_vc_id h) = cfg_vc_id st"
      "from_be_bytes (take 2 (drop (n - 2) (window b))) = crc16_compute (take (n - 2) (window b))"
    using True length_window [OF assms(1)] unfolding tc_accepts_def Let_def h_def n_def by auto
  have "storage b \<noteq> []" using assms(1) acc(1) by (auto simp: wf_buffer_def)
  then have "window (data_field b 5 (n - 7)) = take (n - 7) (drop 5 (window b))"
    using data_field_step(3) [OF assms(1)] acc by simp
  then show ?thesis
    using True acc tc_deframer_eq [OF assms(1), of con st ctx, folded h_def, folded n_def] unfolding n_def [symmetric]
    by auto
next
  case False
  then show ?thesis
    using tc_deframer_eq [OF assms(1), of con st ctx] length_window [OF assms(1)]
    unfolding tc_accepts_def Let_def by auto
qed

text \<open>
  C27: The TC deframer never panics, whatever bytes a buffer holds, and is exact: it delivers the data
  field of the frame, with the virtual channel in the context, exactly when the frame is longer than
  header and trailer, is addressed to the configured spacecraft and an accepted virtual channel, has
  a length between 7 and the bytes received, and ends in its CRC-16; every other buffer goes back
  unchanged with its original context.
\<close>

theorem tc_deframer_exact:
  assumes "wf_buffer b"
  defines "h \<equiv> tc_header_of (window b)"
  shows "\<exists>cs. tc_data_in con st b ctx = Some cs \<and>
    (if tc_accepts st (window b)
     then tc_delivered cs = [(take (unat (tc_total_frame_length h) - 7) (drop 5 (window b)), ctx\<lparr>vc_id := tc_vc_id h\<rparr>)] \<and>
       tc_returned cs = []
     else tc_delivered cs = [] \<and> tc_returned cs = [(b, ctx)])"
  using tc_deframer_outcome [OF assms(1)] unfolding h_def .

theorem tc_deframer_exact_witness:
  "\<exists>cs. tc_data_in True tc_deframer_new (from_storage [0x20, 0x45, 0, 8, 0, 7, 8, 1, 2] 0) frame_context_default = Some cs \<and>
    tc_delivered cs = [] \<and> tc_returned cs = [(from_storage [0x20, 0x45, 0, 8, 0, 7, 8, 1, 2] 0, frame_context_default)]"
proof -
  have "tc_spacecraft_id (tc_header_of [0x20, 0x45, 0, 8, 0, 7, 8, 1, 2]) = 0x45" by code_simp
  then have "\<not> tc_accepts tc_deframer_new [0x20, 0x45, 0, 8, 0, 7, 8, 1, 2]"
    by (simp add: tc_accepts_def Let_def tc_deframer_new_def SPACECRAFT_ID_def)
  then show ?thesis
    using tc_deframer_exact [of "from_storage [0x20, 0x45, 0, 8, 0, 7, 8, 1, 2] 0" True tc_deframer_new frame_context_default]
    by simp
qed

section \<open>From the detector to the deframer\<close>

lemma token_scid: "scid < 2 ^ 10 \<Longrightarrow> for_spacecraft scid AND 0x03FF = scid"
proof (rule bit_word_eqI)
  fix k
  assume small: "scid < 2 ^ 10"
  show "bit (for_spacecraft scid AND 0x03FF) k = bit scid k"
    unfolding for_spacecraft_def field_masks by (auto simp: bit_simps single_bits dest: small_bits [OF small])
qed

lemma tc_detected_accepts:
  assumes "tc_det (for_spacecraft scid) cap xs = FrameDetected n" and "scid < 2 ^ 10"
    and "cfg_spacecraft_id st = scid"
  shows "tc_accepts st (take n xs) \<longleftrightarrow>
      n \<noteq> 7 \<and> (accept_all_vcid st \<or> ucast (tc_vc_id (tc_header_of (take n xs))) = cfg_vc_id st)"
    and "unat (tc_total_frame_length (tc_header_of (take n xs))) = n"
    and "7 \<le> n" and "n \<le> length xs"
proof -
  have d: "from_be_bytes (take 2 xs) = for_spacecraft scid" "n = tc_length xs" "n \<le> length xs" "7 \<le> n"
      "from_be_bytes (take 2 (drop (n - 2) xs)) = crc16_compute (take (n - 2) xs)"
    using assms(1) by (auto simp: tc_det_def Let_def split: if_splits)
  have hd: "take 2 (take n xs) = take 2 xs" "take 2 (drop 2 (take n xs)) = take 2 (drop 2 xs)"
      "take 2 (drop (n - 2) (take n xs)) = take 2 (drop (n - 2) xs)" "take (n - 2) (take n xs) = take (n - 2) xs"
    using d(4) by (simp_all add: drop_take min_def)
  have len: "unat (tc_total_frame_length (tc_header_of (take n xs))) = n"
    unfolding tc_total_frame_length_def tc_header_of_def hd by (simp add: d(2) tc_length_def)
  have "tc_spacecraft_id (tc_header_of (take n xs)) = scid"
    unfolding tc_spacecraft_id_def tc_header_of_def hd by (simp add: d(1) token_scid [OF assms(2)])
  then show "tc_accepts st (take n xs) \<longleftrightarrow>
      n \<noteq> 7 \<and> (accept_all_vcid st \<or> ucast (tc_vc_id (tc_header_of (take n xs))) = cfg_vc_id st)"
    unfolding tc_accepts_def Let_def len hd using assms(3) d(3-5) by auto
  show "unat (tc_total_frame_length (tc_header_of (take n xs))) = n" "7 \<le> n" "n \<le> length xs" by (fact len d)+
qed

text \<open>
  C28: The TC detector and the TC deframer agree, but for two cases.  Of a frame the detector finds in the ring for its
  (10-bit) spacecraft, a deframer configured for the same spacecraft, in whatever way for virtual channels, delivers the
  data field when the frame is longer than seven bytes and of an accepted virtual channel.  It hands back the frame of
  another virtual channel when it is restricted to one, and the frame of exactly seven bytes (an empty data field),
  which the detector accepts.
\<close>

theorem tc_detected_delivered:
  assumes "wf_ring r" and "tc_detect (for_spacecraft scid) r = Some (FrameDetected n)" and "scid < 2 ^ 10"
    and "wf_buffer b" and "window b = take n (ring_list r)"
  shows "\<exists>cs. tc_data_in con (tc_configure tc_deframer_new v scid all) b ctx = Some cs \<and>
    (if n \<noteq> 7 \<and> (all \<or> ucast (tc_vc_id (tc_header_of (window b))) = v)
     then map fst (tc_delivered cs) = [take (n - 7) (drop 5 (ring_list r))] \<and> tc_returned cs = []
     else tc_delivered cs = [] \<and> tc_returned cs = [(b, ctx)])"
proof -
  let ?st = "tc_configure tc_deframer_new v scid all"
  have "tc_det (for_spacecraft scid) (get_capacity r) (ring_list r) = FrameDetected n"
    using assms(1,2) by (simp add: tc_detect_eq)
  note det = tc_detected_accepts [OF this assms(3), of ?st]
  have "take (n - 7) (drop 5 (take n (ring_list r))) = take (n - 7) (drop 5 (ring_list r))"
    by (simp add: drop_take min_def)
  then show ?thesis
    using tc_deframer_outcome [OF assms(4), of con ?st ctx] det assms(5) by (auto simp: tc_configure_def)
qed

lemma crc16_compute_bits: "crc16_compute bs = foldl (\<lambda>c b. crc16_bits 8 (c XOR push_bit 8 (ucast b))) 0xFFFF bs"
proof -
  have "crc16_update = (\<lambda>c b. crc16_bits 8 (c XOR push_bit 8 (ucast b)))"
    by (intro ext) (simp add: crc16_update_bits crc16_bits_funpow)
  then show ?thesis
    by (simp add: crc16_compute_def crc16_finalize_def crc16_update_all_def CRC16_XOR_OUT_def CRC16_INIT_def)
qed

theorem tc_detected_delivered_witness:
  "\<exists>cs. tc_data_in True (tc_configure tc_deframer_new 0 0x44 True)
      (from_storage [0x20, 0x44, 0, 6, 0, 0x17, 0x73] 0) frame_context_default = Some cs \<and> tc_delivered cs = []"
proof -
  let ?bs = "[0x20, 0x44, 0, 6, 0, 0x17, 0x73] :: u8 list"
  let ?r = "\<lparr>cb_store = ?bs, head_idx = 0, allocated_size = 7, high_water_mark = 7\<rparr>"
  have r: "wf_ring ?r" "ring_list ?r = ?bs"
    by (simp_all add: wf_ring_def ring_list_def upt_rec)
  have crc: "crc16_compute [0x20, 0x44, 0, 6, 0] = 0x1773"
    unfolding crc16_compute_bits by code_simp
  have hd: "from_be_bytes [0x20, 0x44] = for_spacecraft 0x44" "tc_length ?bs = 7" "from_be_bytes [0x17, 0x73] = (0x1773 :: u16)"
    by code_simp+
  have "tc_detect (for_spacecraft 0x44) ?r = Some (FrameDetected 7)"
    unfolding tc_detect_eq [OF r(1)] r(2) using crc hd by (simp add: tc_det_def)
  then show ?thesis
    using tc_detected_delivered [OF r(1), of "0x44" 7 "from_storage ?bs 0" True 0 True frame_context_default] r(2)
    by (auto simp: word_less_nat_alt)
qed

section \<open>What the TM framer does\<close>

lemmas tm_sizes = TM_FRAME_FIXED_SIZE_def TM_HEADER_SIZE_def TM_TRAILER_SIZE_def TRAILER_OFFSET_def TM_PAYLOAD_CAPACITY_def
  IDLE_MIN_SIZE_def SP_HEADER_SIZE_def

definition idle_header :: "nat \<Rightarrow> space_packet_header" where
  "idle_header n = \<lparr>packet_identification = 0x7FF, packet_sequence_control = 0xC000, packet_data_length = of_nat (n - 7)\<rparr>"

definition idle_packet :: "nat \<Rightarrow> u8 list" where
  "idle_packet n = (if n = 0 then [] else space_packet (idle_header n) (replicate (n - 6) IDLE_DATA_PATTERN))"

lemma length_idle_packet: "n = 0 \<or> 6 \<le> n \<Longrightarrow> length (idle_packet n) = n"
  by (auto simp: idle_packet_def space_packet_def)

lemma to_be_bytes_u8: "to_be_bytes (b :: u8) = [b]"
  by (simp add: to_be_bytes_def to_le_bytes_def)

lemma idle_fill_eq:
  "wf_buf ser \<Longrightarrow> length bs + k \<le> room ser \<Longrightarrow>
    idle_fill Ok (put ser bs) k = Some (Ok, put ser (bs @ replicate k IDLE_DATA_PATTERN))"
proof (induction k arbitrary: bs)
  case (Suc k)
  have "serialize_u8 (put ser bs) IDLE_DATA_PATTERN Big = Some (Ok, put ser (bs @ [IDLE_DATA_PATTERN]))"
    using Suc.prems by (simp add: serialize_prim_eq to_bytes_def to_be_bytes_u8)
  then show ?case
    using Suc.prems Suc.IH [of "bs @ [IDLE_DATA_PATTERN]"] by simp
qed simp

lemma idle_serialize_eq:
  assumes "wf_buf ser" and "7 \<le> n" and "n \<le> 65542" and "length bs + n \<le> room ser"
  shows "idle_serialize (put ser bs) n = Some (Ok, put ser (bs @ idle_packet n))"
proof -
  have h: "\<lparr>packet_identification = ComPacketType_repr SppIdlePacket, packet_sequence_control = push_bit 14 3,
      packet_data_length = of_nat (n - 7)\<rparr> = idle_header n"
    by (simp add: idle_header_def push_bit_eq_mult)
  have "struct_serialize_to sp_header_members (idle_header n) (put ser bs) Big =
      Some (Ok, put ser (bs @ struct_enc sp_header_members Big (idle_header n)))"
    using assms sp_header.serialize [of "put ser bs" "idle_header n" Big] by simp
  moreover have "idle_fill Ok (put ser (bs @ struct_enc sp_header_members Big (idle_header n))) (n - 6) =
      Some (Ok, put ser (bs @ idle_packet n))"
    using idle_fill_eq [OF assms(1), of "bs @ struct_enc sp_header_members Big (idle_header n)" "n - 6"] assms
    by (simp add: idle_packet_def space_packet_def)
  moreover have "usub n 6 = Some (n - 6)" "usub (n - 6) (Suc 0) = Some (n - 7)" using assms(2) by auto
  ultimately show ?thesis
    using assms(2,3) h by (simp add: idle_serialize_def tm_sizes)
qed

definition tm_header_for :: "u8 \<Rightarrow> u8 \<Rightarrow> frame_context \<Rightarrow> tm_header" where
  "tm_header_for c d ctx =
     \<lparr>tm_global_vc_id = build_global_vc_id SPACECRAFT_ID (vc_id ctx) False, master_frame_count = c, virtual_frame_count = d,
      data_field_status = build_data_field_status False False False SEGMENT_LENGTH_ID (first_header_pointer ctx)\<rparr>"

definition tm_body :: "u8 \<Rightarrow> u8 \<Rightarrow> frame_context \<Rightarrow> u8 list \<Rightarrow> u8 list" where
  "tm_body c d ctx p = struct_enc tm_header_members Big (tm_header_for c d ctx) @ p @ idle_packet (1016 - length p)"

definition tm_frame :: "u8 \<Rightarrow> u8 \<Rightarrow> frame_context \<Rightarrow> u8 list \<Rightarrow> u8 list" where
  "tm_frame c d ctx p = tm_body c d ctx p @ to_be_bytes (crc16_compute (tm_body c d ctx p))"

definition tm_fits :: "nat \<Rightarrow> bool" where
  "tm_fits n \<longleftrightarrow> n = 1016 \<or> n \<le> 1009"

lemma length_tm_body: "tm_fits (length p) \<Longrightarrow> length (tm_body c d ctx p) = 1022"
  by (auto simp: tm_body_def tm_header.length_struct_enc length_idle_packet tm_fits_def)

lemma tm_fill:
  assumes "wf_buf v" and "ser_loc v = 0" and "1024 \<le> room v" and "tm_fits n" and "length bs = n + 6"
  shows "(if 1016 - n > 0 then fill_with_idle_packet (put v bs) else Some (put v bs)) =
    Some (put v (bs @ idle_packet (1016 - n)))"
proof (cases "n = 1016")
  case False
  have "ser_loc (put v bs) = n + 6" using assms by (simp add: put_def)
  moreover have "usub 1022 (n + 6) = Some (1016 - n)" using assms(4) by (auto simp: tm_fits_def)
  moreover have "idle_serialize (put v bs) (1016 - n) = Some (Ok, put v (bs @ idle_packet (1016 - n)))"
    using assms False by (intro idle_serialize_eq) (auto simp: tm_fits_def)
  ultimately show ?thesis
    using assms(4) False by (auto simp: fill_with_idle_packet_def tm_sizes tm_fits_def)
qed (simp add: idle_packet_def)

lemma tm_write_body:
  assumes "wf_buffer fb" and "bsize fb = 1024" and "length (storage fb) = 1024" and "tm_fits (length p)"
  shows "\<exists>v v1 v2 v3 fb'. get_serializer fb = Some v \<and>
    struct_serialize_to tm_header_members (tm_header_for c d ctx) v Big = Some (Ok, v1) \<and>
    serialize_bytes v1 p OmitLength Big = Some (Ok, v2) \<and>
    (if 1016 - length p > 0 then fill_with_idle_packet v2 else Some v2) = Some v3 \<and>
    put_data fb (bytes v3) = Some fb' \<and> wf_buffer fb' \<and> is_valid fb' \<and> bsize fb' = 1024 \<and>
    length (storage fb') = 1024 \<and> take 1022 (window fb') = tm_body c d ctx p"
proof -
  let ?h = "struct_enc tm_header_members Big (tm_header_for c d ctx)"
  have valid: "is_valid fb" using assms(2,3) by (auto simp: is_valid_def)
  obtain v where v: "get_serializer fb = Some v" "wf_buf v" "room v = 1024" "ser_loc v = 0"
    using get_serializer_eq [OF assms(1) valid] assms(2) by auto
  have lh: "length ?h = 6" by (simp add: tm_header.length_struct_enc)
  have lp: "length p \<le> 1016" using assms(4) by (auto simp: tm_fits_def)
  have w1: "struct_serialize_to tm_header_members (tm_header_for c d ctx) v Big = Some (Ok, put v ?h)"
    using v by (intro tm_header.serialize) simp_all
  have w2: "serialize_bytes (put v ?h) p OmitLength Big = Some (Ok, put v (?h @ p))"
    using v lh lp by (simp add: serialize_bytes_eq Let_def)
  have w3: "(if 1016 - length p > 0 then fill_with_idle_packet (put v (?h @ p)) else Some (put v (?h @ p))) =
      Some (put v (tm_body c d ctx p))"
    using tm_fill [OF v(2,4) _ assms(4), of "?h @ p"] v(3) lh by (simp add: tm_body_def)
  obtain fb' where fb': "put_data fb (bytes (put v (tm_body c d ctx p))) = Some fb'" "wf_buffer fb'" "is_valid fb'"
      "bsize fb' = bsize fb" "window fb' = tm_body c d ctx p @ drop (length (tm_body c d ctx p)) (window fb)"
      "length (storage fb') = length (storage fb)"
    using view_write [OF assms(1) valid _ v(1), of "tm_body c d ctx p"] assms(2) length_tm_body [OF assms(4)] by auto
  have "take 1022 (window fb') = tm_body c d ctx p"
    using fb'(5) length_tm_body [OF assms(4), of c d ctx] by simp
  with fb' assms(2,3) show ?thesis using v(1) w1 w2 w3 by auto
qed

lemma tm_write_trailer:
  assumes "wf_buffer fb" and "is_valid fb" and "bsize fb = 1024" and "length (storage fb) = 1024"
  shows "\<exists>v u v' out. get_serializer fb = Some v \<and> move_ser_to_offset v 1022 = Some (Ok, u) \<and>
    struct_serialize_to trailer_members \<lparr>fecf = crc\<rparr> u Big = Some (Ok, v') \<and> put_data fb (bytes v') = Some out \<and>
    wf_buffer out \<and> length (storage out) = 1024 \<and> window out = take 1022 (window fb) @ to_be_bytes crc"
proof -
  obtain v where v: "get_serializer fb = Some v" "wf_buf v" "capacity v = 1024" "bytes v = window fb"
    using get_serializer_eq [OF assms(1,2)] assms(3) by auto
  obtain u where u: "move_ser_to_offset v 1022 = Some (Ok, u)" "wf_buf u" "ser_loc u = 1022" "bytes u = window fb" "room u = 2"
    using move_ser_eq [OF v(2), of 1022] v by auto
  have e: "struct_enc trailer_members Big \<lparr>fecf = crc\<rparr> = to_be_bytes crc"
    by (simp add: struct_enc_def trailer_members_def to_bytes_def)
  have s: "struct_serialize_to trailer_members \<lparr>fecf = crc\<rparr> u Big = Some (Ok, put u (to_be_bytes crc))"
    using fecf_trailer.serialize [OF u(2), of "\<lparr>fecf = crc\<rparr>" Big] u(5) e by simp
  have b: "bytes (put u (to_be_bytes crc)) = take 1022 (window fb) @ to_be_bytes crc"
    using u(3,4) assms(1,3) by (simp add: put_def)
  then have len: "length (bytes (put u (to_be_bytes crc))) = bsize fb" using assms(1,3) by simp
  then obtain out where out: "put_data fb (bytes (put u (to_be_bytes crc))) = Some out" "wf_buffer out"
      "window out = bytes (put u (to_be_bytes crc)) @ drop (length (bytes (put u (to_be_bytes crc)))) (window fb)"
      "length (storage out) = length (storage fb)"
    using put_data_eq [OF assms(1), of "bytes (put u (to_be_bytes crc))"] by auto
  have "window out = take 1022 (window fb) @ to_be_bytes crc"
    using out(3) len assms(1) b by simp
  then show ?thesis using v(1) u(1) s out assms(4) by auto
qed

lemma tm_frames:
  assumes "frame_storage st = Some stg" and "length stg = 1024" and "wf_buffer data" and "tm_fits (bsize data)"
    and "first_header_pointer ctx \<le> 0x7FF"
  shows "\<exists>out. tm_data_in st data ctx = Some ([Fr_DataOut out ctx, Fr_DataReturnOut data ctx],
      st\<lparr>frame_storage := None, tm_master_count := tm_master_count st + 1, tm_virtual_count := tm_virtual_count st + 1\<rparr>) \<and>
    wf_buffer out \<and> length (storage out) = 1024 \<and>
    window out = tm_frame (tm_master_count st) (tm_virtual_count st) ctx (window data)"
proof -
  let ?c = "tm_master_count st" and ?d = "tm_virtual_count st" and ?p = "window data" and ?fb = "from_storage stg NO_CONTEXT"
  let ?crc = "crc16_compute (tm_body ?c ?d ctx ?p)"
  have lp: "length ?p = bsize data" using assms(3) by simp
  have "bsize ?fb = 1024" "length (storage ?fb) = 1024" using assms(2) by (simp_all add: from_storage_def)
  then obtain v v1 v2 v3 fb where body: "get_serializer ?fb = Some v"
      "struct_serialize_to tm_header_members (tm_header_for ?c ?d ctx) v Big = Some (Ok, v1)"
      "serialize_bytes v1 ?p OmitLength Big = Some (Ok, v2)"
      "(if 1016 - bsize data > 0 then fill_with_idle_packet v2 else Some v2) = Some v3"
      "put_data ?fb (bytes v3) = Some fb" "wf_buffer fb" "is_valid fb" "bsize fb = 1024" "length (storage fb) = 1024"
      "take 1022 (window fb) = tm_body ?c ?d ctx ?p"
    using tm_write_body [of ?fb ?p ?c ?d ctx] assms(4) unfolding lp by auto
  obtain u u1 u2 out where tail: "get_serializer fb = Some u" "move_ser_to_offset u 1022 = Some (Ok, u1)"
      "struct_serialize_to trailer_members \<lparr>fecf = ?crc\<rparr> u1 Big = Some (Ok, u2)" "put_data fb (bytes u2) = Some out"
      "wf_buffer out" "length (storage out) = 1024" "window out = take 1022 (window fb) @ to_be_bytes ?crc"
    using tm_write_trailer [OF body(6-9), of ?crc] by blast
  have cov: "slice (window fb) 0 1022 = Some (tm_body ?c ?d ctx ?p)"
    using body(6,8,10) by (simp add: slice_def)
  have fits: "bsize data \<le> 1016" "1016 - bsize data = 0 \<or> 7 \<le> 1016 - bsize data" using assms(4) by (auto simp: tm_fits_def)
  have "tm_data_in st data ctx = Some ([Fr_DataOut out ctx, Fr_DataReturnOut data ctx],
      st\<lparr>frame_storage := None, tm_master_count := ?c + 1, tm_virtual_count := ?d + 1\<rparr>)"
    using assms(1,3,5) fits body tail cov
    by (simp add: tm_data_in_def tm_sizes FHP_MASK_def tm_header_for_def Let_def)
  then show ?thesis using tail(5-7) body(10) by (simp add: tm_frame_def)
qed

text \<open>The framer in its loop: every payload framed, every frame returned before the next payload.\<close>

fun tm_return_all :: "tm_framer \<Rightarrow> fw_buffer list \<Rightarrow> tm_framer option" where
  "tm_return_all st [] = Some st"
| "tm_return_all st (b # bs) = do { st \<leftarrow> tm_data_return_in st b; tm_return_all st bs }"

fun tm_run :: "tm_framer \<Rightarrow> (fw_buffer \<times> frame_context) list \<Rightarrow> (u8 list list \<times> tm_framer) option" where
  "tm_run st [] = Some ([], st)"
| "tm_run st ((data, ctx) # ins) =
     do { (calls, st) \<leftarrow> tm_data_in st data ctx;
          st \<leftarrow> tm_return_all st (framed_packets calls);
          (fs, st) \<leftarrow> tm_run st ins;
          Some (map window (framed_packets calls) @ fs, st) }"

definition tm_input_ok :: "fw_buffer \<times> frame_context \<Rightarrow> bool" where
  "tm_input_ok i \<longleftrightarrow> wf_buffer (fst i) \<and> tm_fits (bsize (fst i)) \<and> first_header_pointer (snd i) \<le> 0x7FF"

fun tm_frames_from :: "nat \<Rightarrow> (fw_buffer \<times> frame_context) list \<Rightarrow> u8 list list" where
  "tm_frames_from k [] = []"
| "tm_frames_from k ((data, ctx) # ins) = tm_frame (of_nat k) (of_nat k) ctx (window data) # tm_frames_from (Suc k) ins"

lemma tm_run_frames:
  assumes "\<forall>i \<in> set ins. tm_input_ok i" and "frame_storage st = Some stg" and "length stg = 1024"
    and "tm_master_count st = of_nat k" and "tm_virtual_count st = of_nat k"
  shows "\<exists>st'. tm_run st ins = Some (tm_frames_from k ins, st') \<and> owns_frame_buffer st'"
  using assms
proof (induction ins arbitrary: st stg k)
  case Nil
  then show ?case by (simp add: owns_frame_buffer_def)
next
  case (Cons i ins)
  obtain data ctx where i: "i = (data, ctx)" by (cases i)
  have ok: "wf_buffer data" "tm_fits (bsize data)" "first_header_pointer ctx \<le> 0x7FF"
    using Cons.prems(1) by (simp_all add: i tm_input_ok_def)
  let ?st = "st\<lparr>frame_storage := None, tm_master_count := tm_master_count st + 1, tm_virtual_count := tm_virtual_count st + 1\<rparr>"
  obtain out where out: "tm_data_in st data ctx = Some ([Fr_DataOut out ctx, Fr_DataReturnOut data ctx], ?st)"
      "length (storage out) = 1024" "window out = tm_frame (of_nat k) (of_nat k) ctx (window data)"
    using tm_frames [OF Cons.prems(2,3) ok] Cons.prems(4,5) by auto
  have ret: "tm_data_return_in ?st out = Some (?st\<lparr>frame_storage := Some (storage out)\<rparr>)"
    using out(2) by (simp add: tm_data_return_in_def buffer_capacity_def TM_FRAME_FIXED_SIZE_def)
  have "\<exists>st'. tm_run (?st\<lparr>frame_storage := Some (storage out)\<rparr>) ins = Some (tm_frames_from (Suc k) ins, st') \<and> owns_frame_buffer st'"
    using Cons.prems out(2) by (intro Cons.IH [of _ "storage out"]) simp_all
  then show ?case using out(1,3) ret by (auto simp: i)
qed

lemma tm_frames_from_nth:
  "j < length ins \<Longrightarrow>
    tm_frames_from k ins ! j = tm_frame (of_nat (k + j)) (of_nat (k + j)) (snd (ins ! j)) (window (fst (ins ! j)))"
proof (induction k ins arbitrary: j rule: tm_frames_from.induct)
  case (2 k data ctx ins)
  then show ?case by (cases j) (simp_all add: add.commute)
qed simp

lemma length_tm_frames_from [simp]: "length (tm_frames_from k ins) = length ins"
  by (induction k ins rule: tm_frames_from.induct) simp_all

lemma tm_data_in_refused:
  assumes "wf_buffer data" and "\<not> tm_input_ok (data, ctx)"
  shows "tm_data_in st data ctx = None"
  using assms by (auto simp: tm_data_in_def tm_input_ok_def tm_fits_def tm_sizes FHP_MASK_def)

lemma tm_run_refused:
  assumes "\<forall>i \<in> set ins. wf_buffer (fst i)" and "\<exists>i \<in> set ins. \<not> tm_input_ok i"
    and "frame_storage st = Some stg" and "length stg = 1024"
  shows "tm_run st ins = None"
  using assms
proof (induction ins arbitrary: st stg)
  case (Cons i ins)
  obtain data ctx where i: "i = (data, ctx)" by (cases i)
  show ?case
  proof (cases "tm_input_ok i")
    case True
    let ?st = "st\<lparr>frame_storage := None, tm_master_count := tm_master_count st + 1, tm_virtual_count := tm_virtual_count st + 1\<rparr>"
    obtain out where out: "tm_data_in st data ctx = Some ([Fr_DataOut out ctx, Fr_DataReturnOut data ctx], ?st)"
        "length (storage out) = 1024"
      using tm_frames [OF Cons.prems(3,4)] True by (auto simp: i tm_input_ok_def)
    have ret: "tm_data_return_in ?st out = Some (?st\<lparr>frame_storage := Some (storage out)\<rparr>)"
      using out(2) by (simp add: tm_data_return_in_def buffer_capacity_def TM_FRAME_FIXED_SIZE_def)
    have "tm_run (?st\<lparr>frame_storage := Some (storage out)\<rparr>) ins = None"
      using Cons.prems True out(2) by (intro Cons.IH [of _ "storage out"]) auto
    then show ?thesis using out(1) ret by (simp add: i)
  next
    case False
    then show ?thesis
      using tm_data_in_refused [of data ctx st] Cons.prems(1) by (simp add: i)
  qed
qed simp

text \<open>
  C29: The TM framer with its one frame buffer, when every frame comes back before the next payload, panics exactly if
  some payload neither fills the data field of 1016 bytes nor leaves the 7 bytes of an idle packet, or comes with a first
  header pointer of more than 11 bits.  Otherwise each payload yields one frame of exactly 1024 bytes: header, payload,
  one idle packet over the rest of the data field, and the CRC-16 of all before it; the master and virtual channel counts
  of the \<open>j\<close>-th frame are both \<open>j\<close> modulo 256.
\<close>

theorem tm_framer_stream:
  assumes "\<forall>i \<in> set ins. wf_buffer (fst i)"
  shows "if \<forall>i \<in> set ins. (bsize (fst i) \<le> 1009 \<or> bsize (fst i) = 1016) \<and> first_header_pointer (snd i) \<le> 0x7FF
    then \<exists>fs st'. tm_run tm_framer_new ins = Some (fs, st') \<and> owns_frame_buffer st' \<and> length fs = length ins \<and>
      (\<forall>j < length ins. length (fs ! j) = 1024 \<and>
         fs ! j = tm_frame (of_nat j) (of_nat j) (snd (ins ! j)) (window (fst (ins ! j))))
    else tm_run tm_framer_new ins = None"
proof -
  have ok: "tm_input_ok i \<longleftrightarrow> (bsize (fst i) \<le> 1009 \<or> bsize (fst i) = 1016) \<and> first_header_pointer (snd i) \<le> 0x7FF"
    if "i \<in> set ins" for i
    using assms that by (auto simp: tm_input_ok_def tm_fits_def)
  have new: "frame_storage tm_framer_new = Some (replicate 1024 0)"
    by (simp add: tm_framer_new_def TM_FRAME_FIXED_SIZE_def)
  show ?thesis
  proof (cases "\<forall>i \<in> set ins. tm_input_ok i")
    case True
    obtain st' where st': "tm_run tm_framer_new ins = Some (tm_frames_from 0 ins, st')" "owns_frame_buffer st'"
      using tm_run_frames [OF True new, of 0] by (auto simp: tm_framer_new_def)
    have "length (tm_frames_from 0 ins ! j) = 1024" if "j < length ins" for j
    proof -
      have "tm_input_ok (ins ! j)" using True that by simp
      then have "tm_fits (length (window (fst (ins ! j))))" by (simp add: tm_input_ok_def)
      then show ?thesis using that by (simp add: tm_frames_from_nth tm_frame_def length_tm_body)
    qed
    then show ?thesis using st' ok True by (auto simp: tm_frames_from_nth)
  next
    case False
    then show ?thesis
      using tm_run_refused [OF assms _ new] ok by auto
  qed
qed

theorem tm_framer_stream_witness:
  "\<exists>fs st'. tm_run tm_framer_new [(from_storage [1, 2, 3] 0, frame_context_default), (from_storage [4] 0, frame_context_default)] =
      Some (fs, st') \<and> map length fs = [1024, 1024] \<and> fs ! 1 = tm_frame 1 1 frame_context_default [4]"
proof -
  let ?ins = "[(from_storage [1, 2, 3] 0, frame_context_default), (from_storage [4] 0, frame_context_default)]"
  have ok: "\<forall>i \<in> set ?ins. wf_buffer (fst i)"
      "\<forall>i \<in> set ?ins. (bsize (fst i) \<le> 1009 \<or> bsize (fst i) = 1016) \<and> first_header_pointer (snd i) \<le> 0x7FF"
    by simp (simp add: from_storage_def frame_context_default_def word_le_nat_alt)
  from tm_framer_stream [OF ok(1), unfolded if_P [OF ok(2)]] obtain fs st' where *: "tm_run tm_framer_new ?ins = Some (fs, st')" "length fs = length ?ins"
      "\<forall>j < length ?ins. length (fs ! j) = 1024 \<and>
        fs ! j = tm_frame (of_nat j) (of_nat j) (snd (?ins ! j)) (window (fst (?ins ! j)))"
    by blast
  have "fs = [fs ! 0, fs ! 1]" using *(2) by (auto intro!: nth_equalityI simp: less_Suc_eq numeral_2_eq_2)
  then have "map length fs = [length (fs ! 0), length (fs ! 1)]" by (metis list.map)
  then have "length (fs ! 0) = 1024 \<Longrightarrow> length (fs ! 1) = 1024 \<Longrightarrow> map length fs = [1024, 1024]" by (simp only:)
  moreover have "length (fs ! 0) = 1024" "length (fs ! 1) = 1024" "fs ! 1 = tm_frame 1 1 frame_context_default [4]"
    using spec [OF *(3), of 0] spec [OF *(3), of 1] by auto
  ultimately show ?thesis using *(1) by (intro exI [of _ fs] exI [of _ st'] conjI)
qed

end
