(* ===== verification/Fw_String.thy ===== *)
theory Fw_String
  imports Fw_Serial
begin

text \<open>
  Fixed-capacity truncating strings (\<open>fprime-fw/src/string.rs\<close>): raw bytes up to the first NUL, at most
  the capacity, with a length-prefixed wire format that is big-endian whatever the caller asks for.
  The capacity \<open>N\<close> is the length of the byte array.
\<close>

section \<open>Operations\<close>

fun c_str_len :: "u8 list \<Rightarrow> nat" where
  "c_str_len [] = 0"
| "c_str_len (b # bs) = (if b = 0 then 0 else Suc (c_str_len bs))"

record fw_string =
  str_bytes :: "u8 list"
  str_len :: nat

definition string_new :: "nat \<Rightarrow> fw_string" where
  "string_new n = \<lparr>str_bytes = replicate n 0, str_len = 0\<rparr>"

definition set_bytes :: "fw_string \<Rightarrow> u8 list \<Rightarrow> fw_string option" where
  "set_bytes s src =
     do { let n = min (c_str_len src) (length (str_bytes s));
          bs \<leftarrow> slice src 0 n;
          st \<leftarrow> blit (str_bytes s) 0 bs;
          Some (s\<lparr>str_bytes := st, str_len := n\<rparr>) }"

definition append_bytes :: "fw_string \<Rightarrow> u8 list \<Rightarrow> fw_string option" where
  "append_bytes s src =
     do { rm \<leftarrow> usub (length (str_bytes s)) (str_len s);
          let n = min (c_str_len src) rm;
          bs \<leftarrow> slice src 0 n;
          st \<leftarrow> blit (str_bytes s) (str_len s) bs;
          Some (s\<lparr>str_bytes := st, str_len := str_len s + n\<rparr>) }"

definition string_clear :: "fw_string \<Rightarrow> fw_string" where
  "string_clear s = s\<lparr>str_len := 0\<rparr>"

definition as_bytes :: "fw_string \<Rightarrow> u8 list option" where
  "as_bytes s = slice (str_bytes s) 0 (str_len s)"

definition string_serialized_size :: "fw_string \<Rightarrow> nat" where
  "string_serialized_size s = 2 + str_len s"

definition serialize_to_truncated ::
  "fw_string \<Rightarrow> ser_buf \<Rightarrow> nat \<Rightarrow> Endianness \<Rightarrow> (SerializeStatus \<times> ser_buf) option" where
  "serialize_to_truncated s b max_len e =
     do { bs \<leftarrow> slice (str_bytes s) 0 (min (str_len s) max_len);
          serialize_bytes b bs IncludeLength Big }"

definition serialized_truncated_size :: "fw_string \<Rightarrow> nat \<Rightarrow> nat" where
  "serialized_truncated_size s max_len = 2 + min (str_len s) max_len"

definition string_serialize_to :: "fw_string \<Rightarrow> ser_buf \<Rightarrow> Endianness \<Rightarrow> (SerializeStatus \<times> ser_buf) option" where
  "string_serialize_to s b e = do { bs \<leftarrow> as_bytes s; serialize_bytes b bs IncludeLength Big }"

definition string_deserialize_from ::
  "fw_string \<Rightarrow> ser_buf \<Rightarrow> Endianness \<Rightarrow> (SerializeStatus \<times> fw_string \<times> ser_buf) option" where
  "string_deserialize_from s b e =
     do { let N = length (str_bytes s);
          (status, scratch, len, b) \<leftarrow> deserialize_bytes b (replicate N 0) N IncludeLength Big;
          if status = Ok
          then do { w \<leftarrow> slice scratch 0 len;
                    let n = c_str_len w;
                    bs \<leftarrow> slice scratch 0 n;
                    st \<leftarrow> blit (str_bytes s) 0 bs;
                    Some (status, s\<lparr>str_bytes := st, str_len := n\<rparr>, b) }
          else Some (status, s, b) }"

section \<open>Content\<close>

text \<open>A string's content is the bytes before its length; no operation lets a NUL byte in.\<close>

definition text_of :: "fw_string \<Rightarrow> u8 list" where
  "text_of s = take (str_len s) (str_bytes s)"

definition wf_string :: "fw_string \<Rightarrow> bool" where
  "wf_string s \<longleftrightarrow> str_len s \<le> length (str_bytes s) \<and> 0 \<notin> set (text_of s)"

definition c_str :: "u8 list \<Rightarrow> u8 list" where
  "c_str bs = takeWhile (\<lambda>b. b \<noteq> 0) bs"

lemma c_str_len_eq: "c_str_len bs = length (c_str bs)"
  by (induction bs) (simp_all add: c_str_def)

lemma take_c_str: "take (min (length (c_str bs)) n) bs = take n (c_str bs)"
proof -
  have "take (length (c_str bs)) bs = c_str bs"
    unfolding c_str_def by (metis takeWhile_eq_take)
  then show ?thesis by (metis min.commute take_take)
qed

lemma take_min_length [simp]: "take (min (length xs) n) xs = take n xs"
  by (simp add: min_def)

lemma c_str_le: "length (c_str bs) \<le> length bs"
  by (simp add: c_str_def length_takeWhile_le)

lemma c_str_free [simp]: "0 \<notin> set (c_str bs)"
  by (auto simp: c_str_def dest: set_takeWhileD)

lemma c_str_id: "0 \<notin> set bs \<Longrightarrow> c_str bs = bs"
  by (auto simp: c_str_def takeWhile_eq_all_conv)

lemma length_text [simp]: "wf_string s \<Longrightarrow> length (text_of s) = str_len s"
  by (simp add: wf_string_def text_of_def)

lemma string_new_simps [simp]: "wf_string (string_new n)" "text_of (string_new n) = []" "length (str_bytes (string_new n)) = n"
  by (simp_all add: string_new_def wf_string_def text_of_def)

lemma set_bytes_eq:
  "\<exists>s'. set_bytes s src = Some s' \<and> wf_string s' \<and> text_of s' = take (length (str_bytes s)) (c_str src) \<and>
    length (str_bytes s') = length (str_bytes s)"
proof -
  let ?n = "min (length (c_str src)) (length (str_bytes s))"
  have t: "take ?n src = take (length (str_bytes s)) (c_str src)" by (rule take_c_str)
  have "?n \<le> length src" using c_str_le [of src] by simp
  then show ?thesis
    using t by (auto simp: set_bytes_def c_str_len_eq Let_def slice_def blit_def wf_string_def text_of_def
        dest: in_set_takeD)
qed

lemma append_bytes_eq:
  assumes "wf_string s"
  shows "\<exists>s'. append_bytes s src = Some s' \<and> wf_string s' \<and>
    text_of s' = take (length (str_bytes s)) (text_of s @ c_str src) \<and> length (str_bytes s') = length (str_bytes s)"
proof -
  let ?r = "length (str_bytes s) - str_len s"
  let ?n = "min (length (c_str src)) ?r"
  have t: "take ?n src = take ?r (c_str src)" by (rule take_c_str)
  have le: "str_len s \<le> length (str_bytes s)" "?n \<le> length src" using assms c_str_le [of src] by (simp_all add: wf_string_def)
  let ?st = "take (str_len s) (str_bytes s) @ take ?r (c_str src) @ drop (str_len s + ?n) (str_bytes s)"
  have a: "append_bytes s src = Some (s\<lparr>str_bytes := ?st, str_len := str_len s + ?n\<rparr>)"
    using le t by (simp add: append_bytes_def c_str_len_eq Let_def slice_def blit_def)
  have x: "text_of (s\<lparr>str_bytes := ?st, str_len := str_len s + ?n\<rparr>) = text_of s @ take ?r (c_str src)"
    using le by (simp add: text_of_def)
  show ?thesis
    using a x le assms by (auto simp: wf_string_def text_of_def dest: in_set_takeD)
qed

section \<open>The wire format\<close>

lemma string_serialize_eq:
  assumes "wf_string s" and "wf_buf b" and "2 + str_len s \<le> room b"
  shows "string_serialize_to s b e = Some (Ok, put b (to_be_bytes (of_nat (str_len s) :: u16) @ text_of s))"
  using assms
  by (simp add: string_serialize_to_def as_bytes_def slice_def wf_string_def text_of_def serialize_bytes_eq Let_def to_bytes_def)

lemma string_deserialize_eq:
  assumes "wf_buf b" and "unread b = to_be_bytes (of_nat n :: u16) @ bs @ rest" and "length bs = n" and "n < 2 ^ 16"
  shows "if n \<le> length (str_bytes s)
    then \<exists>s'. string_deserialize_from s b e = Some (Ok, s', adv b (2 + n)) \<and> wf_string s' \<and> text_of s' = c_str bs \<and>
      length (str_bytes s') = length (str_bytes s)
    else string_deserialize_from s b e = Some (DeserSizeMismatch, s, adv b 2)"
proof -
  have u: "unat (from_bytes Big (take 2 (unread b)) :: u16) = n"
    using assms(2,4) by (simp add: from_bytes_def unat_of_nat)
  have ne: "unread b \<noteq> []" "\<not> length (unread b) < 2" "n \<le> length (unread b) - 2" "take n (drop 2 (unread b)) = bs"
    using assms(2,3) by (auto simp: length_0_conv [symmetric] simp del: length_0_conv)
  note eq = deserialize_bytes_eq [OF assms(1), of "length (str_bytes s)" "replicate (length (str_bytes s)) 0" IncludeLength Big]
  show ?thesis
  proof (cases "n \<le> length (str_bytes s)")
    case True
    have le: "length (c_str bs) \<le> n" "take (length (c_str bs)) bs = c_str bs"
      using c_str_le [of bs] assms(3) take_c_str [of bs n] by (simp_all add: min_def)
    have "string_deserialize_from s b e = Some (Ok, s\<lparr>str_bytes := c_str bs @ drop (length (c_str bs)) (str_bytes s),
        str_len := length (c_str bs)\<rparr>, adv b (2 + n))"
      using eq u ne True le assms(3)
      by (simp add: string_deserialize_from_def Let_def slice_def blit_def c_str_len_eq)
    then show ?thesis
      using True le by (simp add: wf_string_def text_of_def)
  next
    case False
    then show ?thesis using eq u ne by (simp add: string_deserialize_from_def Let_def)
  qed
qed

text \<open>
  A string survives the wire.  Whatever bytes are assigned to a string of capacity \<open>N\<close>, its content is
  the bytes before the first NUL cut to \<open>N\<close>; serialized in either byte order and read back into a
  string of capacity \<open>M\<close> it gives that content when it fits, and otherwise a size mismatch with
  the old content kept and exactly the length prefix consumed.
\<close>

theorem string_roundtrip:
  assumes "length (str_bytes s) = N" and "N < 2 ^ 16" and "wf_buf b" and "content b = []" and "2 + N \<le> room b"
    and "length (str_bytes t) = M"
  shows "\<exists>s' b'. set_bytes s src = Some s' \<and> text_of s' = take N (c_str src) \<and> string_serialize_to s' b e = Some (Ok, b') \<and>
    (if str_len s' \<le> M
     then \<exists>t'. string_deserialize_from t b' e' = Some (Ok, t', adv b' (2 + str_len s')) \<and> text_of t' = text_of s' \<and> wf_string t'
     else string_deserialize_from t b' e' = Some (DeserSizeMismatch, t, adv b' 2))"
proof -
  obtain s' where s': "set_bytes s src = Some s'" "wf_string s'" "text_of s' = take N (c_str src)" "length (str_bytes s') = N"
    using set_bytes_eq [of s src] assms(1) by auto
  have len: "str_len s' \<le> N" using s'(2,4) by (simp add: wf_string_def)
  let ?bs = "to_be_bytes (of_nat (str_len s') :: u16) @ text_of s'"
  have ser: "string_serialize_to s' b e = Some (Ok, put b ?bs)"
    using s'(2) assms(3,5) len by (intro string_serialize_eq) simp_all
  have b': "wf_buf (put b ?bs)" "unread (put b ?bs) = to_be_bytes (of_nat (str_len s') :: u16) @ text_of s' @ []"
    using assms(3-5) len s'(2) by simp_all
  have "str_len s' < 2 ^ 16" using len assms(2) by simp
  note des = string_deserialize_eq [OF b' length_text [OF s'(2)] this, of t e']
  have "c_str (text_of s') = text_of s'" using s'(2) by (simp add: c_str_id wf_string_def)
  with des ser s' show ?thesis using assms(6) by (auto split: if_splits)
qed

theorem string_roundtrip_witness:
  "\<exists>s' b' t'. set_bytes (string_new 4) [65, 66, 0, 67] = Some s' \<and>
    string_serialize_to s' (linear_buffer_new 16) Little = Some (Ok, b') \<and>
    string_deserialize_from (string_new 8) b' Big = Some (Ok, t', adv b' 4) \<and> text_of t' = [65, 66]"
proof -
  have c: "take 4 (c_str [65, 66, 0, 67]) = [65, 66]" by (simp add: c_str_def)
  have b: "wf_buf (linear_buffer_new 16)" "content (linear_buffer_new 16) = []" "2 + 4 \<le> room (linear_buffer_new 16)"
    by (simp_all add: linear_buffer_new_def buf_defs)
  obtain s' b' where *: "set_bytes (string_new 4) [65, 66, 0, 67] = Some s'" "text_of s' = [65, 66]"
      "string_serialize_to s' (linear_buffer_new 16) Little = Some (Ok, b')"
      "if str_len s' \<le> 8
       then \<exists>t'. string_deserialize_from (string_new 8) b' Big = Some (Ok, t', adv b' (2 + str_len s')) \<and>
         text_of t' = text_of s' \<and> wf_string t'
       else string_deserialize_from (string_new 8) b' Big = Some (DeserSizeMismatch, string_new 8, adv b' 2)"
    using string_roundtrip [of "string_new 4" 4 "linear_buffer_new 16" "string_new 8" 8 "[65, 66, 0, 67]" Little Big] b
    unfolding c by auto
  have "wf_string s'" using set_bytes_eq [of "string_new 4" "[65, 66, 0, 67]"] *(1) by auto
  then have "str_len s' = 2" using length_text [of s'] *(2) by simp
  with * show ?thesis by auto
qed

end
