(* ===== verification/Svc_CmdDispatcher.thy ===== *)
theory Svc_CmdDispatcher
  imports Fw_Packets Fw_String Comp_Throttle "HOL-Library.Multiset"
begin

text \<open>
  The command dispatcher (\<open>fprime-svc/src/cmd_dispatcher.rs\<close>): the opcode table, the tracker of
  commands in flight and all handlers.  A handler returns the port calls it makes, in order, and the
  new state.  Which output ports are connected is the parameter \<open>conn\<close>; port numbers are natural
  numbers, as the component asserts that they are not negative.  The locale \<open>array_map\<close> is the
  contract of the fixed-size tracker.
\<close>

section \<open>Configuration\<close>

definition DISPATCH_TABLE_SIZE :: nat where "DISPATCH_TABLE_SIZE = 150"
definition SEQUENCER_TABLE_SIZE :: nat where "SEQUENCER_TABLE_SIZE = 25"
definition CMD_DISPATCHER_COMMAND_PORTS :: nat where "CMD_DISPATCHER_COMMAND_PORTS = 30"
definition CMD_DISPATCHER_SEQUENCE_PORTS :: nat where "CMD_DISPATCHER_SEQUENCE_PORTS = 5"
definition FW_CMD_STRING_MAX_SIZE :: nat where "FW_CMD_STRING_MAX_SIZE = 40"
definition COMMAND_DROPPED_THROTTLE :: u32 where "COMMAND_DROPPED_THROTTLE = 5"

definition OPCODE_CMD_NO_OP :: u32 where "OPCODE_CMD_NO_OP = 0"
definition OPCODE_CMD_NO_OP_STRING :: u32 where "OPCODE_CMD_NO_OP_STRING = 1"
definition OPCODE_CMD_TEST_CMD_1 :: u32 where "OPCODE_CMD_TEST_CMD_1 = 2"
definition OPCODE_CMD_CLEAR_TRACKING :: u32 where "OPCODE_CMD_CLEAR_TRACKING = 3"

section \<open>The sequence tracker\<close>

record tracker_entry =
  te_op_code :: u32
  te_context :: u32
  te_caller_port :: nat

type_synonym tracker = "(u32 \<times> tracker_entry) option list"

definition tracker_new :: tracker where
  "tracker_new = replicate SEQUENCER_TABLE_SIZE None"

fun tracker_overwrite :: "tracker \<Rightarrow> u32 \<Rightarrow> tracker_entry \<Rightarrow> tracker option" where
  "tracker_overwrite [] key e = None"
| "tracker_overwrite (s # ss) key e =
     (case s of
        Some (k, x) \<Rightarrow> if k = key then Some (Some (k, e) # ss) else map_option ((#) s) (tracker_overwrite ss key e)
      | None \<Rightarrow> map_option ((#) s) (tracker_overwrite ss key e))"

fun tracker_occupy :: "tracker \<Rightarrow> u32 \<Rightarrow> tracker_entry \<Rightarrow> tracker option" where
  "tracker_occupy [] key e = None"
| "tracker_occupy (s # ss) key e =
     (if s = None then Some (Some (key, e) # ss) else map_option ((#) s) (tracker_occupy ss key e))"

definition tracker_insert :: "tracker \<Rightarrow> u32 \<Rightarrow> tracker_entry \<Rightarrow> bool \<times> tracker" where
  "tracker_insert t key e =
     (case tracker_overwrite t key e of
        Some t' \<Rightarrow> (True, t')
      | None \<Rightarrow> (case tracker_occupy t key e of Some t' \<Rightarrow> (True, t') | None \<Rightarrow> (False, t)))"

fun tracker_remove :: "tracker \<Rightarrow> u32 \<Rightarrow> tracker_entry option \<times> tracker" where
  "tracker_remove [] key = (None, [])"
| "tracker_remove (s # ss) key =
     (case s of
        Some (k, x) \<Rightarrow>
          if k = key then (Some x, None # ss)
          else let (r, ss) = tracker_remove ss key in (r, s # ss)
      | None \<Rightarrow> let (r, ss) = tracker_remove ss key in (r, s # ss))"

definition tracker_clear :: "tracker \<Rightarrow> tracker" where
  "tracker_clear t = replicate SEQUENCER_TABLE_SIZE None"

section \<open>State and port calls\<close>

text \<open>
  The dispatch table is only looked up, extended by absent keys and counted: a list of pairs with
  distinct keys.
\<close>

record dispatcher =
  entry_table :: "(u32 \<times> nat) list"
  sequence_tracker :: tracker
  disp_seq :: u32
  num_cmds_dispatched :: u32
  num_cmd_errors :: u32
  num_cmds_dropped :: u32
  last_dispatched :: "u32 option"
  last_errors :: "u32 option"
  last_dropped :: "u32 option"
  dropped_throttle :: event_throttle

definition dispatcher_new :: dispatcher where
  "dispatcher_new = \<lparr>entry_table = [], sequence_tracker = tracker_new, disp_seq = 0, num_cmds_dispatched = 0,
     num_cmd_errors = 0, num_cmds_dropped = 0, last_dispatched = None, last_errors = None, last_dropped = None,
     dropped_throttle = throttle_new COMMAND_DROPPED_THROTTLE\<rparr>"

datatype disp_event =
    OpCodeRegistered u32 nat nat
  | OpCodeReregistered u32 nat
  | OpCodeDispatched u32 nat
  | OpCodeCompleted u32
  | OpCodeError u32 CmdResponse
  | MalformedCommand DeserialStatus
  | InvalidCommand u32
  | TooManyCommands u32
  | NoOpReceived
  | NoOpStringReceived "u8 list"
  | TestCmd1Args i32 u32 u8
  | CommandDroppedQueueOverflow u32 u32

datatype disp_channel = CommandsDispatched | CommandErrors | CommandsDropped

datatype disp_call =
    Cd_Event disp_event
  | Cd_CompCmdSend nat u32 u32 ser_buf
  | Cd_SeqCmdStatus nat u32 u32 CmdResponse
  | Cd_PingOut u32
  | Cd_Tlm disp_channel u32
  | Cd_CmdResponse u32 u32 CmdResponse

record disp_conn =
  comp_cmd_send_connected :: "nat \<Rightarrow> bool"
  seq_cmd_status_connected :: "nat \<Rightarrow> bool"

section \<open>Handlers\<close>

definition comp_cmd_reg_handler :: "dispatcher \<Rightarrow> nat \<Rightarrow> u32 \<Rightarrow> (disp_call list \<times> dispatcher) option" where
  "comp_cmd_reg_handler st port op =
     (case map_of (entry_table st) op of
        Some existing_port \<Rightarrow>
          do { fw_assert (existing_port = port);
               Some ([Cd_Event (OpCodeReregistered (get_event_opcode op) port)], st) }
      | None \<Rightarrow>
          do { let slot = length (entry_table st);
               fw_assert (length (entry_table st) < DISPATCH_TABLE_SIZE);
               Some ([Cd_Event (OpCodeRegistered (get_event_opcode op) port slot)],
                     st\<lparr>entry_table := (op, port) # entry_table st\<rparr>) })"

text \<open>A port reference is made for one of the thirty ports only; the call on it runs the handler.\<close>

definition comp_cmd_reg_in :: "nat \<Rightarrow> nat option" where
  "comp_cmd_reg_in port = do { fw_assert (port < CMD_DISPATCHER_COMMAND_PORTS); Some port }"

definition seq_status_reply ::
  "disp_conn \<Rightarrow> nat \<Rightarrow> u32 \<Rightarrow> u32 \<Rightarrow> CmdResponse \<Rightarrow> disp_call list option" where
  "seq_status_reply conn port op context response =
     do { fw_assert (port < CMD_DISPATCHER_SEQUENCE_PORTS);
          Some (if seq_cmd_status_connected conn port then [Cd_SeqCmdStatus port op context response] else []) }"

fun status_ordinal :: "SerializeStatus \<Rightarrow> u8" where
  "status_ordinal Ok = 0"
| "status_ordinal FormatError = 1"
| "status_ordinal NoRoomLeft = 2"
| "status_ordinal DeserBufferEmpty = 3"
| "status_ordinal DeserFormatError = 4"
| "status_ordinal DeserSizeMismatch = 5"
| "status_ordinal DeserTypeMismatch = 6"
| "status_ordinal DeserImmutable = 7"
| "status_ordinal DeserInvalidData = 8"
| "status_ordinal DiscardedExisting = 9"

definition malformed_status :: "SerializeStatus \<Rightarrow> DeserialStatus" where
  "malformed_status st =
     (case try_from DeserialStatus_repr DeserialStatus_values (status_ordinal st) of
        Some d \<Rightarrow> d | None \<Rightarrow> DeserialStatus_FormatError)"

text \<open>The table entry whose target port is connected.\<close>

definition connected_target :: "disp_conn \<Rightarrow> dispatcher \<Rightarrow> u32 \<Rightarrow> nat option option" where
  "connected_target conn st op =
     (case map_of (entry_table st) op of
        None \<Rightarrow> Some None
      | Some p \<Rightarrow> do { fw_assert (p < CMD_DISPATCHER_COMMAND_PORTS);
                      Some (if comp_cmd_send_connected conn p then Some p else None) })"

definition seq_cmd_buff ::
  "disp_conn \<Rightarrow> dispatcher \<Rightarrow> nat \<Rightarrow> ser_buf \<Rightarrow> u32 \<Rightarrow> (disp_call list \<times> dispatcher) option" where
  "seq_cmd_buff conn st port data context =
     do { (stat, pkt, data) \<leftarrow> cmd_packet_deserialize_from cmd_packet_new data Big;
          if stat \<noteq> Ok
          then do { r \<leftarrow> seq_status_reply conn port (opcode pkt) context CmdResponse_ValidationError;
                    Some (Cd_Event (MalformedCommand (malformed_status stat)) # r, st) }
          else do {
            let op = opcode pkt;
            target \<leftarrow> connected_target conn st op;
            case target of
              Some entry_port \<Rightarrow>
                do { let seq = disp_seq st;
                     fw_assert (port < CMD_DISPATCHER_SEQUENCE_PORTS);
                     let (inserted, tr) =
                       (if seq_cmd_status_connected conn port
                        then tracker_insert (sequence_tracker st) seq
                               \<lparr>te_op_code = op, te_context = context, te_caller_port = port\<rparr>
                        else (True, sequence_tracker st));
                     let st = st\<lparr>sequence_tracker := tr\<rparr>;
                     if \<not> inserted
                     then do { r \<leftarrow> seq_status_reply conn port op context CmdResponse_ExecutionError;
                               Some (Cd_Event (TooManyCommands (get_event_opcode op)) # r, st) }
                     else do {
                       n \<leftarrow> cadd (num_cmds_dispatched st) 1;
                       Some ([Cd_CompCmdSend entry_port op seq (arg_buffer pkt),
                              Cd_Event (OpCodeDispatched (get_event_opcode op) entry_port)],
                             st\<lparr>num_cmds_dispatched := n, disp_seq := disp_seq st + 1\<rparr>) } }
            | None \<Rightarrow>
                do { n \<leftarrow> cadd (num_cmd_errors st) 1;
                     r \<leftarrow> seq_status_reply conn port op context CmdResponse_InvalidOpcode;
                     Some (Cd_Event (InvalidCommand (get_event_opcode op)) # r,
                           st\<lparr>num_cmd_errors := n, disp_seq := disp_seq st + 1\<rparr>) } } }"

definition comp_cmd_stat ::
  "disp_conn \<Rightarrow> dispatcher \<Rightarrow> u32 \<Rightarrow> u32 \<Rightarrow> CmdResponse \<Rightarrow> (disp_call list \<times> dispatcher) option" where
  "comp_cmd_stat conn st op cmd_seq response =
     do { (evs, st) \<leftarrow>
            (if response = CmdResponse_Ok then Some ([Cd_Event (OpCodeCompleted (get_event_opcode op))], st)
             else do { n \<leftarrow> cadd (num_cmd_errors st) 1;
                       Some ([Cd_Event (OpCodeError (get_event_opcode op) response)], st\<lparr>num_cmd_errors := n\<rparr>) });
          let (tracked, tr) = tracker_remove (sequence_tracker st) cmd_seq;
          let st = st\<lparr>sequence_tracker := tr\<rparr>;
          case tracked of
            Some e \<Rightarrow>
              do { fw_assert (op = te_op_code e);
                   fw_assert (te_caller_port e < CMD_DISPATCHER_SEQUENCE_PORTS);
                   r \<leftarrow> seq_status_reply conn (te_caller_port e) op (te_context e) response;
                   Some (evs @ r, st) }
          | None \<Rightarrow> Some (evs, st) }"

definition changed :: "u32 option \<Rightarrow> u32 \<Rightarrow> disp_channel \<Rightarrow> disp_call list" where
  "changed prev v ch = (if prev = Some v then [] else [Cd_Tlm ch v])"

definition disp_run :: "dispatcher \<Rightarrow> disp_call list \<times> dispatcher" where
  "disp_run st =
     (changed (last_dropped st) (num_cmds_dropped st) CommandsDropped @
      changed (last_errors st) (num_cmd_errors st) CommandErrors @
      changed (last_dispatched st) (num_cmds_dispatched st) CommandsDispatched,
      st\<lparr>last_dropped := Some (num_cmds_dropped st), last_errors := Some (num_cmd_errors st),
         last_dispatched := Some (num_cmds_dispatched st)\<rparr>)"

definition disp_ping_in :: "u32 \<Rightarrow> disp_call list" where
  "disp_ping_in key = [Cd_PingOut key]"

definition seq_cmd_buff_overflow_hook ::
  "dispatcher \<Rightarrow> ser_buf \<Rightarrow> u32 \<Rightarrow> (disp_call list \<times> dispatcher) option" where
  "seq_cmd_buff_overflow_hook st data context =
     do { op \<leftarrow> (if INCLUDE_COMMAND_OPCODES_IN_EVENTS
                 then do { (stat, pkt, data) \<leftarrow> cmd_packet_deserialize_from cmd_packet_new data Big;
                           Some (if stat = Ok then opcode pkt else 0) }
                 else Some 0);
          let (emit, t) = ok_to_emit (dropped_throttle st);
          n \<leftarrow> cadd (num_cmds_dropped st) 1;
          Some (if emit then [Cd_Event (CommandDroppedQueueOverflow (get_event_opcode op) context)] else [],
                st\<lparr>dropped_throttle := t, num_cmds_dropped := n\<rparr>) }"

section \<open>The dispatcher's own commands\<close>

definition cmd_no_op :: "u32 \<Rightarrow> u32 \<Rightarrow> ser_buf \<Rightarrow> disp_call list option" where
  "cmd_no_op op cmd_seq args =
     do { left \<leftarrow> deserialize_size_left args;
          Some (if left \<noteq> 0 then [Cd_CmdResponse op cmd_seq CmdResponse_FormatError]
                else [Cd_Event NoOpReceived, Cd_CmdResponse op cmd_seq CmdResponse_Ok]) }"

definition cmd_no_op_string :: "u32 \<Rightarrow> u32 \<Rightarrow> ser_buf \<Rightarrow> disp_call list option" where
  "cmd_no_op_string op cmd_seq args =
     do { (st, arg1, args) \<leftarrow> string_deserialize_from (string_new FW_CMD_STRING_MAX_SIZE) args Big;
          bad \<leftarrow> (if st \<noteq> Ok then Some True else do { left \<leftarrow> deserialize_size_left args; Some (left \<noteq> 0) });
          if bad then Some [Cd_CmdResponse op cmd_seq CmdResponse_FormatError]
          else do { text \<leftarrow> as_bytes arg1;
                    Some [Cd_Event (NoOpStringReceived text), Cd_CmdResponse op cmd_seq CmdResponse_Ok] } }"

definition cmd_test_cmd_1 :: "u32 \<Rightarrow> u32 \<Rightarrow> ser_buf \<Rightarrow> disp_call list option" where
  "cmd_test_cmd_1 op cmd_seq args =
     do { let refuse = Some [Cd_CmdResponse op cmd_seq CmdResponse_FormatError];
          (st, arg1, args) \<leftarrow> deserialize_prim args (0 :: i32) Big;
          if st \<noteq> Ok then refuse else do {
          (st, arg2, args) \<leftarrow> deserialize_f32 args 0 Big;
          if st \<noteq> Ok then refuse else do {
          (st, arg3, args) \<leftarrow> deserialize_prim args (0 :: u8) Big;
          if st \<noteq> Ok then refuse else do {
          left \<leftarrow> deserialize_size_left args;
          if left \<noteq> 0 then refuse
          else Some [Cd_Event (TestCmd1Args arg1 arg2 arg3), Cd_CmdResponse op cmd_seq CmdResponse_Ok] } } } }"

definition cmd_clear_tracking ::
  "dispatcher \<Rightarrow> u32 \<Rightarrow> u32 \<Rightarrow> ser_buf \<Rightarrow> (disp_call list \<times> dispatcher) option" where
  "cmd_clear_tracking st op cmd_seq args =
     do { left \<leftarrow> deserialize_size_left args;
          Some (if left \<noteq> 0 then ([Cd_CmdResponse op cmd_seq CmdResponse_FormatError], st)
                else ([Cd_CmdResponse op cmd_seq CmdResponse_Ok],
                      st\<lparr>sequence_tracker := tracker_clear (sequence_tracker st)\<rparr>)) }"

definition own_command ::
  "dispatcher \<Rightarrow> u32 \<Rightarrow> u32 \<Rightarrow> u32 \<Rightarrow> ser_buf \<Rightarrow> (disp_call list \<times> dispatcher) option" where
  "own_command st id_base op cmd_seq args =
     (let k = op - id_base
      in if k = OPCODE_CMD_NO_OP then do { cs \<leftarrow> cmd_no_op op cmd_seq args; Some (cs, st) }
         else if k = OPCODE_CMD_NO_OP_STRING then do { cs \<leftarrow> cmd_no_op_string op cmd_seq args; Some (cs, st) }
         else if k = OPCODE_CMD_TEST_CMD_1 then do { cs \<leftarrow> cmd_test_cmd_1 op cmd_seq args; Some (cs, st) }
         else if k = OPCODE_CMD_CLEAR_TRACKING then cmd_clear_tracking st op cmd_seq args
         else Some ([Cd_CmdResponse op cmd_seq CmdResponse_InvalidOpcode], st))"

section \<open>The tracker is a bounded map\<close>

locale array_map =
  fixes inv :: "'t \<Rightarrow> bool"
    and lookup :: "'t \<Rightarrow> u32 \<Rightarrow> 'e option"
    and insert_op :: "'t \<Rightarrow> u32 \<Rightarrow> 'e \<Rightarrow> bool \<times> 't"
    and remove_op :: "'t \<Rightarrow> u32 \<Rightarrow> 'e option \<times> 't"
    and bound :: nat
  assumes size_bound: "inv t \<Longrightarrow> finite (dom (lookup t)) \<and> card (dom (lookup t)) \<le> bound"
    and insert_spec: "inv t \<Longrightarrow>
      (if k \<in> dom (lookup t) \<or> card (dom (lookup t)) < bound
       then \<exists>t'. insert_op t k e = (True, t') \<and> inv t' \<and> lookup t' = (lookup t)(k \<mapsto> e)
       else insert_op t k e = (False, t))"
    and remove_spec: "inv t \<Longrightarrow>
      \<exists>t'. remove_op t k = (lookup t k, t') \<and> inv t' \<and> lookup t' = (lookup t)(k := None)"
begin

lemma insert_cases:
  assumes "inv t"
  obtains t' where "insert_op t k e = (True, t')" "inv t'" "lookup t' = (lookup t)(k \<mapsto> e)"
  | "insert_op t k e = (False, t)" "k \<notin> dom (lookup t)" "card (dom (lookup t)) = bound"
  using insert_spec [OF assms, of k e] size_bound [OF assms] by (auto split: if_splits)

lemma insert_remove:
  assumes "inv t" and "insert_op t k e = (True, t')" and "k \<notin> dom (lookup t)"
  shows "\<exists>t''. remove_op t' k = (Some e, t'') \<and> lookup t'' = lookup t"
proof -
  have t': "inv t'" "lookup t' = (lookup t)(k \<mapsto> e)"
    using insert_spec [OF assms(1), of k e] assms(2) by (auto split: if_splits)
  have "lookup t k = None" using assms(3) by (simp add: domIff)
  then show ?thesis using remove_spec [OF t'(1), of k] t'(2) by (auto simp: fun_upd_idem)
qed

end

definition entries :: "tracker \<Rightarrow> (u32 \<times> tracker_entry) list" where
  "entries t = map the (filter (\<lambda>s. s \<noteq> None) t)"

definition tracker_map :: "tracker \<Rightarrow> u32 \<Rightarrow> tracker_entry option" where
  "tracker_map t = map_of (entries t)"

definition wf_tracker :: "tracker \<Rightarrow> bool" where
  "wf_tracker t \<longleftrightarrow> length t = SEQUENCER_TABLE_SIZE \<and> distinct (map fst (entries t))"

lemma entries_simps [simp]: "entries [] = []" "entries (None # t) = entries t" "entries (Some x # t) = x # entries t"
  by (simp_all add: entries_def)

lemma overwrite_eq:
  "distinct (map fst (entries t)) \<Longrightarrow>
    (case tracker_overwrite t k e of
       None \<Rightarrow> k \<notin> fst ` set (entries t)
     | Some t' \<Rightarrow> k \<in> fst ` set (entries t) \<and> length t' = length t \<and> map fst (entries t') = map fst (entries t) \<and>
         (\<forall>j. map_of (entries t') j = (if j = k then Some e else map_of (entries t) j)))"
proof (induction t)
  case (Cons s ss)
  then show ?case
    by (cases s) (auto split: option.splits if_splits, metis)
qed simp

lemma occupy_eq:
  "k \<notin> fst ` set (entries t) \<Longrightarrow>
    (case tracker_occupy t k e of
       None \<Rightarrow> None \<notin> set t
     | Some t' \<Rightarrow> None \<in> set t \<and> length t' = length t \<and> mset (entries t') = add_mset (k, e) (mset (entries t)))"
proof (induction t)
  case (Cons s ss)
  then show ?case
    by (cases s) (auto split: option.splits)
qed simp

lemma remove_eq:
  "distinct (map fst (entries t)) \<Longrightarrow>
    \<exists>t'. tracker_remove t k = (map_of (entries t) k, t') \<and> length t' = length t \<and>
      entries t' = filter (\<lambda>x. fst x \<noteq> k) (entries t)"
proof (induction t)
  case (Cons s ss)
  show ?case
  proof (cases s)
    case None
    then show ?thesis using Cons by auto
  next
    case (Some x)
    obtain k' y where x: "x = (k', y)" by (cases x)
    have "filter (\<lambda>x. fst x \<noteq> k') (entries ss) = entries ss"
      using Cons.prems Some x by (auto simp: filter_id_conv)
    then show ?thesis using Cons Some x by (cases "k' = k") auto
  qed
qed simp

lemma entries_full: "None \<notin> set t \<Longrightarrow> length (entries t) = length t"
proof (induction t)
  case (Cons s t)
  then show ?case by (cases s) auto
qed simp

lemma card_tracker: "distinct (map fst (entries t)) \<Longrightarrow> card (dom (tracker_map t)) = length (entries t)"
  by (simp add: tracker_map_def dom_map_of_conv_image_fst distinct_card flip: set_map)

lemma map_of_without: "map_of (filter (\<lambda>x. fst x \<noteq> k) xs) = (map_of xs)(k := None)"
  by (induction xs) (auto simp: fun_eq_iff)

lemma map_of_mset:
  assumes "distinct (map fst xs)" and "mset xs = mset ys"
  shows "map_of xs = map_of ys"
proof (rule map_of_eqI)
  have "mset (map fst xs) = mset (map fst ys)" using assms(2) by simp
  then have d: "distinct (map fst ys)" and s: "set (map fst xs) = set (map fst ys)"
    using assms(1) mset_eq_imp_distinct_iff mset_eq_setD by blast+
  show "set (map fst xs) = set (map fst ys)" by (rule s)
  have "set xs = set ys" using assms(2) by (rule mset_eq_setD)
  then show "\<forall>k \<in> set (map fst xs). map_of xs k = map_of ys k"
    using assms(1) d by (metis eq_key_imp_eq_value map_of_eq_Some_iff not_None_eq option.exhaust)
qed

lemma entries_le: "length (entries t) \<le> length t"
  by (simp add: entries_def)

lemma entries_room: "None \<in> set t \<Longrightarrow> length (entries t) < length t"
  by (induction t) (auto simp: entries_def less_Suc_eq_le split: option.splits)

interpretation sequence_tracker: array_map wf_tracker tracker_map tracker_insert tracker_remove SEQUENCER_TABLE_SIZE
proof
  fix t k and e :: tracker_entry
  assume wf: "wf_tracker t"
  then have d: "distinct (map fst (entries t))" and len: "length t = SEQUENCER_TABLE_SIZE" by (simp_all add: wf_tracker_def)
  show "finite (dom (tracker_map t)) \<and> card (dom (tracker_map t)) \<le> SEQUENCER_TABLE_SIZE"
    using card_tracker [OF d] entries_le [of t] len by (simp add: tracker_map_def finite_dom_map_of)
  show "\<exists>t'. tracker_remove t k = (tracker_map t k, t') \<and> wf_tracker t' \<and> tracker_map t' = (tracker_map t)(k := None)"
  proof -
    obtain t' where t': "tracker_remove t k = (tracker_map t k, t')" "length t' = length t"
        "entries t' = filter (\<lambda>x. fst x \<noteq> k) (entries t)"
      using remove_eq [OF d, of k] by (auto simp: tracker_map_def)
    have "tracker_map t' = (tracker_map t)(k := None)"
      unfolding tracker_map_def t'(3) by (rule map_of_without)
    then show ?thesis using t' d len by (auto simp: wf_tracker_def distinct_map_filter)
  qed
  show "if k \<in> dom (tracker_map t) \<or> card (dom (tracker_map t)) < SEQUENCER_TABLE_SIZE
       then \<exists>t'. tracker_insert t k e = (True, t') \<and> wf_tracker t' \<and> tracker_map t' = (tracker_map t)(k \<mapsto> e)
       else tracker_insert t k e = (False, t)"
  proof (cases "tracker_overwrite t k e")
    case (Some t')
    then show ?thesis
      using overwrite_eq [OF d, of k e] len d
      by (auto simp: tracker_insert_def wf_tracker_def tracker_map_def dom_map_of_conv_image_fst fun_eq_iff)
  next
    case None
    then have k: "k \<notin> fst ` set (entries t)" using overwrite_eq [OF d, of k e] by simp
    show ?thesis
    proof (cases "tracker_occupy t k e")
      case None
      then have "length (entries t) = SEQUENCER_TABLE_SIZE" using occupy_eq [OF k, of e] entries_full [of t] len by simp
      then show ?thesis
        using \<open>tracker_overwrite t k e = None\<close> None k card_tracker [OF d]
        by (simp add: tracker_insert_def tracker_map_def dom_map_of_conv_image_fst)
    next
      case (Some t')
      then have t': "None \<in> set t" "length t' = length t" "mset (entries t') = add_mset (k, e) (mset (entries t))"
        using occupy_eq [OF k, of e] by simp_all
      have "mset (map fst (entries t')) = mset (k # map fst (entries t))" using t'(3) by simp
      then have d': "distinct (map fst (entries t'))" using d k by (metis distinct.simps(2) list.set_map mset_eq_imp_distinct_iff)
      have "mset (entries t') = mset ((k, e) # entries t)" using t'(3) by simp
      then have "map_of (entries t') = map_of ((k, e) # entries t)"
        using map_of_mset [OF d'] by blast
      then show ?thesis
        using \<open>tracker_overwrite t k e = None\<close> Some d' t' len card_tracker [OF d] entries_room [OF t'(1)]
        by (simp add: tracker_insert_def wf_tracker_def tracker_map_def)
    qed
  qed
qed

section \<open>What becomes of a command\<close>

definition disp_inv :: "dispatcher \<Rightarrow> bool" where
  "disp_inv st \<longleftrightarrow> wf_tracker (sequence_tracker st) \<and> distinct (map fst (entry_table st)) \<and>
     length (entry_table st) \<le> DISPATCH_TABLE_SIZE \<and>
     (\<forall>(op, p) \<in> set (entry_table st). p < CMD_DISPATCHER_COMMAND_PORTS) \<and>
     (\<forall>e \<in> ran (tracker_map (sequence_tracker st)). te_caller_port e < CMD_DISPATCHER_SEQUENCE_PORTS)"

definition status_reply :: "disp_conn \<Rightarrow> nat \<Rightarrow> u32 \<Rightarrow> u32 \<Rightarrow> CmdResponse \<Rightarrow> disp_call list" where
  "status_reply conn port op ctx r = (if seq_cmd_status_connected conn port then [Cd_SeqCmdStatus port op ctx r] else [])"

lemma seq_status_reply_eq: "port < 5 \<Longrightarrow> seq_status_reply conn port op ctx r = Some (status_reply conn port op ctx r)"
  by (simp add: seq_status_reply_def status_reply_def CMD_DISPATCHER_SEQUENCE_PORTS_def)

lemma cmd_packet_total:
  assumes "wf_buf b" and "wf_buf (arg_buffer p)"
  shows "\<exists>st p' b'. cmd_packet_deserialize_from p b Big = Some (st, p', b')"
  using assms
  by (auto simp: cmd_packet_deserialize_from_def fw_try_def deserialize_prim_eq copy_raw_eq size_left_eq Let_def split: if_splits)

lemma wf_cmd_packet_new [simp]: "wf_buf (arg_buffer cmd_packet_new)"
  by (simp add: cmd_packet_new_def)

lemma connected_target_eq:
  assumes "disp_inv st"
  shows "connected_target conn st op = Some (case map_of (entry_table st) op of
      None \<Rightarrow> None | Some p \<Rightarrow> if comp_cmd_send_connected conn p then Some p else None)"
proof (cases "map_of (entry_table st) op")
  case (Some p)
  then have "p < CMD_DISPATCHER_COMMAND_PORTS" using assms by (auto simp: disp_inv_def dest: map_of_SomeD)
  then show ?thesis using Some by (simp add: connected_target_def)
qed (simp add: connected_target_def)

definition target_port :: "disp_conn \<Rightarrow> dispatcher \<Rightarrow> u32 \<Rightarrow> nat option" where
  "target_port conn st op = (case map_of (entry_table st) op of
      None \<Rightarrow> None | Some p \<Rightarrow> if comp_cmd_send_connected conn p then Some p else None)"

definition tracked :: "dispatcher \<Rightarrow> u32 \<Rightarrow> tracker_entry option" where
  "tracked st = tracker_map (sequence_tracker st)"

lemma cadd_one: "unat (a :: u32) < 2 ^ 32 - 1 \<Longrightarrow> cadd a 1 = Some (a + 1)"
  by (simp add: cadd_def)

lemma seq_cmd_buff_malformed:
  assumes "cmd_packet_deserialize_from cmd_packet_new data Big = Some (stat, pkt, d)" and "stat \<noteq> Ok" and "port < 5"
  shows "seq_cmd_buff conn st port data ctx =
    Some (Cd_Event (MalformedCommand (malformed_status stat)) # status_reply conn port (opcode pkt) ctx CmdResponse_ValidationError, st)"
  using assms by (simp add: seq_cmd_buff_def seq_status_reply_eq)

lemma seq_cmd_buff_invalid:
  assumes "cmd_packet_deserialize_from cmd_packet_new data Big = Some (Ok, pkt, d)" and "disp_inv st"
    and "target_port conn st (opcode pkt) = None" and "port < 5" and "unat (num_cmd_errors st) < 2 ^ 32 - 1"
  shows "seq_cmd_buff conn st port data ctx =
    Some (Cd_Event (InvalidCommand (opcode pkt)) # status_reply conn port (opcode pkt) ctx CmdResponse_InvalidOpcode,
      st\<lparr>num_cmd_errors := num_cmd_errors st + 1, disp_seq := disp_seq st + 1\<rparr>)"
  using assms(1,3-) connected_target_eq [OF assms(2), of conn "opcode pkt", folded target_port_def]
  by (simp add: seq_cmd_buff_def seq_status_reply_eq cadd_one Let_def)

lemma seq_cmd_buff_untracked:
  assumes "cmd_packet_deserialize_from cmd_packet_new data Big = Some (Ok, pkt, d)" and "disp_inv st"
    and "target_port conn st (opcode pkt) = Some p" and "port < 5" and "\<not> seq_cmd_status_connected conn port"
    and "unat (num_cmds_dispatched st) < 2 ^ 32 - 1"
  shows "seq_cmd_buff conn st port data ctx =
    Some ([Cd_CompCmdSend p (opcode pkt) (disp_seq st) (arg_buffer pkt), Cd_Event (OpCodeDispatched (opcode pkt) p)],
      st\<lparr>num_cmds_dispatched := num_cmds_dispatched st + 1, disp_seq := disp_seq st + 1\<rparr>)"
  using assms(1,3-) connected_target_eq [OF assms(2), of conn "opcode pkt", folded target_port_def]
  by (simp add: seq_cmd_buff_def cadd_one CMD_DISPATCHER_SEQUENCE_PORTS_def Let_def)

lemma seq_cmd_buff_tracked:
  fixes ctx :: u32
  assumes "cmd_packet_deserialize_from cmd_packet_new data Big = Some (Ok, pkt, d)" and "disp_inv st"
    and "target_port conn st (opcode pkt) = Some p" and "port < 5" and "seq_cmd_status_connected conn port"
    and "unat (num_cmds_dispatched st) < 2 ^ 32 - 1"
  defines "e \<equiv> \<lparr>te_op_code = opcode pkt, te_context = ctx, te_caller_port = port\<rparr>"
  shows "if disp_seq st \<in> dom (tracked st) \<or> card (dom (tracked st)) < SEQUENCER_TABLE_SIZE
    then \<exists>tr. wf_tracker tr \<and> tracker_map tr = (tracked st)(disp_seq st \<mapsto> e) \<and> seq_cmd_buff conn st port data ctx =
      Some ([Cd_CompCmdSend p (opcode pkt) (disp_seq st) (arg_buffer pkt), Cd_Event (OpCodeDispatched (opcode pkt) p)],
        st\<lparr>sequence_tracker := tr, num_cmds_dispatched := num_cmds_dispatched st + 1, disp_seq := disp_seq st + 1\<rparr>)
    else seq_cmd_buff conn st port data ctx =
      Some (Cd_Event (TooManyCommands (opcode pkt)) # status_reply conn port (opcode pkt) ctx CmdResponse_ExecutionError, st)"
proof -
  have wf: "wf_tracker (sequence_tracker st)" using assms(2) by (simp add: disp_inv_def)
  note facts = assms(1,3-6) connected_target_eq [OF assms(2), of conn "opcode pkt", folded target_port_def]
  note ins = sequence_tracker.insert_spec [OF wf, of "disp_seq st" e, folded tracked_def]
  show ?thesis
  proof (cases "disp_seq st \<in> dom (tracked st) \<or> card (dom (tracked st)) < SEQUENCER_TABLE_SIZE")
    case True
    then obtain tr where tr: "tracker_insert (sequence_tracker st) (disp_seq st) e = (True, tr)" "wf_tracker tr"
        "tracker_map tr = (tracked st)(disp_seq st \<mapsto> e)"
      using ins by auto
    then have "seq_cmd_buff conn st port data ctx =
      Some ([Cd_CompCmdSend p (opcode pkt) (disp_seq st) (arg_buffer pkt), Cd_Event (OpCodeDispatched (opcode pkt) p)],
        st\<lparr>sequence_tracker := tr, num_cmds_dispatched := num_cmds_dispatched st + 1, disp_seq := disp_seq st + 1\<rparr>)"
      using facts by (simp add: seq_cmd_buff_def cadd_one CMD_DISPATCHER_SEQUENCE_PORTS_def Let_def e_def)
    with True tr show ?thesis by auto
  next
    case False
    then have "tracker_insert (sequence_tracker st) (disp_seq st) e = (False, sequence_tracker st)" using ins by auto
    with False facts show ?thesis
      by (simp add: seq_cmd_buff_def CMD_DISPATCHER_SEQUENCE_PORTS_def seq_status_reply_eq Let_def e_def)
  qed
qed

lemma disp_inv_simps [simp]:
  "disp_inv (st\<lparr>num_cmd_errors := a\<rparr>) = disp_inv st" "disp_inv (st\<lparr>disp_seq := b\<rparr>) = disp_inv st"
  "disp_inv (st\<lparr>num_cmds_dispatched := a\<rparr>) = disp_inv st" "disp_inv (st\<lparr>num_cmds_dropped := a\<rparr>) = disp_inv st"
  "disp_inv (st\<lparr>last_dropped := l\<rparr>) = disp_inv st" "disp_inv (st\<lparr>last_errors := l\<rparr>) = disp_inv st"
  "disp_inv (st\<lparr>last_dispatched := l\<rparr>) = disp_inv st" "disp_inv (st\<lparr>dropped_throttle := t\<rparr>) = disp_inv st"
  by (simp_all add: disp_inv_def)

lemma disp_inv_tracker:
  assumes "disp_inv st" and "wf_tracker tr" and "\<forall>e \<in> ran (tracker_map tr). te_caller_port e < 5"
  shows "disp_inv (st\<lparr>sequence_tracker := tr\<rparr>)"
  using assms by (simp add: disp_inv_def CMD_DISPATCHER_SEQUENCE_PORTS_def)

definition disposed ::
  "disp_conn \<Rightarrow> dispatcher \<Rightarrow> nat \<Rightarrow> u32 \<Rightarrow> SerializeStatus \<Rightarrow> cmd_packet \<Rightarrow> disp_call list \<Rightarrow> dispatcher \<Rightarrow> bool" where
  "disposed conn st port ctx stat pkt cs st' \<longleftrightarrow>
     (let op = opcode pkt in
      if stat \<noteq> Ok
      then cs = Cd_Event (MalformedCommand (malformed_status stat)) # status_reply conn port op ctx CmdResponse_ValidationError \<and>
           st' = st
      else case target_port conn st op of
        None \<Rightarrow> cs = Cd_Event (InvalidCommand op) # status_reply conn port op ctx CmdResponse_InvalidOpcode \<and>
                tracked st' = tracked st \<and> disp_seq st' = disp_seq st + 1
      | Some p \<Rightarrow>
          if seq_cmd_status_connected conn port \<and> disp_seq st \<notin> dom (tracked st) \<and>
             card (dom (tracked st)) = SEQUENCER_TABLE_SIZE
          then cs = Cd_Event (TooManyCommands op) # status_reply conn port op ctx CmdResponse_ExecutionError \<and> st' = st
          else cs = [Cd_CompCmdSend p op (disp_seq st) (arg_buffer pkt), Cd_Event (OpCodeDispatched op p)] \<and>
               tracked st' = (if seq_cmd_status_connected conn port
                 then (tracked st)(disp_seq st \<mapsto> \<lparr>te_op_code = op, te_context = ctx, te_caller_port = port\<rparr>)
                 else tracked st) \<and>
               disp_seq st' = disp_seq st + 1)"

lemma seq_cmd_buff_disposed:
  assumes inv: "disp_inv st" and "wf_buf data" and port: "port < 5"
    and cnt: "unat (num_cmds_dispatched st) < 2 ^ 32 - 1" "unat (num_cmd_errors st) < 2 ^ 32 - 1"
  shows "\<exists>stat pkt d cs st'. cmd_packet_deserialize_from cmd_packet_new data Big = Some (stat, pkt, d) \<and>
    seq_cmd_buff conn st port data ctx = Some (cs, st') \<and> disp_inv st' \<and> entry_table st' = entry_table st \<and>
    disposed conn st port ctx stat pkt cs st'"
proof -
  obtain stat pkt d where dec: "cmd_packet_deserialize_from cmd_packet_new data Big = Some (stat, pkt, d)"
    using cmd_packet_total [OF assms(2)] wf_cmd_packet_new by blast
  show ?thesis
  proof (cases "stat = Ok")
    case False
    then show ?thesis using seq_cmd_buff_malformed [OF dec False port] dec inv by (auto simp: disposed_def Let_def)
  next
    case True
    note dec = dec [unfolded True]
    show ?thesis
    proof (cases "target_port conn st (opcode pkt)")
      case None
      then show ?thesis
        using seq_cmd_buff_invalid [OF dec inv None port cnt(2)] dec inv by (auto simp: disposed_def tracked_def)
    next
      case tgt: (Some p)
      show ?thesis
      proof (cases "seq_cmd_status_connected conn port")
        case False
        then show ?thesis
          using seq_cmd_buff_untracked [OF dec inv tgt port False cnt(1)] dec inv tgt by (auto simp: disposed_def tracked_def)
      next
        case con: True
        let ?e = "\<lparr>te_op_code = opcode pkt, te_context = ctx, te_caller_port = port\<rparr>"
        have ports: "\<forall>e \<in> ran (tracked st). te_caller_port e < 5"
          using inv by (simp add: disp_inv_def tracked_def CMD_DISPATCHER_SEQUENCE_PORTS_def)
        have bd: "card (dom (tracked st)) \<le> SEQUENCER_TABLE_SIZE"
          using sequence_tracker.size_bound inv by (simp add: disp_inv_def tracked_def)
        have inv': "disp_inv (st\<lparr>sequence_tracker := tr, num_cmds_dispatched := a, disp_seq := b\<rparr>)"
          if "wf_tracker tr" "tracker_map tr = (tracked st)(disp_seq st \<mapsto> ?e)" for tr a b
        proof -
          have "\<forall>e \<in> ran (tracker_map tr). te_caller_port e < 5"
            unfolding that(2) using ports port by (auto simp: ran_def split: if_splits)
          then show ?thesis using disp_inv_tracker [OF inv that(1)] by simp
        qed
        note out = seq_cmd_buff_tracked [OF dec inv tgt port con cnt(1), of ctx]
        show ?thesis
        proof (cases "disp_seq st \<in> dom (tracked st) \<or> card (dom (tracked st)) < SEQUENCER_TABLE_SIZE")
          case True
          then obtain tr where tr: "wf_tracker tr" "tracker_map tr = (tracked st)(disp_seq st \<mapsto> ?e)"
            "seq_cmd_buff conn st port data ctx =
              Some ([Cd_CompCmdSend p (opcode pkt) (disp_seq st) (arg_buffer pkt), Cd_Event (OpCodeDispatched (opcode pkt) p)],
              st\<lparr>sequence_tracker := tr, num_cmds_dispatched := num_cmds_dispatched st + 1, disp_seq := disp_seq st + 1\<rparr>)"
            using out by auto
          have "tracked (st\<lparr>sequence_tracker := tr, num_cmds_dispatched := num_cmds_dispatched st + 1,
              disp_seq := disp_seq st + 1\<rparr>) = (tracked st)(disp_seq st \<mapsto> ?e)"
            by (simp add: tracked_def tr(2) [unfolded tracked_def])
          moreover have "\<not> (disp_seq st \<notin> dom (tracked st) \<and> card (dom (tracked st)) = SEQUENCER_TABLE_SIZE)"
            using True by auto
          ultimately show ?thesis
            using dec tr(3) inv' [OF tr(1,2)] tgt con by (simp add: disposed_def del: dom_def)
        next
          case False
          then have "disp_seq st \<notin> dom (tracked st) \<and> card (dom (tracked st)) = SEQUENCER_TABLE_SIZE" using bd by auto
          then show ?thesis using out dec tgt con False inv by (simp add: disposed_def)
        qed
      qed
    qed
  qed
qed

text \<open>
  C31: Every command packet, malformed ones included, gets exactly one disposition and the dispatcher
  never panics on it: a malformed packet, an unknown or unconnected opcode, or a full tracker is
  answered at once with the right status on the caller's port; any other command is forwarded to the
  component that registered the opcode, under a fresh sequence number, and is tracked with the
  caller's port and context exactly when the caller can be answered.  The invariant is kept.
\<close>

theorem command_disposition:
  assumes "disp_inv st" and "wf_buf data" and "port < 5"
    and "unat (num_cmds_dispatched st) < 2 ^ 32 - 1" and "unat (num_cmd_errors st) < 2 ^ 32 - 1"
  shows "\<exists>stat pkt d cs st'. cmd_packet_deserialize_from cmd_packet_new data Big = Some (stat, pkt, d) \<and>
    seq_cmd_buff conn st port data ctx = Some (cs, st') \<and> disp_inv st' \<and> disposed conn st port ctx stat pkt cs st'"
  using seq_cmd_buff_disposed [OF assms, of conn ctx] by blast

lemma dispatcher_new_inv: "disp_inv dispatcher_new" "tracked dispatcher_new = Map.empty"
proof -
  have "entries tracker_new = []" by (simp add: tracker_new_def entries_def)
  then show "disp_inv dispatcher_new" "tracked dispatcher_new = Map.empty"
    by (simp_all add: disp_inv_def dispatcher_new_def wf_tracker_def tracker_map_def tracked_def)
      (simp add: tracker_new_def)
qed

theorem command_disposition_witness:
  "\<exists>stat pkt d cs st'. cmd_packet_deserialize_from cmd_packet_new (linear_buffer_new 512) Big = Some (stat, pkt, d) \<and>
    seq_cmd_buff \<lparr>comp_cmd_send_connected = \<lambda>p. p = 3, seq_cmd_status_connected = \<lambda>p. True\<rparr> dispatcher_new 1 (linear_buffer_new 512) 7 =
      Some (cs, st') \<and> disp_inv st' \<and>
    disposed \<lparr>comp_cmd_send_connected = \<lambda>p. p = 3, seq_cmd_status_connected = \<lambda>p. True\<rparr> dispatcher_new 1 7 stat pkt cs st'"
  by (rule command_disposition) (simp_all add: dispatcher_new_inv, simp_all add: dispatcher_new_def)

end
