(* ===== verification/Svc_CmdRouting.thy ===== *)
theory Svc_CmdRouting
  imports Svc_CmdDispatcher
begin

text \<open>
  The command dispatcher under interleaved inputs: what any sequence of registrations, commands,
  completions and other inputs does to a command in flight (\<open>fprime-svc/src/cmd_dispatcher.rs\<close>,
  \<open>dispatch_message\<close> and the handlers it calls).
\<close>

section \<open>Sequences of inputs\<close>

datatype disp_in =
    InReg nat u32
  | InCmd nat ser_buf u32
  | InStat u32 u32 CmdResponse
  | InRun
  | InPing u32
  | InOverflow ser_buf u32
  | InOwn u32 u32 u32 ser_buf

fun disp_step :: "disp_conn \<Rightarrow> dispatcher \<Rightarrow> disp_in \<Rightarrow> (disp_call list \<times> dispatcher) option" where
  "disp_step conn st (InReg port op) = do { port \<leftarrow> comp_cmd_reg_in port; comp_cmd_reg_handler st port op }"
| "disp_step conn st (InCmd port data ctx) = seq_cmd_buff conn st port data ctx"
| "disp_step conn st (InStat op k r) = comp_cmd_stat conn st op k r"
| "disp_step conn st InRun = Some (disp_run st)"
| "disp_step conn st (InPing key) = Some (disp_ping_in key, st)"
| "disp_step conn st (InOverflow data ctx) = seq_cmd_buff_overflow_hook st data ctx"
| "disp_step conn st (InOwn base op k args) = own_command st base op k args"

fun disp_trace :: "disp_conn \<Rightarrow> dispatcher \<Rightarrow> disp_in list \<Rightarrow> (disp_call list \<times> dispatcher) option" where
  "disp_trace conn st [] = Some ([], st)"
| "disp_trace conn st (i # is) =
     do { (cs, st) \<leftarrow> disp_step conn st i; (cs', st) \<leftarrow> disp_trace conn st is; Some (cs @ cs', st) }"

text \<open>An input that ends the tracking of command \<open>n\<close>.\<close>

fun ends_tracking :: "u32 \<Rightarrow> disp_in \<Rightarrow> bool" where
  "ends_tracking n (InStat op k r) = (k = n)"
| "ends_tracking n (InOwn base op k args) = (op - base = OPCODE_CMD_CLEAR_TRACKING)"
| "ends_tracking n _ = False"

lemma seq_cmd_buff_Some:
  assumes "seq_cmd_buff conn st port data ctx = Some (cs, st')"
  shows "(disp_seq st' = disp_seq st \<or> disp_seq st' = disp_seq st + 1) \<and>
    (sequence_tracker st' = sequence_tracker st \<or>
     (\<exists>e. sequence_tracker st' = snd (tracker_insert (sequence_tracker st) (disp_seq st) e)))"
proof -
  obtain stat pkt d where dec: "cmd_packet_deserialize_from cmd_packet_new data Big = Some (stat, pkt, d)"
    using assms by (auto simp: seq_cmd_buff_def bind_eq_Some_conv)
  show ?thesis
  proof (cases "stat = Ok")
    case False
    then show ?thesis using assms dec by (auto simp: seq_cmd_buff_def bind_eq_Some_conv)
  next
    case True
    then obtain tgt where tgt: "connected_target conn st (opcode pkt) = Some tgt"
      using assms dec by (auto simp: seq_cmd_buff_def Let_def bind_eq_Some_conv)
    let ?e = "\<lparr>te_op_code = opcode pkt, te_context = ctx, te_caller_port = port\<rparr>"
    obtain b tr where ins: "tracker_insert (sequence_tracker st) (disp_seq st) ?e = (b, tr)" by fastforce
    show ?thesis
    proof (cases tgt)
      case None
      then show ?thesis using assms dec True tgt by (auto simp: seq_cmd_buff_def Let_def bind_eq_Some_conv)
    next
      case (Some p)
      then show ?thesis
        using assms dec True tgt ins
        by (cases "seq_cmd_status_connected conn port"; cases b)
          (auto simp: seq_cmd_buff_def Let_def bind_eq_Some_conv split: if_splits intro: exI [of _ ?e])
    qed
  qed
qed

lemma comp_cmd_stat_Some:
  assumes "comp_cmd_stat conn st op k r = Some (cs, st')"
  shows "disp_seq st' = disp_seq st \<and> sequence_tracker st' = snd (tracker_remove (sequence_tracker st) k)"
proof -
  obtain t tr where "tracker_remove (sequence_tracker st) k = (t, tr)" by fastforce
  then show ?thesis
    using assms by (cases t; cases "r = CmdResponse_Ok") (auto simp: comp_cmd_stat_def bind_eq_Some_conv split: if_splits)
qed

lemma own_command_Some:
  assumes "own_command st base op k args = Some (cs, st')"
  shows "disp_seq st' = disp_seq st \<and>
    (sequence_tracker st' = sequence_tracker st \<or>
     op - base = OPCODE_CMD_CLEAR_TRACKING \<and> sequence_tracker st' = tracker_clear (sequence_tracker st))"
  using assms
  by (auto simp: own_command_def cmd_clear_tracking_def Let_def bind_eq_Some_conv split: if_splits)

lemma disp_step_other:
  assumes "disp_step conn st i = Some (cs, st')"
    and "(\<exists>p op. i = InReg p op) \<or> i = InRun \<or> (\<exists>k. i = InPing k) \<or> (\<exists>d c. i = InOverflow d c)"
  shows "disp_seq st' = disp_seq st \<and> sequence_tracker st' = sequence_tracker st"
  using assms(2)
proof (elim disjE exE)
  fix p op assume "i = InReg p op"
  then show ?thesis
    using assms(1) by (cases "map_of (entry_table st) op") (auto simp: comp_cmd_reg_in_def comp_cmd_reg_handler_def split: if_splits)
next
  fix d c assume "i = InOverflow d c"
  then show ?thesis
    using assms(1) by (cases "ok_to_emit (dropped_throttle st)") (auto simp: seq_cmd_buff_overflow_hook_def bind_eq_Some_conv)
qed (use assms(1) in \<open>auto simp: disp_run_def\<close>)

text \<open>No step other than those loses a command whose number is not reused.\<close>

lemma disp_step_keeps:
  assumes "disp_step conn st i = Some (cs, st')" and "wf_tracker (sequence_tracker st)"
    and "tracked st n = Some e" and "\<not> ends_tracking n i" and "disp_seq st \<noteq> n"
  shows "wf_tracker (sequence_tracker st') \<and> tracked st' n = Some e \<and>
    (disp_seq st' = disp_seq st \<or> disp_seq st' = disp_seq st + 1)"
proof -
  have rm: "wf_tracker (snd (tracker_remove (sequence_tracker st) k)) \<and>
      tracker_map (snd (tracker_remove (sequence_tracker st) k)) = (tracked st)(k := None)" for k
    using sequence_tracker.remove_spec [OF assms(2), of k] by (auto simp: tracked_def)
  have ins: "wf_tracker (snd (tracker_insert (sequence_tracker st) (disp_seq st) x)) \<and>
      tracker_map (snd (tracker_insert (sequence_tracker st) (disp_seq st) x)) n = Some e" for x
    using assms(2,3,5)
    by (cases rule: sequence_tracker.insert_cases [OF assms(2), of "disp_seq st" x]) (auto simp: tracked_def)
  have other: ?thesis if "(\<exists>p op. i = InReg p op) \<or> i = InRun \<or> (\<exists>k. i = InPing k) \<or> (\<exists>d c. i = InOverflow d c)"
    using disp_step_other [OF assms(1) that] assms(2,3) by (simp add: tracked_def)
  show ?thesis
  proof (cases i)
    case (InCmd port data ctx)
    then show ?thesis
      using seq_cmd_buff_Some [of conn st port data ctx cs st'] assms(1-3) ins by (auto simp: tracked_def)
  next
    case (InStat op k r)
    then show ?thesis
      using comp_cmd_stat_Some [of conn st op k r cs st'] assms(1,3,4) rm [of k] by (auto simp: tracked_def)
  next
    case (InOwn base op k args)
    then show ?thesis
      using own_command_Some [of st base op k args cs st'] assms(1-4) by (auto simp: tracked_def)
  qed (use other in blast)+
qed

lemma disp_trace_keeps:
  assumes "disp_trace conn st is = Some (cs, st')" and "wf_tracker (sequence_tracker st)"
    and "tracked st n = Some e" and "\<forall>i \<in> set is. \<not> ends_tracking n i"
    and "0 < unat (disp_seq st - n)" and "unat (disp_seq st - n) + length is < 2 ^ 32"
  shows "wf_tracker (sequence_tracker st') \<and> tracked st' n = Some e"
  using assms
proof (induction "is" arbitrary: st cs)
  case (Cons i "is")
  obtain c1 s1 c2 where step: "disp_step conn st i = Some (c1, s1)" "disp_trace conn s1 is = Some (c2, st')"
    using Cons.prems(1) by (auto simp: bind_eq_Some_conv)
  have "disp_seq st \<noteq> n" using Cons.prems(5) by auto
  then have keep: "wf_tracker (sequence_tracker s1)" "tracked s1 n = Some e"
      "disp_seq s1 = disp_seq st \<or> disp_seq s1 = disp_seq st + 1"
    using disp_step_keeps [OF step(1) Cons.prems(2,3)] Cons.prems(4) by auto
  have succ: "unat (x + 1) = unat x + 1" if "unat x + 1 < 2 ^ 32" for x :: u32
    using that by (simp add: unat_word_ariths)
  have lt: "unat (disp_seq st - n) + 1 < 2 ^ 32" using Cons.prems(6) by simp
  have "disp_seq st + 1 - n = (disp_seq st - n) + 1" by simp
  then have "unat (disp_seq st + 1 - n) = unat (disp_seq st - n) + 1" by (simp only: succ [OF lt])
  then have "0 < unat (disp_seq s1 - n)" "unat (disp_seq s1 - n) + length is < 2 ^ 32"
    using keep(3) Cons.prems(5,6) by auto
  then show ?case using Cons.IH [OF step(2) keep(1,2)] Cons.prems(4) by simp
qed simp

lemma status_reply_not_send: "Cd_CompCmdSend p op n args \<notin> set (status_reply conn port x ctx r)"
  by (simp add: status_reply_def)

lemma seq_status_reply_Some: "seq_status_reply conn port op ctx r = Some cs \<Longrightarrow> cs = status_reply conn port op ctx r \<and> port < 5"
  by (auto simp: seq_status_reply_def status_reply_def CMD_DISPATCHER_SEQUENCE_PORTS_def bind_eq_Some_conv split: if_splits)

lemma seq_cmd_buff_sent:
  assumes "wf_tracker (sequence_tracker st)" and "seq_cmd_buff conn st port data ctx = Some (cs, st1)"
    and "Cd_CompCmdSend p op n args \<in> set cs" and "seq_cmd_status_connected conn port"
  shows "n = disp_seq st \<and> disp_seq st1 = n + 1 \<and> wf_tracker (sequence_tracker st1) \<and> port < 5 \<and>
    tracked st1 n = Some \<lparr>te_op_code = op, te_context = ctx, te_caller_port = port\<rparr>"
proof -
  obtain stat pkt d where dec: "cmd_packet_deserialize_from cmd_packet_new data Big = Some (stat, pkt, d)"
    using assms(2) by (auto simp: seq_cmd_buff_def bind_eq_Some_conv)
  have quiet: False if sent: "(seq_status_reply conn port x ctx r \<bind> (\<lambda>rs. Some (Cd_Event ev # rs, st'))) = Some (cs, st1)" for x r ev st'
  proof -
    obtain rs where "seq_status_reply conn port x ctx r = Some rs" "cs = Cd_Event ev # rs"
      using sent by (auto simp: bind_eq_Some_conv)
    then show False using seq_status_reply_Some status_reply_not_send assms(3) by fastforce
  qed
  have ok: "stat = Ok"
    using assms(2) dec quiet by (cases "stat = Ok") (simp_all add: seq_cmd_buff_def)
  obtain tgt where tgt: "connected_target conn st (opcode pkt) = Some tgt"
    using assms(2) dec ok by (auto simp: seq_cmd_buff_def Let_def bind_eq_Some_conv)
  have "tgt \<noteq> None"
  proof
    assume "tgt = None"
    then have "cadd (num_cmd_errors st) 1 \<bind> (\<lambda>n. seq_status_reply conn port (opcode pkt) ctx CmdResponse_InvalidOpcode \<bind>
        (\<lambda>r. Some (Cd_Event (InvalidCommand (opcode pkt)) # r, st\<lparr>num_cmd_errors := n, disp_seq := disp_seq st + 1\<rparr>))) = Some (cs, st1)"
      using assms(2) dec ok tgt by (simp add: seq_cmd_buff_def Let_def)
    then show False using quiet by (cases "cadd (num_cmd_errors st) 1") auto
  qed
  then obtain q where q: "tgt = Some q" by blast
  let ?e = "\<lparr>te_op_code = opcode pkt, te_context = ctx, te_caller_port = port\<rparr>"
  obtain b tr where ins: "tracker_insert (sequence_tracker st) (disp_seq st) ?e = (b, tr)" by fastforce
  have port: "port < CMD_DISPATCHER_SEQUENCE_PORTS"
    using assms(2) dec ok tgt q by (cases "port < CMD_DISPATCHER_SEQUENCE_PORTS") (simp_all add: seq_cmd_buff_def Let_def)
  have b: b
    using assms(2,4) dec ok tgt q ins port quiet by (cases b) (simp_all add: seq_cmd_buff_def Let_def)
  then have "wf_tracker tr" "tracker_map tr = (tracked st)(disp_seq st \<mapsto> ?e)"
    using sequence_tracker.insert_spec [OF assms(1), of "disp_seq st" ?e] ins by (auto simp: tracked_def split: if_splits)
  moreover have "cadd (num_cmds_dispatched st) 1 \<bind> (\<lambda>m. Some ([Cd_CompCmdSend q (opcode pkt) (disp_seq st) (arg_buffer pkt),
      Cd_Event (OpCodeDispatched (opcode pkt) q)],
      st\<lparr>sequence_tracker := tr, num_cmds_dispatched := m, disp_seq := disp_seq st + 1\<rparr>)) = Some (cs, st1)"
    using assms(2,4) dec ok tgt q ins b port by (simp add: seq_cmd_buff_def Let_def)
  ultimately show ?thesis
    using assms(3) port by (auto simp: bind_eq_Some_conv CMD_DISPATCHER_SEQUENCE_PORTS_def tracked_def)
qed

fun status_calls :: "disp_call list \<Rightarrow> disp_call list" where
  "status_calls [] = []"
| "status_calls (Cd_SeqCmdStatus p op ctx r # cs) = Cd_SeqCmdStatus p op ctx r # status_calls cs"
| "status_calls (c # cs) = status_calls cs"

text \<open>
  C32: A completion finds its way back.  Once a command of a caller with a connected status port has been
  forwarded under number \<open>n\<close>, then after any further sequence of fewer than \<open>2 ^ 32 - 1\<close> inputs
  (registrations, other callers' commands, other completions, overflows, telemetry cycles, own commands)
  without a completion of \<open>n\<close> and without \<open>CMD_CLEAR_TRACKING\<close>, the completion of \<open>n\<close> sends exactly one
  status: to that caller's port, with that caller's context and the component's response; and \<open>n\<close> is no
  longer tracked.  For a response other than \<open>OK\<close> the 32-bit error counter is not at its maximum.
\<close>

theorem response_routed:
  assumes "disp_inv st" and "seq_cmd_buff conn st port data ctx = Some (cs, st1)"
    and "Cd_CompCmdSend p op n args \<in> set cs" and "seq_cmd_status_connected conn port"
    and "disp_trace conn st1 ins = Some (cs', st2)" and "\<forall>i \<in> set ins. \<not> ends_tracking n i"
    and "length ins < 2 ^ 32 - 1" and "resp = CmdResponse_Ok \<or> unat (num_cmd_errors st2) < 2 ^ 32 - 1"
  shows "\<exists>cs'' st3. comp_cmd_stat conn st2 op n resp = Some (cs'', st3) \<and>
    status_calls cs'' = [Cd_SeqCmdStatus port op ctx resp] \<and> tracked st3 n = None"
proof -
  let ?e = "\<lparr>te_op_code = op, te_context = ctx, te_caller_port = port\<rparr>"
  have wf: "wf_tracker (sequence_tracker st)" using assms(1) by (simp add: disp_inv_def)
  have s1: "disp_seq st1 = n + 1" "wf_tracker (sequence_tracker st1)" "port < 5" "tracked st1 n = Some ?e"
    using seq_cmd_buff_sent [OF wf assms(2-4)] by auto
  have "0 < unat (disp_seq st1 - n)" "unat (disp_seq st1 - n) + length ins < 2 ^ 32" using s1(1) assms(7) by simp_all
  then have s2: "wf_tracker (sequence_tracker st2)" "tracker_map (sequence_tracker st2) n = Some ?e"
    using disp_trace_keeps [OF assms(5) s1(2,4) assms(6)] by (simp_all add: tracked_def)
  then obtain tr where tr: "tracker_remove (sequence_tracker st2) n = (Some ?e, tr)"
      "tracker_map tr = (tracker_map (sequence_tracker st2))(n := None)"
    using sequence_tracker.remove_spec [OF s2(1), of n] by auto
  then have "tracker_map tr n = None" by simp
  moreover have "\<exists>m. cadd (num_cmd_errors st2) 1 = Some m" if "resp \<noteq> CmdResponse_Ok"
    using assms(8) that cadd_one by blast
  ultimately show ?thesis
    using tr(1) s1(3) assms(4)
    by (cases "resp = CmdResponse_Ok")
      (auto simp: comp_cmd_stat_def seq_status_reply_eq status_reply_def tracked_def CMD_DISPATCHER_SEQUENCE_PORTS_def)
qed

definition example_conn :: disp_conn where
  "example_conn = \<lparr>comp_cmd_send_connected = \<lambda>p. p = 3, seq_cmd_status_connected = \<lambda>p. p = 1\<rparr>"

theorem response_routed_witness:
  "\<exists>cs st1 cs'' st3. seq_cmd_buff example_conn (dispatcher_new\<lparr>entry_table := [(0x102, 3)]\<rparr>) 1
      \<lparr>bytes = [0,0,0,0,1,2,7,8,9,0], ser_loc = 9, deser_loc = 0\<rparr> 77 = Some (cs, st1) \<and>
    comp_cmd_stat example_conn st1 0x102 0 CmdResponse_Busy = Some (cs'', st3) \<and>
    status_calls cs'' = [Cd_SeqCmdStatus 1 0x102 77 CmdResponse_Busy]"
proof -
  let ?st = "dispatcher_new\<lparr>entry_table := [(0x102, 3)]\<rparr>"
  let ?b = "\<lparr>bytes = [0,0,0,0,1,2,7,8,9,0], ser_loc = 9, deser_loc = 0\<rparr>"
  have inv: "disp_inv ?st"
    using dispatcher_new_inv(1) by (simp add: disp_inv_def DISPATCH_TABLE_SIZE_def CMD_DISPATCHER_COMMAND_PORTS_def)
  have "wf_buf ?b" "unread ?b = to_bytes Big (ComPacketType_repr FwPacketCommand) @ to_bytes Big (0x102 :: u32) @ [7,8,9]"
    by (simp_all add: buf_defs cmd_bytes_example [unfolded ComPacketType_repr.simps])
  from cmd_packet_decode [OF this, of cmd_packet_new] obtain pkt d where dec:
      "cmd_packet_deserialize_from cmd_packet_new ?b Big = Some (Ok, pkt, d)" "opcode pkt = 0x102"
    by (auto simp: cmd_packet_new_def linear_buffer_new_def capacity_def size_defs)
  have tgt: "target_port example_conn ?st (opcode pkt) = Some 3" by (simp add: target_port_def dec(2) example_conn_def)
  have "unat (num_cmds_dispatched ?st) < 2 ^ 32 - 1" "disp_seq ?st = 0" "num_cmd_errors ?st = 0" "tracked ?st = Map.empty"
    using dispatcher_new_inv(2) by (simp_all add: dispatcher_new_def tracked_def)
  then obtain args cs st1 where run: "seq_cmd_buff example_conn ?st 1 ?b 77 = Some (Cd_CompCmdSend 3 0x102 0 args # cs, st1)"
      "num_cmd_errors st1 = 0"
    using seq_cmd_buff_tracked [OF dec(1) inv tgt, of 1 77] dec(2)
    by (auto simp: example_conn_def SEQUENCER_TABLE_SIZE_def)
  have "\<exists>cs'' st3. comp_cmd_stat example_conn st1 0x102 0 CmdResponse_Busy = Some (cs'', st3) \<and>
      status_calls cs'' = [Cd_SeqCmdStatus 1 0x102 77 CmdResponse_Busy] \<and> tracked st3 0 = None"
    by (rule response_routed [OF inv run(1), of 3 "0x102" 0 args "[]" "[]" st1])
      (simp_all add: example_conn_def run(2))
  then show ?thesis using run(1) by blast
qed

end
