(* ===== verification/Svc_BufferManager.thy ===== *)
theory Svc_BufferManager
  imports Svc_Framer
begin

text \<open>
  The buffer pool manager (\<open>fprime-svc/src/buffer_manager.rs\<close>).  The state is the guarded state of the
  component with its two throttles; a handler returns what it sends and the new state.  Loans, the
  buffers handed out and not yet returned, are tracked by a step relation over the two ports.
\<close>

section \<open>The pool\<close>

definition MAX_NUM_BINS :: nat where "MAX_NUM_BINS = 10"
definition BM_EVENT_THROTTLE :: u32 where "BM_EVENT_THROTTLE = 10"

record buffer_bin =
  buffer_size :: nat
  num_buffers :: u16

record bm_slot =
  slot_storage :: "u8 list option"
  slot_size :: nat
  allocated :: bool

record buffer_manager =
  setup_done :: bool
  was_setup :: bool
  mgr_id :: u16
  slots :: "bm_slot list"
  high_water :: u32
  curr_buffs :: u32
  no_buffs :: u32
  empty_buffs :: u32
  last_tlm :: "u32 option list"
  no_buffs_throttle :: event_throttle
  null_empty_throttle :: event_throttle

definition bm_new :: buffer_manager where
  "bm_new = \<lparr>setup_done = False, was_setup = False, mgr_id = 0, slots = [], high_water = 0, curr_buffs = 0,
     no_buffs = 0, empty_buffs = 0, last_tlm = replicate 5 None,
     no_buffs_throttle = throttle_new BM_EVENT_THROTTLE, null_empty_throttle = throttle_new BM_EVENT_THROTTLE\<rparr>"

fun count_structs :: "u32 \<Rightarrow> buffer_bin list \<Rightarrow> u32 option" where
  "count_structs n [] = Some n"
| "count_structs n (b # bs) =
     do { left \<leftarrow> csub 0xFFFF n;
          fw_assert (left \<ge> ucast (num_buffers b));
          n \<leftarrow> cadd n (ucast (num_buffers b));
          count_structs n bs }"

definition bin_slots :: "buffer_bin \<Rightarrow> bm_slot list" where
  "bin_slots b = replicate (unat (num_buffers b))
     \<lparr>slot_storage = Some (replicate (buffer_size b) 0), slot_size = buffer_size b, allocated = False\<rparr>"

definition bm_setup :: "buffer_manager \<Rightarrow> u16 \<Rightarrow> buffer_bin list \<Rightarrow> buffer_manager option" where
  "bm_setup st mid bins =
     do { fw_assert (length bins \<le> MAX_NUM_BINS);
          fw_assert (\<not> setup_done st);
          _ \<leftarrow> count_structs 0 bins;
          Some (st\<lparr>mgr_id := mid, slots := concat (map bin_slots bins), setup_done := True, was_setup := True\<rparr>) }"

definition bm_cleanup :: "buffer_manager \<Rightarrow> buffer_manager option" where
  "bm_cleanup st =
     do { fw_assert (was_setup st);
          Some (if setup_done st then st\<lparr>slots := [], setup_done := False\<rparr> else st) }"

datatype bm_call = Bm_NoBuffsAvailable u64 | Bm_NullEmptyBuffer | Bm_Tlm u32 u32

text \<open>The first position that satisfies a predicate.\<close>

fun position :: "('a \<Rightarrow> bool) \<Rightarrow> 'a list \<Rightarrow> nat option" where
  "position P [] = None"
| "position P (x # xs) = (if P x then Some 0 else map_option Suc (position P xs))"

definition slot_context :: "u16 \<Rightarrow> nat \<Rightarrow> u32" where
  "slot_context mid i = push_bit 16 (ucast mid) OR of_nat i"

definition buffer_get_callee ::
  "buffer_manager \<Rightarrow> nat \<Rightarrow> (fw_buffer \<times> bm_call list \<times> buffer_manager) option" where
  "buffer_get_callee st n =
     do { fw_assert (setup_done st);
          case position (\<lambda>s. \<not> allocated s \<and> n \<le> slot_size s) (slots st) of
            Some i \<Rightarrow>
              do { c \<leftarrow> cadd (curr_buffs st) 1;
                   let st = st\<lparr>curr_buffs := c, high_water := (if c > high_water st then c else high_water st)\<rparr>;
                   let slot = slots st ! i;
                   storage \<leftarrow> slot_storage slot;
                   let st = st\<lparr>slots := (slots st)[i := slot\<lparr>allocated := True, slot_storage := None\<rparr>]\<rparr>;
                   buffer \<leftarrow> set_size (from_storage storage (slot_context (mgr_id st) i)) n;
                   Some (buffer, [], st) }
          | None \<Rightarrow>
              do { k \<leftarrow> cadd (no_buffs st) 1;
                   let (emit, t) = ok_to_emit (no_buffs_throttle st);
                   Some (buffer_empty, if emit then [Bm_NoBuffsAvailable (of_nat n)] else [],
                         st\<lparr>no_buffs := k, no_buffs_throttle := t\<rparr>) } }"

definition bm_send_in :: "buffer_manager \<Rightarrow> fw_buffer \<Rightarrow> (bm_call list \<times> buffer_manager) option" where
  "bm_send_in st b =
     do { fw_assert (setup_done st);
          if buffer_capacity b = 0 \<and> bsize b = 0
          then do { k \<leftarrow> cadd (empty_buffs st) 1;
                    let (emit, t) = ok_to_emit (null_empty_throttle st);
                    Some (if emit then [Bm_NullEmptyBuffer] else [],
                          st\<lparr>empty_buffs := k, null_empty_throttle := t\<rparr>) }
          else do {
            let context = buf_context b;
            let i = unat (context AND 0xFFFF);
            let mid = (ucast (drop_bit 16 context) :: u16);
            fw_assert (i < length (slots st));
            fw_assert (mid = mgr_id st);
            fw_assert (allocated (slots st ! i));
            fw_assert (buffer_capacity b = slot_size (slots st ! i));
            fw_assert (bsize b \<le> slot_size (slots st ! i));
            c \<leftarrow> csub (curr_buffs st) 1;
            Some ([], st\<lparr>slots := (slots st)[i := (slots st ! i)\<lparr>slot_storage := Some (storage b), allocated := False\<rparr>],
                        curr_buffs := c\<rparr>) } }"

definition bm_sched_in :: "buffer_manager \<Rightarrow> bm_call list \<times> buffer_manager" where
  "bm_sched_in st =
     (let vs = [(0x02, high_water st), (0x01, curr_buffs st), (0x00, of_nat (length (slots st))),
                (0x03, no_buffs st), (0x04, empty_buffs st)]
      in (concat (map (\<lambda>(old, ch, v). if old \<noteq> Some v then [Bm_Tlm ch v] else []) (zip (last_tlm st) vs)),
          st\<lparr>last_tlm := map (\<lambda>(ch, v). Some v) vs\<rparr>))"

section \<open>Context words\<close>

lemma slot_context_fields:
  assumes "i < 2 ^ 16"
  shows "unat (slot_context mid i AND 0xFFFF) = i" and "ucast (drop_bit 16 (slot_context mid i)) = mid"
proof -
  have m: "(0xFFFF :: u32) = mask 16" by (simp add: mask_eq_exp_minus_1)
  have bi: "k < 16" if "bit i k" for k
  proof (rule ccontr)
    assume "\<not> k < 16"
    then have "(2 :: nat) ^ 16 \<le> 2 ^ k" by (intro power_increasing) simp_all
    then have "i < 2 ^ k" using assms by linarith
    then show False using that by (simp add: bit_iff_odd)
  qed
  have "slot_context mid i AND 0xFFFF = (of_nat i :: u32)"
    unfolding slot_context_def m by (rule bit_word_eqI) (auto simp: bit_simps dest: bi)
  then show "unat (slot_context mid i AND 0xFFFF) = i" using assms by (simp add: unat_of_nat)
  show "ucast (drop_bit 16 (slot_context mid i)) = mid"
    unfolding slot_context_def by (rule bit_word_eqI) (auto simp: bit_simps dest: bi)
qed

lemma slot_context_inject: "i < 2 ^ 16 \<Longrightarrow> j < 2 ^ 16 \<Longrightarrow> slot_context mid i = slot_context mid j \<Longrightarrow> i = j"
  using slot_context_fields(1) by metis

lemma position_None: "position P xs = None \<longleftrightarrow> (\<forall>x \<in> set xs. \<not> P x)"
  by (induction xs) auto

lemma position_Some: "position P xs = Some i \<Longrightarrow> i < length xs \<and> P (xs ! i) \<and> (\<forall>j < i. \<not> P (xs ! j))"
  by (induction xs arbitrary: i) (auto simp: nth_Cons split: if_splits nat.splits)

section \<open>Loans\<close>

text \<open>Context and capacity of every buffer that is out.\<close>

type_synonym loans = "u32 \<Rightarrow> nat option"

definition slot_ok :: "nat option \<Rightarrow> bm_slot \<Rightarrow> bool" where
  "slot_ok loan s \<longleftrightarrow> 0 < slot_size s \<and> loan = (if allocated s then Some (slot_size s) else None) \<and>
     (\<not> allocated s \<longrightarrow> (\<exists>bs. slot_storage s = Some bs \<and> length bs = slot_size s))"

definition bm_inv :: "buffer_manager \<Rightarrow> loans \<Rightarrow> bool" where
  "bm_inv st L \<longleftrightarrow> setup_done st \<and> length (slots st) \<le> 65535 \<and>
     (\<forall>i < length (slots st). slot_ok (L (slot_context (mgr_id st) i)) (slots st ! i)) \<and>
     dom L \<subseteq> slot_context (mgr_id st) ` {..< length (slots st)} \<and>
     unat (curr_buffs st) = length (filter allocated (slots st))"

lemma length_filter_set:
  "i < length xs \<Longrightarrow> length (filter P (xs[i := x])) + (if P (xs ! i) then 1 else 0) =
    length (filter P xs) + (if P x then 1 else 0)"
proof (induction xs arbitrary: i)
  case (Cons y ys)
  then show ?case by (cases i) auto
qed simp

lemma bm_inv_slot:
  assumes "bm_inv st L" and "i < length (slots st)"
  shows "0 < slot_size (slots st ! i)" and "i < 2 ^ 16"
    and "allocated (slots st ! i) \<Longrightarrow> L (slot_context (mgr_id st) i) = Some (slot_size (slots st ! i))"
    and "\<not> allocated (slots st ! i) \<Longrightarrow> L (slot_context (mgr_id st) i) = None"
    and "\<not> allocated (slots st ! i) \<Longrightarrow> \<exists>bs. slot_storage (slots st ! i) = Some bs \<and> length bs = slot_size (slots st ! i)"
  using assms unfolding bm_inv_def slot_ok_def by auto

text \<open>Replacing slot \<open>i\<close> and the loan of its context together keeps the invariant.\<close>

lemma bm_inv_update:
  assumes inv: "bm_inv st L" and i: "i < length (slots st)" and sz: "slot_size s = slot_size (slots st ! i)"
    and free: "\<not> allocated s \<Longrightarrow> \<exists>bs. slot_storage s = Some bs \<and> length bs = slot_size s"
    and c: "unat c + (if allocated (slots st ! i) then 1 else 0) = unat (curr_buffs st) + (if allocated s then 1 else 0)"
  shows "bm_inv (st\<lparr>slots := (slots st)[i := s], curr_buffs := c, high_water := hw\<rparr>)
    (L(slot_context (mgr_id st) i := (if allocated s then Some (slot_size s) else None)))"
proof -
  have inj: "slot_context (mgr_id st) j = slot_context (mgr_id st) i \<longleftrightarrow> j = i" if "j < length (slots st)" for j
    using slot_context_inject [of j i] bm_inv_slot(2) [OF inv] that i by blast
  have "unat (curr_buffs st) = length (filter allocated (slots st))" using inv by (simp add: bm_inv_def)
  then have cnt: "unat c = length (filter allocated ((slots st)[i := s]))"
    using length_filter_set [OF i, of allocated s] c by linarith
  let ?L = "L(slot_context (mgr_id st) i := (if allocated s then Some (slot_size s) else None))"
  have ok: "slot_ok (?L (slot_context (mgr_id st) j)) ((slots st)[i := s] ! j)" if "j < length (slots st)" for j
  proof (cases "j = i")
    case True
    then show ?thesis using i sz free bm_inv_slot(1) [OF inv i] by (auto simp: slot_ok_def)
  next
    case False
    then show ?thesis using inv that inj [OF that] by (simp add: bm_inv_def)
  qed
  have "dom ?L \<subseteq> slot_context (mgr_id st) ` {..< length (slots st)}"
    using inv i unfolding bm_inv_def by auto
  then show ?thesis
    using inv cnt ok unfolding bm_inv_def by (simp del: fun_upd_apply)
qed

lemma buffer_get_miss:
  assumes "bm_inv st L" and "unat (no_buffs st) < 2 ^ 32 - 1"
    and "position (\<lambda>s. \<not> allocated s \<and> n \<le> slot_size s) (slots st) = None"
  shows "\<exists>ev st'. buffer_get_callee st n = Some (buffer_empty, ev, st') \<and> bm_inv st' L"
proof -
  have "cadd (no_buffs st) 1 = Some (no_buffs st + 1)" using assms(2) by (simp add: cadd_def)
  then show ?thesis
    using assms(1,3) by (cases "ok_to_emit (no_buffs_throttle st)") (simp add: buffer_get_callee_def bm_inv_def)
qed

lemma buffer_get_hit:
  assumes inv: "bm_inv st L" and Some: "position (\<lambda>s. \<not> allocated s \<and> n \<le> slot_size s) (slots st) = Some i"
  shows "\<exists>b st'. buffer_get_callee st n = Some (b, [], st') \<and> wf_buffer b \<and> bsize b = n \<and> storage b \<noteq> [] \<and>
    L (buf_context b) = None \<and> bm_inv st' (L(buf_context b \<mapsto> length (storage b)))"
proof -
  from Some have i: "i < length (slots st)" "\<not> allocated (slots st ! i)" "n \<le> slot_size (slots st ! i)"
    using position_Some by fastforce+
  obtain bs where bs: "slot_storage (slots st ! i) = Some bs" "length bs = slot_size (slots st ! i)"
    using bm_inv_slot(5) [OF inv i(1,2)] by blast
  have cb: "unat (curr_buffs st) \<le> 65535"
    using inv length_filter_le [of allocated "slots st"] unfolding bm_inv_def by linarith
  then have c: "cadd (curr_buffs st) 1 = Some (curr_buffs st + 1)" "unat (curr_buffs st + 1) = unat (curr_buffs st) + 1"
    by (simp_all add: cadd_def unat_word_ariths)
  let ?s = "(slots st ! i)\<lparr>allocated := True, slot_storage := None\<rparr>"
  let ?hw = "if curr_buffs st + 1 > high_water st then curr_buffs st + 1 else high_water st"
  let ?st = "st\<lparr>slots := (slots st)[i := ?s], curr_buffs := curr_buffs st + 1, high_water := ?hw\<rparr>"
  obtain b where b: "set_size (from_storage bs (slot_context (mgr_id st) i)) n = Some b" "wf_buffer b" "bsize b = n"
      "buf_context b = slot_context (mgr_id st) i" "storage b = bs"
    using set_size_eq [OF wf_from_storage(1), of n bs "slot_context (mgr_id st) i"] bs(2) i(3)
    by (auto simp: from_storage_def)
  have "buffer_get_callee st n = Some (b, [], ?st)"
    using inv Some c(1) bs(1) b(1) by (simp add: buffer_get_callee_def bm_inv_def Let_def)
  moreover have "bm_inv ?st (L(slot_context (mgr_id st) i := Some (slot_size (slots st ! i))))"
    using bm_inv_update [OF inv i(1), of ?s "curr_buffs st + 1" ?hw] i(2) c(2) by simp
  moreover have "storage b \<noteq> []" "L (buf_context b) = None"
    using bm_inv_slot(1,4) [OF inv i(1)] i(2) b(4,5) bs(2) by auto
  ultimately show ?thesis
    using b bs(2) by (simp del: fun_upd_apply)
qed

lemma bm_send_eq:
  assumes inv: "bm_inv st L" and b: "wf_buffer b" "L (buf_context b) = Some (length (storage b))"
  shows "\<exists>st'. bm_send_in st b = Some ([], st') \<and> bm_inv st' (L(buf_context b := None)) \<and> no_buffs st' = no_buffs st"
proof -
  obtain i where i: "i < length (slots st)" "buf_context b = slot_context (mgr_id st) i"
    using inv b(2) unfolding bm_inv_def by blast
  have i16: "i < 2 ^ 16" using bm_inv_slot(2) [OF inv i(1)] .
  have al: "allocated (slots st ! i)"
  proof (rule ccontr)
    assume "\<not> allocated (slots st ! i)"
    then show False using bm_inv_slot(4) [OF inv i(1)] b(2) i(2) by simp
  qed
  then have cap: "length (storage b) = slot_size (slots st ! i)" "0 < slot_size (slots st ! i)"
    using bm_inv_slot(1,3) [OF inv i(1)] b(2) i(2) by simp_all
  have "0 < unat (curr_buffs st)"
    using inv al i(1) by (auto simp: bm_inv_def filter_empty_conv)
  then have c: "csub (curr_buffs st) 1 = Some (curr_buffs st - 1)" by (simp add: csub_def)
  then have c': "unat (curr_buffs st) = 1 + unat (curr_buffs st - 1)" unfolding csub_eq_Some by simp
  let ?s = "(slots st ! i)\<lparr>slot_storage := Some (storage b), allocated := False\<rparr>"
  let ?st = "st\<lparr>slots := (slots st)[i := ?s], curr_buffs := curr_buffs st - 1, high_water := high_water st\<rparr>"
  have "bm_send_in st b = Some ([], ?st)"
    using inv b(1) cap i al c slot_context_fields [OF i16, of "mgr_id st"]
    by (auto simp: bm_send_in_def bm_inv_def buffer_capacity_def wf_buffer_def Let_def)
  moreover have "bm_inv ?st (L(slot_context (mgr_id st) i := None))"
    using bm_inv_update [OF inv i(1), of ?s "curr_buffs st - 1" "high_water st"] al cap c' by simp
  ultimately show ?thesis using i(2) by auto
qed

lemma card_loans:
  assumes "bm_inv st L"
  shows "card (dom L) = unat (curr_buffs st)"
proof -
  let ?A = "{i. i < length (slots st) \<and> allocated (slots st ! i)}"
  have "dom L = slot_context (mgr_id st) ` ?A"
  proof
    show "dom L \<subseteq> slot_context (mgr_id st) ` ?A"
    proof
      fix c
      assume c: "c \<in> dom L"
      then obtain i where i: "i < length (slots st)" "c = slot_context (mgr_id st) i"
        using assms unfolding bm_inv_def by blast
      have "L c \<noteq> None" using c by (simp add: domIff)
      then have "allocated (slots st ! i)" using i(2) bm_inv_slot(4) [OF assms i(1)] by (cases "allocated (slots st ! i)") simp_all
      then show "c \<in> slot_context (mgr_id st) ` ?A" using i by blast
    qed
  qed (use bm_inv_slot(3) [OF assms] in \<open>auto simp: domIff\<close>)
  moreover have "inj_on (slot_context (mgr_id st)) ?A"
    using bm_inv_slot(2) [OF assms] slot_context_inject by (auto simp: inj_on_def)
  ultimately have "card (dom L) = card ?A" by (simp add: card_image)
  then show ?thesis using assms by (simp add: bm_inv_def length_filter_conv_card)
qed

lemma count_structs_sum:
  "count_structs n bins = Some m \<Longrightarrow> unat n \<le> 65535 \<Longrightarrow>
    unat m \<le> 65535 \<and> unat m = unat n + length (concat (map bin_slots bins))"
proof (induction bins arbitrary: n)
  case (Cons b bins)
  obtain left k where *: "csub 0xFFFF n = Some left" "ucast (num_buffers b) \<le> left"
      "cadd n (ucast (num_buffers b)) = Some k" "count_structs k bins = Some m"
    using Cons.prems(1) by (auto simp: bind_eq_Some_conv split: if_splits)
  have nb: "unat (ucast (num_buffers b) :: u32) = unat (num_buffers b)"
    using unsigned_less [of "num_buffers b", where 'a = nat] by (simp add: unsigned_ucast_eq take_bit_nat_eq_self)
  have "65535 = unat n + unat left" "unat k = unat n + unat (num_buffers b)" "unat (num_buffers b) \<le> unat left"
    using *(1-3) nb by (simp_all add: csub_eq_Some cadd_eq_Some word_le_nat_alt)
  then show ?case using Cons.IH [OF *(4)] by (simp add: bin_slots_def)
qed simp

lemma bm_setup_inv:
  assumes "bm_setup bm_new mid bins = Some st" and "\<forall>b \<in> set bins. 0 < buffer_size b"
  shows "bm_inv st Map.empty"
proof -
  obtain n where n: "count_structs 0 bins = Some n" "st = bm_new\<lparr>mgr_id := mid, slots := concat (map bin_slots bins),
      setup_done := True, was_setup := True\<rparr>"
    using assms(1) by (auto simp: bm_setup_def bind_eq_Some_conv split: if_splits)
  have len: "length (slots st) \<le> 65535" using count_structs_sum [OF n(1)] n(2) by simp
  have ok: "slot_ok None s \<and> \<not> allocated s" if "s \<in> set (slots st)" for s
    using that assms(2) by (auto simp: n(2) bin_slots_def slot_ok_def)
  then have "filter allocated (slots st) = []" by (auto simp: filter_empty_conv)
  moreover have "setup_done st" "curr_buffs st = 0" by (simp_all add: n(2) bm_new_def)
  ultimately show ?thesis
    using len ok nth_mem unfolding bm_inv_def by auto
qed

section \<open>Every history of the pool\<close>

inductive bm_step :: "buffer_manager \<times> loans \<Rightarrow> buffer_manager \<times> loans \<Rightarrow> bool" where
  get: "buffer_get_callee st n = Some (b, evs, st') \<Longrightarrow>
    bm_step (st, L) (st', if storage b = [] then L else L(buf_context b \<mapsto> length (storage b)))"
| send: "wf_buffer b \<Longrightarrow> L (buf_context b) = Some (length (storage b)) \<Longrightarrow> bm_send_in st b = Some (evs, st') \<Longrightarrow>
    bm_step (st, L) (st', L(buf_context b := None))"
| null: "bm_send_in st buffer_empty = Some (evs, st') \<Longrightarrow> bm_step (st, L) (st', L)"
| sched: "bm_step (st, L) (snd (bm_sched_in st), L)"

inductive_cases bm_stepE: "bm_step (st, L) (st', L')"

inductive bm_reach :: "u16 \<Rightarrow> buffer_bin list \<Rightarrow> buffer_manager \<times> loans \<Rightarrow> bool" for mid bins where
  start: "bm_setup bm_new mid bins = Some st \<Longrightarrow> bm_reach mid bins (st, Map.empty)"
| step: "bm_reach mid bins x \<Longrightarrow> bm_step x y \<Longrightarrow> bm_reach mid bins y"

lemma bm_get_Some:
  assumes "bm_inv st L" and "buffer_get_callee st n = Some (b, evs, st')"
  shows "bm_inv st' (if storage b = [] then L else L(buf_context b \<mapsto> length (storage b)))"
proof (cases "position (\<lambda>s. \<not> allocated s \<and> n \<le> slot_size s) (slots st)")
  case None
  then show ?thesis
    using assms by (cases "ok_to_emit (no_buffs_throttle st)")
      (auto simp: buffer_get_callee_def bm_inv_def bind_eq_Some_conv buffer_empty_def)
next
  case (Some i)
  then show ?thesis using buffer_get_hit [OF assms(1) Some] assms(2) by (auto simp del: fun_upd_apply)
qed

lemma bm_step_inv: "bm_step (st, L) (st', L') \<Longrightarrow> bm_inv st L \<Longrightarrow> bm_inv st' L'"
proof (elim bm_stepE)
  fix n b evs
  assume "bm_inv st L" "buffer_get_callee st n = Some (b, evs, st')"
    "L' = (if storage b = [] then L else L(buf_context b \<mapsto> length (storage b)))"
  then show "bm_inv st' L'" using bm_get_Some by simp
next
  fix b evs
  assume "bm_inv st L" "wf_buffer b" "L (buf_context b) = Some (length (storage b))" "bm_send_in st b = Some (evs, st')"
    "L' = L(buf_context b := None)"
  then show "bm_inv st' L'" using bm_send_eq [of st L b] by auto
next
  fix evs
  assume "bm_inv st L" "bm_send_in st buffer_empty = Some (evs, st')" "L' = L"
  then show "bm_inv st' L'"
    by (cases "ok_to_emit (null_empty_throttle st)")
      (auto simp: bm_send_in_def buffer_empty_def buffer_capacity_def bm_inv_def bind_eq_Some_conv)
next
  assume "bm_inv st L" "st' = snd (bm_sched_in st)" "L' = L"
  then show "bm_inv st' L'" by (simp add: bm_sched_in_def Let_def bm_inv_def)
qed

lemma bm_reach_inv:
  assumes "bm_reach mid bins x" and "\<forall>b \<in> set bins. 0 < buffer_size b"
  shows "bm_inv (fst x) (snd x)"
  using assms
proof (induction rule: bm_reach.induct)
  case (start st)
  then show ?case using bm_setup_inv by simp
next
  case (step x y)
  then show ?case using bm_step_inv [of "fst x" "snd x" "fst y" "snd y"] by simp
qed

text \<open>
  C33: The pool never lends a buffer twice, never loses one and never panics.  After any history of
  requests, returns of lent buffers (with any content and window the borrower left), returns of
  empty buffers and telemetry cycles: the current count is the number of buffers out; a request
  succeeds exactly when a free slot is large enough, and then yields a buffer of the requested size
  whose context is not on loan; and every buffer on loan can be returned.
\<close>

theorem buffer_pool_safe:
  assumes "bm_reach mid bins (st, L)" and "\<forall>b \<in> set bins. 0 < buffer_size b"
  shows "card (dom L) = unat (curr_buffs st) \<and>
    (unat (no_buffs st) < 2 ^ 32 - 1 \<longrightarrow>
      (\<exists>b ev st'. buffer_get_callee st n = Some (b, ev, st') \<and>
        (if \<exists>s \<in> set (slots st). \<not> allocated s \<and> n \<le> slot_size s
         then wf_buffer b \<and> bsize b = n \<and> storage b \<noteq> [] \<and> L (buf_context b) = None
         else b = buffer_empty))) \<and>
    (\<forall>b. wf_buffer b \<and> L (buf_context b) = Some (length (storage b)) \<longrightarrow>
      (\<exists>st'. bm_send_in st b = Some ([], st') \<and> bm_inv st' (L(buf_context b := None))))"
proof -
  have inv: "bm_inv st L" using bm_reach_inv [OF assms] by simp
  have "\<exists>b ev st'. buffer_get_callee st n = Some (b, ev, st') \<and>
        (if \<exists>s \<in> set (slots st). \<not> allocated s \<and> n \<le> slot_size s
         then wf_buffer b \<and> bsize b = n \<and> storage b \<noteq> [] \<and> L (buf_context b) = None
         else b = buffer_empty)" if "unat (no_buffs st) < 2 ^ 32 - 1"
  proof (cases "position (\<lambda>s. \<not> allocated s \<and> n \<le> slot_size s) (slots st)")
    case None
    then have "\<not> (\<exists>s \<in> set (slots st). \<not> allocated s \<and> n \<le> slot_size s)" by (simp add: position_None)
    then show ?thesis using buffer_get_miss [OF inv that None] by auto
  next
    case (Some i)
    then have "\<exists>s \<in> set (slots st). \<not> allocated s \<and> n \<le> slot_size s"
      using position_None [of "\<lambda>s. \<not> allocated s \<and> n \<le> slot_size s" "slots st"] by auto
    then show ?thesis using buffer_get_hit [OF inv Some] by auto
  qed
  then show ?thesis using card_loans [OF inv] bm_send_eq [OF inv] by blast
qed

theorem buffer_pool_safe_witness:
  "\<exists>st b ev st'. bm_setup bm_new 7 [\<lparr>buffer_size = 16, num_buffers = 2\<rparr>] = Some st \<and>
    buffer_get_callee st 9 = Some (b, ev, st') \<and> wf_buffer b \<and> bsize b = 9"
proof -
  let ?bins = "[\<lparr>buffer_size = 16, num_buffers = 2\<rparr>]"
  obtain st where st: "bm_setup bm_new 7 ?bins = Some st" "no_buffs st = 0"
      "slots st = bin_slots \<lparr>buffer_size = 16, num_buffers = 2\<rparr>"
    by (simp add: bm_setup_def MAX_NUM_BINS_def bm_new_def csub_def cadd_def word_le_nat_alt)
  have fit: "\<exists>s \<in> set (slots st). \<not> allocated s \<and> 9 \<le> slot_size s"
    unfolding st(3) by (simp add: bin_slots_def)
  have "bm_reach 7 ?bins (st, Map.empty)" using st(1) by (rule bm_reach.start)
  then show ?thesis
    using buffer_pool_safe [of 7 ?bins st Map.empty 9] st fit by auto
qed

section \<open>The framer on the pool\<close>

text \<open>The framer's \<open>bufferAllocate\<close> port connected to the manager.\<close>

definition bm_alloc :: "buffer_manager \<Rightarrow> nat \<Rightarrow> fw_buffer \<times> buffer_manager" where
  "bm_alloc st n = (case buffer_get_callee st n of Some (b, ev, st') \<Rightarrow> (b, st') | None \<Rightarrow> (buffer_empty, st))"

text \<open>
  C34: Framing from the pool leaks nothing.  With the framer's allocator port on the buffer manager, a
  payload is framed exactly when a free slot holds the whole frame; the frame then sent is a buffer
  newly on loan, and giving it back through the framer's return port restores the loans.  Otherwise
  nothing is sent, the payload goes back and no buffer stays out.
\<close>

theorem framer_pool_no_leak:
  assumes "bm_inv st L" and "wf_buffer data" and "bsize data < 2 ^ 32" and "unat (no_buffs st) < 2 ^ 32 - 1"
  shows "\<exists>calls f' st'. framer_data_in bm_alloc f st data ctx = Some (calls, f', st') \<and>
    (if \<exists>s \<in> set (slots st). \<not> allocated s \<and> 12 + bsize data \<le> slot_size s
     then \<exists>out st''. calls = [Fr_DataOut out ctx, Fr_DataReturnOut data ctx] \<and> window out = frame_of (window data) \<and>
       L (buf_context out) = None \<and> framer_data_return_in out = [Fr_Deallocate out] \<and>
       bm_send_in st' out = Some ([], st'') \<and> bm_inv st'' L
     else (\<exists>ev. calls = ev @ [Fr_DataReturnOut data ctx] \<and> set ev \<subseteq> {Fr_NoBufferAvailable}) \<and> bm_inv st' L)"
proof (cases "position (\<lambda>s. \<not> allocated s \<and> 12 + bsize data \<le> slot_size s) (slots st)")
  case None
  then have none: "\<not> (\<exists>s \<in> set (slots st). \<not> allocated s \<and> 12 + bsize data \<le> slot_size s)" by (simp add: position_None)
  obtain ev st' where get: "buffer_get_callee st (12 + bsize data) = Some (buffer_empty, ev, st')" "bm_inv st' L"
    using buffer_get_miss [OF assms(1,4) None] by blast
  have "bm_alloc st (12 + bsize data) = (buffer_empty, st')" using get(1) by (simp add: bm_alloc_def)
  moreover have "\<not> is_valid buffer_empty" by (simp add: is_valid_def buffer_empty_def)
  ultimately show ?thesis
    using framer_no_buffer [of data bm_alloc st buffer_empty st' f ctx, OF assms(3)] none get(2) by auto
next
  case (Some i)
  then have fit: "\<exists>s \<in> set (slots st). \<not> allocated s \<and> 12 + bsize data \<le> slot_size s"
    using position_None [of "\<lambda>s. \<not> allocated s \<and> 12 + bsize data \<le> slot_size s" "slots st"] by auto
  obtain b st' where b: "buffer_get_callee st (12 + bsize data) = Some (b, [], st')" "wf_buffer b" "bsize b = 12 + bsize data"
      "storage b \<noteq> []" "L (buf_context b) = None" "bm_inv st' (L(buf_context b \<mapsto> length (storage b)))"
    using buffer_get_hit [OF assms(1) Some] by blast
  have al: "bm_alloc st (12 + bsize data) = (b, st')" using b(1) by (simp add: bm_alloc_def)
  have valid: "is_valid b" using b(3,4) by (simp add: is_valid_def)
  obtain out where out: "framer_data_in bm_alloc f st data ctx =
        Some ([Fr_DataOut out ctx, Fr_DataReturnOut data ctx], f, st')" "wf_buffer out"
      "window out = frame_of (window data)" "length (storage out) = length (storage b)" "buf_context out = buf_context b"
    using framer_frames [of data bm_alloc st b st' f ctx, OF assms(2,3) al b(2) _ valid] b(3) by auto
  have "(L(buf_context b \<mapsto> length (storage b))) (buf_context out) = Some (length (storage out))" using out(4,5) by simp
  then obtain st'' where "bm_send_in st' out = Some ([], st'')" "bm_inv st'' ((L(buf_context b \<mapsto> length (storage b)))(buf_context out := None))"
    using bm_send_eq [OF b(6) out(2)] by blast
  moreover have "(L(buf_context b \<mapsto> length (storage b)))(buf_context out := None) = L"
    using b(5) out(5) by (simp add: fun_upd_idem)
  ultimately show ?thesis
    using fit out b(5) by (auto simp: framer_data_return_in_def)
qed

theorem framer_pool_no_leak_witness:
  "\<exists>st calls f' st'. bm_setup bm_new 7 [\<lparr>buffer_size = 16, num_buffers = 2\<rparr>] = Some st \<and>
    framer_data_in bm_alloc framer_new st (from_storage [1, 2] 0) frame_context_default = Some (calls, f', st') \<and>
    (\<exists>out. calls = [Fr_DataOut out frame_context_default, Fr_DataReturnOut (from_storage [1, 2] 0) frame_context_default])"
proof -
  let ?bins = "[\<lparr>buffer_size = 16, num_buffers = 2\<rparr>]"
  obtain st where st: "bm_setup bm_new 7 ?bins = Some st" "no_buffs st = 0"
      "slots st = bin_slots \<lparr>buffer_size = 16, num_buffers = 2\<rparr>"
    by (simp add: bm_setup_def MAX_NUM_BINS_def bm_new_def csub_def cadd_def word_le_nat_alt)
  have fit: "\<exists>s \<in> set (slots st). \<not> allocated s \<and> 12 + bsize (from_storage [1, 2] 0) \<le> slot_size s"
    unfolding st(3) by (simp add: bin_slots_def from_storage_def)
  have inv: "bm_inv st Map.empty" using bm_setup_inv [OF st(1)] by simp
  have "bsize (from_storage [1, 2] 0) < 2 ^ 32" "unat (no_buffs st) < 2 ^ 32 - 1"
    using st(2) by (simp_all add: from_storage_def)
  from framer_pool_no_leak [OF inv wf_from_storage(1) this, of framer_new frame_context_default] show ?thesis
    using fit st(1) by auto
qed

end
