(* ===== verification/Cfdp_Chunks.thy ===== *)
theory Cfdp_Chunks
  imports Fw_Prelude
begin

text \<open>
  Chunk lists of the CFDP manager (\<open>fprime-svc/src/ccsds/cfdp_manager/chunk.rs\<close>): the received parts of
  a file, sorted and merged, in an array of fixed size.  Array indices (\<open>u16\<close> in the code) are
  natural numbers: none exceeds the number of chunks.  Offsets and sizes keep their width.
\<close>

section \<open>The chunk list\<close>

record chunk =
  ch_offset :: u32
  ch_size :: u32

record chunk_list =
  cl_count :: nat
  cl_max :: nat
  cl_chunks :: "chunk list"

definition chunk_default :: chunk where
  "chunk_default = \<lparr>ch_offset = 0, ch_size = 0\<rparr>"

definition chunk_list_new :: "nat \<Rightarrow> chunk_list option" where
  "chunk_list_new n =
     do { fw_assert (n > 0);
          Some \<lparr>cl_count = 0, cl_max = n, cl_chunks = replicate n chunk_default\<rparr> }"

definition chunk_reset :: "chunk_list \<Rightarrow> chunk_list" where
  "chunk_reset cl = cl\<lparr>cl_count := 0, cl_chunks := replicate (length (cl_chunks cl)) chunk_default\<rparr>"

definition insert_chunk :: "chunk_list \<Rightarrow> nat \<Rightarrow> chunk \<Rightarrow> chunk_list option" where
  "insert_chunk cl i c =
     do { fw_assert (cl_count cl < cl_max cl);
          fw_assert (i \<le> cl_count cl);
          cs \<leftarrow> (if cl_count cl > 0 \<and> i \<noteq> cl_count cl then copy_within (cl_chunks cl) i (cl_count cl) (i + 1)
                 else Some (cl_chunks cl));
          cs \<leftarrow> store cs i c;
          Some (cl\<lparr>cl_chunks := cs, cl_count := cl_count cl + 1\<rparr>) }"

definition erase_chunk :: "chunk_list \<Rightarrow> nat \<Rightarrow> chunk_list option" where
  "erase_chunk cl i =
     do { fw_assert (cl_count cl > 0);
          fw_assert (i < cl_count cl);
          cs \<leftarrow> copy_within (cl_chunks cl) (i + 1) (cl_count cl) i;
          n \<leftarrow> usub (cl_count cl) 1;
          Some (cl\<lparr>cl_chunks := cs, cl_count := n\<rparr>) }"

definition erase_range :: "chunk_list \<Rightarrow> nat \<Rightarrow> nat \<Rightarrow> chunk_list option" where
  "erase_range cl s e =
     do { fw_assert (e \<le> cl_count cl);
          if s < e
          then do { cs \<leftarrow> copy_within (cl_chunks cl) e (cl_count cl) s;
                    n \<leftarrow> usub (cl_count cl) (e - s);
                    Some (cl\<lparr>cl_chunks := cs, cl_count := n\<rparr>) }
          else Some cl }"

function find_position :: "chunk list \<Rightarrow> u32 \<Rightarrow> nat \<Rightarrow> nat \<Rightarrow> nat option" where
  "find_position cs off first cnt =
     (if cnt > 0
      then do { let k = cnt div 2;
                let i = first + k;
                c \<leftarrow> index cs i;
                if ch_offset c < off then find_position cs off (i + 1) (cnt - (k + 1))
                else find_position cs off first k }
      else Some first)"
  by pat_completeness auto
termination
  by (relation "measure (\<lambda>(cs, off, first, cnt). cnt)") auto

declare find_position.simps [simp del]

definition find_insert_position :: "chunk_list \<Rightarrow> chunk \<Rightarrow> nat option" where
  "find_insert_position cl c = find_position (cl_chunks cl) (ch_offset c) 0 (cl_count cl)"

function combined_index :: "chunk list \<Rightarrow> nat \<Rightarrow> u32 \<Rightarrow> nat \<Rightarrow> nat option" where
  "combined_index cs cnt chunk_end k =
     (if k < cnt
      then do { c \<leftarrow> index cs k;
                if chunk_end < ch_offset c then Some k else combined_index cs cnt chunk_end (k + 1) }
      else Some k)"
  by pat_completeness auto
termination
  by (relation "measure (\<lambda>(cs, cnt, chunk_end, k). cnt - k)") auto

declare combined_index.simps [simp del]

definition combine_next :: "chunk_list \<Rightarrow> nat \<Rightarrow> chunk \<Rightarrow> (bool \<times> chunk_list) option" where
  "combine_next cl i c =
     do { let chunk_end = ch_offset c + ch_size c;
          fw_assert (chunk_end > ch_offset c);
          k \<leftarrow> combined_index (cl_chunks cl) (cl_count cl) chunk_end i;
          if i \<noteq> k
          then do { j \<leftarrow> usub k 1;
                    l \<leftarrow> index (cl_chunks cl) j;
                    le \<leftarrow> cadd (ch_offset l) (ch_size l);
                    let chunk_end = max chunk_end le;
                    sz \<leftarrow> csub chunk_end (ch_offset c);
                    cs \<leftarrow> store (cl_chunks cl) i \<lparr>ch_offset = ch_offset c, ch_size = sz\<rparr>;
                    cl \<leftarrow> erase_range (cl\<lparr>cl_chunks := cs\<rparr>) (i + 1) k;
                    Some (True, cl) }
          else Some (False, cl) }"

definition combine_previous :: "chunk_list \<Rightarrow> nat \<Rightarrow> chunk \<Rightarrow> (bool \<times> chunk_list) option" where
  "combine_previous cl i c =
     do { fw_assert (i \<le> cl_max cl);
          if i > 0
          then do { chunk_end \<leftarrow> cadd (ch_offset c) (ch_size c);
                    prev \<leftarrow> index (cl_chunks cl) (i - 1);
                    prev_end \<leftarrow> cadd (ch_offset prev) (ch_size prev);
                    if ch_offset c \<le> prev_end
                    then if prev_end < chunk_end
                         then do { sz \<leftarrow> csub chunk_end (ch_offset prev);
                                   cs \<leftarrow> store (cl_chunks cl) (i - 1) (prev\<lparr>ch_size := sz\<rparr>);
                                   Some (True, cl\<lparr>cl_chunks := cs\<rparr>) }
                         else Some (True, cl)
                    else Some (False, cl) }
          else Some (False, cl) }"

fun smallest_from :: "chunk list \<Rightarrow> nat \<Rightarrow> nat list \<Rightarrow> nat option" where
  "smallest_from cs smallest [] = Some smallest"
| "smallest_from cs smallest (i # is) =
     do { a \<leftarrow> index cs i;
          b \<leftarrow> index cs smallest;
          smallest_from cs (if ch_size a < ch_size b then i else smallest) is }"

definition find_smallest_size :: "chunk_list \<Rightarrow> nat option" where
  "find_smallest_size cl = smallest_from (cl_chunks cl) 0 [1..<cl_count cl]"

definition chunk_insert :: "chunk_list \<Rightarrow> nat \<Rightarrow> chunk \<Rightarrow> chunk_list option" where
  "chunk_insert cl i c =
     do { (combined, cl) \<leftarrow> combine_next cl i c;
          if combined
          then do { merged \<leftarrow> index (cl_chunks cl) i;
                    (previous, cl) \<leftarrow> combine_previous cl i merged;
                    if previous then erase_chunk cl i else Some cl }
          else do { (previous, cl) \<leftarrow> combine_previous cl i c;
                    if previous then Some cl
                    else if cl_count cl < cl_max cl then insert_chunk cl i c
                    else do { smallest_i \<leftarrow> find_smallest_size cl;
                              s \<leftarrow> index (cl_chunks cl) smallest_i;
                              if ch_size s < ch_size c
                              then do { cl \<leftarrow> erase_chunk cl smallest_i;
                                        at \<leftarrow> find_insert_position cl c;
                                        insert_chunk cl at c }
                              else Some cl } } }"

definition chunk_add :: "chunk_list \<Rightarrow> u32 \<Rightarrow> u32 \<Rightarrow> chunk_list option" where
  "chunk_add cl off sz =
     (if sz = 0 then Some cl
      else do { let c = \<lparr>ch_offset = off, ch_size = sz\<rparr>;
                i \<leftarrow> find_insert_position cl c;
                fw_assert (cadd off sz \<noteq> None);
                chunk_insert cl i c })"

definition get_first_chunk :: "chunk_list \<Rightarrow> chunk option option" where
  "get_first_chunk cl = (if cl_count cl > 0 then map_option Some (index (cl_chunks cl) 0) else Some None)"

definition remove_from_first :: "chunk_list \<Rightarrow> u32 \<Rightarrow> chunk_list option" where
  "remove_from_first cl n =
     do { c \<leftarrow> index (cl_chunks cl) 0;
          let n = min n (ch_size c);
          sz \<leftarrow> csub (ch_size c) n;
          if sz = 0
          then do { cs \<leftarrow> store (cl_chunks cl) 0 (c\<lparr>ch_size := sz\<rparr>); erase_chunk (cl\<lparr>cl_chunks := cs\<rparr>) 0 }
          else do { off \<leftarrow> cadd (ch_offset c) n;
                    cs \<leftarrow> store (cl_chunks cl) 0 \<lparr>ch_offset = off, ch_size = sz\<rparr>;
                    Some (cl\<lparr>cl_chunks := cs\<rparr>) } }"

section \<open>Gaps\<close>

text \<open>The gaps are the chunks passed to the callback; the code returns their number.\<close>

function gaps_loop :: "chunk_list \<Rightarrow> nat \<Rightarrow> u32 \<Rightarrow> u32 \<Rightarrow> nat \<Rightarrow> nat \<Rightarrow> chunk list option" where
  "gaps_loop cl max_gaps total_size start ret i =
     (if ret < max_gaps \<and> i < cl_count cl
      then do {
        next_off \<leftarrow> (if i = cl_count cl - 1 then Some total_size
                     else do { c \<leftarrow> index (cl_chunks cl) (i + 1); Some (ch_offset c) });
        current \<leftarrow> index (cl_chunks cl) i;
        let gap_start = ch_offset current + ch_size current;
        let off = (if gap_start > start then gap_start else start);
        if gap_start \<ge> total_size then Some []
        else if start < next_off
        then do { gs \<leftarrow> gaps_loop cl max_gaps total_size start (ret + 1) (i + 1);
                  Some (\<lparr>ch_offset = off, ch_size = next_off - off\<rparr> # gs) }
        else gaps_loop cl max_gaps total_size start ret (i + 1) }
      else Some [])"
  by pat_completeness auto
termination
  by (relation "measure (\<lambda>(cl, max_gaps, total_size, start, ret, i). cl_count cl - i)") auto

declare gaps_loop.simps [simp del]

definition compute_gaps :: "chunk_list \<Rightarrow> nat \<Rightarrow> u32 \<Rightarrow> u32 \<Rightarrow> chunk list option" where
  "compute_gaps cl max_gaps total_size start =
     (if total_size = 0 then Some []
      else do {
        fw_assert (start < total_size);
        if cl_count cl = 0 then Some [\<lparr>ch_offset = 0, ch_size = total_size\<rparr>]
        else do {
          c \<leftarrow> index (cl_chunks cl) 0;
          first \<leftarrow> (if start < ch_offset c
                    then do { sz \<leftarrow> csub (ch_offset c) start; Some [\<lparr>ch_offset = start, ch_size = sz\<rparr>] }
                    else Some []);
          gs \<leftarrow> gaps_loop cl max_gaps total_size start (length first) 0;
          Some (first @ gs) } })"

section \<open>The live part of the array\<close>

definition live :: "chunk_list \<Rightarrow> chunk list" where
  "live cl = take (cl_count cl) (cl_chunks cl)"

definition cl_ok :: "chunk_list \<Rightarrow> bool" where
  "cl_ok cl \<longleftrightarrow> cl_count cl \<le> cl_max cl \<and> length (cl_chunks cl) = cl_max cl"

lemma length_live [simp]: "cl_ok cl \<Longrightarrow> length (live cl) = cl_count cl"
  by (simp add: cl_ok_def live_def)

lemma live_nth: "cl_ok cl \<Longrightarrow> i < cl_count cl \<Longrightarrow> index (cl_chunks cl) i = Some (live cl ! i)"
  by (simp add: cl_ok_def live_def)

lemma copy_up:
  assumes "i \<le> n" and "n < length xs"
  shows "copy_within xs i n (i + 1) = Some (take (i + 1) xs @ take (n - i) (drop i xs) @ drop (n + 1) xs)"
  using assms by (simp add: copy_within_def min_absorb2)

lemma copy_down:
  assumes "s \<le> e" and "e \<le> n" and "n \<le> length xs"
  shows "copy_within xs e n s = Some (take s xs @ take (n - e) (drop e xs) @ drop (s + (n - e)) xs)"
  using assms by (simp add: copy_within_def min_absorb2)

lemma insert_chunk_eq:
  assumes ok: "cl_ok cl" and room: "cl_count cl < cl_max cl" and i: "i \<le> cl_count cl"
  shows "\<exists>cl'. insert_chunk cl i c = Some cl' \<and> cl_ok cl' \<and> cl_max cl' = cl_max cl \<and>
    live cl' = take i (live cl) @ c # drop i (live cl)"
proof (cases "i = cl_count cl")
  case True
  then show ?thesis
    using assms by (auto simp: insert_chunk_def cl_ok_def live_def take_Suc_conv_app_nth list_update_append)
next
  case False
  then show ?thesis
    using assms copy_up [of i "cl_count cl" "cl_chunks cl"]
    by (auto simp: insert_chunk_def cl_ok_def live_def take_Suc_conv_app_nth list_update_append drop_take Suc_diff_le)
qed

lemma copy_down_live:
  assumes "s \<le> e" and "e \<le> n" and "n \<le> length xs"
  shows "take (n - (e - s)) (take s xs @ take (n - e) (drop e xs) @ zs) = take s (take n xs) @ drop e (take n xs)"
proof -
  have "n - (e - s) = length (take s xs @ take (n - e) (drop e xs))"
    using assms by simp
  then show ?thesis
    using assms by (simp only: append_assoc [symmetric] append_eq_conv_conj [THEN iffD1, OF refl])
      (simp add: drop_take min_absorb1)
qed

lemma erase_range_eq:
  assumes "cl_ok cl" and "s \<le> e" and "e \<le> cl_count cl"
  shows "\<exists>cl'. erase_range cl s e = Some cl' \<and> cl_ok cl' \<and> cl_max cl' = cl_max cl \<and>
    live cl' = take s (live cl) @ drop e (live cl)"
proof (cases "s = e")
  case False
  then show ?thesis
    using assms copy_down [of s e "cl_count cl" "cl_chunks cl"] copy_down_live [of s e "cl_count cl" "cl_chunks cl"]
    by (auto simp: erase_range_def cl_ok_def live_def min_absorb2)
qed (use assms in \<open>simp add: erase_range_def\<close>)

lemma erase_chunk_eq:
  assumes "cl_ok cl" and "i < cl_count cl"
  shows "\<exists>cl'. erase_chunk cl i = Some cl' \<and> cl_ok cl' \<and> cl_max cl' = cl_max cl \<and>
    cl_count cl' = cl_count cl - 1 \<and> live cl' = take i (live cl) @ drop (Suc i) (live cl)"
  using assms copy_down [of i "Suc i" "cl_count cl" "cl_chunks cl"]
    copy_down_live [of i "Suc i" "cl_count cl" "cl_chunks cl"]
  by (auto simp: erase_chunk_def cl_ok_def live_def min_absorb2)

lemma store_live:
  assumes "cl_ok cl" and "i < cl_count cl"
  shows "store (cl_chunks cl) i c = Some ((cl_chunks cl)[i := c])"
    and "cl_ok (cl\<lparr>cl_chunks := (cl_chunks cl)[i := c]\<rparr>)"
    and "live (cl\<lparr>cl_chunks := (cl_chunks cl)[i := c]\<rparr>) = (live cl)[i := c]"
  using assms by (auto simp: cl_ok_def live_def take_update_swap)

section \<open>Chunks as intervals\<close>

definition lo :: "chunk \<Rightarrow> nat" where
  "lo c = unat (ch_offset c)"

definition hi :: "chunk \<Rightarrow> nat" where
  "hi c = unat (ch_offset c) + unat (ch_size c)"

definition cover :: "chunk list \<Rightarrow> nat set" where
  "cover cs = (\<Union>c\<in>set cs. {lo c..<hi c})"

definition proper :: "chunk \<Rightarrow> bool" where
  "proper c \<longleftrightarrow> lo c < hi c \<and> hi c < 2 ^ 32"

definition separated :: "chunk list \<Rightarrow> bool" where
  "separated cs \<longleftrightarrow> sorted_wrt (\<lambda>a b. hi a < lo b) cs \<and> (\<forall>c\<in>set cs. proper c)"

definition cl_inv :: "chunk_list \<Rightarrow> bool" where
  "cl_inv cl \<longleftrightarrow> cl_ok cl \<and> 0 < cl_max cl \<and> separated (live cl)"

lemma cover_append [simp]: "cover (xs @ ys) = cover xs \<union> cover ys"
  by (auto simp: cover_def)

lemma cover_Cons [simp]: "cover (c # cs) = {lo c..<hi c} \<union> cover cs"
  by (auto simp: cover_def)

lemma cover_Nil [simp]: "cover [] = {}"
  by (simp add: cover_def)

lemma cover_mem: "x \<in> cover cs \<longleftrightarrow> (\<exists>c\<in>set cs. lo c \<le> x \<and> x < hi c)"
  by (auto simp: cover_def)

lemma separated_append:
  "separated (xs @ ys) \<longleftrightarrow> separated xs \<and> separated ys \<and> (\<forall>a\<in>set xs. \<forall>b\<in>set ys. hi a < lo b)"
  by (auto simp: separated_def sorted_wrt_append)

lemma separated_Cons:
  "separated (c # cs) \<longleftrightarrow> proper c \<and> separated cs \<and> (\<forall>b\<in>set cs. hi c < lo b)"
  by (auto simp: separated_def)

lemma separated_Nil [simp]: "separated []"
  by (simp add: separated_def)

lemma separated_proper: "separated cs \<Longrightarrow> c \<in> set cs \<Longrightarrow> proper c"
  by (simp add: separated_def)

lemma properD: "proper c \<Longrightarrow> lo c < hi c" "proper c \<Longrightarrow> hi c < 4294967296"
  by (auto simp: proper_def)

lemma chunk_end_hi:
  assumes "hi c < 4294967296"
  shows "cadd (ch_offset c) (ch_size c) = Some (ch_offset c + ch_size c)"
    and "unat (ch_offset c + ch_size c) = hi c"
  using assms by (auto simp: cadd_def hi_def unat_add_lem [THEN iffD1])

lemma resized:
  assumes "unat e = h" and "unat off < h"
  shows "csub e off = Some (e - off)"
    and "lo \<lparr>ch_offset = off, ch_size = e - off\<rparr> = unat off"
    and "hi \<lparr>ch_offset = off, ch_size = e - off\<rparr> = h"
  using assms by (auto simp: csub_def lo_def hi_def unat_sub word_le_nat_alt)

section \<open>The searches\<close>

lemma find_position_eq:
  assumes ok: "first + cnt \<le> cl_count cl" "cl_ok cl"
    and ord: "sorted_wrt (\<lambda>a b. lo a < lo b) (live cl)"
    and below: "\<forall>j<first. lo (live cl ! j) < unat off"
    and above: "\<forall>j. first + cnt \<le> j \<and> j < cl_count cl \<longrightarrow> unat off \<le> lo (live cl ! j)"
  shows "\<exists>p. find_position (cl_chunks cl) off first cnt = Some p \<and> p \<le> cl_count cl \<and>
    (\<forall>j<p. lo (live cl ! j) < unat off) \<and> (\<forall>j. p \<le> j \<and> j < cl_count cl \<longrightarrow> unat off \<le> lo (live cl ! j))"
  using ok(1) below above
proof (induction "cl_chunks cl" off first cnt rule: find_position.induct)
  case (1 off first cnt)
  show ?case
  proof (cases "cnt > 0")
    case False
    then show ?thesis
      using 1(3-) by (subst find_position.simps) auto
  next
    case True
    let ?i = "first + cnt div 2"
    have i: "?i < cl_count cl"
      using 1(3) True by (simp add: div_less_dividend less_le_trans)
    have mono: "lo (live cl ! j) < lo (live cl ! k)" if "j < k" "k < cl_count cl" for j k
      using sorted_wrt_nth_less [OF ord that(1)] that(2) ok(2) by simp
    have get: "index (cl_chunks cl) ?i = Some (live cl ! ?i)"
      by (rule live_nth [OF ok(2) i])
    have c: "ch_offset (live cl ! ?i) < off \<longleftrightarrow> lo (live cl ! ?i) < unat off"
      by (simp add: lo_def word_less_nat_alt)
    show ?thesis
    proof (cases "lo (live cl ! ?i) < unat off")
      case below: True
      have pre: "\<forall>j<?i + 1. lo (live cl ! j) < unat off"
      proof (intro allI impI)
        fix j
        assume "j < ?i + 1"
        then show "lo (live cl ! j) < unat off"
          using below mono [of j ?i] i by (cases "j = ?i") auto
      qed
      have cnt: "?i + 1 + (cnt - (cnt div 2 + 1)) = first + cnt"
        using True by simp
      have "find_position (cl_chunks cl) off first cnt =
          find_position (cl_chunks cl) off (?i + 1) (cnt - (cnt div 2 + 1))"
        using True get c below by (subst find_position.simps) (simp add: Let_def)
      then show ?thesis
        using 1(1) [OF True refl refl, of "live cl ! ?i"] 1(3,5) get cnt pre c below by (simp only: simp_thms)
    next
      case above: False
      have post: "\<forall>j. ?i \<le> j \<and> j < cl_count cl \<longrightarrow> unat off \<le> lo (live cl ! j)"
      proof (intro allI impI, elim conjE)
        fix j
        assume "?i \<le> j" and "j < cl_count cl"
        then show "unat off \<le> lo (live cl ! j)"
          using above mono [of ?i j] by (cases "j = ?i") auto
      qed
      have "find_position (cl_chunks cl) off first cnt = find_position (cl_chunks cl) off first (cnt div 2)"
        using True get c above by (subst find_position.simps) (simp add: Let_def)
      then show ?thesis
        using 1(2) [OF True refl refl, of "live cl ! ?i"] 1(4) get i post c above by (simp only: simp_thms less_imp_le)
    qed
  qed
qed

lemma separated_sorted: "separated cs \<Longrightarrow> sorted_wrt (\<lambda>a b. lo a < lo b) cs"
  by (induction cs) (auto simp: separated_Cons proper_def intro: less_trans)

lemma find_insert_position_eq:
  assumes "cl_inv cl"
  obtains A B where "live cl = A @ B" and "find_insert_position cl c = Some (length A)"
    and "\<forall>a\<in>set A. lo a < lo c" and "\<forall>b\<in>set B. lo c \<le> lo b"
proof -
  have inv: "cl_ok cl" "separated (live cl)"
    using assms by (auto simp: cl_inv_def)
  obtain p where p: "find_position (cl_chunks cl) (ch_offset c) 0 (cl_count cl) = Some p" "p \<le> cl_count cl"
    and split: "\<forall>j<p. lo (live cl ! j) < lo c" "\<forall>j. p \<le> j \<and> j < cl_count cl \<longrightarrow> lo c \<le> lo (live cl ! j)"
    using find_position_eq [of 0 "cl_count cl" cl "ch_offset c"] inv separated_sorted [of "live cl"]
    by (auto simp: lo_def)
  show thesis
  proof (rule that [of "take p (live cl)" "drop p (live cl)"])
    show "find_insert_position cl c = Some (length (take p (live cl)))"
      using p inv by (simp add: find_insert_position_def)
    show "\<forall>a\<in>set (take p (live cl)). lo a < lo c"
      using split(1) by (auto simp: in_set_conv_nth)
    show "\<forall>b\<in>set (drop p (live cl)). lo c \<le> lo b"
      using split(2) inv by (auto simp: in_set_conv_nth)
  qed simp
qed

lemma combined_index_eq:
  assumes ok: "cl_ok cl" and k: "k \<le> cl_count cl"
  shows "combined_index (cl_chunks cl) (cl_count cl) e k =
    Some (k + length (takeWhile (\<lambda>c. lo c \<le> unat e) (drop k (live cl))))"
  using k
proof (induction "cl_chunks cl" "cl_count cl" e k rule: combined_index.induct)
  case (1 e k)
  show ?case
  proof (cases "k < cl_count cl")
    case True
    then have "drop k (live cl) = live cl ! k # drop (Suc k) (live cl)"
      using ok by (simp add: Cons_nth_drop_Suc)
    then show ?thesis
      using 1(1) [OF True, of "live cl ! k"] True live_nth [OF ok True]
      by (subst combined_index.simps) (auto simp: lo_def word_less_nat_alt not_less)
  next
    case False
    then show ?thesis
      using 1(2) ok by (subst combined_index.simps) simp
  qed
qed

section \<open>Merging\<close>

lemma combine_next_none:
  assumes "cl_ok cl" and "live cl = A @ B" and "proper c" and "\<forall>b\<in>set B. hi c < lo b"
  shows "combine_next cl (length A) c = Some (False, cl)"
proof -
  have "length A \<le> cl_count cl"
    using assms length_live [of cl] by simp
  moreover have "takeWhile (\<lambda>b. lo b \<le> hi c) B = []"
    using assms(4) by (cases B) auto
  ultimately show ?thesis
    using assms combined_index_eq [of cl "length A" "ch_offset c + ch_size c"] chunk_end_hi [of c]
    by (simp add: combine_next_def properD word_less_nat_alt lo_def [symmetric])
qed

lemma combine_next_some:
  assumes ok: "cl_ok cl" and live: "live cl = A @ M @ B" and M: "M \<noteq> []" and c: "proper c"
    and touch: "\<forall>m\<in>set M. lo m \<le> hi c" and beyond: "\<forall>b\<in>set B. hi c < lo b" and last: "proper (last M)"
  shows "\<exists>cl' d. combine_next cl (length A) c = Some (True, cl') \<and> cl_ok cl' \<and> cl_max cl' = cl_max cl \<and>
    live cl' = A @ d # B \<and> lo d = lo c \<and> hi d = max (hi c) (hi (last M))"
proof -
  let ?i = "length A" and ?k = "length A + length M"
  let ?e = "max (ch_offset c + ch_size c) (ch_offset (last M) + ch_size (last M))"
  have cnt: "cl_count cl = length A + length M + length B" "0 < length M"
    using length_live [OF ok] live M by auto
  have "takeWhile (\<lambda>b. lo b \<le> hi c) (M @ B) = M"
    using touch beyond by (cases B) (auto simp: takeWhile_append)
  then have k: "combined_index (cl_chunks cl) (cl_count cl) (ch_offset c + ch_size c) ?i = Some ?k"
    using combined_index_eq [OF ok, of ?i "ch_offset c + ch_size c"] live cnt chunk_end_hi [of c] c
    by (simp add: properD)
  have get: "index (cl_chunks cl) (?k - 1) = Some (last M)"
    using live_nth [OF ok, of "?k - 1"] cnt live M
    by (cases M rule: rev_cases) (simp_all add: nth_append)
  have e: "unat ?e = max (hi c) (hi (last M))"
    using chunk_end_hi(2) [of c] chunk_end_hi(2) [of "last M"] c last
    by (auto simp: properD max_def word_le_nat_alt)
  have usub: "usub ?k 1 = Some (?k - 1)"
    by (rule usub_Some) (use cnt(2) in linarith)
  have lt: "unat (ch_offset c) < max (hi c) (hi (last M))"
    using properD(1) [OF c] by (simp add: lo_def)
  define d where "d = \<lparr>ch_offset = ch_offset c, ch_size = ?e - ch_offset c\<rparr>"
  have d: "csub ?e (ch_offset c) = Some (?e - ch_offset c)" "lo d = lo c" "hi d = max (hi c) (hi (last M))"
    using resized [OF e lt] by (auto simp: d_def lo_def)
  let ?cl = "cl\<lparr>cl_chunks := (cl_chunks cl)[?i := d]\<rparr>"
  have i: "?i < cl_count cl"
    using cnt by simp
  obtain cl' where cl': "erase_range ?cl (?i + 1) ?k = Some cl'" "cl_ok cl'" "cl_max cl' = cl_max cl"
      "live cl' = take (?i + 1) ((live cl)[?i := d]) @ drop ?k ((live cl)[?i := d])"
    using erase_range_eq [of ?cl "?i + 1" ?k] store_live [OF ok i, of d] cnt by auto
  have "live cl' = A @ d # B"
    using cl'(4) live M by (cases M) (auto simp: list_update_append)
  moreover have "combine_next cl ?i c = Some (True, cl')"
    using k usub get d(1) cl'(1) store_live(1) [OF ok i, of d] M chunk_end_hi [of c] chunk_end_hi [of "last M"] c last
    by (simp add: combine_next_def properD word_less_nat_alt lo_def [symmetric] d_def Let_def)
  ultimately show ?thesis
    using cl' d by blast
qed

lemma combine_previous_none:
  assumes "cl_ok cl" and "live cl = A @ B" and "proper c" and "\<forall>a\<in>set A. proper a \<and> hi a < lo c"
  shows "combine_previous cl (length A) c = Some (False, cl)"
proof (cases A rule: rev_cases)
  case Nil
  then show ?thesis
    by (simp add: combine_previous_def)
next
  case (snoc A' p)
  have "index (cl_chunks cl) (length A') = Some p" "length A \<le> cl_max cl"
    using live_nth [of cl "length A'"] length_live [of cl] assms snoc by (auto simp: cl_ok_def)
  then show ?thesis
    using assms snoc chunk_end_hi [of c] chunk_end_hi [of p]
    by (simp add: combine_previous_def properD word_le_nat_alt lo_def [symmetric])
qed

lemma combine_previous_some:
  assumes ok: "cl_ok cl" and live: "live cl = A @ p # B" and c: "proper c" and p: "proper p"
    and ord: "lo p < lo c" and touch: "lo c \<le> hi p"
  shows "\<exists>cl' q. combine_previous cl (Suc (length A)) c = Some (True, cl') \<and> cl_ok cl' \<and> cl_max cl' = cl_max cl \<and>
    cl_count cl' = cl_count cl \<and> live cl' = A @ q # B \<and> lo q = lo p \<and> hi q = max (hi c) (hi p)"
proof -
  have i: "length A < cl_count cl"
    using length_live [OF ok] live by simp
  have get: "index (cl_chunks cl) (length A) = Some p" "Suc (length A) \<le> cl_max cl"
    using live_nth [OF ok i] live i ok by (auto simp: cl_ok_def)
  let ?e = "ch_offset c + ch_size c"
  note ends = chunk_end_hi [of c] chunk_end_hi [of p]
  show ?thesis
  proof (cases "hi p < hi c")
    case False
    then show ?thesis
      using get touch ends c p ok live
      by (intro exI [of _ cl] exI [of _ p])
        (auto simp: combine_previous_def properD word_le_nat_alt word_less_nat_alt lo_def [symmetric])
  next
    case True
    define q where "q = p\<lparr>ch_size := ?e - ch_offset p\<rparr>"
    have q: "csub ?e (ch_offset p) = Some (?e - ch_offset p)" "lo q = lo p" "hi q = hi c"
      using resized [of ?e "hi c" "ch_offset p"] ends c ord properD [OF c]
      by (auto simp: q_def lo_def hi_def)
    show ?thesis
      using get touch ends c p ok live True q store_live [OF ok i, of q]
      by (intro exI [of _ "cl\<lparr>cl_chunks := (cl_chunks cl)[length A := q]\<rparr>"] exI [of _ q])
        (auto simp: combine_previous_def properD word_le_nat_alt word_less_nat_alt lo_def [symmetric] q_def)
  qed
qed

lemma merge_cover:
  assumes "separated M" and "M \<noteq> []" and "\<forall>m\<in>set M. lo c \<le> lo m \<and> lo m \<le> hi c"
  shows "{lo c..<hi c} \<union> cover M = {lo c..<max (hi c) (hi (last M))}"
  using assms
proof (induction M arbitrary: c)
  case (Cons m M)
  then have m: "lo c \<le> lo m" "lo m \<le> hi c" "proper m" and M: "separated M" "\<forall>x\<in>set M. hi m < lo x"
    by (auto simp: separated_Cons)
  show ?case
  proof (cases "M = []")
    case True
    then show ?thesis
      using m by (auto simp: max_def)
  next
    case False
    then have IH: "{lo c..<hi c} \<union> cover M = {lo c..<max (hi c) (hi (last M))}"
      using Cons M by auto
    have "last M \<in> set M"
      using False by simp
    then have "hi m < hi (last M)"
      using M properD(1) [of "last M"] by (auto simp: separated_def dest!: bspec)
    then have "{lo m..<hi m} \<subseteq> {lo c..<max (hi c) (hi (last M))}"
      using m by (auto simp: less_max_iff_disj)
    moreover have "{lo c..<hi c} \<union> cover (m # M) = {lo m..<hi m} \<union> ({lo c..<hi c} \<union> cover M)"
      by auto
    ultimately show ?thesis
      using IH False by (simp add: Un_absorb1)
  qed
qed simp

lemma hi_last_less:
  "separated (M @ B) \<Longrightarrow> M \<noteq> [] \<Longrightarrow> b \<in> set B \<Longrightarrow> hi (last M) < lo b"
  by (simp add: separated_append)

definition apart :: "chunk \<Rightarrow> chunk list \<Rightarrow> bool" where
  "apart c cs \<longleftrightarrow> (\<forall>d\<in>set cs. hi d < lo c \<or> hi c < lo d)"

text \<open>With \<open>i\<close> the insertion point, the list splits into what precedes the new chunk, the chunks it
  reaches, and the rest.\<close>

lemma insertion_split:
  assumes sep: "separated (A @ R)" and c: "proper c" and R: "\<forall>b\<in>set R. lo c \<le> lo b"
  obtains M B where "R = M @ B" and "\<forall>m\<in>set M. lo c \<le> lo m \<and> lo m \<le> hi c" and "\<forall>b\<in>set B. hi c < lo b"
proof
  let ?M = "takeWhile (\<lambda>b. lo b \<le> hi c) R" and ?B = "dropWhile (\<lambda>b. lo b \<le> hi c) R"
  show "R = ?M @ ?B"
    by simp
  show "\<forall>m\<in>set ?M. lo c \<le> lo m \<and> lo m \<le> hi c"
    using R set_takeWhileD by fastforce
  show "\<forall>b\<in>set ?B. hi c < lo b"
  proof (cases ?B)
    case (Cons b B)
    then have "hi c < lo b"
      using hd_dropWhile [of "\<lambda>b. lo b \<le> hi c" R] by (simp add: not_le)
    moreover have "separated (?M @ ?B)"
      using sep separated_append [of A R] by simp
    then have "separated (b # B)"
      using Cons separated_append [of ?M ?B] by simp
    ultimately show ?thesis
      using Cons by (auto simp: separated_Cons proper_def)
  next
    case Nil
    then show ?thesis
      by (simp only: list.set ball_empty)
  qed
qed

lemma chunk_insert_merged:
  assumes ok: "cl_ok cl" and sep: "separated (live cl)" and live: "live cl = A @ M @ B"
    and M: "M \<noteq> []" "\<forall>m\<in>set M. lo c \<le> lo m \<and> lo m \<le> hi c" and A: "\<forall>a\<in>set A. lo a < lo c"
    and B: "\<forall>b\<in>set B. hi c < lo b" and c: "proper c"
  shows "\<exists>cl'. chunk_insert cl (length A) c = Some cl' \<and> cl_ok cl' \<and> cl_max cl' = cl_max cl \<and>
    separated (live cl') \<and> cover (live cl') = cover (live cl) \<union> {lo c..<hi c}"
proof -
  have s: "separated A" "separated M" "separated B" "separated (M @ B)" "proper (last M)"
    using sep live M separated_proper [of "live cl" "last M"] by (auto simp: separated_append)
  have AB: "\<forall>a\<in>set A. \<forall>b\<in>set B. hi a < lo b"
    using sep live by (auto simp: separated_append)
  obtain cl1 d where n: "combine_next cl (length A) c = Some (True, cl1)" "cl_ok cl1" "cl_max cl1 = cl_max cl"
      "live cl1 = A @ d # B" "lo d = lo c" "hi d = max (hi c) (hi (last M))"
    using combine_next_some [OF ok live M(1) c _ B s(5)] M(2) by blast
  have dB: "\<forall>b\<in>set B. hi d < lo b" and d: "proper d"
    using n(5,6) B hi_last_less [OF s(4) M(1)] c s(5) by (auto simp: proper_def)
  have cov: "cover (live cl) \<union> {lo c..<hi c} = cover A \<union> {lo d..<hi d} \<union> cover B"
    using merge_cover [OF s(2) M] live n(5,6) by auto
  have cnt: "length A < cl_count cl1"
    using length_live [OF n(2)] n(4) by simp
  have get: "index (cl_chunks cl1) (length A) = Some d"
    using live_nth [OF n(2) cnt] n(4) by simp
  show ?thesis
  proof (cases "\<forall>a\<in>set A. hi a < lo d")
    case True
    then have "combine_previous cl1 (length A) d = Some (False, cl1)"
      using combine_previous_none [OF n(2,4) d] s(1) separated_proper by blast
    then show ?thesis
      using n get True dB d s AB cov by (auto simp: chunk_insert_def separated_append separated_Cons)
  next
    case False
    then obtain A' p where A': "A = A' @ [p]"
      by (cases A rule: rev_cases) auto
    have sA: "separated A'" "proper p" "\<forall>a\<in>set A'. hi a < lo p"
      using s(1) A' by (auto simp: separated_append separated_Cons)
    have touch: "lo d \<le> hi p"
      using False A' sA by (fastforce simp: proper_def)
    obtain cl2 q where q: "combine_previous cl1 (length A) d = Some (True, cl2)" "cl_ok cl2" "cl_max cl2 = cl_max cl1"
        "cl_count cl2 = cl_count cl1" "live cl2 = A' @ q # d # B" "lo q = lo p" "hi q = max (hi d) (hi p)"
      using combine_previous_some [OF n(2) _ d sA(2) _ touch, of A' "d # B"] n(4,5) A' A by auto
    obtain cl3 where e: "erase_chunk cl2 (length A) = Some cl3" "cl_ok cl3" "cl_max cl3 = cl_max cl2"
        "live cl3 = A' @ q # B"
      using erase_chunk_eq [OF q(2), of "length A"] cnt q(4,5) A' by auto
    have qB: "\<forall>b\<in>set B. hi q < lo b"
      using dB q(7) sep live A' by (auto simp: separated_append separated_Cons)
    have "separated (live cl3)"
      using e(4) sA qB q(6,7) d s(3) sep live A' by (auto simp: separated_append separated_Cons proper_def)
    moreover have "cover (live cl3) = cover A \<union> {lo d..<hi d} \<union> cover B"
      using e(4) A' A q(6,7) touch n(5) by auto
    ultimately show ?thesis
      using n get q e cov by (auto simp: chunk_insert_def)
  qed
qed

lemma chunk_insert_previous:
  assumes ok: "cl_ok cl" and sep: "separated (live cl)" and live: "live cl = (A @ [p]) @ B"
    and p: "lo p < lo c" "lo c \<le> hi p" and B: "\<forall>b\<in>set B. hi c < lo b" and c: "proper c"
  shows "\<exists>cl'. chunk_insert cl (length (A @ [p])) c = Some cl' \<and> cl_ok cl' \<and> cl_max cl' = cl_max cl \<and>
    separated (live cl') \<and> cover (live cl') = cover (live cl) \<union> {lo c..<hi c}"
proof -
  have s: "separated A" "proper p" "separated B" "\<forall>a\<in>set A. hi a < lo p" "\<forall>b\<in>set B. hi p < lo b"
      "\<forall>a\<in>set A. \<forall>b\<in>set B. hi a < lo b"
    using sep live by (auto simp: separated_append separated_Cons)
  obtain cl1 q where q: "combine_previous cl (length (A @ [p])) c = Some (True, cl1)" "cl_ok cl1"
      "cl_max cl1 = cl_max cl" "live cl1 = A @ q # B" "lo q = lo p" "hi q = max (hi c) (hi p)"
    using combine_previous_some [OF ok _ c s(2) p, of A B] live by auto
  have "separated (live cl1)"
    using q(4-6) s B c p(1) by (auto simp: separated_append separated_Cons proper_def)
  moreover have "cover (live cl1) = cover (live cl) \<union> {lo c..<hi c}"
    using q(4-6) p live by auto
  ultimately show ?thesis
    using combine_next_none [OF ok live c B] q by (auto simp: chunk_insert_def)
qed

lemma smallest_from_eq:
  assumes "k < length cs" and "\<forall>i\<in>set is. i < length cs"
  shows "\<exists>s. smallest_from cs k is = Some s \<and> s \<in> insert k (set is) \<and>
    (\<forall>i\<in>insert k (set is). ch_size (cs ! s) \<le> ch_size (cs ! i))"
  using assms
proof (induction "is" arbitrary: k)
  case (Cons i js)
  show ?case
  proof (cases "ch_size (cs ! i) < ch_size (cs ! k)")
    case True
    then show ?thesis
      using Cons.IH [of i] Cons.prems by (fastforce intro: less_imp_le order_trans)
  next
    case False
    then show ?thesis
      using Cons.IH [of k] Cons.prems by (fastforce intro: order_trans simp: not_less)
  qed
qed simp

lemma find_smallest_size_eq:
  assumes ok: "cl_ok cl" and ne: "0 < cl_count cl"
  shows "\<exists>s<cl_count cl. find_smallest_size cl = Some s \<and>
    (\<forall>d\<in>set (live cl). ch_size (live cl ! s) \<le> ch_size d)"
proof -
  have at: "cl_chunks cl ! i = live cl ! i" if "i < cl_count cl" for i
    using that by (simp add: live_def)
  have rng: "insert 0 (set [1..<cl_count cl]) = {..<cl_count cl}"
    using ne by auto
  have len: "cl_count cl \<le> length (cl_chunks cl)" "0 < length (cl_chunks cl)"
    using ok ne by (simp_all add: cl_ok_def)
  obtain s where s: "find_smallest_size cl = Some s" "s < cl_count cl"
      "\<forall>i\<in>{..<cl_count cl}. ch_size (cl_chunks cl ! s) \<le> ch_size (cl_chunks cl ! i)"
    using smallest_from_eq [OF len(2), of "[1..<cl_count cl]"] len(1)
    unfolding find_smallest_size_def rng by auto
  then show ?thesis
    using at length_live [OF ok] by (auto simp: in_set_conv_nth)
qed

lemma apart_split:
  assumes "separated (A @ B)" and "apart c (A @ B)" and "proper c"
    and "\<forall>a\<in>set A. lo a < lo c" and "\<forall>b\<in>set B. lo c \<le> lo b"
  shows "\<forall>a\<in>set A. proper a \<and> hi a < lo c" and "\<forall>b\<in>set B. hi c < lo b"
proof -
  have p: "proper d" if "d \<in> set A \<union> set B" for d
    using separated_proper [OF assms(1)] that by simp
  show "\<forall>a\<in>set A. proper a \<and> hi a < lo c"
  proof (intro ballI conjI)
    fix a
    assume a: "a \<in> set A"
    then show "proper a"
      using p by simp
    have "hi a < lo c \<or> hi c < lo a" "lo a < lo c"
      using a assms(2,4) by (simp_all add: apart_def)
    then show "hi a < lo c"
      using properD(1) [OF assms(3)] by linarith
  qed
  show "\<forall>b\<in>set B. hi c < lo b"
  proof
    fix b
    assume b: "b \<in> set B"
    then have "hi b < lo c \<or> hi c < lo b" "lo c \<le> lo b" "proper b"
      using assms(2,5) p by (simp_all add: apart_def)
    then show "hi c < lo b"
      using properD(1) [of b] by linarith
  qed
qed

lemma insert_apart:
  assumes inv: "cl_inv cl" and room: "cl_count cl < cl_max cl" and c: "proper c" and ap: "apart c (live cl)"
  shows "\<exists>i cl'. find_insert_position cl c = Some i \<and> insert_chunk cl i c = Some cl' \<and> cl_inv cl' \<and>
    cl_max cl' = cl_max cl \<and> cover (live cl') = cover (live cl) \<union> {lo c..<hi c}"
proof -
  have ok: "cl_ok cl" and sep: "separated (live cl)"
    using inv by (auto simp: cl_inv_def)
  obtain A B where AB: "live cl = A @ B" "find_insert_position cl c = Some (length A)"
      "\<forall>a\<in>set A. lo a < lo c" "\<forall>b\<in>set B. lo c \<le> lo b"
    using find_insert_position_eq [OF inv] by blast
  have le: "length A \<le> cl_count cl"
    using length_live [OF ok] AB(1) by simp
  obtain cl' where cl': "insert_chunk cl (length A) c = Some cl'" "cl_ok cl'" "cl_max cl' = cl_max cl"
      "live cl' = A @ c # B"
    using insert_chunk_eq [OF ok room le, of c] AB(1) by auto
  have "\<forall>a\<in>set A. proper a \<and> hi a < lo c" "\<forall>b\<in>set B. hi c < lo b"
    using apart_split [of A B c] ap sep AB(1,3,4) c by auto
  then have "separated (live cl')"
    using cl'(4) sep AB(1) c by (auto simp: separated_append separated_Cons)
  then show ?thesis
    using cl' AB inv by (auto simp: cl_inv_def)
qed

lemma evict_cover:
  assumes "separated (A @ s # B)"
  shows "cover (A @ B) = cover (A @ s # B) - {lo s..<hi s}"
  using assms by (fastforce simp: cover_def separated_append separated_Cons)

definition evicted :: "chunk_list \<Rightarrow> chunk \<Rightarrow> chunk_list \<Rightarrow> bool" where
  "evicted cl c cl' \<longleftrightarrow>
     (if \<forall>d\<in>set (live cl). ch_size c \<le> ch_size d then cl' = cl
      else \<exists>s\<in>set (live cl). (\<forall>d\<in>set (live cl). ch_size s \<le> ch_size d) \<and>
        cover (live cl') = cover (live cl) - {lo s..<hi s} \<union> {lo c..<hi c})"

lemma chunk_insert_full:
  assumes inv: "cl_inv cl" and full: "cl_count cl = cl_max cl" and c: "proper c" and ap: "apart c (live cl)"
    and live: "live cl = A @ B" and A: "\<forall>a\<in>set A. lo a < lo c" and B: "\<forall>b\<in>set B. lo c \<le> lo b"
  shows "\<exists>cl'. chunk_insert cl (length A) c = Some cl' \<and> cl_inv cl' \<and> cl_max cl' = cl_max cl \<and> evicted cl c cl'"
proof -
  have ok: "cl_ok cl" and sep: "separated (live cl)" and ne: "0 < cl_count cl"
    using inv full by (auto simp: cl_inv_def)
  have hB: "\<forall>b\<in>set B. hi c < lo b" and hA: "\<forall>a\<in>set A. proper a \<and> hi a < lo c"
    using apart_split [of A B c] ap sep live A B c by auto
  obtain s where s: "s < cl_count cl" "find_smallest_size cl = Some s"
      "\<forall>d\<in>set (live cl). ch_size (live cl ! s) \<le> ch_size d"
    using find_smallest_size_eq [OF ok ne] by blast
  note get = live_nth [OF ok s(1)]
  have sin: "live cl ! s \<in> set (live cl)"
    using s(1) length_live [OF ok] by simp
  have step: "chunk_insert cl (length A) c =
      (if ch_size (live cl ! s) < ch_size c
       then do { cl \<leftarrow> erase_chunk cl s; at \<leftarrow> find_insert_position cl c; insert_chunk cl at c }
       else Some cl)"
    using combine_next_none [OF ok live c hB] combine_previous_none [OF ok live c hA] full s(2) get
    by (simp add: chunk_insert_def)
  show ?thesis
  proof (cases "ch_size (live cl ! s) < ch_size c")
    case True
    obtain cl1 where e: "erase_chunk cl s = Some cl1" "cl_ok cl1" "cl_max cl1 = cl_max cl"
        "cl_count cl1 = cl_count cl - 1" "live cl1 = take s (live cl) @ drop (Suc s) (live cl)"
      using erase_chunk_eq [OF ok s(1)] by blast
    have split: "live cl = take s (live cl) @ live cl ! s # drop (Suc s) (live cl)"
      using s(1) length_live [OF ok] id_take_nth_drop by metis
    have cov: "cover (live cl1) = cover (live cl) - {lo (live cl ! s)..<hi (live cl ! s)}"
      using evict_cover [of "take s (live cl)" "live cl ! s" "drop (Suc s) (live cl)"] sep split e(5) by simp
    have sub: "set (live cl1) \<subseteq> set (live cl)"
      using e(5) set_take_subset set_drop_subset by fastforce
    have "separated (live cl1)"
      using sep e(5) separated_append [of "take s (live cl)" "live cl ! s # drop (Suc s) (live cl)"] split
      by (simp add: separated_append separated_Cons)
    then have inv1: "cl_inv cl1"
      using e inv by (simp add: cl_inv_def)
    have ap1: "apart c (live cl1)"
      using ap sub by (auto simp: apart_def)
    obtain i cl' where "find_insert_position cl1 c = Some i" "insert_chunk cl1 i c = Some cl'" "cl_inv cl'"
        "cl_max cl' = cl_max cl" "cover (live cl') = cover (live cl1) \<union> {lo c..<hi c}"
      using insert_apart [OF inv1 _ c ap1] e(3,4) full ne by auto
    moreover have "\<not> (\<forall>d\<in>set (live cl). ch_size c \<le> ch_size d)"
      using True sin by (auto simp: not_le)
    ultimately show ?thesis
      using step True e(1) cov s(3) sin by (auto simp: evicted_def)
  next
    case False
    then have "\<forall>d\<in>set (live cl). ch_size c \<le> ch_size d"
      using s(3) by (auto simp: not_less intro: order_trans)
    then show ?thesis
      using step False inv by (auto simp: evicted_def)
  qed
qed

lemma chunk_insert_room:
  assumes inv: "cl_inv cl" and room: "cl_count cl < cl_max cl" and c: "proper c" and ap: "apart c (live cl)"
    and live: "live cl = A @ B" and A: "\<forall>a\<in>set A. lo a < lo c" and B: "\<forall>b\<in>set B. lo c \<le> lo b"
    and pos: "find_insert_position cl c = Some (length A)"
  shows "\<exists>cl'. chunk_insert cl (length A) c = Some cl' \<and> cl_inv cl' \<and> cl_max cl' = cl_max cl \<and>
    cover (live cl') = cover (live cl) \<union> {lo c..<hi c}"
proof -
  have ok: "cl_ok cl" and sep: "separated (live cl)"
    using inv by (auto simp: cl_inv_def)
  have hA: "\<forall>a\<in>set A. proper a \<and> hi a < lo c" and hB: "\<forall>b\<in>set B. hi c < lo b"
    using apart_split [of A B c] ap sep live A B c by auto
  then show ?thesis
    using insert_apart [OF inv room c ap] pos combine_next_none [OF ok live c hB]
      combine_previous_none [OF ok live c hA] room
    by (auto simp: chunk_insert_def)
qed

lemma apart_or_previous:
  assumes "separated (A @ B)" and "proper c" and "\<forall>a\<in>set A. lo a < lo c" and "\<forall>b\<in>set B. hi c < lo b"
    and "\<not> apart c (A @ B)"
  obtains A' p where "A = A' @ [p]" and "lo c \<le> hi p"
proof (cases A rule: rev_cases)
  case Nil
  then show thesis
    using assms(4,5) by (auto simp: apart_def)
next
  case (snoc A' p)
  have "lo c \<le> hi p"
  proof (rule ccontr)
    assume "\<not> lo c \<le> hi p"
    moreover have "\<forall>a\<in>set A'. hi a < lo p" "proper p"
      using assms(1) snoc by (auto simp: separated_append separated_Cons)
    ultimately have "\<forall>a\<in>set A. hi a < lo c"
      using snoc by (auto simp: proper_def)
    then show False
      using assms(4,5) by (auto simp: apart_def)
  qed
  then show thesis
    using snoc that by blast
qed

lemma chunk_insert_exact:
  assumes inv: "cl_inv cl" and c: "proper c" and live: "live cl = A @ R"
    and A: "\<forall>a\<in>set A. lo a < lo c" and R: "\<forall>b\<in>set R. lo c \<le> lo b"
    and pos: "find_insert_position cl c = Some (length A)"
  shows "\<exists>cl'. chunk_insert cl (length A) c = Some cl' \<and> cl_inv cl' \<and> cl_max cl' = cl_max cl \<and>
    (if cl_count cl = cl_max cl \<and> apart c (live cl) then evicted cl c cl'
     else cover (live cl') = cover (live cl) \<union> {lo c..<hi c})"
proof -
  have ok: "cl_ok cl" and sep: "separated (live cl)" and mx: "0 < cl_max cl"
    using inv by (auto simp: cl_inv_def)
  obtain M B where MB: "R = M @ B" "\<forall>m\<in>set M. lo c \<le> lo m \<and> lo m \<le> hi c" "\<forall>b\<in>set B. hi c < lo b"
    using insertion_split [of A R c] sep live c R by auto
  consider "apart c (live cl)" | "\<not> apart c (live cl)" "M = []" | "M \<noteq> []"
    by blast
  then show ?thesis
  proof cases
    case 1
    then show ?thesis
      using chunk_insert_full [OF inv _ c 1 live A R] chunk_insert_room [OF inv _ c 1 live A R pos] ok
      by (cases "cl_count cl = cl_max cl") (auto simp: cl_ok_def)
  next
    case 2
    then obtain A' p where p: "A = A' @ [p]" "lo c \<le> hi p"
      using apart_or_previous [of A B c] sep live c A MB by auto
    then show ?thesis
      using chunk_insert_previous [OF ok sep, of A' p B c] 2 live MB A c mx by (auto simp: cl_inv_def)
  next
    case 3
    then have "hd M \<in> set M" "hd M \<in> set (live cl)"
      using live MB(1) by auto
    then have "\<not> apart c (live cl)"
      using MB(2) separated_proper [OF sep] by (fastforce simp: apart_def proper_def)
    then show ?thesis
      using chunk_insert_merged [OF ok sep _ 3 MB(2) A MB(3) c] live MB(1) mx by (auto simp: cl_inv_def)
  qed
qed

text \<open>
  C35: Adding a segment to a well-formed chunk list never panics and keeps the list sorted, merged and
  separated.  The covered bytes become exactly the old ones and the segment, unless the list is full
  and the segment touches no chunk: then the list is unchanged if no chunk is smaller than the
  segment, and otherwise one smallest chunk gives way to it.
\<close>

theorem chunk_add_exact:
  assumes "cl_inv cl" and "unat off + unat sz < 2 ^ 32"
  shows "\<exists>cl'. chunk_add cl off sz = Some cl' \<and> cl_inv cl' \<and> cl_max cl' = cl_max cl \<and>
    (let c = \<lparr>ch_offset = off, ch_size = sz\<rparr> in
     if sz \<noteq> 0 \<and> cl_count cl = cl_max cl \<and> apart c (live cl) then evicted cl c cl'
     else cover (live cl') = cover (live cl) \<union> {unat off..<unat off + unat sz})"
proof (cases "sz = 0")
  case True
  then show ?thesis
    using assms(1) by (simp add: chunk_add_def)
next
  case False
  let ?c = "\<lparr>ch_offset = off, ch_size = sz\<rparr>"
  have c: "proper ?c" "lo ?c = unat off" "hi ?c = unat off + unat sz"
    using False assms(2) by (auto simp: proper_def lo_def hi_def unat_gt_0)
  obtain A R where AR: "live cl = A @ R" "find_insert_position cl ?c = Some (length A)"
      "\<forall>a\<in>set A. lo a < lo ?c" "\<forall>b\<in>set R. lo ?c \<le> lo b"
    using find_insert_position_eq [OF assms(1)] by blast
  show ?thesis
    using chunk_insert_exact [OF assms(1) c(1) AR(1,3,4,2)] AR(2) False assms(2) unfolding c(2,3)
    by (simp add: chunk_add_def cadd_def Let_def)
qed

lemma new_inv: "0 < n \<Longrightarrow> \<exists>cl. chunk_list_new n = Some cl \<and> cl_inv cl \<and> live cl = [] \<and> cl_max cl = n \<and> cl_count cl = 0"
  by (simp add: chunk_list_new_def cl_inv_def cl_ok_def live_def)

theorem chunk_add_exact_witness:
  "\<exists>cl0 cl1. chunk_list_new 2 = Some cl0 \<and> chunk_add cl0 100 50 = Some cl1 \<and> cl_inv cl1 \<and>
     cover (live cl1) = {100..<150}"
proof -
  obtain cl0 where cl0: "chunk_list_new 2 = Some cl0" "cl_inv cl0" "live cl0 = []" "cl_max cl0 = 2" "cl_count cl0 = 0"
    using new_inv [of 2] by auto
  show ?thesis
    using chunk_add_exact [OF cl0(2), of 100 50] cl0 by (auto simp: Let_def)
qed

section \<open>Consuming from the front\<close>

lemma front_cover:
  assumes "separated (c # cs)" and "lo c \<le> m" and "m \<le> hi c"
  shows "{m..<hi c} \<union> cover cs = cover (c # cs) - {lo c..<m}"
proof -
  have "hi c < x" if "x \<in> cover cs" for x
    using that assms(1) by (auto simp: cover_mem separated_Cons)
  then show ?thesis
    using assms(2,3) by fastforce
qed

lemma remove_from_first_cover:
  assumes inv: "cl_inv cl" and live: "live cl = c # cs"
  shows "\<exists>cl'. remove_from_first cl n = Some cl' \<and> cl_inv cl' \<and>
    cover (live cl') = cover (live cl) - {lo c..<min (lo c + unat n) (hi c)}"
proof -
  have ok: "cl_ok cl" and sep: "separated (c # cs)" and cnt: "0 < cl_count cl"
    using inv live length_live [of cl] by (auto simp: cl_inv_def)
  have get: "index (cl_chunks cl) 0 = Some c"
    using live_nth [OF ok cnt] live by simp
  note st = store_live [OF ok cnt]
  have c: "lo c < hi c" "hi c < 4294967296" "hi c = lo c + unat (ch_size c)"
    using sep by (auto simp: separated_Cons proper_def lo_def hi_def)
  show ?thesis
  proof (cases "ch_size c \<le> n")
    case True
    let ?cl = "cl\<lparr>cl_chunks := (cl_chunks cl)[0 := c\<lparr>ch_size := 0\<rparr>]\<rparr>"
    obtain cl' where e: "erase_chunk ?cl 0 = Some cl'" "cl_ok cl'" "cl_max cl' = cl_max cl" "live cl' = cs"
      using erase_chunk_eq [OF st(2), of 0 "c\<lparr>ch_size := 0\<rparr>"] st(3) cnt live by auto
    have "remove_from_first cl n = Some cl'"
      using get True st(1) e(1) by (simp add: remove_from_first_def csub_def min_absorb2 Let_def)
    then show ?thesis
      using e inv sep c(1,3) True front_cover [OF sep, of "hi c"] live
      by (auto simp: cl_inv_def separated_Cons word_le_nat_alt min_def)
  next
    case False
    then have n: "unat n < unat (ch_size c)"
      by (simp add: word_le_nat_alt)
    define d where "d = \<lparr>ch_offset = ch_offset c + n, ch_size = ch_size c - n\<rparr>"
    have d: "cadd (ch_offset c) n = Some (ch_offset c + n)" "lo d = lo c + unat n" "hi d = hi c"
      using n c(2,3) by (auto simp: cadd_def d_def lo_def hi_def unat_add_lem [THEN iffD1] unat_sub word_le_nat_alt)
    have "ch_size c - n \<noteq> 0"
      using n by auto
    then have "remove_from_first cl n = Some (cl\<lparr>cl_chunks := (cl_chunks cl)[0 := d]\<rparr>)"
      using get False st(1) [of d] d(1) n by (simp add: remove_from_first_def csub_def min_absorb1 Let_def d_def)
    moreover have "separated (d # cs)"
      using sep d n c by (auto simp: separated_Cons proper_def)
    ultimately show ?thesis
      using st(2,3) [of d] inv live d n c front_cover [OF sep, of "lo d"]
      by (simp add: cl_inv_def min_absorb1)
  qed
qed

section \<open>Gaps are the complement\<close>

fun gaps_ref :: "nat \<Rightarrow> nat \<Rightarrow> chunk list \<Rightarrow> (nat \<times> nat) list" where
  "gaps_ref a z [] = []"
| "gaps_ref a z (c # cs) =
     (let n = (case cs of [] \<Rightarrow> z | d # ds \<Rightarrow> lo d) in
      if a < n \<and> hi c < n then [(max (hi c) a, n)] else []) @ gaps_ref a z cs"

abbreviation span :: "chunk \<Rightarrow> nat \<times> nat" where
  "span g \<equiv> (lo g, hi g)"

lemma span_gap:
  assumes "unat off < unat n"
  shows "span \<lparr>ch_offset = off, ch_size = n - off\<rparr> = (unat off, unat n)"
  using assms by (auto simp: lo_def hi_def unat_sub word_le_nat_alt)

lemma gap_start: "proper c \<Longrightarrow> unat (ch_offset c + ch_size c) = hi c"
  using chunk_end_hi(2) properD(2) by blast

lemma separated_drop: "separated cs \<Longrightarrow> separated (drop i cs)"
  by (metis append_take_drop_id separated_append)

lemma gaps_loop_step:
  assumes inv: "cl_inv cl" and reach: "\<forall>c\<in>set (live cl). lo c \<le> unat total_size" and i: "i < cl_count cl"
    and ret: "ret < max_gaps"
  defines "c \<equiv> live cl ! i" and "cs \<equiv> drop (Suc i) (live cl)"
  defines "n \<equiv> (case cs of [] \<Rightarrow> unat total_size | d # ds \<Rightarrow> lo d)"
  obtains next_off where "unat next_off = n" and "drop i (live cl) = c # cs" and "proper c"
    and "gaps_loop cl max_gaps total_size start ret i =
      (if hi c \<ge> unat total_size then Some []
       else if unat start < n
       then do { gs \<leftarrow> gaps_loop cl max_gaps total_size start (ret + 1) (i + 1);
                 Some (\<lparr>ch_offset = max (ch_offset c + ch_size c) start,
                        ch_size = next_off - max (ch_offset c + ch_size c) start\<rparr> # gs) }
       else gaps_loop cl max_gaps total_size start ret (i + 1))"
    and "hi c \<ge> unat total_size \<Longrightarrow> cs = []" and "cs \<noteq> [] \<Longrightarrow> hi c < n"
proof -
  have ok: "cl_ok cl" and sep: "separated (live cl)"
    using inv by (auto simp: cl_inv_def)
  note len = length_live [OF ok]
  have d: "drop i (live cl) = c # cs"
    using i len by (simp add: c_def cs_def Cons_nth_drop_Suc)
  have sc: "separated (c # cs)" and sub: "set cs \<subseteq> set (live cl)"
    using separated_drop [OF sep, of i] d set_drop_subset [of "Suc i" "live cl"] by (auto simp: cs_def)
  have getc: "index (cl_chunks cl) i = Some c"
    using live_nth [OF ok i] by (simp add: c_def)
  have le: "total_size \<le> ch_offset c + ch_size c \<longleftrightarrow> unat total_size \<le> hi c"
    using gap_start [of c] sc by (simp add: separated_Cons word_le_nat_alt)
  have mx: "(if a > b then a else b) = max a b" for a b :: u32
    by (auto simp: max_def)
  let ?next = "if i = cl_count cl - 1 then total_size else ch_offset (live cl ! (i + 1))"
  have cs: "cs = (if i = cl_count cl - 1 then [] else live cl ! (i + 1) # drop (i + 2) (live cl))"
    using i len by (auto simp: cs_def Cons_nth_drop_Suc)
  have "unat ?next = n"
    using cs by (auto simp: n_def lo_def)
  moreover have "(if i = cl_count cl - 1 then Some total_size
      else do { c \<leftarrow> index (cl_chunks cl) (i + 1); Some (ch_offset c) }) = Some ?next"
    using live_nth [OF ok, of "i + 1"] i by auto
  then have "gaps_loop cl max_gaps total_size start ret i =
      (if hi c \<ge> unat total_size then Some []
       else if start < ?next
       then do { gs \<leftarrow> gaps_loop cl max_gaps total_size start (ret + 1) (i + 1);
                 Some (\<lparr>ch_offset = max (ch_offset c + ch_size c) start,
                        ch_size = ?next - max (ch_offset c + ch_size c) start\<rparr> # gs) }
       else gaps_loop cl max_gaps total_size start ret (i + 1))"
    using i ret getc le mx
    by (subst gaps_loop.simps) (simp only: simp_thms if_True bind.bind_lunit Let_def)
  moreover have "hi c < n" if "cs \<noteq> []"
    using that sc by (auto simp: n_def separated_Cons split: list.split)
  moreover have "cs = []" if "hi c \<ge> unat total_size"
    using that sc sub reach by (cases cs) (auto simp: separated_Cons)
  ultimately show thesis
    using that [of ?next] d sc by (simp add: word_less_nat_alt separated_Cons)
qed

lemma gaps_loop_eq:
  assumes inv: "cl_inv cl" and reach: "\<forall>c\<in>set (live cl). lo c \<le> unat total_size" and i: "i \<le> cl_count cl"
  shows "\<exists>gs. gaps_loop cl max_gaps total_size start ret i = Some gs \<and>
    map span gs = take (max_gaps - ret) (gaps_ref (unat start) (unat total_size) (drop i (live cl)))"
  using i
proof (induction "cl_count cl - i" arbitrary: i ret)
  case 0
  then show ?case
    using inv by (subst gaps_loop.simps) (auto simp: cl_inv_def)
next
  case (Suc k)
  then have i: "i < cl_count cl"
    by simp
  show ?case
  proof (cases "ret < max_gaps")
    case False
    then show ?thesis
      by (subst gaps_loop.simps) simp
  next
    case True
    let ?c = "live cl ! i" and ?cs = "drop (Suc i) (live cl)"
    let ?n = "case ?cs of [] \<Rightarrow> unat total_size | d # ds \<Rightarrow> lo d"
    have IH: "\<exists>gs. gaps_loop cl max_gaps total_size start r (i + 1) = Some gs \<and>
        map span gs = take (max_gaps - r) (gaps_ref (unat start) (unat total_size) ?cs)" for r
      using Suc(1) [of "i + 1" r] Suc(2) i by simp
    obtain next_off where nx: "unat next_off = ?n" "drop i (live cl) = ?c # ?cs" "proper ?c"
        "gaps_loop cl max_gaps total_size start ret i =
          (if hi ?c \<ge> unat total_size then Some []
           else if unat start < ?n
           then do { gs \<leftarrow> gaps_loop cl max_gaps total_size start (ret + 1) (i + 1);
                     Some (\<lparr>ch_offset = max (ch_offset ?c + ch_size ?c) start,
                            ch_size = next_off - max (ch_offset ?c + ch_size ?c) start\<rparr> # gs) }
           else gaps_loop cl max_gaps total_size start ret (i + 1))"
        "hi ?c \<ge> unat total_size \<Longrightarrow> ?cs = []" "?cs \<noteq> [] \<Longrightarrow> hi ?c < ?n"
      using gaps_loop_step [OF inv reach i True, where start = start] by metis
    have off: "unat (max (ch_offset ?c + ch_size ?c) start) = max (hi ?c) (unat start)"
      using gap_start [OF nx(3)] by (auto simp: max_def word_le_nat_alt)
    consider "hi ?c \<ge> unat total_size" | "hi ?c < unat total_size" "unat start < ?n"
      | "hi ?c < unat total_size" "\<not> unat start < ?n"
      by linarith
    then show ?thesis
    proof cases
      case 1
      then show ?thesis
        using nx by simp
    next
      case 2
      then have hn: "hi ?c < ?n"
        using nx(6) by (cases ?cs) auto
      obtain gs where gs: "gaps_loop cl max_gaps total_size start (ret + 1) (i + 1) = Some gs"
          "map span gs = take (max_gaps - (ret + 1)) (gaps_ref (unat start) (unat total_size) ?cs)"
        using IH by blast
      have "max_gaps - ret = Suc (max_gaps - (ret + 1))"
        using True by simp
      then show ?thesis
        using nx(1,2,4) gs 2 hn off span_gap [of "max (ch_offset ?c + ch_size ?c) start" next_off] by simp
    next
      case 3
      then show ?thesis
        using nx(2,4) IH [of ret] by simp
    qed
  qed
qed

definition bytes_of :: "(nat \<times> nat) list \<Rightarrow> nat set" where
  "bytes_of gs = (\<Union>(a, b)\<in>set gs. {a..<b})"

lemma bytes_of_simps [simp]:
  "bytes_of [] = {}" "bytes_of ((a, b) # gs) = {a..<b} \<union> bytes_of gs" "bytes_of (xs @ ys) = bytes_of xs \<union> bytes_of ys"
  by (auto simp: bytes_of_def)

lemma bytes_of_span: "bytes_of (map span gs) = cover gs"
  by (induction gs) auto

lemma gaps_ref_length: "length (gaps_ref a z cs) \<le> length cs"
  by (induction cs) (auto simp: Let_def)

lemma gaps_ref_complement:
  assumes "separated (c # cs)" and "\<forall>d\<in>set (c # cs). lo d \<le> z"
  shows "bytes_of (gaps_ref a z (c # cs)) = {max a (hi c)..<z} - cover (c # cs)"
  using assms
proof (induction cs arbitrary: c)
  case Nil
  then show ?case
    by (auto simp: separated_Cons max_def)
next
  case (Cons d ds)
  have s: "proper c" "hi c < lo d" "proper d" "separated (d # ds)" "lo d \<le> z" "\<forall>b\<in>set ds. hi d < lo b"
    using Cons.prems by (auto simp: separated_Cons)
  have IH: "bytes_of (gaps_ref a z (d # ds)) = {max a (hi d)..<z} - cover (d # ds)"
    using Cons by (auto simp: separated_Cons)
  have above: "hi d < x" if "x \<in> cover ds" for x
    using that s(6) by (auto simp: cover_mem)
  have "bytes_of (gaps_ref a z (c # d # ds)) = {max a (hi c)..<lo d} \<union> bytes_of (gaps_ref a z (d # ds))"
    using s(2) by (auto simp: Let_def max.commute simp del: gaps_ref.simps(2) simp: gaps_ref.simps(2) [of a z c "d # ds"])
  also have "\<dots> = {max a (hi c)..<lo d} \<union> ({max a (hi d)..<z} - cover (d # ds))"
    by (simp only: IH)
  also have "\<dots> = {max a (hi c)..<z} - cover (c # d # ds)"
    using s(2,5) properD(1) [OF s(1)] properD(1) [OF s(3)] by (auto dest!: above)
  finally show ?case .
qed

lemma gaps_ref_ordered:
  assumes "separated (c # cs)"
  shows "sorted_wrt (\<lambda>g h. snd g < fst h) (gaps_ref a z (c # cs)) \<and>
    (\<forall>g\<in>set (gaps_ref a z (c # cs)). a \<le> fst g \<and> hi c \<le> fst g \<and> fst g < snd g)"
  using assms
proof (induction cs arbitrary: c)
  case (Cons d ds)
  have s: "hi c < lo d" "lo d < hi d"
    using Cons.prems by (auto simp: separated_Cons proper_def)
  show ?case
    using Cons.IH [of d] Cons.prems s by (auto simp: separated_Cons Let_def simp del: gaps_ref.simps(2)
        simp: gaps_ref.simps(2) [of a z c "d # ds"])
qed (auto simp: Let_def)

definition all_gaps :: "nat \<Rightarrow> nat \<Rightarrow> chunk list \<Rightarrow> (nat \<times> nat) list" where
  "all_gaps a z cs = (if a < lo (hd cs) then [(a, lo (hd cs))] else []) @ gaps_ref a z cs"

lemma all_gaps_complement:
  assumes "separated cs" and "cs \<noteq> []" and "\<forall>d\<in>set cs. lo d \<le> z"
  shows "bytes_of (all_gaps a z cs) = {a..<z} - cover cs"
proof -
  obtain c ds where cs: "cs = c # ds"
    using assms(2) by (cases cs) auto
  have above: "hi c < x" if "x \<in> cover ds" for x
    using that assms(1) cs by (auto simp: cover_mem separated_Cons)
  have c: "lo c < hi c" "lo c \<le> z"
    using assms cs by (auto simp: separated_Cons proper_def)
  have "bytes_of (all_gaps a z cs) = {a..<lo c} \<union> ({max a (hi c)..<z} - cover (c # ds))"
    using gaps_ref_complement [of c ds z a] assms cs by (auto simp: all_gaps_def)
  also have "\<dots> = {a..<z} - cover cs"
    using c cs by (auto dest!: above)
  finally show ?thesis .
qed

lemma all_gaps_ordered:
  assumes "separated cs" and "cs \<noteq> []"
  shows "sorted_wrt (\<lambda>g h. snd g < fst h) (all_gaps a z cs) \<and> (\<forall>g\<in>set (all_gaps a z cs). fst g < snd g)"
proof -
  obtain c ds where cs: "cs = c # ds"
    using assms(2) by (cases cs) auto
  then have "lo c < hi c"
    using assms(1) by (auto simp: separated_Cons proper_def)
  then show ?thesis
    using gaps_ref_ordered [of c ds a z] assms(1) cs
    by (auto simp: all_gaps_def simp del: gaps_ref.simps)
qed

lemma compute_gaps_eq:
  assumes inv: "cl_inv cl" and reach: "\<forall>c\<in>set (live cl). lo c \<le> unat total_size"
    and st: "start < total_size" and ne: "live cl \<noteq> []"
  shows "\<exists>gs. compute_gaps cl max_gaps total_size start = Some gs \<and>
    map span gs = take (max max_gaps (if unat start < lo (hd (live cl)) then 1 else 0))
      (all_gaps (unat start) (unat total_size) (live cl))"
proof -
  have ok: "cl_ok cl"
    using inv by (simp add: cl_inv_def)
  have cnt: "0 < cl_count cl"
    using ne length_live [OF ok] by (cases "live cl") auto
  have z: "total_size \<noteq> 0"
    using st by auto
  have get: "index (cl_chunks cl) 0 = Some (hd (live cl))"
    using live_nth [OF ok cnt] ne by (simp add: hd_conv_nth)
  let ?o = "ch_offset (hd (live cl))"
  define first where
    "first = (if start < ?o then [\<lparr>ch_offset = start, ch_size = ?o - start\<rparr>] else [])"
  have f: "map span first = (if unat start < lo (hd (live cl)) then [(unat start, lo (hd (live cl)))] else [])"
    using span_gap [of start ?o] by (simp add: first_def word_less_nat_alt lo_def)
  obtain gs where gs: "gaps_loop cl max_gaps total_size start (length first) 0 = Some gs"
      "map span gs = take (max_gaps - length first) (gaps_ref (unat start) (unat total_size) (live cl))"
    using gaps_loop_eq [OF inv reach, of 0 max_gaps start "length first"] by auto
  have "compute_gaps cl max_gaps total_size start = Some (first @ gs)"
    using z st cnt get gs(1)
    by (auto simp: compute_gaps_def first_def csub_def word_less_nat_alt)
  moreover have "map span (first @ gs) = take (max max_gaps (if unat start < lo (hd (live cl)) then 1 else 0))
      (all_gaps (unat start) (unat total_size) (live cl))"
    using f gs(2) by (auto simp: all_gaps_def first_def word_less_nat_alt lo_def max_def take_Cons' not_le)
  ultimately show ?thesis
    by blast
qed

lemma separated_spans:
  "separated gs \<longleftrightarrow> sorted_wrt (\<lambda>g h. snd g < fst h) (map span gs) \<and> (\<forall>g\<in>set gs. proper g)"
  by (simp add: separated_def sorted_wrt_map)

text \<open>
  C36: For a well-formed, non-empty chunk list whose chunks start within the file, the gaps reported from
  \<open>start\<close> (before the end of the file) are non-empty, ordered and disjoint, at most \<open>max_gaps\<close>, or one when \<open>max_gaps\<close>
  is zero, since an initial gap is reported regardless, and name only bytes that were not received; when more gaps may be reported than there are chunks, they are exactly
  the bytes of the file from \<open>start\<close> on that were not received.
\<close>

theorem gaps_complement:
  assumes "cl_inv cl" and "\<forall>c\<in>set (live cl). lo c \<le> unat total_size" and "start < total_size" and "live cl \<noteq> []"
  shows "\<exists>gs. compute_gaps cl max_gaps total_size start = Some gs \<and> separated gs \<and>
    length gs \<le> max max_gaps 1 \<and> cover gs \<subseteq> {unat start..<unat total_size} - cover (live cl) \<and>
    (cl_count cl < max_gaps \<longrightarrow> cover gs = {unat start..<unat total_size} - cover (live cl))"
proof -
  have sep: "separated (live cl)" and ok: "cl_ok cl"
    using assms(1) by (auto simp: cl_inv_def)
  let ?all = "all_gaps (unat start) (unat total_size) (live cl)"
  obtain gs k where gs: "compute_gaps cl max_gaps total_size start = Some gs" "map span gs = take k ?all"
      "max_gaps \<le> k" "k \<le> max max_gaps 1"
    using compute_gaps_eq [OF assms, of max_gaps] by (auto split: if_splits)
  have all: "bytes_of ?all = {unat start..<unat total_size} - cover (live cl)"
    "sorted_wrt (\<lambda>g h. snd g < fst h) ?all" "\<forall>g\<in>set ?all. fst g < snd g"
    using all_gaps_complement [OF sep assms(4,2)] all_gaps_ordered [OF sep assms(4)] by auto
  have sub: "cover gs \<subseteq> {unat start..<unat total_size} - cover (live cl)"
    using all(1) gs(2) set_take_subset [of k ?all] unfolding bytes_of_span [symmetric]
    by (auto simp: bytes_of_def)
  have "proper g" if g: "g \<in> set gs" for g
  proof -
    have "span g \<in> set (map span gs)"
      using g by simp
    then have "span g \<in> set ?all"
      unfolding gs(2) by (rule in_set_takeD)
    then have lt: "lo g < hi g"
      using bspec [OF all(3)] by fastforce
    then have "lo g \<le> hi g - 1 \<and> hi g - 1 < hi g"
      by linarith
    then have "hi g - 1 \<in> cover gs"
      using g unfolding cover_mem by blast
    then have "hi g - 1 < unat total_size"
      using sub by auto
    then show ?thesis
      using lt unsigned_less [of total_size, where 'a = nat] by (simp add: proper_def)
  qed
  then have "separated gs"
    using gs(2) all(2) by (simp add: separated_spans sorted_wrt_take)
  moreover have "length gs \<le> max max_gaps 1"
    using gs(4) arg_cong [OF gs(2), of length] by (simp split: if_splits)
  moreover have "cover gs = {unat start..<unat total_size} - cover (live cl)" if "cl_count cl < max_gaps"
  proof -
    have "length ?all \<le> k"
      using that gs(3) gaps_ref_length [of "unat start" "unat total_size" "live cl"] length_live [OF ok]
      by (auto simp: all_gaps_def)
    then show ?thesis
      using all(1) gs(2) bytes_of_span [of gs] by simp
  qed
  ultimately show ?thesis
    using gs(1) sub by blast
qed

lemma gap_example:
  "cl_inv \<lparr>cl_count = 1, cl_max = 2, cl_chunks = [\<lparr>ch_offset = 10, ch_size = 5\<rparr>, chunk_default]\<rparr>"
  by (simp add: cl_inv_def cl_ok_def live_def separated_def proper_def lo_def hi_def)

theorem gaps_complement_witness:
  "\<exists>gs. compute_gaps \<lparr>cl_count = 1, cl_max = 2, cl_chunks = [\<lparr>ch_offset = 10, ch_size = 5\<rparr>, chunk_default]\<rparr> 8 40 0
     = Some gs \<and> cover gs = {0..<40} - {10..<15}"
  using gaps_complement [OF gap_example, of 40 0 8] by (auto simp: live_def lo_def hi_def)

end
