(* ===== verification/Fpy_Stack.thy ===== *)
theory Fpy_Stack
  imports Fw_Prelude
begin

text \<open>
  The stack of the Fpy sequencer (\<open>fprime-svc/src/fpy_sequencer/stack.rs\<close>): a byte array of fixed size
  with a top and a frame pointer.  A \<open>StackSizeType\<close> (\<open>u32\<close>) is a natural number below \<open>2^32\<close>: its \<open>+\<close> is
  \<open>add32\<close> and its \<open>-\<close> is \<open>usub\<close>, both \<open>None\<close> where the code would overflow.  The bytes below the top,
  \<open>stk\<close>, are the abstract stack.
\<close>

section \<open>The stack\<close>

definition MAX_STACK_SIZE :: nat where
  "MAX_STACK_SIZE = 65535"

record fpy_stack =
  stk_bytes :: "u8 list"
  stk_size :: nat
  stk_frame :: nat

definition add32 :: "nat \<Rightarrow> nat \<Rightarrow> nat option" where
  "add32 a b = (if a + b < 2 ^ 32 then Some (a + b) else None)"

definition stack_new :: fpy_stack where
  "stack_new = \<lparr>stk_bytes = replicate MAX_STACK_SIZE 0, stk_size = 0, stk_frame = 0\<rparr>"

definition stack_reset :: "fpy_stack \<Rightarrow> fpy_stack" where
  "stack_reset s = \<lparr>stk_bytes = replicate (length (stk_bytes s)) 0, stk_size = 0, stk_frame = 0\<rparr>"

definition stack_pop :: "fpy_stack \<Rightarrow> ('a::len word \<times> fpy_stack) option" where
  "stack_pop s =
     do { let n = nbytes TYPE('a);
          fw_assert (stk_size s \<ge> n);
          raw \<leftarrow> slice (stk_bytes s) (stk_size s - n) (stk_size s);
          k \<leftarrow> usub (stk_size s) n;
          Some (from_be_bytes raw, s\<lparr>stk_size := k\<rparr>) }"

definition stack_push :: "'a::len word \<Rightarrow> fpy_stack \<Rightarrow> fpy_stack option" where
  "stack_push v s =
     do { let n = nbytes TYPE('a);
          fw_assert (stk_size s + n \<le> MAX_STACK_SIZE);
          bs \<leftarrow> blit (stk_bytes s) (stk_size s) (to_be_bytes v);
          k \<leftarrow> add32 (stk_size s) n;
          Some (s\<lparr>stk_bytes := bs, stk_size := k\<rparr>) }"

definition pop_bytes :: "nat \<Rightarrow> fpy_stack \<Rightarrow> (u8 list \<times> fpy_stack) option" where
  "pop_bytes n s =
     do { fw_assert (stk_size s \<ge> n);
          dest \<leftarrow> slice (stk_bytes s) (stk_size s - n) (stk_size s);
          k \<leftarrow> usub (stk_size s) n;
          Some (dest, s\<lparr>stk_size := k\<rparr>) }"

definition push_bytes :: "u8 list \<Rightarrow> fpy_stack \<Rightarrow> fpy_stack option" where
  "push_bytes src s =
     do { let n = length src;
          fw_assert (stk_size s + n \<le> MAX_STACK_SIZE);
          bs \<leftarrow> blit (stk_bytes s) (stk_size s) src;
          k \<leftarrow> add32 (stk_size s) n;
          Some (s\<lparr>stk_bytes := bs, stk_size := k\<rparr>) }"

definition push_zeroes :: "nat \<Rightarrow> fpy_stack \<Rightarrow> fpy_stack option" where
  "push_zeroes n s =
     do { fw_assert (stk_size s + n \<le> MAX_STACK_SIZE);
          bs \<leftarrow> blit (stk_bytes s) (stk_size s) (replicate n 0);
          k \<leftarrow> add32 (stk_size s) n;
          Some (s\<lparr>stk_bytes := bs, stk_size := k\<rparr>) }"

definition stack_copy :: "nat \<Rightarrow> nat \<Rightarrow> nat \<Rightarrow> fpy_stack \<Rightarrow> fpy_stack option" where
  "stack_copy dest src n s =
     do { fw_assert (dest + n \<le> MAX_STACK_SIZE);
          fw_assert (src + n \<le> MAX_STACK_SIZE);
          fw_assert (n = 0 \<or> dest + n \<le> src \<or> src + n \<le> dest);
          if n > 0
          then do { bs \<leftarrow> copy_within (stk_bytes s) src (src + n) dest; Some (s\<lparr>stk_bytes := bs\<rparr>) }
          else Some s }"

definition stack_move :: "nat \<Rightarrow> nat \<Rightarrow> nat \<Rightarrow> fpy_stack \<Rightarrow> fpy_stack option" where
  "stack_move dest src n s =
     do { fw_assert (dest + n \<le> MAX_STACK_SIZE);
          fw_assert (src + n \<le> stk_size s);
          if n > 0
          then do { bs \<leftarrow> copy_within (stk_bytes s) src (src + n) dest; Some (s\<lparr>stk_bytes := bs\<rparr>) }
          else Some s }"

section \<open>The abstract stack\<close>

definition wf_stack :: "fpy_stack \<Rightarrow> bool" where
  "wf_stack s \<longleftrightarrow> length (stk_bytes s) = MAX_STACK_SIZE \<and> stk_size s \<le> MAX_STACK_SIZE \<and> stk_frame s \<le> MAX_STACK_SIZE"

definition stk :: "fpy_stack \<Rightarrow> u8 list" where
  "stk s = take (stk_size s) (stk_bytes s)"

named_theorems stack_simps \<open>behaviour of the stack operations on the abstract stack\<close>

lemma wf_stackD:
  "wf_stack s \<Longrightarrow> length (stk_bytes s) = MAX_STACK_SIZE"
  "wf_stack s \<Longrightarrow> stk_size s \<le> MAX_STACK_SIZE"
  "wf_stack s \<Longrightarrow> stk_frame s \<le> MAX_STACK_SIZE"
  by (simp_all add: wf_stack_def)

lemma length_stk [simp]: "wf_stack s \<Longrightarrow> length (stk s) = stk_size s"
  by (simp add: wf_stack_def stk_def)

lemma wf_stack_shrink [simp]: "wf_stack s \<Longrightarrow> k \<le> stk_size s \<Longrightarrow> wf_stack (s\<lparr>stk_size := k\<rparr>)"
  by (simp add: wf_stack_def)

lemma stk_shrink [simp]: "k \<le> stk_size s \<Longrightarrow> stk (s\<lparr>stk_size := k\<rparr>) = take k (stk s)"
  by (simp add: stk_def min_absorb1)

lemma wf_stack_frame [simp]: "wf_stack s \<Longrightarrow> k \<le> MAX_STACK_SIZE \<Longrightarrow> wf_stack (s\<lparr>stk_frame := k\<rparr>)"
  by (simp add: wf_stack_def)

lemma stk_frame_upd [simp]: "stk (s\<lparr>stk_frame := k\<rparr>) = stk s"
  by (simp add: stk_def)

lemma wf_stack_new: "wf_stack stack_new"
  by (simp add: wf_stack_def stack_new_def)

lemma add32_small: "a + b \<le> MAX_STACK_SIZE \<Longrightarrow> add32 a b = Some (a + b)"
  by (simp add: add32_def MAX_STACK_SIZE_def)

lemma stack_pop_eq [stack_simps]:
  fixes s :: fpy_stack
  assumes "wf_stack s" and "nbytes TYPE('a) \<le> stk_size s"
  shows "(stack_pop s :: ('a::len word \<times> fpy_stack) option) =
    Some (from_be_bytes (drop (stk_size s - nbytes TYPE('a)) (stk s)), s\<lparr>stk_size := stk_size s - nbytes TYPE('a)\<rparr>)"
  using assms by (simp add: stack_pop_def Let_def wf_stack_def stk_def drop_take)

lemma stack_pop_None:
  "\<not> nbytes TYPE('a) \<le> stk_size s \<Longrightarrow> (stack_pop s :: ('a::len word \<times> fpy_stack) option) = None"
  by (simp add: stack_pop_def Let_def)

lemma pop_bytes_eq [stack_simps]:
  assumes "wf_stack s" and "n \<le> stk_size s"
  shows "pop_bytes n s = Some (drop (stk_size s - n) (stk s), s\<lparr>stk_size := stk_size s - n\<rparr>)"
  using assms by (simp add: pop_bytes_def wf_stack_def stk_def drop_take)

text \<open>The stack after writing \<open>bs\<close> on top.\<close>

definition pushed :: "u8 list \<Rightarrow> fpy_stack \<Rightarrow> fpy_stack" where
  "pushed bs s = s\<lparr>stk_bytes := take (stk_size s) (stk_bytes s) @ bs @ drop (stk_size s + length bs) (stk_bytes s),
     stk_size := stk_size s + length bs\<rparr>"

lemma pushed_simps [simp]:
  "stk_size (pushed bs s) = stk_size s + length bs"
  "stk_frame (pushed bs s) = stk_frame s"
  by (simp_all add: pushed_def)

lemma wf_pushed [simp]: "wf_stack s \<Longrightarrow> stk_size s + length bs \<le> MAX_STACK_SIZE \<Longrightarrow> wf_stack (pushed bs s)"
  by (simp add: wf_stack_def pushed_def)

lemma stk_pushed [simp]: "wf_stack s \<Longrightarrow> stk_size s + length bs \<le> MAX_STACK_SIZE \<Longrightarrow> stk (pushed bs s) = stk s @ bs"
  by (simp add: wf_stack_def stk_def pushed_def)

lemma push_bytes_eq [stack_simps]:
  assumes "wf_stack s"
  shows "push_bytes bs s = (if stk_size s + length bs \<le> MAX_STACK_SIZE then Some (pushed bs s) else None)"
  using assms by (simp add: push_bytes_def Let_def wf_stack_def add32_small pushed_def)

lemma push_zeroes_eq [stack_simps]:
  assumes "wf_stack s"
  shows "push_zeroes n s = (if stk_size s + n \<le> MAX_STACK_SIZE then Some (pushed (replicate n 0) s) else None)"
  using assms by (simp add: push_zeroes_def Let_def wf_stack_def add32_small pushed_def)

lemma stack_push_eq [stack_simps]:
  fixes v :: "'a::len word"
  assumes "wf_stack s"
  shows "stack_push v s =
    (if stk_size s + nbytes TYPE('a) \<le> MAX_STACK_SIZE then Some (pushed (to_be_bytes v) s) else None)"
  using assms by (simp add: stack_push_def Let_def wf_stack_def add32_small pushed_def)

text \<open>Copying \<open>n\<close> bytes to the top and growing, and copying the top \<open>n\<close> bytes down and shrinking.\<close>

lemma copy_to_top:
  assumes wf: "wf_stack s" and src: "src + n \<le> stk_size s" and room: "stk_size s + n \<le> MAX_STACK_SIZE"
  shows "\<exists>s'. stack_copy (stk_size s) src n s = Some s' \<and> wf_stack (s'\<lparr>stk_size := stk_size s + n\<rparr>) \<and>
    stk (s'\<lparr>stk_size := stk_size s + n\<rparr>) = stk s @ take n (drop src (stk s)) \<and> stk_size s' = stk_size s \<and>
    stk_frame s' = stk_frame s"
proof (cases "n = 0")
  case True
  then show ?thesis
    using assms by (simp add: stack_copy_def stk_def wf_stack_def)
next
  case False
  let ?xs = "take n (drop src (stk_bytes s))"
  have len: "length ?xs = n"
    using assms by (simp add: wf_stack_def)
  have "copy_within (stk_bytes s) src (src + n) (stk_size s) =
      Some (take (stk_size s) (stk_bytes s) @ ?xs @ drop (stk_size s + n) (stk_bytes s))"
    using assms len by (simp add: copy_within_def wf_stack_def)
  moreover have "take n (drop src (stk s)) = ?xs"
    using src by (simp add: stk_def drop_take min_absorb1)
  ultimately show ?thesis
    using assms len False by (simp add: stack_copy_def wf_stack_def stk_def)
qed

lemma copy_from_top:
  assumes wf: "wf_stack s" and dest: "dest + n \<le> stk_size s - n" and n: "n \<le> stk_size s"
  shows "\<exists>s'. stack_copy dest (stk_size s - n) n s = Some s' \<and> wf_stack (s'\<lparr>stk_size := stk_size s - n\<rparr>) \<and>
    stk (s'\<lparr>stk_size := stk_size s - n\<rparr>) =
      take dest (stk s) @ drop (stk_size s - n) (stk s) @ take (stk_size s - n - (dest + n)) (drop (dest + n) (stk s)) \<and>
    stk_frame s' = stk_frame s"
proof (cases "n = 0")
  case True
  then show ?thesis
    using assms append_take_drop_id [of dest "stk s"]
    by (simp add: stack_copy_def wf_stack_def stk_def min_absorb1)
next
  case False
  define xs where "xs = take n (drop (stk_size s - n) (stk_bytes s))"
  have len: "length xs = n" "drop (stk_size s - n) (stk s) = xs"
    using assms by (auto simp: xs_def wf_stack_def stk_def drop_take min_def)
  have "slice (stk_bytes s) (stk_size s - n) (stk_size s - n + n) = Some xs"
    using assms by (simp add: xs_def wf_stack_def)
  then have cw: "copy_within (stk_bytes s) (stk_size s - n) (stk_size s - n + n) dest =
      Some (take dest (stk_bytes s) @ xs @ drop (dest + n) (stk_bytes s))"
    using dest wf_stackD [OF wf] len(1) by (simp add: copy_within_def)
  have "stack_copy dest (stk_size s - n) n s =
      Some (s\<lparr>stk_bytes := take dest (stk_bytes s) @ xs @ drop (dest + n) (stk_bytes s)\<rparr>)"
    using dest n wf_stackD [OF wf] cw False by (simp add: stack_copy_def)
  moreover have "take (stk_size s - n) (take dest (stk_bytes s) @ xs @ drop (dest + n) (stk_bytes s)) =
      take dest (stk s) @ xs @ take (stk_size s - n - (dest + n)) (drop (dest + n) (stk s))"
    using dest n wf_stackD [OF wf] len by (simp add: stk_def drop_take min_absorb1 min_absorb2 add.assoc)
  ultimately show ?thesis
    using dest n wf_stackD [OF wf] len by (simp add: wf_stack_def stk_def)
qed

lemma move_down:
  assumes wf: "wf_stack s" and src: "src + n \<le> stk_size s" and dest: "dest \<le> src"
  shows "\<exists>s'. stack_move dest src n s = Some s' \<and> wf_stack (s'\<lparr>stk_size := dest + n\<rparr>) \<and>
    stk (s'\<lparr>stk_size := dest + n\<rparr>) = take dest (stk s) @ take n (drop src (stk s)) \<and> stk_size s' = stk_size s \<and>
    stk_frame s' = stk_frame s"
proof (cases "n = 0")
  case True
  then show ?thesis
    using assms by (simp add: stack_move_def wf_stack_def stk_def min_absorb1)
next
  case False
  define xs where "xs = take n (drop src (stk_bytes s))"
  have len: "length xs = n" "take n (drop src (stk s)) = xs"
    using src wf_stackD [OF wf] by (auto simp: xs_def stk_def drop_take min_def)
  have "slice (stk_bytes s) src (src + n) = Some xs"
    using src wf_stackD [OF wf] by (simp add: xs_def)
  then have "copy_within (stk_bytes s) src (src + n) dest =
      Some (take dest (stk_bytes s) @ xs @ drop (dest + n) (stk_bytes s))"
    using src dest wf_stackD [OF wf] len(1) by (simp add: copy_within_def)
  then show ?thesis
    using src dest wf_stackD [OF wf] len False by (simp add: stack_move_def wf_stack_def stk_def min_absorb1)
qed

end
