(* ===== verification/Fpy_Ops.thy ===== *)
theory Fpy_Ops
  imports Fpy_Stack Fw_Serial "HOL-Library.Signed_Division"
begin

text \<open>
  The stack operations of the Fpy sequencer (\<open>fprime-svc/src/fpy_sequencer/directives.rs\<close>, from \<open>pop2\<close> on, and
  the directive ids and error codes of \<open>types.rs\<close>).  A \<open>DirectiveId\<close> is its \<open>u8\<close> representation.  An \<open>i64\<close> is a
  64-bit word read with \<open>sint\<close>; its \<open>+\<close>, \<open>-\<close>, \<open>*\<close>, \<open>/\<close> are exact integer operations followed by
  \<open>i64_checked\<close>, which is \<open>None\<close> where the code would overflow.  A float is its bit pattern, and the IEEE
  operations on patterns are the parameter \<open>float_ops\<close>.
\<close>

section \<open>Directive ids and error codes\<close>

type_synonym DirectiveId = u8

abbreviation (input) "DirectiveId_Invalid \<equiv> (0 :: u8)"
abbreviation (input) "DirectiveId_WaitRel \<equiv> (1 :: u8)"
abbreviation (input) "DirectiveId_WaitAbs \<equiv> (2 :: u8)"
abbreviation (input) "DirectiveId_Goto \<equiv> (3 :: u8)"
abbreviation (input) "DirectiveId_If \<equiv> (4 :: u8)"
abbreviation (input) "DirectiveId_NoOp \<equiv> (5 :: u8)"
abbreviation (input) "DirectiveId_PushTlmVal \<equiv> (6 :: u8)"
abbreviation (input) "DirectiveId_PushPrm \<equiv> (7 :: u8)"
abbreviation (input) "DirectiveId_ConstCmd \<equiv> (8 :: u8)"
abbreviation (input) "DirectiveId_Or \<equiv> (9 :: u8)"
abbreviation (input) "DirectiveId_And \<equiv> (10 :: u8)"
abbreviation (input) "DirectiveId_Ieq \<equiv> (11 :: u8)"
abbreviation (input) "DirectiveId_Ine \<equiv> (12 :: u8)"
abbreviation (input) "DirectiveId_Ult \<equiv> (13 :: u8)"
abbreviation (input) "DirectiveId_Ule \<equiv> (14 :: u8)"
abbreviation (input) "DirectiveId_Ugt \<equiv> (15 :: u8)"
abbreviation (input) "DirectiveId_Uge \<equiv> (16 :: u8)"
abbreviation (input) "DirectiveId_Slt \<equiv> (17 :: u8)"
abbreviation (input) "DirectiveId_Sle \<equiv> (18 :: u8)"
abbreviation (input) "DirectiveId_Sgt \<equiv> (19 :: u8)"
abbreviation (input) "DirectiveId_Sge \<equiv> (20 :: u8)"
abbreviation (input) "DirectiveId_Feq \<equiv> (21 :: u8)"
abbreviation (input) "DirectiveId_Fne \<equiv> (22 :: u8)"
abbreviation (input) "DirectiveId_Flt \<equiv> (23 :: u8)"
abbreviation (input) "DirectiveId_Fle \<equiv> (24 :: u8)"
abbreviation (input) "DirectiveId_Fgt \<equiv> (25 :: u8)"
abbreviation (input) "DirectiveId_Fge \<equiv> (26 :: u8)"
abbreviation (input) "DirectiveId_Not \<equiv> (27 :: u8)"
abbreviation (input) "DirectiveId_Fptosi \<equiv> (28 :: u8)"
abbreviation (input) "DirectiveId_Fptoui \<equiv> (29 :: u8)"
abbreviation (input) "DirectiveId_Sitofp \<equiv> (30 :: u8)"
abbreviation (input) "DirectiveId_Uitofp \<equiv> (31 :: u8)"
abbreviation (input) "DirectiveId_Add \<equiv> (32 :: u8)"
abbreviation (input) "DirectiveId_Sub \<equiv> (33 :: u8)"
abbreviation (input) "DirectiveId_Mul \<equiv> (34 :: u8)"
abbreviation (input) "DirectiveId_Udiv \<equiv> (35 :: u8)"
abbreviation (input) "DirectiveId_Sdiv \<equiv> (36 :: u8)"
abbreviation (input) "DirectiveId_Umod \<equiv> (37 :: u8)"
abbreviation (input) "DirectiveId_Smod \<equiv> (38 :: u8)"
abbreviation (input) "DirectiveId_Fadd \<equiv> (39 :: u8)"
abbreviation (input) "DirectiveId_Fsub \<equiv> (40 :: u8)"
abbreviation (input) "DirectiveId_Fmul \<equiv> (41 :: u8)"
abbreviation (input) "DirectiveId_Fdiv \<equiv> (42 :: u8)"
abbreviation (input) "DirectiveId_Fpow \<equiv> (43 :: u8)"
abbreviation (input) "DirectiveId_Flog \<equiv> (44 :: u8)"
abbreviation (input) "DirectiveId_Fmod \<equiv> (45 :: u8)"
abbreviation (input) "DirectiveId_Fpext \<equiv> (46 :: u8)"
abbreviation (input) "DirectiveId_Fptrunc \<equiv> (47 :: u8)"
abbreviation (input) "DirectiveId_Siext8To64 \<equiv> (48 :: u8)"
abbreviation (input) "DirectiveId_Siext16To64 \<equiv> (49 :: u8)"
abbreviation (input) "DirectiveId_Siext32To64 \<equiv> (50 :: u8)"
abbreviation (input) "DirectiveId_Ziext8To64 \<equiv> (51 :: u8)"
abbreviation (input) "DirectiveId_Ziext16To64 \<equiv> (52 :: u8)"
abbreviation (input) "DirectiveId_Ziext32To64 \<equiv> (53 :: u8)"
abbreviation (input) "DirectiveId_Itrunc64To8 \<equiv> (54 :: u8)"
abbreviation (input) "DirectiveId_Itrunc64To16 \<equiv> (55 :: u8)"
abbreviation (input) "DirectiveId_Itrunc64To32 \<equiv> (56 :: u8)"
abbreviation (input) "DirectiveId_Exit \<equiv> (57 :: u8)"
abbreviation (input) "DirectiveId_Allocate \<equiv> (58 :: u8)"
abbreviation (input) "DirectiveId_StoreRelConstOffset \<equiv> (59 :: u8)"
abbreviation (input) "DirectiveId_LoadRel \<equiv> (60 :: u8)"
abbreviation (input) "DirectiveId_PushVal \<equiv> (61 :: u8)"
abbreviation (input) "DirectiveId_Discard \<equiv> (62 :: u8)"
abbreviation (input) "DirectiveId_Memcmp \<equiv> (63 :: u8)"
abbreviation (input) "DirectiveId_StackCmd \<equiv> (64 :: u8)"
abbreviation (input) "DirectiveId_PushTlmValAndTime \<equiv> (65 :: u8)"
abbreviation (input) "DirectiveId_PushTime \<equiv> (66 :: u8)"
abbreviation (input) "DirectiveId_GetField \<equiv> (67 :: u8)"
abbreviation (input) "DirectiveId_Peek \<equiv> (68 :: u8)"
abbreviation (input) "DirectiveId_StoreRel \<equiv> (69 :: u8)"
abbreviation (input) "DirectiveId_Call \<equiv> (70 :: u8)"
abbreviation (input) "DirectiveId_Return \<equiv> (71 :: u8)"
abbreviation (input) "DirectiveId_LoadAbs \<equiv> (72 :: u8)"
abbreviation (input) "DirectiveId_StoreAbs \<equiv> (73 :: u8)"
abbreviation (input) "DirectiveId_StoreAbsConstOffset \<equiv> (74 :: u8)"
abbreviation (input) "DirectiveId_PopEvent \<equiv> (75 :: u8)"
abbreviation (input) "DirectiveId_SetSeed \<equiv> (76 :: u8)"
abbreviation (input) "DirectiveId_PushRand \<equiv> (77 :: u8)"
abbreviation (input) "DirectiveId_PopSerializable \<equiv> (78 :: u8)"
abbreviation (input) "DirectiveId_Ffloor \<equiv> (79 :: u8)"
abbreviation (input) "DirectiveId_Iabs \<equiv> (80 :: u8)"
abbreviation (input) "DirectiveId_Fabs \<equiv> (81 :: u8)"

definition is_stack_op :: "DirectiveId \<Rightarrow> bool" where
  "is_stack_op raw \<longleftrightarrow>
     (raw \<ge> DirectiveId_Or \<and> raw \<le> DirectiveId_Itrunc64To32) \<or> (raw \<ge> DirectiveId_Ffloor \<and> raw \<le> DirectiveId_Fabs)"

datatype DirectiveError =
    NoError | StmtOutOfBounds | TlmGetNotConnected | TlmChanNotFound | PrmGetNotConnected | PrmNotFound
  | CmdSerializeFailure | ExitWithError | StackAccessOutOfBounds | StackOverflow | DomainError
  | ArrayOutOfBounds | ArithmeticOverflow | ArithmeticUnderflow | FrameStartOutOfBounds | StackUnderflow
  | InvalidArg | CmdFail | SerialPortNotConnected | SerialPortInvalidIndex

record float_ops =
  f_eq :: "u64 \<Rightarrow> u64 \<Rightarrow> bool"
  f_lt :: "u64 \<Rightarrow> u64 \<Rightarrow> bool"
  f_le :: "u64 \<Rightarrow> u64 \<Rightarrow> bool"
  f_from_f32 :: "u32 \<Rightarrow> u64"
  f_to_f32 :: "u64 \<Rightarrow> u32"
  f_to_i64 :: "u64 \<Rightarrow> i64"
  f_to_u64 :: "u64 \<Rightarrow> u64"
  f_from_i64 :: "i64 \<Rightarrow> u64"
  f_from_u64 :: "u64 \<Rightarrow> u64"
  f_add :: "u64 \<Rightarrow> u64 \<Rightarrow> u64"
  f_sub :: "u64 \<Rightarrow> u64 \<Rightarrow> u64"
  f_mul :: "u64 \<Rightarrow> u64 \<Rightarrow> u64"
  f_div :: "u64 \<Rightarrow> u64 \<Rightarrow> u64"
  f_pow :: "u64 \<Rightarrow> u64 \<Rightarrow> u64"
  f_rem :: "u64 \<Rightarrow> u64 \<Rightarrow> u64"
  f_ln :: "u64 \<Rightarrow> u64"
  f_floor :: "u64 \<Rightarrow> u64"

text \<open>The bit patterns of \<open>0.0\<close>; \<open>copysign\<close> and \<open>abs\<close> only touch the sign bit.\<close>

abbreviation (input) f_zero :: u64 where
  "f_zero \<equiv> 0"

definition f_copysign :: "u64 \<Rightarrow> u64 \<Rightarrow> u64" where
  "f_copysign x y = (x AND 0x7FFFFFFFFFFFFFFF) OR (y AND 0x8000000000000000)"

definition f_abs :: "u64 \<Rightarrow> u64" where
  "f_abs x = x AND 0x7FFFFFFFFFFFFFFF"

section \<open>The operations\<close>

definition bool_byte :: "bool \<Rightarrow> u8" where
  "bool_byte v = (if v then FW_SERIALIZE_TRUE_VALUE else FW_SERIALIZE_FALSE_VALUE)"

abbreviation I64_MAX :: int where
  "I64_MAX \<equiv> 9223372036854775807"

abbreviation I64_MIN :: int where
  "I64_MIN \<equiv> - 9223372036854775808"

definition i64_checked :: "int \<Rightarrow> i64 option" where
  "i64_checked v = (if I64_MIN \<le> v \<and> v \<le> I64_MAX then Some (word_of_int v) else None)"

definition has :: "nat \<Rightarrow> fpy_stack \<Rightarrow> bool" where
  "has n s \<longleftrightarrow> stk_size s \<ge> n"

definition pop2 :: "fpy_stack \<Rightarrow> ('a::len word \<times> 'a word \<times> fpy_stack) option" where
  "pop2 s = do { (rhs, s) \<leftarrow> stack_pop s; (lhs, s) \<leftarrow> stack_pop s; Some (lhs, rhs, s) }"

definition cmp_op :: "('a::len word \<Rightarrow> 'a word \<Rightarrow> bool) \<Rightarrow> fpy_stack \<Rightarrow> (DirectiveError \<times> fpy_stack) option" where
  "cmp_op f s =
     (if \<not> has (nbytes TYPE('a) * 2) s then Some (StackUnderflow, s)
      else do { (lhs, rhs, s) \<leftarrow> pop2 s;
                s \<leftarrow> stack_push (bool_byte (f lhs rhs)) s;
                Some (NoError, s) })"

definition conv_op :: "('a::len word \<Rightarrow> 'b::len word) \<Rightarrow> fpy_stack \<Rightarrow> (DirectiveError \<times> fpy_stack) option" where
  "conv_op f s =
     (if \<not> has (nbytes TYPE('a)) s then Some (StackUnderflow, s)
      else do { (v, s) \<leftarrow> stack_pop s;
                s \<leftarrow> stack_push (f v) s;
                Some (NoError, s) })"

definition float_op :: "(u64 \<Rightarrow> u64 \<Rightarrow> u64) \<Rightarrow> fpy_stack \<Rightarrow> (DirectiveError \<times> fpy_stack) option" where
  "float_op f s =
     (if \<not> has (8 * 2) s then Some (StackUnderflow, s)
      else do { (lhs, rhs, s) \<leftarrow> pop2 s;
                s \<leftarrow> stack_push (f lhs rhs) s;
                Some (NoError, s) })"

definition op_or :: "fpy_stack \<Rightarrow> (DirectiveError \<times> fpy_stack) option" where
  "op_or s =
     (if \<not> has 2 s then Some (StackUnderflow, s)
      else do { (lhs :: u8, rhs, s) \<leftarrow> pop2 s; s \<leftarrow> stack_push (lhs OR rhs) s; Some (NoError, s) })"

definition op_and :: "fpy_stack \<Rightarrow> (DirectiveError \<times> fpy_stack) option" where
  "op_and s =
     (if \<not> has 2 s then Some (StackUnderflow, s)
      else do { (lhs :: u8, rhs, s) \<leftarrow> pop2 s; s \<leftarrow> stack_push (lhs AND rhs) s; Some (NoError, s) })"

definition op_add :: "fpy_stack \<Rightarrow> (DirectiveError \<times> fpy_stack) option" where
  "op_add s =
     (if \<not> has 16 s then Some (StackUnderflow, s)
      else do { (l :: i64, r, s) \<leftarrow> pop2 s;
                let lhs = sint l; let rhs = sint r;
                if rhs > 0 \<and> lhs > 0 \<and> I64_MAX - rhs < lhs then Some (ArithmeticOverflow, s)
                else if rhs < 0 \<and> lhs < 0 \<and> I64_MIN - rhs > lhs then Some (ArithmeticUnderflow, s)
                else do { v \<leftarrow> i64_checked (lhs + rhs); s \<leftarrow> stack_push v s; Some (NoError, s) } })"

definition op_sub :: "fpy_stack \<Rightarrow> (DirectiveError \<times> fpy_stack) option" where
  "op_sub s =
     (if \<not> has 16 s then Some (StackUnderflow, s)
      else do { (l :: i64, r, s) \<leftarrow> pop2 s;
                let lhs = sint l; let rhs = sint r;
                if rhs < 0 \<and> lhs > 0 \<and> I64_MAX + rhs < lhs then Some (ArithmeticOverflow, s)
                else if rhs > 0 \<and> lhs < 0 \<and> I64_MIN + rhs > lhs then Some (ArithmeticUnderflow, s)
                else do { v \<leftarrow> i64_checked (lhs - rhs); s \<leftarrow> stack_push v s; Some (NoError, s) } })"

definition op_mul :: "fpy_stack \<Rightarrow> (DirectiveError \<times> fpy_stack) option" where
  "op_mul s =
     (if \<not> has 16 s then Some (StackUnderflow, s)
      else do { (l :: i64, r, s) \<leftarrow> pop2 s;
                let lhs = sint l; let rhs = sint r;
                let overflow = (rhs > 0 \<and> lhs > 0 \<and> I64_MAX sdiv rhs < lhs) \<or> (rhs < 0 \<and> lhs < 0 \<and> lhs < I64_MAX sdiv rhs);
                if overflow then Some (ArithmeticOverflow, s)
                else do {
                  let underflow = (rhs < 0 \<and> lhs > 0 \<and> I64_MIN sdiv lhs > rhs) \<or> (rhs > 0 \<and> lhs < 0 \<and> I64_MIN sdiv rhs > lhs);
                  if underflow then Some (ArithmeticUnderflow, s)
                  else do { v \<leftarrow> i64_checked (lhs * rhs); s \<leftarrow> stack_push v s; Some (NoError, s) } } })"

definition op_udiv :: "fpy_stack \<Rightarrow> (DirectiveError \<times> fpy_stack) option" where
  "op_udiv s =
     (if \<not> has 16 s then Some (StackUnderflow, s)
      else do { (lhs :: u64, rhs, s) \<leftarrow> pop2 s;
                if rhs = 0 then Some (DomainError, s)
                else do { s \<leftarrow> stack_push (lhs div rhs) s; Some (NoError, s) } })"

definition op_sdiv :: "fpy_stack \<Rightarrow> (DirectiveError \<times> fpy_stack) option" where
  "op_sdiv s =
     (if \<not> has 16 s then Some (StackUnderflow, s)
      else do { (l :: i64, r, s) \<leftarrow> pop2 s;
                let lhs = sint l; let rhs = sint r;
                if rhs = 0 then Some (DomainError, s)
                else if lhs = I64_MIN \<and> rhs = - 1 then Some (ArithmeticOverflow, s)
                else do { q \<leftarrow> i64_checked (lhs sdiv rhs);
                          q \<leftarrow> (if lhs smod rhs \<noteq> 0 \<and> (lhs < 0) \<noteq> (rhs < 0) then i64_checked (sint q - 1) else Some q);
                          s \<leftarrow> stack_push q s;
                          Some (NoError, s) } })"

definition op_umod :: "fpy_stack \<Rightarrow> (DirectiveError \<times> fpy_stack) option" where
  "op_umod s =
     (if \<not> has 16 s then Some (StackUnderflow, s)
      else do { (rhs :: u64, s) \<leftarrow> stack_pop s;
                if rhs = 0 then Some (DomainError, s)
                else do { (lhs :: u64, s) \<leftarrow> stack_pop s;
                          s \<leftarrow> stack_push (lhs mod rhs) s;
                          Some (NoError, s) } })"

definition op_smod :: "fpy_stack \<Rightarrow> (DirectiveError \<times> fpy_stack) option" where
  "op_smod s =
     (if \<not> has 16 s then Some (StackUnderflow, s)
      else do { (r :: i64, s) \<leftarrow> stack_pop s;
                let rhs = sint r;
                if rhs = 0 then Some (DomainError, s)
                else do { (l :: i64, s) \<leftarrow> stack_pop s;
                          let lhs = sint l;
                          if lhs = I64_MIN \<and> rhs = - 1
                          then do { s \<leftarrow> stack_push (0 :: i64) s; Some (NoError, s) }
                          else do { res \<leftarrow> i64_checked (lhs smod rhs);
                                    res \<leftarrow> (if (sint res > 0 \<and> rhs < 0) \<or> (sint res < 0 \<and> rhs > 0)
                                           then i64_checked (sint res + rhs) else Some res);
                                    s \<leftarrow> stack_push res s;
                                    Some (NoError, s) } } })"

definition op_flog :: "float_ops \<Rightarrow> fpy_stack \<Rightarrow> (DirectiveError \<times> fpy_stack) option" where
  "op_flog fp s =
     (if \<not> has 8 s then Some (StackUnderflow, s)
      else do { (v :: u64, s) \<leftarrow> stack_pop s;
                if f_le fp v f_zero then Some (DomainError, s)
                else do { s \<leftarrow> stack_push (f_ln fp v) s; Some (NoError, s) } })"

definition op_fmod :: "float_ops \<Rightarrow> fpy_stack \<Rightarrow> (DirectiveError \<times> fpy_stack) option" where
  "op_fmod fp s =
     (if \<not> has 16 s then Some (StackUnderflow, s)
      else do { (lhs :: u64, rhs, s) \<leftarrow> pop2 s;
                let res = f_rem fp lhs rhs;
                let res = (if (f_lt fp f_zero res \<and> f_lt fp rhs f_zero) \<or> (f_lt fp res f_zero \<and> f_lt fp f_zero rhs)
                           then f_add fp res rhs
                           else if f_eq fp res f_zero then f_copysign f_zero rhs else res);
                s \<leftarrow> stack_push res s;
                Some (NoError, s) })"

definition op_iabs :: "fpy_stack \<Rightarrow> (DirectiveError \<times> fpy_stack) option" where
  "op_iabs s =
     (if \<not> has 8 s then Some (StackUnderflow, s)
      else do { (v :: i64, s) \<leftarrow> stack_pop s;
                if sint v = I64_MIN then Some (ArithmeticOverflow, s)
                else do { a \<leftarrow> i64_checked \<bar>sint v\<bar>; s \<leftarrow> stack_push a s; Some (NoError, s) } })"

text \<open>The arms of the match in \<open>stack_op_directive_handler\<close>.\<close>

definition stack_ops :: "float_ops \<Rightarrow> (DirectiveId \<times> (fpy_stack \<Rightarrow> (DirectiveError \<times> fpy_stack) option)) list" where
  "stack_ops fp =
    [(DirectiveId_Or, op_or),
     (DirectiveId_And, op_and),
     (DirectiveId_Ieq, cmp_op (\<lambda>l r :: i64. l = r)),
     (DirectiveId_Ine, cmp_op (\<lambda>l r :: i64. l \<noteq> r)),
     (DirectiveId_Ult, cmp_op (\<lambda>l r :: u64. l < r)),
     (DirectiveId_Ule, cmp_op (\<lambda>l r :: u64. l \<le> r)),
     (DirectiveId_Ugt, cmp_op (\<lambda>l r :: u64. l > r)),
     (DirectiveId_Uge, cmp_op (\<lambda>l r :: u64. l \<ge> r)),
     (DirectiveId_Slt, cmp_op (\<lambda>l r :: i64. sint l < sint r)),
     (DirectiveId_Sle, cmp_op (\<lambda>l r :: i64. sint l \<le> sint r)),
     (DirectiveId_Sgt, cmp_op (\<lambda>l r :: i64. sint l > sint r)),
     (DirectiveId_Sge, cmp_op (\<lambda>l r :: i64. sint l \<ge> sint r)),
     (DirectiveId_Feq, cmp_op (\<lambda>l r :: u64. f_eq fp l r)),
     (DirectiveId_Fne, cmp_op (\<lambda>l r :: u64. \<not> f_eq fp l r)),
     (DirectiveId_Flt, cmp_op (\<lambda>l r :: u64. f_lt fp l r)),
     (DirectiveId_Fle, cmp_op (\<lambda>l r :: u64. f_le fp l r)),
     (DirectiveId_Fgt, cmp_op (\<lambda>l r :: u64. f_lt fp r l)),
     (DirectiveId_Fge, cmp_op (\<lambda>l r :: u64. f_le fp r l)),
     (DirectiveId_Not, conv_op (\<lambda>v :: u8. bool_byte (v = 0))),
     (DirectiveId_Fpext, conv_op (f_from_f32 fp)),
     (DirectiveId_Fptrunc, conv_op (f_to_f32 fp)),
     (DirectiveId_Fptosi, conv_op (f_to_i64 fp)),
     (DirectiveId_Fptoui, conv_op (f_to_u64 fp)),
     (DirectiveId_Sitofp, conv_op (f_from_i64 fp)),
     (DirectiveId_Uitofp, conv_op (f_from_u64 fp)),
     (DirectiveId_Add, op_add),
     (DirectiveId_Sub, op_sub),
     (DirectiveId_Mul, op_mul),
     (DirectiveId_Udiv, op_udiv),
     (DirectiveId_Sdiv, op_sdiv),
     (DirectiveId_Umod, op_umod),
     (DirectiveId_Smod, op_smod),
     (DirectiveId_Fadd, float_op (f_add fp)),
     (DirectiveId_Fsub, float_op (f_sub fp)),
     (DirectiveId_Fmul, float_op (f_mul fp)),
     (DirectiveId_Fdiv, float_op (f_div fp)),
     (DirectiveId_Fpow, float_op (f_pow fp)),
     (DirectiveId_Flog, op_flog fp),
     (DirectiveId_Fmod, op_fmod fp),
     (DirectiveId_Siext8To64, conv_op (\<lambda>v :: i8. scast v :: i64)),
     (DirectiveId_Siext16To64, conv_op (\<lambda>v :: i16. scast v :: i64)),
     (DirectiveId_Siext32To64, conv_op (\<lambda>v :: i32. scast v :: i64)),
     (DirectiveId_Ziext8To64, conv_op (\<lambda>v :: u8. ucast v :: u64)),
     (DirectiveId_Ziext16To64, conv_op (\<lambda>v :: u16. ucast v :: u64)),
     (DirectiveId_Ziext32To64, conv_op (\<lambda>v :: u32. ucast v :: u64)),
     (DirectiveId_Itrunc64To8, conv_op (\<lambda>v :: u64. ucast v :: u8)),
     (DirectiveId_Itrunc64To16, conv_op (\<lambda>v :: u64. ucast v :: u16)),
     (DirectiveId_Itrunc64To32, conv_op (\<lambda>v :: u64. ucast v :: u32)),
     (DirectiveId_Ffloor, conv_op (f_floor fp)),
     (DirectiveId_Iabs, op_iabs),
     (DirectiveId_Fabs, conv_op f_abs)]"

definition stack_op :: "float_ops \<Rightarrow> DirectiveId \<Rightarrow> fpy_stack \<Rightarrow> (DirectiveError \<times> fpy_stack) option" where
  "stack_op fp op s =
     do { fw_assert (is_stack_op op);
          case map_of (stack_ops fp) op of
            Some f \<Rightarrow> f s
          | None \<Rightarrow> None }"

section \<open>Exactness of the signed arithmetic\<close>

lemma stack_pop_top:
  fixes v :: "'a::len word"
  assumes "wf_stack s" and "stk s = base @ to_be_bytes v" and "8 dvd LENGTH('a)"
  shows "stack_pop s = Some (v, s\<lparr>stk_size := length base\<rparr>)"
proof -
  have "stk_size s = length base + nbytes TYPE('a)"
    using length_stk [OF assms(1)] assms(2) by simp
  then show ?thesis
    using stack_pop_eq [OF assms(1), where 'a = 'a] assms by simp
qed

lemma pop2_top:
  fixes l r :: "'a::len word"
  assumes "wf_stack s" and "stk s = base @ to_be_bytes l @ to_be_bytes r" and "8 dvd LENGTH('a)"
  shows "pop2 s = Some (l, r, s\<lparr>stk_size := length base\<rparr>)"
proof -
  have sz: "stk_size s = length base + nbytes TYPE('a) + nbytes TYPE('a)"
    using length_stk [OF assms(1)] assms(2) by simp
  let ?s = "s\<lparr>stk_size := length (base @ to_be_bytes l)\<rparr>"
  have "stack_pop s = Some (r, ?s)"
    using stack_pop_top [OF assms(1), of "base @ to_be_bytes l" r] assms by simp
  moreover have "stack_pop ?s = Some (l, ?s\<lparr>stk_size := length base\<rparr>)"
    using stack_pop_top [of ?s base l] assms sz by simp
  ultimately show ?thesis
    by (simp add: pop2_def)
qed

definition outcome :: "(DirectiveError \<times> fpy_stack) option \<Rightarrow> (DirectiveError \<times> u8 list) option" where
  "outcome m = map_option (\<lambda>(e, s). (e, stk s)) m"

lemma push_outcome:
  fixes v :: "'a::len word"
  assumes "wf_stack s" and "stk s = base @ rest" and "nbytes TYPE('a) \<le> length rest"
  shows "outcome (do { s \<leftarrow> stack_push v (s\<lparr>stk_size := length base\<rparr>); Some (NoError, s) }) =
    Some (NoError, base @ to_be_bytes v)"
proof -
  have sz: "stk_size s = length base + length rest"
    using length_stk [OF assms(1)] assms(2) by simp
  then have "length base + nbytes TYPE('a) \<le> MAX_STACK_SIZE"
    using wf_stackD(2) [OF assms(1)] assms(3) by simp
  then show ?thesis
    using assms sz by (simp add: stack_push_eq outcome_def)
qed

lemma outcome_error:
  assumes "wf_stack s" and "stk s = base @ rest"
  shows "outcome (Some (e, s\<lparr>stk_size := length base\<rparr>)) = Some (e, base)"
  using assms length_stk [OF assms(1)] by (simp add: outcome_def)

definition arith_result :: "u8 list \<Rightarrow> int \<Rightarrow> DirectiveError \<times> u8 list" where
  "arith_result base v =
     (if v > I64_MAX then (ArithmeticOverflow, base)
      else if v < I64_MIN then (ArithmeticUnderflow, base)
      else (NoError, base @ to_be_bytes (word_of_int v :: i64)))"

lemma i64_range: "I64_MIN \<le> sint (w :: i64)" "sint (w :: i64) \<le> I64_MAX"
  using sint_greater_eq [of w] sint_less [of w] by simp_all

lemma sint_i64: "I64_MIN \<le> v \<Longrightarrow> v \<le> I64_MAX \<Longrightarrow> sint (word_of_int v :: i64) = v"
  by (simp add: signed_of_int signed_take_bit_int_eq_self_iff)

lemma le_div_iff: "(0 :: int) < b \<Longrightarrow> a \<le> m div b \<longleftrightarrow> a * b \<le> m"
proof
  assume b: "0 < b" and le: "a \<le> m div b"
  have "a * b \<le> m div b * b"
    using b le by simp
  also have "\<dots> \<le> m"
    using b pos_mod_sign [of b m] div_mult_mod_eq [of m b] by linarith
  finally show "a * b \<le> m" .
next
  assume "0 < b" and "a * b \<le> m"
  then show "a \<le> m div b"
    using zdiv_mono1 [of "a * b" m b] by simp
qed

lemma div_less_iff: "(0 :: int) < b \<Longrightarrow> m div b < a \<longleftrightarrow> m < a * b"
  using le_div_iff [of b a m] by linarith

text \<open>The overflow tests of the multiplication decide whether the exact product fits.\<close>

lemma mul_overflow_iff:
  assumes "I64_MIN \<le> l" "l \<le> I64_MAX" "I64_MIN \<le> r" "r \<le> I64_MAX"
  shows "(r > 0 \<and> l > 0 \<and> I64_MAX sdiv r < l) \<or> (r < 0 \<and> l < 0 \<and> l < I64_MAX sdiv r) \<longleftrightarrow> l * r > I64_MAX"
proof (cases "0 < l * r")
  case False
  then show ?thesis
    using zero_less_mult_iff [of l r] by auto
next
  case True
  then consider "0 < l" "0 < r" | "l < 0" "r < 0"
    by (auto simp: zero_less_mult_iff)
  then show ?thesis
  proof cases
    case 1
    then show ?thesis
      using div_less_iff [of r I64_MAX l] by (simp add: signed_divide_int_def)
  next
    case 2
    then show ?thesis
      using div_less_iff [of "- r" I64_MAX "- l"] by (simp add: signed_divide_int_def) linarith
  qed
qed

lemma mul_underflow_iff:
  assumes "I64_MIN \<le> l" "l \<le> I64_MAX" "I64_MIN \<le> r" "r \<le> I64_MAX"
  shows "(r < 0 \<and> l > 0 \<and> I64_MIN sdiv l > r) \<or> (r > 0 \<and> l < 0 \<and> I64_MIN sdiv r > l) \<longleftrightarrow> l * r < I64_MIN"
proof (cases "l * r < 0")
  case False
  then show ?thesis
    using mult_less_0_iff [of l r] by auto
next
  case True
  then consider "0 < l" "r < 0" | "l < 0" "0 < r"
    by (auto simp: mult_less_0_iff)
  then show ?thesis
  proof cases
    case 1
    then show ?thesis
      using div_less_iff [of l "- I64_MIN" "- r"] by (simp add: signed_divide_int_def mult.commute) linarith
  next
    case 2
    then show ?thesis
      using div_less_iff [of r "- I64_MIN" "- l"] by (simp add: signed_divide_int_def) linarith
  qed
qed

text \<open>Truncated division and remainder with the corrections of the code are the floored ones.\<close>

lemma sdiv_floored:
  assumes "r \<noteq> 0"
  shows "(if l smod r \<noteq> 0 \<and> (l < 0) \<noteq> (r < 0) then l sdiv r - 1 else l sdiv r) = (l :: int) div r"
proof -
  have "l smod r = 0 \<longleftrightarrow> r dvd l"
    using assms by (simp add: signed_modulo_int_def dvd_abs_iff abs_dvd_iff mod_eq_0_iff_dvd sgn_if)
  then show ?thesis
    using assms by (auto simp: divide_int_eq_signed_divide_int sgn_if)
qed

lemma smod_floored:
  assumes "r \<noteq> 0"
  shows "(if (l smod r > 0 \<and> r < 0) \<or> (l smod r < 0 \<and> r > 0) then l smod r + r else l smod r) = (l :: int) mod r"
proof -
  have z: "l smod r = 0 \<longleftrightarrow> r dvd l"
    using assms by (simp add: signed_modulo_int_def dvd_abs_iff abs_dvd_iff mod_eq_0_iff_dvd sgn_if)
  have "l \<ge> 0 \<Longrightarrow> l smod r \<ge> 0" "l \<le> 0 \<Longrightarrow> l smod r \<le> 0"
    using assms smod_int_compares(2,4,6,7) [of l r] by linarith+
  then show ?thesis
    using assms z modulo_int_eq_signed_modulo_int [of l r] by (auto simp: sgn_if)
qed

text \<open>Two signed operands on top of the stack.\<close>

lemma two_operands:
  fixes l r :: i64
  assumes "wf_stack s" and "stk s = base @ to_be_bytes l @ to_be_bytes r"
  shows "has 16 s" and "pop2 s = Some (l, r, s\<lparr>stk_size := length base\<rparr>)"
    and "\<And>e. outcome (Some (e, s\<lparr>stk_size := length base\<rparr>)) = Some (e, base)"
    and "\<And>v. outcome (do { s \<leftarrow> stack_push (v :: i64) (s\<lparr>stk_size := length base\<rparr>); Some (NoError, s) }) =
      Some (NoError, base @ to_be_bytes v)"
  using assms length_stk [OF assms(1)] pop2_top [OF assms] outcome_error [OF assms]
    push_outcome [OF assms, where 'a = 64]
  by (simp_all add: has_def)

text \<open>Tests that decide whether the exact result fits give the reported outcome.\<close>

lemma guarded_result:
  fixes l r :: i64
  assumes "wf_stack s" and "stk s = base @ to_be_bytes l @ to_be_bytes r"
    and "ov \<longleftrightarrow> v > I64_MAX" and "un \<longleftrightarrow> v < I64_MIN"
  shows "outcome (if ov then Some (ArithmeticOverflow, s\<lparr>stk_size := length base\<rparr>)
      else if un then Some (ArithmeticUnderflow, s\<lparr>stk_size := length base\<rparr>)
      else do { v \<leftarrow> i64_checked v; s \<leftarrow> stack_push v (s\<lparr>stk_size := length base\<rparr>); Some (NoError, s) }) =
    Some (arith_result base v)"
  using assms two_operands(3,4) [OF assms(1,2)] by (auto simp: i64_checked_def arith_result_def not_less)

lemma op_add_exact:
  fixes l r :: i64
  assumes "wf_stack s" and "stk s = base @ to_be_bytes l @ to_be_bytes r"
  shows "outcome (op_add s) = Some (arith_result base (sint l + sint r))"
proof -
  have over: "sint r > 0 \<and> sint l > 0 \<and> I64_MAX - sint r < sint l \<longleftrightarrow> sint l + sint r > I64_MAX"
    and under: "sint r < 0 \<and> sint l < 0 \<and> I64_MIN - sint r > sint l \<longleftrightarrow> sint l + sint r < I64_MIN"
    using i64_range [of l] i64_range [of r] by linarith+
  show ?thesis
    using guarded_result [OF assms over under] two_operands(1,2) [OF assms] by (simp add: Let_def op_add_def)
qed

text \<open>The overflow test of the subtraction misses \<open>0 - i64::MIN\<close>.\<close>

lemma op_sub_exact:
  fixes l r :: i64
  assumes "wf_stack s" and "stk s = base @ to_be_bytes l @ to_be_bytes r"
  shows "outcome (op_sub s) =
    (if sint l = 0 \<and> sint r = I64_MIN then None else Some (arith_result base (sint l - sint r)))"
proof (cases "sint l = 0 \<and> sint r = I64_MIN")
  case True
  then show ?thesis
    using two_operands(1,2) [OF assms] by (simp add: op_sub_def i64_checked_def outcome_def)
next
  case False
  then have over: "sint r < 0 \<and> sint l > 0 \<and> I64_MAX + sint r < sint l \<longleftrightarrow> sint l - sint r > I64_MAX"
    using i64_range [of l] i64_range [of r] by linarith
  have under: "sint r > 0 \<and> sint l < 0 \<and> I64_MIN + sint r > sint l \<longleftrightarrow> sint l - sint r < I64_MIN"
    using i64_range [of l] i64_range [of r] by linarith
  show ?thesis
    using guarded_result [OF assms over under] two_operands(1,2) [OF assms] False by (simp add: Let_def op_sub_def)
qed

lemma op_mul_exact:
  fixes l r :: i64
  assumes "wf_stack s" and "stk s = base @ to_be_bytes l @ to_be_bytes r"
  shows "outcome (op_mul s) = Some (arith_result base (sint l * sint r))"
  using guarded_result [OF assms mul_overflow_iff [of "sint l" "sint r"] mul_underflow_iff [of "sint l" "sint r"],
      OF i64_range i64_range i64_range i64_range]
  by (simp only: op_mul_def two_operands(1,2) [OF assms] Let_def not_True_eq_False if_False Option.bind.simps prod.case
      i64_range)

lemma div_fits:
  assumes "I64_MIN \<le> l" "l \<le> I64_MAX" "r \<noteq> 0" "\<not> (l = I64_MIN \<and> r = - 1)"
  shows "I64_MIN \<le> l div r" and "l div r \<le> I64_MAX"
proof -
  have "I64_MIN \<le> l div r \<and> l div r < 9223372036854775808"
  proof (cases "0 < r")
    case True
    then have "I64_MIN * r \<le> l" "l < 9223372036854775808 * r"
      using assms(1,2) by linarith+
    then show ?thesis
      using le_div_iff [OF True, of I64_MIN l] div_less_iff [OF True, of l 9223372036854775808] by linarith
  next
    case False
    then have r: "0 < - r"
      using assms(3) by simp
    then have "I64_MIN * (- r) \<le> - l" "- l < 9223372036854775808 * (- r)"
      using assms(1,2,4) by auto
    then show ?thesis
      using le_div_iff [OF r, of I64_MIN "- l"] div_less_iff [OF r, of "- l" 9223372036854775808] by simp
  qed
  then show "I64_MIN \<le> l div r" and "l div r \<le> I64_MAX"
    by linarith+
qed

lemma sdiv_fits:
  assumes "I64_MIN \<le> l" "l \<le> I64_MAX" "r \<noteq> 0" "\<not> (l = I64_MIN \<and> r = - 1)"
  shows "I64_MIN \<le> l sdiv r" and "l sdiv r \<le> I64_MAX"
proof -
  have rng: "- \<bar>l\<bar> \<le> l sdiv r" "l sdiv r \<le> \<bar>l\<bar>"
    using sdiv_int_range [of l r] by auto
  then show "I64_MIN \<le> l sdiv r"
    using assms(1,2) by linarith
  show "l sdiv r \<le> I64_MAX"
  proof (cases "l = I64_MIN")
    case False
    then show ?thesis
      using rng assms(1,2) by linarith
  next
    case True
    show ?thesis
    proof (cases "r < 0")
      case neg: True
      then show ?thesis
        using div_fits(2) [OF assms] True signed_divide_int_eq_divide_int [of l r] by simp
    next
      case False
      then have "0 \<le> (- I64_MIN) div r"
        by (simp add: pos_imp_zdiv_nonneg_iff assms(3) less_le)
      then show ?thesis
        using True False assms(3) by (simp add: signed_divide_int_def)
    qed
  qed
qed

lemma corrected:
  assumes "(if c then a else b) = d" and "I64_MIN \<le> d" and "d \<le> I64_MAX"
  shows "(if c then i64_checked a else Some (word_of_int b)) = Some (word_of_int d)"
  using assms by (cases c) (simp_all add: i64_checked_def)

lemma op_sdiv_exact:
  fixes l r :: i64
  assumes "wf_stack s" and "stk s = base @ to_be_bytes l @ to_be_bytes r"
  shows "outcome (op_sdiv s) =
    Some (if sint r = 0 then (DomainError, base) else arith_result base (sint l div sint r))"
proof -
  note o = two_operands [OF assms]
  consider "sint r = 0" | "sint r \<noteq> 0" "sint l = I64_MIN \<and> sint r = - 1"
    | "sint r \<noteq> 0" "\<not> (sint l = I64_MIN \<and> sint r = - 1)"
    by blast
  then show ?thesis
  proof cases
    case 1
    then show ?thesis
      using o by (simp add: Let_def op_sdiv_def)
  next
    case 2
    then show ?thesis
      using o by (simp add: Let_def op_sdiv_def arith_result_def)
  next
    case 3
    let ?L = "sint l" and ?R = "sint r"
    have q: "i64_checked (?L sdiv ?R) = Some (word_of_int (?L sdiv ?R))" "sint (word_of_int (?L sdiv ?R) :: i64) = ?L sdiv ?R"
      using sdiv_fits [OF i64_range 3] sint_i64 by (auto simp: i64_checked_def)
    have cor: "(if ?L smod ?R \<noteq> 0 \<and> (?L < 0) \<noteq> (?R < 0) then i64_checked (?L sdiv ?R - 1) else Some (word_of_int (?L sdiv ?R))) =
        Some (word_of_int (?L div ?R))"
      by (rule corrected [OF sdiv_floored [OF 3(1)] div_fits [OF i64_range 3]])
    have res: "arith_result base (?L div ?R) = (NoError, base @ to_be_bytes (word_of_int (?L div ?R) :: i64))"
      using div_fits [OF i64_range 3] by (simp add: arith_result_def)
    show ?thesis
      by (simp only: op_sdiv_def o q cor res 3 Let_def not_True_eq_False if_False Option.bind.simps prod.case)
  qed
qed

lemma smod_fits:
  assumes "I64_MIN \<le> r" "r \<le> I64_MAX" "r \<noteq> 0"
  shows "I64_MIN \<le> l smod r" "l smod r \<le> I64_MAX" "I64_MIN \<le> l mod r" "l mod r \<le> I64_MAX"
proof -
  show "I64_MIN \<le> l smod r" "l smod r \<le> I64_MAX"
    using smod_int_range [where a = l and b = r] assms by auto
  show "I64_MIN \<le> l mod r" "l mod r \<le> I64_MAX"
    using assms pos_mod_sign [of r l] pos_mod_bound [of r l] neg_mod_sign [of r l] neg_mod_bound [of r l]
    by linarith+
qed

lemma op_smod_exact:
  fixes l r :: i64
  assumes "wf_stack s" and "stk s = base @ to_be_bytes l @ to_be_bytes r"
  shows "outcome (op_smod s) =
    Some (if sint r = 0 then (DomainError, base @ to_be_bytes l)
          else (NoError, base @ to_be_bytes (word_of_int (sint l mod sint r) :: i64)))"
proof -
  let ?s = "s\<lparr>stk_size := length (base @ to_be_bytes l)\<rparr>"
  have sz: "stk_size s = length base + 16"
    using length_stk [OF assms(1)] assms(2) by simp
  have pops: "stack_pop s = Some (r, ?s)" "stack_pop ?s = Some (l, s\<lparr>stk_size := length base\<rparr>)"
    using stack_pop_top [OF assms(1), of "base @ to_be_bytes l" r] stack_pop_top [of ?s base l] assms sz by simp_all
  note o = two_operands [OF assms]
  consider "sint r = 0" | "sint r \<noteq> 0" "sint l = I64_MIN \<and> sint r = - 1"
    | "sint r \<noteq> 0" "\<not> (sint l = I64_MIN \<and> sint r = - 1)"
    by blast
  then show ?thesis
  proof cases
    case 1
    then show ?thesis
      using o(1) pops(1) sz assms by (simp add: Let_def op_smod_def outcome_def)
  next
    case 2
    then show ?thesis
      using o(1,4) pops by (simp add: Let_def op_smod_def)
  next
    case 3
    let ?L = "sint l" and ?R = "sint r"
    note fits = smod_fits [OF i64_range 3(1), of ?L]
    have q: "i64_checked (?L smod ?R) = Some (word_of_int (?L smod ?R))" "sint (word_of_int (?L smod ?R) :: i64) = ?L smod ?R"
      using fits sint_i64 by (auto simp: i64_checked_def)
    have cor: "(if (?L smod ?R > 0 \<and> ?R < 0) \<or> (?L smod ?R < 0 \<and> ?R > 0) then i64_checked (?L smod ?R + ?R)
        else Some (word_of_int (?L smod ?R))) = Some (word_of_int (?L mod ?R))"
      by (rule corrected [OF smod_floored [OF 3(1)] fits(3,4)])
    show ?thesis
      by (simp only: op_smod_def o(1,4) pops q cor 3 Let_def not_True_eq_False if_False Option.bind.simps prod.case)
  qed
qed

section \<open>Safety of the operations\<close>

text \<open>
  An operation that never pushes more than it pops, and whose arithmetic is checked, never trips an
  assertion.  The widening conversions push more than they pop, and \<open>SUB\<close> misses one overflow.
\<close>

definition op_total :: "(fpy_stack \<Rightarrow> (DirectiveError \<times> fpy_stack) option) \<Rightarrow> bool" where
  "op_total f \<longleftrightarrow> (\<forall>s. wf_stack s \<longrightarrow> (\<exists>e s'. f s = Some (e, s') \<and> wf_stack s' \<and> stk_frame s' = stk_frame s))"

lemma op_totalI:
  "(\<And>s. wf_stack s \<Longrightarrow> \<exists>e s'. f s = Some (e, s') \<and> wf_stack s' \<and> stk_frame s' = stk_frame s) \<Longrightarrow> op_total f"
  by (simp add: op_total_def)

lemma pop2_eq:
  assumes "wf_stack s" and "2 * nbytes TYPE('a) \<le> stk_size s"
  shows "\<exists>l r. (pop2 s :: ('a::len word \<times> 'a word \<times> fpy_stack) option) =
    Some (l, r, s\<lparr>stk_size := stk_size s - 2 * nbytes TYPE('a)\<rparr>)"
proof -
  have "nbytes TYPE('a) \<le> stk_size s" "nbytes TYPE('a) \<le> stk_size (s\<lparr>stk_size := stk_size s - nbytes TYPE('a)\<rparr>)"
    using assms(2) by simp_all
  then show ?thesis
    using assms by (simp add: pop2_def stack_pop_eq mult_2)
qed

lemma push_fits:
  fixes v :: "'a::len word"
  assumes "wf_stack s" and "k + nbytes TYPE('a) \<le> stk_size s"
  shows "\<exists>s'. stack_push v (s\<lparr>stk_size := k\<rparr>) = Some s' \<and> wf_stack s' \<and> stk_frame s' = stk_frame s"
  using assms wf_stackD(2) [OF assms(1)] by (simp add: stack_push_eq)

lemma push_after_pop2:
  fixes g :: "'a::len word \<Rightarrow> 'a word \<Rightarrow> 'b::len word"
  assumes "wf_stack s" and "2 * nbytes TYPE('a) \<le> stk_size s" and "nbytes TYPE('b) \<le> 2 * nbytes TYPE('a)"
  shows "\<exists>e s'. do { (l, r, s) \<leftarrow> pop2 s; s \<leftarrow> stack_push (g l r) s; Some (NoError, s) } = Some (e, s') \<and>
    wf_stack s' \<and> stk_frame s' = stk_frame s"
proof -
  obtain l r :: "'a word" where "pop2 s = Some (l, r, s\<lparr>stk_size := stk_size s - 2 * nbytes TYPE('a)\<rparr>)"
    using pop2_eq [OF assms(1,2)] by blast
  moreover have "stk_size s - 2 * nbytes TYPE('a) + nbytes TYPE('b) \<le> stk_size s"
    using assms(2,3) by linarith
  ultimately show ?thesis
    using push_fits [OF assms(1), of "stk_size s - 2 * nbytes TYPE('a)" "g l r"] by auto
qed

lemma nbytes_pos: "8 dvd LENGTH('a) \<Longrightarrow> 1 \<le> nbytes TYPE('a::len)"
  by (auto simp: nbytes_def dvd_def) (metis Suc_leI len_gt_0 nat_0_less_mult_iff)

lemma cmp_op_total: "8 dvd LENGTH('a) \<Longrightarrow> op_total (cmp_op (f :: 'a::len word \<Rightarrow> 'a word \<Rightarrow> bool))"
  using nbytes_pos [where 'a = 'a] push_after_pop2 [of _ "\<lambda>l r. bool_byte (f l r)"]
  by (intro op_totalI) (auto simp: cmp_op_def has_def mult.commute)

lemma float_op_total: "op_total (float_op f)"
  using push_after_pop2 [of _ f] by (intro op_totalI) (auto simp: float_op_def has_def)

lemma bit_op_total: "op_total op_or" "op_total op_and"
  using push_after_pop2 [of _ "(OR) :: u8 \<Rightarrow> u8 \<Rightarrow> u8"] push_after_pop2 [of _ "(AND) :: u8 \<Rightarrow> u8 \<Rightarrow> u8"]
  by (auto intro!: op_totalI simp: op_or_def op_and_def has_def)

lemma conv_op_eq:
  fixes f :: "'a::len word \<Rightarrow> 'b::len word"
  assumes "wf_stack s"
  shows "if nbytes TYPE('a) \<le> stk_size s \<and> stk_size s - nbytes TYPE('a) + nbytes TYPE('b) > MAX_STACK_SIZE
    then conv_op f s = None
    else \<exists>e s'. conv_op f s = Some (e, s') \<and> wf_stack s' \<and> stk_frame s' = stk_frame s"
  using assms by (auto simp: conv_op_def has_def stack_pop_eq stack_push_eq)

lemma conv_op_total:
  fixes f :: "'a::len word \<Rightarrow> 'b::len word"
  assumes "nbytes TYPE('b) \<le> nbytes TYPE('a)"
  shows "op_total (conv_op f)"
proof (rule op_totalI)
  fix s
  assume "wf_stack s"
  then show "\<exists>e s'. conv_op f s = Some (e, s') \<and> wf_stack s' \<and> stk_frame s' = stk_frame s"
    using conv_op_eq [of s f] wf_stackD(2) [of s] assms by (simp split: if_splits)
qed

lemma operands_split:
  assumes "wf_stack s" and "has 16 s"
  obtains base and l r :: i64 where "stk s = base @ to_be_bytes l @ to_be_bytes r"
proof -
  let ?top = "drop (stk_size s - 16) (stk s)"
  have len: "length ?top = 16"
    using assms by (simp add: has_def)
  have "to_be_bytes (from_be_bytes (take 8 ?top) :: i64) = take 8 ?top"
    "to_be_bytes (from_be_bytes (drop 8 ?top) :: i64) = drop 8 ?top"
    using len by (simp_all add: to_be_bytes_from_be_bytes)
  then show thesis
    using that [of "take (stk_size s - 16) (stk s)" "from_be_bytes (take 8 ?top)" "from_be_bytes (drop 8 ?top)"]
    by (simp only: append_take_drop_id)
qed

text \<open>Whatever an operation on the popped stack returns is the popped stack or a push on it.\<close>

definition kept :: "nat \<Rightarrow> (DirectiveError \<times> fpy_stack) option \<Rightarrow> bool" where
  "kept F m \<longleftrightarrow> (\<forall>e s. m = Some (e, s) \<longrightarrow> wf_stack s \<and> stk_frame s = F)"

lemma kept_ret: "wf_stack s \<Longrightarrow> stk_frame s = F \<Longrightarrow> kept F (Some (e, s))"
  by (simp add: kept_def)

lemma kept_if: "(c \<Longrightarrow> kept F a) \<Longrightarrow> (\<not> c \<Longrightarrow> kept F b) \<Longrightarrow> kept F (if c then a else b)"
  by simp

lemma kept_value: "(\<And>v. kept F (k v)) \<Longrightarrow> kept F (Option.bind (m :: 'a::len word option) k)"
  by (cases m) (simp_all add: kept_def)

lemma kept_None: "kept F None"
  by (simp add: kept_def)

lemma kept_push:
  assumes "wf_stack s" and "stk_frame s = F" and "\<And>s'. wf_stack s' \<Longrightarrow> stk_frame s' = F \<Longrightarrow> kept F (k s')"
  shows "kept F (Option.bind (stack_push v s) k)"
proof (cases "stack_push v s")
  case None
  then show ?thesis
    by (simp add: kept_None)
next
  case (Some s')
  then have "wf_stack s'" "stk_frame s' = F"
    using assms(1,2) by (auto simp: stack_push_eq split: if_splits)
  then show ?thesis
    using Some assms(3) by simp
qed

lemma kept_pop:
  fixes k :: "'a::len word \<Rightarrow> fpy_stack \<Rightarrow> (DirectiveError \<times> fpy_stack) option"
  assumes "wf_stack s" and "stk_frame s = F" and "\<And>v s'. wf_stack s' \<Longrightarrow> stk_frame s' = F \<Longrightarrow> kept F (k v s')"
  shows "kept F (Option.bind (stack_pop s) (\<lambda>(v, s'). k v s'))"
proof (cases "nbytes TYPE('a) \<le> stk_size s")
  case True
  then show ?thesis
    using assms by (simp add: stack_pop_eq)
next
  case False
  then show ?thesis
    using stack_pop_None [OF False] by (simp add: kept_None)
qed

lemma kept_pop2:
  assumes "wf_stack s" and "stk_frame s = F" and "\<And>l r s'. wf_stack s' \<Longrightarrow> stk_frame s' = F \<Longrightarrow> kept F (k l r s')"
  shows "kept F (Option.bind (pop2 s) (\<lambda>(l, r, s'). k l r s'))"
proof -
  have "kept F (Option.bind (stack_pop s) (\<lambda>(r, s). Option.bind (stack_pop s) (\<lambda>(l, s). k l r s)))"
    by (intro kept_pop assms)
  moreover have "Option.bind (pop2 s) (\<lambda>(l, r, s'). k l r s') =
      Option.bind (stack_pop s) (\<lambda>(r, s). Option.bind (stack_pop s) (\<lambda>(l, s). k l r s))"
    by (auto simp: pop2_def Option.bind_assoc split_def)
  ultimately show ?thesis
    by simp
qed

lemmas kept_rules = kept_ret kept_if kept_pop2 kept_pop kept_push kept_value

lemma signed_ops_keep:
  assumes "wf_stack s"
  shows "kept (stk_frame s) (op_add s)" "kept (stk_frame s) (op_sub s)" "kept (stk_frame s) (op_mul s)"
    "kept (stk_frame s) (op_sdiv s)" "kept (stk_frame s) (op_smod s)"
  using assms unfolding op_add_def op_sub_def op_mul_def op_sdiv_def op_smod_def Let_def
  by (intro kept_rules; simp)+

lemma op_total_outcome:
  assumes "\<And>s. wf_stack s \<Longrightarrow> kept (stk_frame s) (f s)" and "\<And>s. \<not> has 16 s \<Longrightarrow> f s = Some (StackUnderflow, s)"
    and "\<And>s base (l :: i64) (r :: i64). wf_stack s \<Longrightarrow> stk s = base @ to_be_bytes l @ to_be_bytes r \<Longrightarrow> outcome (f s) \<noteq> None"
  shows "op_total f"
proof (rule op_totalI)
  fix s
  assume wf: "wf_stack s"
  have "f s \<noteq> None"
  proof (cases "has 16 s")
    case True
    obtain base and l r :: i64 where "stk s = base @ to_be_bytes l @ to_be_bytes r"
      using operands_split [OF wf True] by blast
    then have "outcome (f s) \<noteq> None"
      by (rule assms(3) [OF wf])
    then show ?thesis
      by (simp add: outcome_def)
  next
    case False
    then show ?thesis
      using assms(2) by simp
  qed
  then show "\<exists>e s'. f s = Some (e, s') \<and> wf_stack s' \<and> stk_frame s' = stk_frame s"
    using assms(1) [OF wf] by (auto simp: kept_def)
qed

lemma signed_ops_total: "op_total op_add" "op_total op_mul" "op_total op_sdiv" "op_total op_smod"
proof -
  show "op_total op_add"
    by (rule op_total_outcome) (simp_all only: signed_ops_keep op_add_exact option.simps simp_thms, simp add: op_add_def)
  show "op_total op_mul"
    by (rule op_total_outcome) (simp_all only: signed_ops_keep op_mul_exact option.simps simp_thms, simp add: op_mul_def)
  show "op_total op_sdiv"
    by (rule op_total_outcome) (simp_all only: signed_ops_keep op_sdiv_exact option.simps simp_thms, simp add: op_sdiv_def)
  show "op_total op_smod"
    by (rule op_total_outcome) (simp_all only: signed_ops_keep op_smod_exact option.simps simp_thms, simp add: op_smod_def)
qed

lemma unsigned_ops_total: "op_total op_udiv" "op_total op_umod" "op_total (op_fmod fp)"
proof -
  show "op_total op_udiv"
  proof (rule op_totalI)
    fix s
    assume wf: "wf_stack s"
    show "\<exists>e s'. op_udiv s = Some (e, s') \<and> wf_stack s' \<and> stk_frame s' = stk_frame s"
    proof (cases "has 16 s")
      case True
      then obtain l r :: u64 where "pop2 s = Some (l, r, s\<lparr>stk_size := stk_size s - 16\<rparr>)"
        using pop2_eq [OF wf, where 'a = 64] by (auto simp: has_def)
      then show ?thesis
        using wf True push_fits [OF wf, of "stk_size s - 16" "l div r"] by (auto simp: op_udiv_def has_def)
    qed (simp add: op_udiv_def wf)
  qed
  show "op_total op_umod"
  proof (rule op_totalI)
    fix s
    assume wf: "wf_stack s"
    show "\<exists>e s'. op_umod s = Some (e, s') \<and> wf_stack s' \<and> stk_frame s' = stk_frame s"
      using wf wf_stackD(2) [OF wf] by (auto simp: op_umod_def has_def stack_pop_eq stack_push_eq)
  qed
  show "op_total (op_fmod fp)"
    unfolding op_fmod_def Let_def
    using push_after_pop2 [where 'a = 64 and 'b = 64] by (intro op_totalI) (auto simp: has_def)
qed

lemma unary_ops_total: "op_total (op_flog fp)" "op_total op_iabs"
proof -
  have "I64_MIN \<le> \<bar>sint v\<bar> \<and> \<bar>sint v\<bar> \<le> I64_MAX" if "sint v \<noteq> I64_MIN" for v :: i64
    using i64_range [of v] that by linarith
  then show "op_total op_iabs"
    by (intro op_totalI) (auto simp: op_iabs_def has_def stack_pop_eq stack_push_eq i64_checked_def
        dest!: wf_stackD(2) [of s for s])
  show "op_total (op_flog fp)"
    by (intro op_totalI) (auto simp: op_flog_def has_def stack_pop_eq stack_push_eq dest: wf_stackD(2))
qed

text \<open>The operand size of the operations that push eight bytes for fewer.\<close>

definition widened :: "DirectiveId \<Rightarrow> nat option" where
  "widened op =
     (if op \<in> {DirectiveId_Fpext, DirectiveId_Siext32To64, DirectiveId_Ziext32To64} then Some 4
      else if op \<in> {DirectiveId_Siext16To64, DirectiveId_Ziext16To64} then Some 2
      else if op \<in> {DirectiveId_Siext8To64, DirectiveId_Ziext8To64} then Some 1
      else None)"

definition trips_op :: "DirectiveId \<Rightarrow> fpy_stack \<Rightarrow> bool" where
  "trips_op op s \<longleftrightarrow>
     (case widened op of
        Some n \<Rightarrow> n \<le> stk_size s \<and> stk_size s - n + 8 > MAX_STACK_SIZE
      | None \<Rightarrow> op = DirectiveId_Sub \<and> has 16 s \<and>
          drop (stk_size s - 16) (stk s) = to_be_bytes (0 :: i64) @ to_be_bytes (0x8000000000000000 :: i64))"

definition op_spec :: "DirectiveId \<Rightarrow> (fpy_stack \<Rightarrow> (DirectiveError \<times> fpy_stack) option) \<Rightarrow> bool" where
  "op_spec op f \<longleftrightarrow> (\<forall>s. wf_stack s \<longrightarrow>
     (if trips_op op s then f s = None
      else \<exists>e s'. f s = Some (e, s') \<and> wf_stack s' \<and> stk_frame s' = stk_frame s))"

lemma op_spec_total: "op_total f \<Longrightarrow> widened op = None \<Longrightarrow> op \<noteq> DirectiveId_Sub \<Longrightarrow> op_spec op f"
  by (simp add: op_spec_def op_total_def trips_op_def)

lemma op_spec_widened:
  fixes f :: "'a::len word \<Rightarrow> u64"
  assumes "widened op = Some (nbytes TYPE('a))"
  shows "op_spec op (conv_op f)"
  unfolding op_spec_def
proof (intro allI impI)
  fix s
  assume "wf_stack s"
  then show "if trips_op op s then conv_op f s = None
    else \<exists>e s'. conv_op f s = Some (e, s') \<and> wf_stack s' \<and> stk_frame s' = stk_frame s"
    using conv_op_eq [of s f] assms by (simp add: trips_op_def)
qed

lemma sint_inject: "sint v = sint (w :: i64) \<longleftrightarrow> v = w"
proof
  assume "sint v = sint w"
  then have "(of_int (sint v) :: i64) = of_int (sint w)"
    by (simp only:)
  then show "v = w"
    by (simp only: of_int_sint scast_id)
qed simp

lemma sint_eq_iff: "sint (v :: i64) = 0 \<longleftrightarrow> v = 0" "sint (v :: i64) = I64_MIN \<longleftrightarrow> v = 0x8000000000000000"
proof -
  have min: "sint (0x8000000000000000 :: i64) = I64_MIN"
    by code_simp
  show "sint v = 0 \<longleftrightarrow> v = 0"
    using sint_inject [of v 0] by simp
  show "sint v = I64_MIN \<longleftrightarrow> v = 0x8000000000000000"
    using sint_inject [of v "0x8000000000000000"] by (simp only: min)
qed

lemma op_spec_sub: "op_spec DirectiveId_Sub op_sub"
  unfolding op_spec_def
proof (intro allI impI)
  fix s
  assume wf: "wf_stack s"
  show "if trips_op DirectiveId_Sub s then op_sub s = None
    else \<exists>e s'. op_sub s = Some (e, s') \<and> wf_stack s' \<and> stk_frame s' = stk_frame s"
  proof (cases "has 16 s")
    case False
    then show ?thesis
      using wf by (simp add: trips_op_def widened_def op_sub_def)
  next
    case True
    obtain base and l r :: i64 where o: "stk s = base @ to_be_bytes l @ to_be_bytes r"
      using operands_split [OF wf True] by blast
    have "stk_size s = length base + 16"
      using length_stk [OF wf] o by simp
    then have "trips_op DirectiveId_Sub s \<longleftrightarrow> sint l = 0 \<and> sint r = I64_MIN"
      using True o unfolding sint_eq_iff by (auto simp: trips_op_def widened_def to_be_bytes_inject)
    then show ?thesis
      using op_sub_exact [OF wf o] signed_ops_keep(2) [OF wf] by (auto simp: outcome_def kept_def split: if_splits)
  qed
qed

lemmas op_totals = bit_op_total cmp_op_total float_op_total conv_op_total signed_ops_total unsigned_ops_total unary_ops_total

lemma stack_ops_spec: "list_all (\<lambda>(op, f). op_spec op f) (stack_ops fp)"
  unfolding stack_ops_def
  by (simp only: list.pred_inject prod.case simp_thms, intro conjI)
    (rule op_spec_sub | (rule op_spec_widened, simp add: widened_def; fail)
      | (rule op_spec_total; simp add: op_totals widened_def; fail))+

lemma stack_ops_keys:
  "map (\<lambda>p. unat (fst p)) (stack_ops fp) =
    [9, 10, 11, 12, 13, 14, 15, 16, 17, 18, 19, 20, 21, 22, 23, 24, 25, 26, 27, 46, 47, 28, 29, 30, 31,
     32, 33, 34, 35, 36, 37, 38, 39, 40, 41, 42, 43, 44, 45, 48, 49, 50, 51, 52, 53, 54, 55, 56, 79, 80,
     81]"
  unfolding stack_ops_def list.map fst_conv by simp

lemma stack_ops_keys_cover:
  "9 \<le> n \<and> n < 57 \<or> 79 \<le> n \<and> n < 82 \<Longrightarrow> n \<in> set (map (\<lambda>p. unat (fst p)) (stack_ops fp))"
proof -
  have "list_all (\<lambda>n. n \<in> set (map (\<lambda>p. unat (fst p)) (stack_ops fp))) ([9..<57] @ [79..<82])"
    unfolding stack_ops_keys by code_simp
  then show "9 \<le> n \<and> n < 57 \<or> 79 \<le> n \<and> n < 82 \<Longrightarrow> n \<in> set (map (\<lambda>p. unat (fst p)) (stack_ops fp))"
    unfolding list_all_iff set_append set_upt by auto
qed

lemma stack_ops_cover:
  assumes "is_stack_op op"
  shows "\<exists>f. map_of (stack_ops fp) op = Some f"
proof -
  have "9 \<le> unat op \<and> unat op < 57 \<or> 79 \<le> unat op \<and> unat op < 82"
    using assms by (auto simp: is_stack_op_def word_le_nat_alt)
  then have "unat op \<in> (\<lambda>p. unat (fst p)) ` set (stack_ops fp)"
    using stack_ops_keys_cover [of "unat op" fp] by simp
  then have "op \<in> fst ` set (stack_ops fp)"
    by (force simp: image_iff word_unat_eq_iff)
  then show ?thesis
    by (metis map_of_eq_None_iff not_Some_eq)
qed

text \<open>The match of the stack operations never reaches its last arm, and panics exactly where \<open>trips_op\<close> says.\<close>

lemma stack_op_safe:
  assumes "is_stack_op op" and "wf_stack s"
  shows "if trips_op op s then stack_op fp op s = None
    else \<exists>e s'. stack_op fp op s = Some (e, s') \<and> wf_stack s' \<and> stk_frame s' = stk_frame s"
proof -
  obtain f where f: "map_of (stack_ops fp) op = Some f"
    using stack_ops_cover [OF assms(1)] by blast
  then have "op_spec op f"
    using map_of_SomeD [OF f] stack_ops_spec [of fp] by (auto simp: list_all_iff)
  then show ?thesis
    using f assms by (simp add: op_spec_def stack_op_def)
qed

text \<open>
  C37: With two signed operands on top of the stack, the signed operations of the Fpy machine compute in
  the integers: addition, multiplication and floored division push the exact result, or remove the
  operands and report an overflow or underflow exactly when it does not fit in 64 bits; division and
  modulo by zero are domain errors (modulo keeps the dividend); the modulo is the floored one.
  Subtraction is exact in the same way except at \<open>0 - i64::MIN\<close>, whose overflow is not detected.
\<close>

theorem signed_arith_exact:
  fixes l r :: i64
  assumes "wf_stack s" and "stk s = base @ to_be_bytes l @ to_be_bytes r"
  shows "outcome (op_add s) = Some (arith_result base (sint l + sint r)) \<and>
    outcome (op_mul s) = Some (arith_result base (sint l * sint r)) \<and>
    outcome (op_sdiv s) =
      Some (if sint r = 0 then (DomainError, base) else arith_result base (sint l div sint r)) \<and>
    outcome (op_smod s) =
      Some (if sint r = 0 then (DomainError, base @ to_be_bytes l)
            else (NoError, base @ to_be_bytes (word_of_int (sint l mod sint r) :: i64))) \<and>
    outcome (op_sub s) =
      (if sint l = 0 \<and> sint r = I64_MIN then None else Some (arith_result base (sint l - sint r)))"
  using op_add_exact [OF assms] op_mul_exact [OF assms] op_sdiv_exact [OF assms] op_smod_exact [OF assms]
    op_sub_exact [OF assms]
  by blast

lemma operands_example:
  fixes l r :: i64
  defines "s \<equiv> pushed (to_be_bytes l @ to_be_bytes r) stack_new"
  shows "wf_stack s \<and> stk s = [] @ to_be_bytes l @ to_be_bytes r"
proof -
  have "stk stack_new = []" "stk_size stack_new = 0"
    by (simp_all add: stk_def stack_new_def)
  then show ?thesis
    by (simp add: s_def wf_stack_new MAX_STACK_SIZE_def)
qed

theorem signed_arith_exact_witness:
  "outcome (op_sdiv (pushed (to_be_bytes (- 7 :: i64) @ to_be_bytes (2 :: i64)) stack_new)) =
     Some (NoError, to_be_bytes (- 4 :: i64)) \<and>
   outcome (op_sub (pushed (to_be_bytes (0 :: i64) @ to_be_bytes (0x8000000000000000 :: i64)) stack_new)) = None"
proof -
  have "sint (- 7 :: i64) = - 7" "sint (2 :: i64) = 2" "sint (0x8000000000000000 :: i64) = I64_MIN"
    by code_simp+
  moreover have "(word_of_int (- 4) :: i64) = - 4"
    by simp
  ultimately show ?thesis
    using signed_arith_exact [OF operands_example [THEN conjunct1] operands_example [THEN conjunct2], of "- 7" 2]
      signed_arith_exact [OF operands_example [THEN conjunct1] operands_example [THEN conjunct2], of 0 "0x8000000000000000"]
    by (simp add: arith_result_def)
qed

end
