(* ===== verification/Fpy_Rng.thy ===== *)
theory Fpy_Rng
  imports Fw_Prelude
begin

text \<open>
  The random number generator of the Fpy sequencer (\<open>fprime-svc/src/fpy_sequencer/rng.rs\<close>): the 32-bit
  Mersenne Twister and the \<open>std::seed_seq\<close> seeding.  The state array is a list indexed with the panicking
  \<open>index\<close> and \<open>store\<close>; the lemmas show that no index is ever out of range.
\<close>

unbundle bit_operations_syntax

section \<open>Loops over an index range\<close>

primrec for_each :: "('a \<Rightarrow> 's \<Rightarrow> 's option) \<Rightarrow> 'a list \<Rightarrow> 's \<Rightarrow> 's option" where
  "for_each f [] s = Some s"
| "for_each f (x # xs) s = Option.bind (f x s) (for_each f xs)"

lemma for_each_inv:
  assumes "\<And>x s. x \<in> set xs \<Longrightarrow> P s \<Longrightarrow> \<exists>s'. f x s = Some s' \<and> P s'" and "P s"
  shows "\<exists>s'. for_each f xs s = Some s' \<and> P s'"
  using assms
proof (induction xs arbitrary: s)
  case (Cons x xs)
  then obtain s' where "f x s = Some s'" "P s'"
    by (meson list.set_intros(1))
  then show ?case
    using Cons by simp
qed simp

section \<open>The Mersenne Twister\<close>

definition RNG_N :: nat where "RNG_N = 624"
definition RNG_M :: nat where "RNG_M = 397"
definition MATRIX_A :: u32 where "MATRIX_A = 0x9908B0DF"
definition UPPER_MASK :: u32 where "UPPER_MASK = 0x80000000"
definition LOWER_MASK :: u32 where "LOWER_MASK = 0x7FFFFFFF"

record mt19937 =
  rng_state :: "u32 list"
  rng_index :: nat

definition rng_seed :: "u32 \<Rightarrow> mt19937 \<Rightarrow> mt19937 option" where
  "rng_seed v r =
     do { s \<leftarrow> store (rng_state r) 0 v;
          s \<leftarrow> for_each (\<lambda>i s.
              do { prev \<leftarrow> index s (i - 1);
                   store s i (1812433253 * (prev XOR drop_bit 30 prev) + of_nat i) })
            [1..<RNG_N] s;
          Some (r\<lparr>rng_state := s, rng_index := RNG_N\<rparr>) }"

definition rng_new :: "mt19937 option" where
  "rng_new = rng_seed 5489 \<lparr>rng_state = replicate RNG_N 0, rng_index = RNG_N\<rparr>"

definition mix_range :: "nat \<Rightarrow> nat" where
  "mix_range n = (if n \<ge> 623 then 11 else if n \<ge> 68 then 7 else if n \<ge> 39 then 5 else if n \<ge> 7 then 3 else (n - 1) div 2)"

definition tf :: "u32 \<Rightarrow> u32" where
  "tf x = x XOR drop_bit 27 x"

definition seed_mix1 :: "u32 list \<Rightarrow> nat \<Rightarrow> nat \<Rightarrow> nat \<Rightarrow> nat \<Rightarrow> u32 list \<Rightarrow> u32 list option" where
  "seed_mix1 vals n p q k out =
     do { a \<leftarrow> index out (k mod n);
          b \<leftarrow> index out ((k + p) mod n);
          c \<leftarrow> index out ((k + n - 1) mod n);
          let r1 = 1664525 * tf (a XOR b XOR c);
          r2 \<leftarrow> (if k = 0 then Some (r1 + of_nat (length vals))
                else if k \<le> length vals
                then do { v \<leftarrow> index vals (k - 1); Some (r1 + of_nat (k mod n) + v) }
                else Some (r1 + of_nat (k mod n)));
          out \<leftarrow> store out ((k + p) mod n) (b + r1);
          d \<leftarrow> index out ((k + q) mod n);
          out \<leftarrow> store out ((k + q) mod n) (d + r2);
          store out (k mod n) r2 }"

definition seed_mix2 :: "nat \<Rightarrow> nat \<Rightarrow> nat \<Rightarrow> nat \<Rightarrow> u32 list \<Rightarrow> u32 list option" where
  "seed_mix2 n p q k out =
     do { a \<leftarrow> index out (k mod n);
          b \<leftarrow> index out ((k + p) mod n);
          c \<leftarrow> index out ((k + n - 1) mod n);
          let r3 = 1566083941 * tf (a + b + c);
          let r4 = r3 - of_nat (k mod n);
          out \<leftarrow> store out ((k + p) mod n) (b XOR r3);
          d \<leftarrow> index out ((k + q) mod n);
          out \<leftarrow> store out ((k + q) mod n) (d XOR r4);
          store out (k mod n) r4 }"

definition seed_seq_generate :: "u32 list \<Rightarrow> u32 list \<Rightarrow> u32 list option" where
  "seed_seq_generate vals out =
     (let n = length out in
      if n = 0 then Some out
      else do {
        let out = replicate n 0x8B8B8B8B;
        let t = mix_range n;
        let p = (n - t) div 2;
        let q = p + t;
        let m = max (length vals + 1) n;
        out \<leftarrow> for_each (seed_mix1 vals n p q) [0..<m] out;
        for_each (seed_mix2 n p q) [m..<m + n] out })"

definition seed_seq :: "u32 list \<Rightarrow> mt19937 \<Rightarrow> mt19937 option" where
  "seed_seq vals r =
     do { s \<leftarrow> seed_seq_generate vals (rng_state r);
          x \<leftarrow> index s 0;
          s \<leftarrow> (if x AND UPPER_MASK = 0 \<and> list_all (\<lambda>x. x = 0) (drop 1 s) then store s 0 UPPER_MASK else Some s);
          Some (r\<lparr>rng_state := s, rng_index := RNG_N\<rparr>) }"

definition twist :: "mt19937 \<Rightarrow> mt19937 option" where
  "twist r =
     do { s \<leftarrow> for_each (\<lambda>i s.
              do { a \<leftarrow> index s i;
                   b \<leftarrow> index s ((i + 1) mod RNG_N);
                   let y = (a AND UPPER_MASK) OR (b AND LOWER_MASK);
                   c \<leftarrow> index s ((i + RNG_M) mod RNG_N);
                   let nxt = c XOR drop_bit 1 y;
                   store s i (if y AND 1 \<noteq> 0 then nxt XOR MATRIX_A else nxt) })
            [0..<RNG_N] (rng_state r);
          Some (r\<lparr>rng_state := s, rng_index := 0\<rparr>) }"

definition next_u32 :: "mt19937 \<Rightarrow> (u32 \<times> mt19937) option" where
  "next_u32 r =
     do { r \<leftarrow> (if rng_index r \<ge> RNG_N then twist r else Some r);
          y \<leftarrow> index (rng_state r) (rng_index r);
          let r = r\<lparr>rng_index := rng_index r + 1\<rparr>;
          let y = y XOR drop_bit 11 y;
          let y = y XOR (push_bit 7 y AND 0x9D2C5680);
          let y = y XOR (push_bit 15 y AND 0xEFC60000);
          let y = y XOR drop_bit 18 y;
          Some (y, r) }"

section \<open>No index is out of range\<close>

definition wf_rng :: "mt19937 \<Rightarrow> bool" where
  "wf_rng r \<longleftrightarrow> length (rng_state r) = RNG_N"

lemma rng_seed_total: "wf_rng r \<Longrightarrow> \<exists>r'. rng_seed v r = Some r' \<and> wf_rng r'"
proof -
  assume "wf_rng r"
  then have "\<exists>s. for_each (\<lambda>i s. do { prev \<leftarrow> index s (i - 1);
        store s i (1812433253 * (prev XOR drop_bit 30 prev) + of_nat i) }) [1..<RNG_N] ((rng_state r)[0 := v]) = Some s \<and>
      length s = RNG_N"
    by (intro for_each_inv) (auto simp: wf_rng_def index_def store_def)
  then show ?thesis
    using \<open>wf_rng r\<close> by (auto simp: rng_seed_def wf_rng_def store_def RNG_N_def)
qed

lemma rng_new_total: "\<exists>r. rng_new = Some r \<and> wf_rng r"
  unfolding rng_new_def by (rule rng_seed_total) (simp add: wf_rng_def)

lemma seed_seq_generate_total: "\<exists>out'. seed_seq_generate vals out = Some out' \<and> length out' = length out"
proof (cases "length out = 0")
  case False
  let ?n = "length out"
  let ?p = "(?n - mix_range ?n) div 2"
  let ?q = "?p + mix_range ?n"
  have "\<exists>o1. for_each (seed_mix1 vals ?n ?p ?q) [0..<max (length vals + 1) ?n] (replicate ?n 0x8B8B8B8B) = Some o1 \<and>
      length o1 = ?n"
    by (rule for_each_inv) (use False in \<open>auto simp: seed_mix1_def index_def store_def Let_def\<close>)
  moreover have "\<exists>o2. for_each (seed_mix2 ?n ?p ?q) [max (length vals + 1) ?n..<max (length vals + 1) ?n + ?n] o1 = Some o2 \<and>
      length o2 = ?n" if "length o1 = ?n" for o1
    by (rule for_each_inv) (use False that in \<open>auto simp: seed_mix2_def index_def store_def Let_def\<close>)
  ultimately show ?thesis
    using False unfolding seed_seq_generate_def Let_def by fastforce
qed (simp add: seed_seq_generate_def)

lemma seed_seq_total: "wf_rng r \<Longrightarrow> \<exists>r'. seed_seq vals r = Some r' \<and> wf_rng r'"
  using seed_seq_generate_total [of vals "rng_state r"]
  by (auto simp: seed_seq_def wf_rng_def index_def store_def RNG_N_def)

lemma twist_total: "wf_rng r \<Longrightarrow> \<exists>r'. twist r = Some r' \<and> wf_rng r' \<and> rng_index r' = 0"
proof -
  assume "wf_rng r"
  then have "\<exists>s. for_each (\<lambda>i s. do { a \<leftarrow> index s i; b \<leftarrow> index s ((i + 1) mod RNG_N);
        let y = (a AND UPPER_MASK) OR (b AND LOWER_MASK);
        c \<leftarrow> index s ((i + RNG_M) mod RNG_N);
        let nxt = c XOR drop_bit 1 y;
        store s i (if y AND 1 \<noteq> 0 then nxt XOR MATRIX_A else nxt) }) [0..<RNG_N] (rng_state r) = Some s \<and>
      length s = RNG_N"
    by (intro for_each_inv) (auto simp: wf_rng_def index_def store_def RNG_N_def Let_def)
  then show ?thesis
    by (auto simp: twist_def wf_rng_def)
qed

lemma next_u32_total: "wf_rng r \<Longrightarrow> \<exists>v r'. next_u32 r = Some (v, r') \<and> wf_rng r'"
  using twist_total [of r] by (auto simp: next_u32_def wf_rng_def index_def Let_def RNG_N_def)

end
