(* ===== verification/Fpy_Machine.thy ===== *)
theory Fpy_Machine
  imports Fpy_Ops Fpy_Rng Fw_Packets Fw_String Utils_Hash
begin

text \<open>
  The directives of the Fpy sequencer (\<open>fprime-svc/src/fpy_sequencer/directives.rs\<close>): the runtime state, one
  handler per directive and the recording of a directive's error.  A handler returns the statement response,
  the error code, the output port calls and events it makes, and the new state; \<open>None\<close> is a failed assertion.
  The handlers that only touch the stack are functions on the stack, lifted by \<open>on_stack\<close>.  The clock, the
  telemetry and parameter ports, the serial receivers and the IEEE operations are the parameter \<open>fpy_env\<close>.
\<close>

unbundle bit_operations_syntax

section \<open>The runtime state\<close>

datatype (plugins only: code size) Signal =
    checkTimersIn | cmd_BREAK | cmd_CANCEL | cmd_CLEAR_BREAKPOINT | cmd_CONTINUE | cmd_RUN | cmd_RUN_VALIDATED
  | cmd_SET_BREAKPOINT | cmd_STEP | cmd_VALIDATE | signal_entered
  | result_checkShouldWake_keepSleeping | result_checkShouldWake_wakeup
  | result_checkStatementTimeout_noTimeout | result_checkStatementTimeout_statementTimeout
  | result_dispatchStatement_failure | result_dispatchStatement_noMoreStatements | result_dispatchStatement_success
  | result_failure | result_success | result_timeOpFailed
  | stmtResponse_beginSleep | stmtResponse_failure | stmtResponse_keepWaiting | stmtResponse_success
  | stmtResponse_unexpected

datatype (plugins only: code size) DirectiveUnion =
    Dir_WaitRel
  | Dir_WaitAbs
  | Dir_Goto u32
  | Dir_If u32
  | Dir_NoOp
  | Dir_PushTlmVal u32
  | Dir_PushTlmValAndTime u32
  | Dir_PushPrm u32
  | Dir_ConstCmd u32 "u8 list" nat
  | Dir_StackOp DirectiveId
  | Dir_Exit
  | Dir_Allocate nat
  | Dir_StoreRelConstOffset i32 nat
  | Dir_LoadRel i32 nat
  | Dir_PushVal "u8 list" nat
  | Dir_Discard nat
  | Dir_MemCmp nat
  | Dir_StackCmd nat
  | Dir_PushTime
  | Dir_SetSeed
  | Dir_PushRand
  | Dir_GetField nat nat
  | Dir_Peek
  | Dir_StoreRel nat
  | Dir_Call
  | Dir_Return nat nat
  | Dir_LoadAbs nat nat
  | Dir_StoreAbs nat
  | Dir_StoreAbsConstOffset nat nat
  | Dir_PopEvent
  | Dir_PopSerializable i16 nat

record wakeup_time =
  wk_base :: u16
  wk_context :: u8
  wk_seconds :: u32
  wk_useconds :: u32

record runtime =
  next_statement_index :: u32
  current_statement_opcode :: u8
  current_cmd_opcode :: u32
  current_statement_dispatch_time :: fw_time
  rt_wakeup :: wakeup_time
  rt_rng :: mt19937
  rng_seeded :: bool
  rt_stack :: fpy_stack

record fpy_tlm =
  last_directive_error :: DirectiveError
  directive_error_index :: u64
  directive_error_id :: DirectiveId

record fpy_statement =
  stmt_op_code :: DirectiveId
  stmt_arg_buf :: ser_buf

record fpy_header =
  major_version :: u8
  minor_version :: u8
  patch_version :: u8
  schema_version :: u8
  argument_count :: u8
  hdr_statement_count :: u16
  body_size :: u32

record arg_spec =
  arg_name :: fw_string
  type_name :: fw_string
  arg_size :: u32

text \<open>The fields of \<open>FpyState\<close>; those of \<open>sequence_obj\<close> and \<open>sequence_args\<close> are spelled out.\<close>

record fpy_state =
  sequence_buffer :: ser_buf
  sequence_file_path :: "u8 list"
  seq_header :: fpy_header
  seq_arg_specs :: "arg_spec list"
  fpy_statements :: "fpy_statement list"
  seq_footer_crc :: u32
  computed_crc :: hash
  total_expected_arg_size :: u32
  args_size :: nat
  args_buffer :: "u8 list"
  sequences_started :: u64
  statements_dispatched :: u64
  fpy_runtime :: runtime
  fpy_tlm :: fpy_tlm

abbreviation statement_count :: "fpy_state \<Rightarrow> u16" where
  "statement_count st \<equiv> hdr_statement_count (seq_header st)"

datatype FileReadStage = FileReadStage_Header | FileReadStage_Body | FileReadStage_Footer

datatype (plugins only: code size) fpy_call =
    CmdOut "u8 list" u32
  | SerialOut nat "u8 list"
  | Ev_SequenceExitedWithError "u8 list" i32
  | Ev_LogMessage LogSeverity "u8 list" "u8 list"
  | Ev_DirectiveDeserializeError u8 u32 SerializeStatus nat nat
  | Ev_UnknownSequencerDirective u8 u32 "u8 list"
  | Ev_MismatchedTimeBase u16 u16
  | Ev_CommandTimedOut u32 u32 "u8 list"
  | Ev_DirectiveTimedOut u8 u32 "u8 list"
  | Ev_CmdResponseWhileNotRunningSequence nat u32 CmdResponse
  | Ev_CmdResponseFromOldSequence u32 CmdResponse u16 u16
  | Ev_CmdResponseWhileNotAwaiting u32 CmdResponse
  | Ev_CmdResponseWhileAwaitingDirective u32 CmdResponse u8
  | Ev_WrongCmdResponseOpcode u32 CmdResponse u32
  | Ev_WrongCmdResponseIndex u32 CmdResponse u16 u16
  | Ev_FileOpenError "u8 list" nat
  | Ev_FileReadError FileReadStage "u8 list" nat
  | Ev_EndOfFileError FileReadStage "u8 list"
  | Ev_FileReadDeserializeError FileReadStage "u8 list" SerializeStatus nat nat
  | Ev_WrongSchemaVersion u8 u8
  | Ev_WrongCRC u32 u32
  | Ev_ExtraBytesInSequence nat
  | Ev_InsufficientBufferSpace nat "u8 list"
  | Ev_FileApiError "u8 list" nat
  | Ev_TooManySequenceArgs u8 u8
  | Ev_TooManySequenceDirectives u16 u16
  | Ev_ArgSizeMismatch u32 nat "u8 list"
  | Ev_ArgSizeExceedsCapacity nat nat
  | Ev_ArgTotalSizeExceedsStackLimit nat
  | Ev_SequenceDone "u8 list"
  | Ev_SequenceCancelled "u8 list"
  | Ev_SequencePaused u32
  | Ev_BreakpointSet u32 bool
  | Ev_BreakpointCleared
  | Ev_InvalidCommand nat
  | Ev_InvalidSeqRunCall nat
  | Ev_InvalidSeqCancelCall nat
  | Ev_SequenceFilePathTooLong "u8 list" "u8 list"
  | Ev_FileWriteError nat "u8 list" nat
  | SeqStartOut "u8 list" nat "u8 list"
  | SeqDoneOut CmdResponse
  | CmdResponseOut u32 u32 CmdResponse
  | PingOut u32

text \<open>A port is \<open>None\<close> when it is not connected.  A serial receiver gets the bytes and may overwrite them.\<close>

record fpy_env =
  env_now :: fw_time
  env_tlm :: "(u32 \<Rightarrow> TlmValid \<times> fw_time \<times> u8 list) option"
  env_prm :: "(u32 \<Rightarrow> ParamValid \<times> u8 list) option"
  env_serial :: "nat \<Rightarrow> (u8 list \<Rightarrow> SerializeStatus \<times> u8 list) option"
  env_fp :: float_ops

type_synonym response = "Signal \<times> DirectiveError \<times> fpy_call list \<times> fpy_state"

definition stack_of :: "fpy_state \<Rightarrow> fpy_stack" where
  "stack_of st = rt_stack (fpy_runtime st)"

definition set_stack :: "fpy_stack \<Rightarrow> fpy_state \<Rightarrow> fpy_state" where
  "set_stack s st = st\<lparr>fpy_runtime := (fpy_runtime st)\<lparr>rt_stack := s\<rparr>\<rparr>"

definition set_next :: "u32 \<Rightarrow> fpy_state \<Rightarrow> fpy_state" where
  "set_next i st = st\<lparr>fpy_runtime := (fpy_runtime st)\<lparr>next_statement_index := i\<rparr>\<rparr>"

abbreviation succeed :: "fpy_state \<Rightarrow> response option" where
  "succeed st \<equiv> Some (stmtResponse_success, NoError, [], st)"

abbreviation fail_with :: "DirectiveError \<Rightarrow> fpy_state \<Rightarrow> response option" where
  "fail_with e st \<equiv> Some (stmtResponse_failure, e, [], st)"

definition current_statement_idx :: "fpy_state \<Rightarrow> u32" where
  "current_statement_idx st =
     (if next_statement_index (fpy_runtime st) = 0 then 0 else next_statement_index (fpy_runtime st) - 1)"

definition handle_directive_error_code :: "fpy_state \<Rightarrow> DirectiveId \<Rightarrow> DirectiveError \<Rightarrow> fpy_state" where
  "handle_directive_error_code st dir_id err =
     (let t = (fpy_tlm st)\<lparr>last_directive_error := err\<rparr> in
      st\<lparr>fpy_tlm :=
        if err \<noteq> NoError
        then t\<lparr>directive_error_index := ucast (current_statement_idx st), directive_error_id := dir_id\<rparr>
        else t\<rparr>)"

section \<open>Commands\<close>

definition cmd_uid :: "fpy_state \<Rightarrow> u32" where
  "cmd_uid st = ucast (push_bit 16 (sequences_started st AND 0xFFFF) OR (statements_dispatched st AND 0xFFFF))"

definition send_cmd :: "fpy_state \<Rightarrow> u32 \<Rightarrow> u8 list \<Rightarrow> (Success \<times> fpy_call list) option" where
  "send_cmd st opc arg_buf =
     do { (s, b) \<leftarrow> serialize_u16 (linear_buffer_new FW_COM_BUFFER_MAX_SIZE) (ComPacketType_repr FwPacketCommand) Big;
          if s \<noteq> Ok then Some (Success_Failure, [])
          else do {
            (s, b) \<leftarrow> serialize_u32 b opc Big;
            if s \<noteq> Ok then Some (Success_Failure, [])
            else do {
              (s, b) \<leftarrow> serialize_bytes b arg_buf OmitLength Big;
              if s \<noteq> Ok then Some (Success_Failure, [])
              else do {
                packet \<leftarrow> as_slice b;
                Some (Success_Success, [CmdOut packet (cmd_uid st)]) } } } }"

section \<open>Handlers on the stack\<close>

definition free :: "fpy_stack \<Rightarrow> nat option" where
  "free s = usub MAX_STACK_SIZE (stk_size s)"

definition on_stack ::
  "(fpy_stack \<Rightarrow> (DirectiveError \<times> fpy_stack) option) \<Rightarrow> fpy_state \<Rightarrow> response option" where
  "on_stack f st =
     do { (e, s) \<leftarrow> f (stack_of st);
          Some (if e = NoError then stmtResponse_success else stmtResponse_failure, e, [], set_stack s st) }"

definition allocate :: "nat \<Rightarrow> fpy_stack \<Rightarrow> (DirectiveError \<times> fpy_stack) option" where
  "allocate n s =
     do { room \<leftarrow> free s;
          if n > room then Some (StackOverflow, s)
          else do { s \<leftarrow> push_zeroes n s; Some (NoError, s) } }"

definition store_helper :: "nat \<Rightarrow> nat \<Rightarrow> fpy_stack \<Rightarrow> (DirectiveError \<times> fpy_stack) option" where
  "store_helper dest_offset n s =
     (if stk_size s < n then Some (StackUnderflow, s)
      else do {
        new_size \<leftarrow> usub (stk_size s) n;
        if dest_offset > new_size \<or> n > new_size - dest_offset then Some (StackAccessOutOfBounds, s)
        else do {
          s \<leftarrow> stack_copy dest_offset (stk_size s - n) n s;
          Some (NoError, s\<lparr>stk_size := new_size\<rparr>) } })"

definition load_helper :: "nat \<Rightarrow> nat \<Rightarrow> fpy_stack \<Rightarrow> (DirectiveError \<times> fpy_stack) option" where
  "load_helper src_offset n s =
     do { room \<leftarrow> free s;
          if n > room then Some (StackOverflow, s)
          else if src_offset > stk_size s \<or> n > stk_size s - src_offset then Some (StackAccessOutOfBounds, s)
          else do {
            s \<leftarrow> stack_copy (stk_size s) src_offset n s;
            k \<leftarrow> add32 (stk_size s) n;
            Some (NoError, s\<lparr>stk_size := k\<rparr>) } }"

text \<open>The result of \<open>frame_address\<close> is the code's \<open>Option\<close>.\<close>

definition frame_address :: "i32 \<Rightarrow> fpy_stack \<Rightarrow> nat option" where
  "frame_address lvar_offset s =
     (let addr = int (stk_frame s) + sint lvar_offset in
      if addr < 0 \<or> addr > int MAX_STACK_SIZE then None else Some (nat addr))"

definition store_rel_const_offset :: "i32 \<Rightarrow> nat \<Rightarrow> fpy_stack \<Rightarrow> (DirectiveError \<times> fpy_stack) option" where
  "store_rel_const_offset lvar_offset n s =
     (case frame_address lvar_offset s of
        None \<Rightarrow> Some (StackAccessOutOfBounds, s)
      | Some addr \<Rightarrow> store_helper addr n s)"

definition load_rel :: "i32 \<Rightarrow> nat \<Rightarrow> fpy_stack \<Rightarrow> (DirectiveError \<times> fpy_stack) option" where
  "load_rel lvar_offset n s =
     (case frame_address lvar_offset s of
        None \<Rightarrow> Some (StackAccessOutOfBounds, s)
      | Some addr \<Rightarrow> load_helper addr n s)"

definition push_val :: "u8 list \<Rightarrow> nat \<Rightarrow> fpy_stack \<Rightarrow> (DirectiveError \<times> fpy_stack) option" where
  "push_val val val_size s =
     do { room \<leftarrow> free s;
          if val_size > room then Some (StackOverflow, s)
          else do {
            bs \<leftarrow> slice val 0 val_size;
            s \<leftarrow> push_bytes bs s;
            Some (NoError, s) } }"

definition discard :: "nat \<Rightarrow> fpy_stack \<Rightarrow> (DirectiveError \<times> fpy_stack) option" where
  "discard n s =
     (if stk_size s < n then Some (StackUnderflow, s)
      else do { k \<leftarrow> usub (stk_size s) n; Some (NoError, s\<lparr>stk_size := k\<rparr>) })"

definition mem_cmp :: "nat \<Rightarrow> fpy_stack \<Rightarrow> (DirectiveError \<times> fpy_stack) option" where
  "mem_cmp n s =
     (if n > MAX_STACK_SIZE div 2 then Some (StackUnderflow, s)
      else if stk_size s < n * 2 then Some (StackUnderflow, s)
      else do {
        lhs \<leftarrow> usub (stk_size s) (n * 2);
        rhs \<leftarrow> usub (stk_size s) n;
        let s = s\<lparr>stk_size := stk_size s - n * 2\<rparr>;
        l \<leftarrow> slice (stk_bytes s) lhs (lhs + n);
        r \<leftarrow> slice (stk_bytes s) rhs (rhs + n);
        s \<leftarrow> stack_push (bool_byte (l = r)) s;
        Some (NoError, s) })"

definition get_field :: "nat \<Rightarrow> nat \<Rightarrow> fpy_stack \<Rightarrow> (DirectiveError \<times> fpy_stack) option" where
  "get_field parent_size member_size s =
     (if stk_size s < 4 then Some (StackUnderflow, s)
      else if stk_size s - 4 < parent_size then Some (StackUnderflow, s)
      else do {
        (off, s) \<leftarrow> stack_pop s;
        let off = unat (off :: u32);
        if off > parent_size \<or> member_size > parent_size - off then Some (StackAccessOutOfBounds, s)
        else do {
          parent_start \<leftarrow> usub (stk_size s) parent_size;
          src \<leftarrow> add32 parent_start off;
          s \<leftarrow> stack_move parent_start src member_size s;
          d \<leftarrow> usub parent_size member_size;
          k \<leftarrow> usub (stk_size s) d;
          Some (NoError, s\<lparr>stk_size := k\<rparr>) } })"

definition peek :: "fpy_stack \<Rightarrow> (DirectiveError \<times> fpy_stack) option" where
  "peek s =
     (if stk_size s < 8 then Some (StackUnderflow, s)
      else do {
        (off, s) \<leftarrow> stack_pop s;
        (byte_count, s) \<leftarrow> stack_pop s;
        let off = unat (off :: u32);
        let byte_count = unat (byte_count :: u32);
        if off > stk_size s then Some (StackAccessOutOfBounds, s)
        else do {
          room \<leftarrow> free s;
          if byte_count > room then Some (StackOverflow, s)
          else if byte_count > stk_size s - off then Some (StackAccessOutOfBounds, s)
          else do {
            let src = stk_size s - off - byte_count;
            s \<leftarrow> stack_copy (stk_size s) src byte_count s;
            k \<leftarrow> add32 (stk_size s) byte_count;
            Some (NoError, s\<lparr>stk_size := k\<rparr>) } } })"

definition store_rel :: "nat \<Rightarrow> fpy_stack \<Rightarrow> (DirectiveError \<times> fpy_stack) option" where
  "store_rel n s =
     (if stk_size s < 4 \<or> stk_size s - 4 < n then Some (StackUnderflow, s)
      else do {
        (lvar_offset, s) \<leftarrow> stack_pop s;
        case frame_address lvar_offset s of
          None \<Rightarrow> Some (StackAccessOutOfBounds, s)
        | Some addr \<Rightarrow> store_helper addr n s })"

definition store_abs :: "nat \<Rightarrow> fpy_stack \<Rightarrow> (DirectiveError \<times> fpy_stack) option" where
  "store_abs n s =
     (if stk_size s < 4 \<or> stk_size s - 4 < n then Some (StackUnderflow, s)
      else do {
        (global_offset, s) \<leftarrow> stack_pop s;
        store_helper (unat (global_offset :: u32)) n s })"

section \<open>Handlers on the state\<close>

definition wait_rel :: "fpy_env \<Rightarrow> fpy_state \<Rightarrow> response option" where
  "wait_rel env st =
     (if stk_size (stack_of st) < 8 then fail_with StackUnderflow st
      else do {
        let now = env_now env;
        (us, s) \<leftarrow> stack_pop (stack_of st);
        (secs, s) \<leftarrow> stack_pop s;
        let st = set_stack s st;
        let new_seconds = seconds now + secs;
        let new_useconds = useconds now + us;
        fw_assert (new_useconds < 1999999);
        let (new_seconds, new_useconds) =
          (if new_useconds \<ge> 1000000 then (new_seconds + 1, new_useconds - 1000000) else (new_seconds, new_useconds));
        Some (stmtResponse_beginSleep, NoError, [],
          st\<lparr>fpy_runtime := (fpy_runtime st)\<lparr>rt_wakeup :=
            \<lparr>wk_base = TimeBase_repr (time_base now), wk_context = time_context now,
             wk_seconds = new_seconds, wk_useconds = new_useconds\<rparr>\<rparr>\<rparr>) })"

definition wait_abs :: "fpy_state \<Rightarrow> response option" where
  "wait_abs st =
     (if stk_size (stack_of st) < 2 * 4 + 1 + 2 then fail_with StackUnderflow st
      else do {
        (us, s) \<leftarrow> stack_pop (stack_of st);
        (secs, s) \<leftarrow> stack_pop s;
        (context_value, s) \<leftarrow> stack_pop s;
        (base, s) \<leftarrow> stack_pop s;
        let st = set_stack s st;
        fw_assert (us < 1000000);
        Some (stmtResponse_beginSleep, NoError, [],
          st\<lparr>fpy_runtime := (fpy_runtime st)\<lparr>rt_wakeup :=
            \<lparr>wk_base = base, wk_context = context_value, wk_seconds = secs, wk_useconds = us\<rparr>\<rparr>\<rparr>) })"

definition goto_stmt :: "u32 \<Rightarrow> fpy_state \<Rightarrow> response option" where
  "goto_stmt i st =
     (if i > ucast (statement_count st) then fail_with StmtOutOfBounds st else succeed (set_next i st))"

definition if_stmt :: "u32 \<Rightarrow> fpy_state \<Rightarrow> response option" where
  "if_stmt i st =
     (if stk_size (stack_of st) < 1 then fail_with StackUnderflow st
      else if i > ucast (statement_count st) then fail_with StmtOutOfBounds st
      else do {
        (b, s) \<leftarrow> stack_pop (stack_of st);
        let st = set_stack s st;
        if (b :: u8) \<noteq> 0 then succeed st else succeed (set_next i st) })"

definition get_tlm :: "fpy_env \<Rightarrow> u32 \<Rightarrow> DirectiveError + fw_time \<times> u8 list" where
  "get_tlm env chan_id =
     (case env_tlm env of
        None \<Rightarrow> Inl TlmGetNotConnected
      | Some p \<Rightarrow> let (valid, t, v) = p chan_id in
          if valid \<noteq> TlmValid_Valid then Inl TlmChanNotFound else Inr (t, v))"

definition push_tlm_val :: "fpy_env \<Rightarrow> u32 \<Rightarrow> fpy_state \<Rightarrow> response option" where
  "push_tlm_val env chan_id st =
     (case get_tlm env chan_id of
        Inl e \<Rightarrow> fail_with e st
      | Inr (_, v) \<Rightarrow> do {
          room \<leftarrow> free (stack_of st);
          if length v > room then fail_with StackOverflow st
          else do { s \<leftarrow> push_bytes v (stack_of st); succeed (set_stack s st) } })"

definition time_bytes :: "fw_time \<Rightarrow> u8 list option" where
  "time_bytes t =
     do { (status, b) \<leftarrow> time_serialize_to t (ext_buf_new (replicate TIME_SERIALIZED_SIZE 0)) Big;
          fw_assert (status = Ok);
          as_slice b }"

definition push_tlm_val_and_time :: "fpy_env \<Rightarrow> u32 \<Rightarrow> fpy_state \<Rightarrow> response option" where
  "push_tlm_val_and_time env chan_id st =
     (case get_tlm env chan_id of
        Inl e \<Rightarrow> fail_with e st
      | Inr (t, v) \<Rightarrow> do {
          tb \<leftarrow> time_bytes t;
          room \<leftarrow> free (stack_of st);
          if length v + length tb > room then fail_with StackOverflow st
          else do {
            s \<leftarrow> push_bytes v (stack_of st);
            s \<leftarrow> push_bytes tb s;
            succeed (set_stack s st) } })"

definition push_prm :: "fpy_env \<Rightarrow> u32 \<Rightarrow> fpy_state \<Rightarrow> response option" where
  "push_prm env prm_id st =
     (case env_prm env of
        None \<Rightarrow> fail_with PrmGetNotConnected st
      | Some p \<Rightarrow>
          let (valid, v) = p prm_id in
          if valid \<noteq> ParamValid_Valid then fail_with PrmNotFound st
          else do {
            room \<leftarrow> free (stack_of st);
            if length v > room then fail_with StackOverflow st
            else do { s \<leftarrow> push_bytes v (stack_of st); succeed (set_stack s st) } })"

definition const_cmd :: "u32 \<Rightarrow> u8 list \<Rightarrow> nat \<Rightarrow> fpy_state \<Rightarrow> response option" where
  "const_cmd opc arg_buf arg_buf_size st =
     do { room \<leftarrow> free (stack_of st);
          if 1 > room then fail_with StackOverflow st
          else do {
            args \<leftarrow> slice arg_buf 0 (min arg_buf_size (length arg_buf));
            (sent, calls) \<leftarrow> send_cmd st opc args;
            if sent = Success_Failure then Some (stmtResponse_failure, NoError, calls, st)
            else Some (stmtResponse_keepWaiting, NoError, calls, st) } }"

definition exit_seq :: "fpy_state \<Rightarrow> response option" where
  "exit_seq st =
     (if stk_size (stack_of st) < 4 then fail_with StackUnderflow st
      else do {
        (error_code, s) \<leftarrow> stack_pop (stack_of st);
        let st = set_stack s st;
        if (error_code :: i32) = 0 then succeed (set_next (ucast (statement_count st)) st)
        else Some (stmtResponse_failure, ExitWithError,
          [Ev_SequenceExitedWithError (sequence_file_path st) error_code], st) })"

definition stack_cmd :: "nat \<Rightarrow> fpy_state \<Rightarrow> response option" where
  "stack_cmd n st =
     (if stk_size (stack_of st) < 4 \<or> stk_size (stack_of st) - 4 < n then fail_with StackUnderflow st
      else do {
        (opc, s) \<leftarrow> stack_pop (stack_of st);
        arg_offset \<leftarrow> usub (stk_size s) n;
        let st = st\<lparr>fpy_runtime := (fpy_runtime st)\<lparr>current_cmd_opcode := opc\<rparr>\<rparr>;
        let s = s\<lparr>stk_size := arg_offset\<rparr>;
        let st = set_stack s st;
        room \<leftarrow> free s;
        if 1 > room then fail_with StackOverflow st
        else do {
          args \<leftarrow> slice (stk_bytes s) arg_offset (arg_offset + n);
          (sent, calls) \<leftarrow> send_cmd st opc args;
          if sent = Success_Failure then Some (stmtResponse_failure, NoError, calls, st)
          else Some (stmtResponse_keepWaiting, NoError, calls, st) } })"

definition push_time :: "fpy_env \<Rightarrow> fpy_state \<Rightarrow> response option" where
  "push_time env st =
     do { room \<leftarrow> free (stack_of st);
          if TIME_SERIALIZED_SIZE > room then fail_with StackOverflow st
          else do {
            tb \<leftarrow> time_bytes (env_now env);
            s \<leftarrow> push_bytes tb (stack_of st);
            succeed (set_stack s st) } }"

definition set_seed :: "fpy_state \<Rightarrow> response option" where
  "set_seed st =
     (if stk_size (stack_of st) < 4 then fail_with StackUnderflow st
      else do {
        (seed, s) \<leftarrow> stack_pop (stack_of st);
        let st = set_stack s st;
        r \<leftarrow> rng_seed seed (rt_rng (fpy_runtime st));
        succeed (st\<lparr>fpy_runtime := (fpy_runtime st)\<lparr>rt_rng := r, rng_seeded := True\<rparr>\<rparr>) })"

definition push_rand :: "fpy_env \<Rightarrow> fpy_state \<Rightarrow> response option" where
  "push_rand env st =
     do { room \<leftarrow> free (stack_of st);
          if 4 > room then fail_with StackOverflow st
          else do {
            let rt = fpy_runtime st;
            let now = env_now env;
            r \<leftarrow> (if \<not> rng_seeded rt
                 then seed_seq [ucast (TimeBase_repr (time_base now)), ucast (time_context now),
                        seconds now, useconds now] (rt_rng rt)
                 else Some (rt_rng rt));
            (v, r) \<leftarrow> next_u32 r;
            s \<leftarrow> stack_push v (stack_of st);
            succeed (set_stack s (st\<lparr>fpy_runtime := rt\<lparr>rt_rng := r, rng_seeded := True\<rparr>\<rparr>)) } }"

definition call_stmt :: "fpy_state \<Rightarrow> response option" where
  "call_stmt st =
     (if stk_size (stack_of st) < 4 then fail_with StackUnderflow st
      else do {
        (target, s) \<leftarrow> stack_pop (stack_of st);
        let st = set_stack s st;
        if stk_size s + 4 + 4 > MAX_STACK_SIZE then fail_with StackOverflow st
        else if target > ucast (statement_count st) then fail_with StmtOutOfBounds st
        else do {
          let return_addr = next_statement_index (fpy_runtime st);
          let st = set_next target st;
          s \<leftarrow> stack_push return_addr s;
          s \<leftarrow> stack_push (of_nat (stk_frame s) :: u32) s;
          succeed (set_stack (s\<lparr>stk_frame := stk_size s\<rparr>) st) } })"

definition return_stmt :: "nat \<Rightarrow> nat \<Rightarrow> fpy_state \<Rightarrow> response option" where
  "return_stmt return_val_size call_args_size st =
     (let s = stack_of st in
      if stk_size s < return_val_size then fail_with StackUnderflow st
      else do {
        return_val_offset \<leftarrow> usub (stk_size s) return_val_size;
        if stk_frame s > stk_size s then fail_with FrameStartOutOfBounds st
        else do {
          let s = s\<lparr>stk_size := stk_frame s\<rparr>;
          if stk_size s < 4 + 4 then fail_with StackUnderflow (set_stack s st)
          else do {
            (saved_frame_ptr, s) \<leftarrow> stack_pop s;
            (return_addr, s) \<leftarrow> stack_pop s;
            let saved_frame_ptr = unat (saved_frame_ptr :: u32);
            if saved_frame_ptr > stk_size s then fail_with FrameStartOutOfBounds (set_stack s st)
            else do {
              let s = s\<lparr>stk_frame := saved_frame_ptr\<rparr>;
              if return_addr > ucast (statement_count st) then fail_with StmtOutOfBounds (set_stack s st)
              else do {
                let st = set_next return_addr st;
                if stk_size s < call_args_size then fail_with StackUnderflow (set_stack s st)
                else do {
                  k \<leftarrow> usub (stk_size s) call_args_size;
                  let s = s\<lparr>stk_size := k\<rparr>;
                  room \<leftarrow> free s;
                  if return_val_size > room then fail_with StackOverflow (set_stack s st)
                  else if return_val_size > 0
                  then do {
                    bs \<leftarrow> copy_within (stk_bytes s) return_val_offset (return_val_offset + return_val_size) (stk_size s);
                    k \<leftarrow> add32 (stk_size s) return_val_size;
                    succeed (set_stack (s\<lparr>stk_bytes := bs, stk_size := k\<rparr>) st) }
                  else succeed (set_stack s st) } } } } } })"

definition FW_LOG_STRING_MAX_SIZE :: nat where "FW_LOG_STRING_MAX_SIZE = 200"

definition pop_event :: "fpy_state \<Rightarrow> response option" where
  "pop_event st =
     (if stk_size (stack_of st) < 4 then fail_with StackUnderflow st
      else do {
        (message_size, s) \<leftarrow> stack_pop (stack_of st);
        let message_size = unat (message_size :: u32);
        if stk_size s < 1 \<or> stk_size s - 1 < message_size then fail_with StackUnderflow (set_stack s st)
        else do {
          let clamped = min message_size (FW_LOG_STRING_MAX_SIZE - 1);
          s \<leftarrow> (if message_size > clamped
               then do {
                 let excess = message_size - clamped;
                 fw_assert (stk_size s \<ge> excess);
                 Some (s\<lparr>stk_size := stk_size s - excess\<rparr>) }
               else Some s);
          (message, s) \<leftarrow> pop_bytes clamped s;
          (severity, s) \<leftarrow> stack_pop s;
          let message = takeWhile (\<lambda>b. b \<noteq> 0) message;
          let st = set_stack s st;
          case try_from LogSeverity_repr LogSeverity_values severity of
            Some severity \<Rightarrow>
              Some (stmtResponse_success, NoError, [Ev_LogMessage severity (sequence_file_path st) message], st)
          | None \<Rightarrow> fail_with InvalidArg st } })"

definition MAX_SERIAL_PORTS :: int where "MAX_SERIAL_PORTS = 5"

definition pop_serializable :: "fpy_env \<Rightarrow> i16 \<Rightarrow> nat \<Rightarrow> fpy_state \<Rightarrow> response option" where
  "pop_serializable env port_index n st =
     (if \<not> (0 \<le> sint port_index \<and> sint port_index < MAX_SERIAL_PORTS) then fail_with SerialPortInvalidIndex st
      else case env_serial env (nat (sint port_index)) of
        None \<Rightarrow> fail_with SerialPortNotConnected st
      | Some p \<Rightarrow> do {
          let s = stack_of st;
          if stk_size s < n then fail_with StackUnderflow st
          else do {
            start \<leftarrow> usub (stk_size s) n;
            buf \<leftarrow> slice (stk_bytes s) start (stk_size s);
            let (status, buf') = p buf;
            bs \<leftarrow> blit (stk_bytes s) start buf';
            fw_assert (status = Ok);
            Some (stmtResponse_success, NoError, [SerialOut (nat (sint port_index)) buf],
              set_stack (s\<lparr>stk_bytes := bs, stk_size := start\<rparr>) st) } })"

section \<open>The internal ports\<close>

primrec directive_handler :: "fpy_env \<Rightarrow> DirectiveUnion \<Rightarrow> fpy_state \<Rightarrow> response option" where
  "directive_handler env Dir_WaitRel st = wait_rel env st"
| "directive_handler env Dir_WaitAbs st = wait_abs st"
| "directive_handler env (Dir_Goto i) st = goto_stmt i st"
| "directive_handler env (Dir_If i) st = if_stmt i st"
| "directive_handler env Dir_NoOp st = succeed st"
| "directive_handler env (Dir_PushTlmVal c) st = push_tlm_val env c st"
| "directive_handler env (Dir_PushTlmValAndTime c) st = push_tlm_val_and_time env c st"
| "directive_handler env (Dir_PushPrm p) st = push_prm env p st"
| "directive_handler env (Dir_ConstCmd opc args n) st = const_cmd opc args n st"
| "directive_handler env (Dir_StackOp op) st = on_stack (stack_op (env_fp env) op) st"
| "directive_handler env Dir_Exit st = exit_seq st"
| "directive_handler env (Dir_Allocate n) st = on_stack (allocate n) st"
| "directive_handler env (Dir_StoreRelConstOffset i n) st = on_stack (store_rel_const_offset i n) st"
| "directive_handler env (Dir_LoadRel i n) st = on_stack (load_rel i n) st"
| "directive_handler env (Dir_PushVal v n) st = on_stack (push_val v n) st"
| "directive_handler env (Dir_Discard n) st = on_stack (discard n) st"
| "directive_handler env (Dir_MemCmp n) st = on_stack (mem_cmp n) st"
| "directive_handler env (Dir_StackCmd n) st = stack_cmd n st"
| "directive_handler env Dir_PushTime st = push_time env st"
| "directive_handler env Dir_SetSeed st = set_seed st"
| "directive_handler env Dir_PushRand st = push_rand env st"
| "directive_handler env (Dir_GetField p m) st = on_stack (get_field p m) st"
| "directive_handler env Dir_Peek st = on_stack peek st"
| "directive_handler env (Dir_StoreRel n) st = on_stack (store_rel n) st"
| "directive_handler env Dir_Call st = call_stmt st"
| "directive_handler env (Dir_Return r a) st = return_stmt r a st"
| "directive_handler env (Dir_LoadAbs i n) st = on_stack (load_helper i n) st"
| "directive_handler env (Dir_StoreAbs n) st = on_stack (store_abs n) st"
| "directive_handler env (Dir_StoreAbsConstOffset i n) st = on_stack (store_helper i n) st"
| "directive_handler env Dir_PopEvent st = pop_event st"
| "directive_handler env (Dir_PopSerializable p n) st = pop_serializable env p n st"

primrec directive_id :: "DirectiveUnion \<Rightarrow> DirectiveId" where
  "directive_id Dir_WaitRel = DirectiveId_WaitRel"
| "directive_id Dir_WaitAbs = DirectiveId_WaitAbs"
| "directive_id (Dir_Goto _) = DirectiveId_Goto"
| "directive_id (Dir_If _) = DirectiveId_If"
| "directive_id Dir_NoOp = DirectiveId_NoOp"
| "directive_id (Dir_PushTlmVal _) = DirectiveId_PushTlmVal"
| "directive_id (Dir_PushTlmValAndTime _) = DirectiveId_PushTlmValAndTime"
| "directive_id (Dir_PushPrm _) = DirectiveId_PushPrm"
| "directive_id (Dir_ConstCmd _ _ _) = DirectiveId_ConstCmd"
| "directive_id (Dir_StackOp op) = op"
| "directive_id Dir_Exit = DirectiveId_Exit"
| "directive_id (Dir_Allocate _) = DirectiveId_Allocate"
| "directive_id (Dir_StoreRelConstOffset _ _) = DirectiveId_StoreRelConstOffset"
| "directive_id (Dir_LoadRel _ _) = DirectiveId_LoadRel"
| "directive_id (Dir_PushVal _ _) = DirectiveId_PushVal"
| "directive_id (Dir_Discard _) = DirectiveId_Discard"
| "directive_id (Dir_MemCmp _) = DirectiveId_Memcmp"
| "directive_id (Dir_StackCmd _) = DirectiveId_StackCmd"
| "directive_id Dir_PushTime = DirectiveId_PushTime"
| "directive_id Dir_SetSeed = DirectiveId_SetSeed"
| "directive_id Dir_PushRand = DirectiveId_PushRand"
| "directive_id (Dir_GetField _ _) = DirectiveId_GetField"
| "directive_id Dir_Peek = DirectiveId_Peek"
| "directive_id (Dir_StoreRel _) = DirectiveId_StoreRel"
| "directive_id Dir_Call = DirectiveId_Call"
| "directive_id (Dir_Return _ _) = DirectiveId_Return"
| "directive_id (Dir_LoadAbs _ _) = DirectiveId_LoadAbs"
| "directive_id (Dir_StoreAbs _) = DirectiveId_StoreAbs"
| "directive_id (Dir_StoreAbsConstOffset _ _) = DirectiveId_StoreAbsConstOffset"
| "directive_id Dir_PopEvent = DirectiveId_PopEvent"
| "directive_id (Dir_PopSerializable _ _) = DirectiveId_PopSerializable"

definition directive_message :: "fpy_env \<Rightarrow> DirectiveUnion \<Rightarrow> fpy_state \<Rightarrow> (Signal \<times> fpy_call list \<times> fpy_state) option" where
  "directive_message env d st =
     do { (signal, error, calls, st) \<leftarrow> directive_handler env d st;
          Some (signal, calls, handle_directive_error_code st (directive_id d) error) }"

end
