(* ===== verification/Fpy_Safe.thy ===== *)
theory Fpy_Safe
  imports Fpy_Machine
begin

text \<open>
  Safety of the Fpy directives: from a well-formed runtime, every handler either returns a statement response
  and a well-formed runtime, or trips an assertion in one of the cases listed by \<open>trips\<close>.
\<close>

section \<open>Handlers on the stack\<close>

lemma free_eq [simp]: "wf_stack s \<Longrightarrow> free s = Some (MAX_STACK_SIZE - stk_size s)"
  by (simp add: free_def usub_def wf_stack_def)

lemma usub_le [simp]: "b \<le> a \<Longrightarrow> usub a b = Some (a - b)"
  by (simp add: usub_def)

lemma allocate_total: "op_total (allocate n)"
proof (rule op_totalI)
  fix s
  assume wf: "wf_stack s"
  show "\<exists>e s'. allocate n s = Some (e, s') \<and> wf_stack s' \<and> stk_frame s' = stk_frame s"
    using wf wf_stackD(2) [OF wf] by (simp add: allocate_def push_zeroes_eq) arith
qed

lemma store_helper_total: "op_total (store_helper d n)"
proof (rule op_totalI)
  fix s
  assume wf: "wf_stack s"
  show "\<exists>e s'. store_helper d n s = Some (e, s') \<and> wf_stack s' \<and> stk_frame s' = stk_frame s"
  proof (cases "n \<le> stk_size s \<and> d \<le> stk_size s - n \<and> n \<le> stk_size s - n - d")
    case True
    then have "d + n \<le> stk_size s - n" "n \<le> stk_size s"
      by auto
    from copy_from_top [OF wf this] show ?thesis
      using True by (auto simp: store_helper_def)
  qed (use wf in \<open>auto simp: store_helper_def\<close>)
qed

lemma load_helper_total: "op_total (load_helper i n)"
proof (rule op_totalI)
  fix s
  assume wf: "wf_stack s"
  show "\<exists>e s'. load_helper i n s = Some (e, s') \<and> wf_stack s' \<and> stk_frame s' = stk_frame s"
  proof (cases "n \<le> MAX_STACK_SIZE - stk_size s \<and> i \<le> stk_size s \<and> n \<le> stk_size s - i")
    case True
    then have fits: "i + n \<le> stk_size s" "stk_size s + n \<le> MAX_STACK_SIZE"
      using wf_stackD(2) [OF wf] by auto
    from copy_to_top [OF wf this] show ?thesis
      using True fits wf by (auto simp: load_helper_def add32_small)
  qed (use wf in \<open>auto simp: load_helper_def\<close>)
qed

lemma op_total_after_pop:
  assumes "\<And>v :: 'a::len word. op_total (f v)"
  shows "wf_stack s \<Longrightarrow> nbytes TYPE('a) \<le> stk_size s \<Longrightarrow>
    \<exists>e s'. Option.bind (stack_pop s) (\<lambda>(v :: 'a word, s). f v s) = Some (e, s') \<and> wf_stack s' \<and>
      stk_frame s' = stk_frame s"
proof -
  assume wf: "wf_stack s" and n: "nbytes TYPE('a) \<le> stk_size s"
  let ?s = "s\<lparr>stk_size := stk_size s - nbytes TYPE('a)\<rparr>"
  have "wf_stack ?s"
    using wf by simp
  then have "\<exists>e s'. f v ?s = Some (e, s') \<and> wf_stack s' \<and> stk_frame s' = stk_frame ?s" for v
    using assms unfolding op_total_def by blast
  then show ?thesis
    by (simp add: stack_pop_eq [OF wf n])
qed

lemma rel_total: "op_total (store_rel_const_offset i n)" "op_total (load_rel i n)"
  using store_helper_total load_helper_total
  by (auto simp: op_total_def store_rel_const_offset_def load_rel_def split: option.split)

lemma push_val_total: "n \<le> length v \<Longrightarrow> op_total (push_val v n)"
proof (rule op_totalI)
  fix s
  assume n: "n \<le> length v" and wf: "wf_stack s"
  show "\<exists>e s'. push_val v n s = Some (e, s') \<and> wf_stack s' \<and> stk_frame s' = stk_frame s"
    using n wf wf_stackD(2) [OF wf] by (simp add: push_val_def push_bytes_eq) arith
qed

lemma discard_total: "op_total (discard n)"
  by (rule op_totalI) (simp add: discard_def)

lemma mem_cmp_safe:
  assumes wf: "wf_stack s"
  shows "if n = 0 \<and> stk_size s = MAX_STACK_SIZE then mem_cmp n s = None
    else \<exists>e s'. mem_cmp n s = Some (e, s') \<and> wf_stack s' \<and> stk_frame s' = stk_frame s"
proof (cases "n \<le> MAX_STACK_SIZE div 2 \<and> n * 2 \<le> stk_size s")
  case True
  let ?s = "s\<lparr>stk_size := stk_size s - n * 2\<rparr>"
  have wf': "wf_stack ?s"
    using wf by simp
  have "mem_cmp n s = do { s \<leftarrow> stack_push (bool_byte (take n (drop (stk_size s - n * 2) (stk_bytes s)) =
      take n (drop (stk_size s - n) (stk_bytes s)))) ?s; Some (NoError, s) }"
    using True wf_stackD [OF wf] by (simp add: mem_cmp_def Let_def)
  then show ?thesis
    using True wf' wf_stackD(2) [OF wf] by (auto simp: stack_push_eq)
qed (use wf in \<open>auto simp: mem_cmp_def\<close>)

lemma get_field_total: "op_total (get_field p m)"
proof (rule op_totalI)
  fix s
  assume wf: "wf_stack s"
  show "\<exists>e s'. get_field p m s = Some (e, s') \<and> wf_stack s' \<and> stk_frame s' = stk_frame s"
  proof (cases "p \<le> stk_size s - 4 \<and> 4 \<le> stk_size s")
    case True
    let ?s = "s\<lparr>stk_size := stk_size s - 4\<rparr>"
    let ?off = "unat (from_be_bytes (drop (stk_size s - 4) (stk s)) :: u32)"
    have wf': "wf_stack ?s"
      using wf by simp
    show ?thesis
    proof (cases "?off \<le> p \<and> m \<le> p - ?off")
      case ok: True
      define d where "d = stk_size s - 4 - p"
      have d: "d + ?off + m \<le> stk_size ?s" "d \<le> d + ?off"
        using True ok by (auto simp: d_def)
      obtain s' where s': "stack_move d (d + ?off) m ?s = Some s'" "wf_stack (s'\<lparr>stk_size := d + m\<rparr>)"
          "stk_size s' = stk_size s - 4" "stk_frame s' = stk_frame s"
        using move_down [OF wf' d] by auto
      have eqs: "usub (stk_size s - 4) p = Some d" "stk_size s - 4 - (p - m) = d + m" "p - m \<le> stk_size s - 4"
          "m \<le> p" "d + ?off \<le> MAX_STACK_SIZE"
        using True ok wf_stackD(2) [OF wf] by (auto simp: d_def)
      have "get_field p m s = Some (NoError, s'\<lparr>stk_size := d + m\<rparr>)"
        using True ok s' eqs by (simp add: get_field_def Let_def stack_pop_eq [OF wf] add32_small)
      then show ?thesis
        using s' by simp
    qed (use True wf' in \<open>auto simp: get_field_def Let_def stack_pop_eq [OF wf]\<close>)
  qed (use wf in \<open>auto simp: get_field_def\<close>)
qed

lemma peek_total: "op_total peek"
proof (rule op_totalI)
  fix s
  assume wf: "wf_stack s"
  show "\<exists>e s'. peek s = Some (e, s') \<and> wf_stack s' \<and> stk_frame s' = stk_frame s"
  proof (cases "8 \<le> stk_size s")
    case True
    let ?s1 = "s\<lparr>stk_size := stk_size s - 4\<rparr>" and ?s = "s\<lparr>stk_size := stk_size s - 8\<rparr>"
    have wf': "wf_stack ?s1" "wf_stack ?s"
      using wf by simp_all
    define off cnt where "off = unat (from_be_bytes (drop (stk_size s - 4) (stk s)) :: u32)"
      and "cnt = unat (from_be_bytes (drop (stk_size s - 8) (stk ?s1)) :: u32)"
    have pops: "peek s =
        (if off > stk_size ?s then Some (StackAccessOutOfBounds, ?s)
         else if cnt > MAX_STACK_SIZE - stk_size ?s then Some (StackOverflow, ?s)
         else if cnt > stk_size ?s - off then Some (StackAccessOutOfBounds, ?s)
         else do { s \<leftarrow> stack_copy (stk_size ?s) (stk_size ?s - off - cnt) cnt ?s;
                   k \<leftarrow> add32 (stk_size s) cnt; Some (NoError, s\<lparr>stk_size := k\<rparr>) })"
      using True wf_stackD(2) [OF wf]
      by (simp add: peek_def Let_def stack_pop_eq [OF wf] stack_pop_eq [OF wf'(1)] off_def cnt_def free_eq [OF wf'(2)]
          del: stk_shrink)
    show ?thesis
    proof (cases "off \<le> stk_size ?s \<and> cnt \<le> MAX_STACK_SIZE - stk_size ?s \<and> cnt \<le> stk_size ?s - off")
      case ok: True
      have "stk_size ?s - off - cnt + cnt \<le> stk_size ?s" "stk_size ?s + cnt \<le> MAX_STACK_SIZE"
        using ok True wf_stackD(2) [OF wf] by auto
      from copy_to_top [OF wf'(2) this] show ?thesis
        using ok \<open>stk_size ?s + cnt \<le> MAX_STACK_SIZE\<close> unfolding pops by (auto simp: add32_small)
    qed (use wf' in \<open>auto simp: pops\<close>)
  qed (use wf in \<open>auto simp: peek_def\<close>)
qed

lemma store_top_total: "op_total (store_rel n)" "op_total (store_abs n)"
proof -
  define f where "f v s = (case frame_address v s of None \<Rightarrow> Some (StackAccessOutOfBounds, s)
      | Some addr \<Rightarrow> store_helper addr n s)" for v s
  have rel: "op_total (f v)" for v
    using store_helper_total by (auto simp: f_def op_total_def split: option.split)
  show "op_total (store_rel n)"
    by (rule op_totalI) (use op_total_after_pop [of f, OF rel] in \<open>auto simp: store_rel_def f_def\<close>)
  define g where "g v = store_helper (unat (v :: u32)) n" for v
  have "op_total (g v)" for v
    unfolding g_def by (rule store_helper_total)
  then show "op_total (store_abs n)"
    by (intro op_totalI) (use op_total_after_pop [of g] in \<open>auto simp: store_abs_def g_def\<close>)
qed

section \<open>Well-formed runtimes\<close>

definition wf_fpy :: "fpy_state \<Rightarrow> bool" where
  "wf_fpy st \<longleftrightarrow> wf_stack (stack_of st) \<and> wf_rng (rt_rng (fpy_runtime st)) \<and>
     next_statement_index (fpy_runtime st) \<le> ucast (statement_count st) \<and>
     unat (statement_count st) \<le> length (fpy_statements st)"

text \<open>
  The directives that \<open>deserialize_directive\<close> produces.  A serial receiver gets a buffer over a part of the stack, which it
  may overwrite but not resize; whether it accepts the bytes is up to it.
\<close>

definition wf_directive :: "DirectiveUnion \<Rightarrow> bool" where
  "wf_directive d \<longleftrightarrow>
     (case d of Dir_PushVal v n \<Rightarrow> n \<le> length v | Dir_StackOp op \<Rightarrow> is_stack_op op | _ \<Rightarrow> True)"

definition serial_ok :: "fpy_env \<Rightarrow> bool" where
  "serial_ok env \<longleftrightarrow> (\<forall>i p bs. env_serial env i = Some p \<longrightarrow> length (snd (p bs)) = length bs)"

definition serial_refuses :: "fpy_env \<Rightarrow> i16 \<Rightarrow> nat \<Rightarrow> fpy_stack \<Rightarrow> bool" where
  "serial_refuses env i n s \<longleftrightarrow> 0 \<le> sint i \<and> sint i < 5 \<and> n \<le> stk_size s \<and>
     (case env_serial env (nat (sint i)) of None \<Rightarrow> False | Some p \<Rightarrow> fst (p (drop (stk_size s - n) (stk s))) \<noteq> Ok)"

definition top_u32 :: "fpy_stack \<Rightarrow> u32" where
  "top_u32 s = from_be_bytes (drop (stk_size s - 4) (stk s))"

definition trips :: "fpy_env \<Rightarrow> DirectiveUnion \<Rightarrow> fpy_state \<Rightarrow> bool" where
  "trips env d st \<longleftrightarrow>
     (case d of
        Dir_WaitRel \<Rightarrow> 8 \<le> stk_size (stack_of st) \<and> 1999999 \<le> useconds (env_now env) + top_u32 (stack_of st)
      | Dir_WaitAbs \<Rightarrow> 11 \<le> stk_size (stack_of st) \<and> 1000000 \<le> top_u32 (stack_of st)
      | Dir_StackOp op \<Rightarrow> trips_op op (stack_of st)
      | Dir_MemCmp n \<Rightarrow> n = 0 \<and> stk_size (stack_of st) = MAX_STACK_SIZE
      | Dir_PopSerializable i n \<Rightarrow> serial_refuses env i n (stack_of st)
      | _ \<Rightarrow> False)"

definition same_sequence :: "fpy_state \<Rightarrow> fpy_state \<Rightarrow> bool" where
  "same_sequence st st' \<longleftrightarrow> seq_header st' = seq_header st \<and> fpy_statements st' = fpy_statements st \<and>
     sequences_started st' = sequences_started st \<and> statements_dispatched st' = statements_dispatched st \<and>
     sequence_buffer st' = sequence_buffer st \<and> seq_arg_specs st' = seq_arg_specs st \<and>
     args_size st' = args_size st \<and> args_buffer st' = args_buffer st \<and>
     current_statement_dispatch_time (fpy_runtime st') = current_statement_dispatch_time (fpy_runtime st)"

definition responds :: "fpy_state \<Rightarrow> response option \<Rightarrow> bool" where
  "responds st r \<longleftrightarrow> (\<exists>sig e calls st'. r = Some (sig, e, calls, st') \<and> wf_fpy st' \<and> same_sequence st st' \<and>
     sig \<in> {stmtResponse_success, stmtResponse_failure, stmtResponse_beginSleep, stmtResponse_keepWaiting} \<and>
     (e \<noteq> NoError \<longrightarrow> sig = stmtResponse_failure) \<and>
     (sig = stmtResponse_keepWaiting \<longrightarrow> stk_size (stack_of st') < MAX_STACK_SIZE))"

lemma state_simps [simp]:
  "stack_of (set_stack s st) = s"
  "stack_of (set_next i st) = stack_of st"
  "seq_header (set_stack s st) = seq_header st"
  "seq_header (set_next i st) = seq_header st"
  "fpy_statements (set_stack s st) = fpy_statements st"
  "fpy_statements (set_next i st) = fpy_statements st"
  "next_statement_index (fpy_runtime (set_stack s st)) = next_statement_index (fpy_runtime st)"
  "next_statement_index (fpy_runtime (set_next i st)) = i"
  "rt_rng (fpy_runtime (set_stack s st)) = rt_rng (fpy_runtime st)"
  "rt_rng (fpy_runtime (set_next i st)) = rt_rng (fpy_runtime st)"
  "sequence_file_path (set_stack s st) = sequence_file_path st"
  by (simp_all add: stack_of_def set_stack_def set_next_def)

lemma wf_fpyD:
  assumes "wf_fpy st"
  shows "wf_stack (stack_of st)" "stk_size (stack_of st) \<le> MAX_STACK_SIZE" "wf_rng (rt_rng (fpy_runtime st))"
    "next_statement_index (fpy_runtime st) \<le> ucast (statement_count st)"
    "unat (statement_count st) \<le> length (fpy_statements st)"
  using assms by (auto simp: wf_fpy_def wf_stack_def)

lemma wf_set_stack [intro]: "wf_fpy st \<Longrightarrow> wf_stack s \<Longrightarrow> wf_fpy (set_stack s st)"
  by (simp add: wf_fpy_def)

lemma wf_set_next [intro]: "wf_fpy st \<Longrightarrow> i \<le> ucast (statement_count st) \<Longrightarrow> wf_fpy (set_next i st)"
  by (simp add: wf_fpy_def)

lemma same_sequence_intros [intro, simp]:
  "same_sequence st st"
  "same_sequence st st' \<Longrightarrow> same_sequence st (set_stack s st')"
  "same_sequence st st' \<Longrightarrow> same_sequence st (set_next i st')"
  "same_sequence st st' \<Longrightarrow> current_statement_dispatch_time rt = current_statement_dispatch_time (fpy_runtime st') \<Longrightarrow>
    same_sequence st (st'\<lparr>fpy_runtime := rt\<rparr>)"
  by (simp_all add: same_sequence_def set_stack_def set_next_def)

lemma wf_upd [simp]:
  "wf_fpy (st\<lparr>fpy_runtime := (fpy_runtime st)\<lparr>rt_wakeup := w\<rparr>\<rparr>) = wf_fpy st"
  "wf_fpy (st\<lparr>fpy_runtime := (fpy_runtime st)\<lparr>current_cmd_opcode := c\<rparr>\<rparr>) = wf_fpy st"
  by (simp_all add: wf_fpy_def stack_of_def)

subsection \<open>Rules for handlers\<close>

lemma responds_fail: "wf_fpy st' \<Longrightarrow> same_sequence st st' \<Longrightarrow> responds st (Some (stmtResponse_failure, e, calls, st'))"
  by (simp add: responds_def)

lemma responds_ok:
  "wf_fpy st' \<Longrightarrow> same_sequence st st' \<Longrightarrow> responds st (Some (stmtResponse_success, NoError, calls, st'))"
  "wf_fpy st' \<Longrightarrow> same_sequence st st' \<Longrightarrow> responds st (Some (stmtResponse_beginSleep, NoError, calls, st'))"
  "wf_fpy st' \<Longrightarrow> same_sequence st st' \<Longrightarrow> stk_size (stack_of st') < MAX_STACK_SIZE \<Longrightarrow>
    responds st (Some (stmtResponse_keepWaiting, NoError, calls, st'))"
  by (simp_all add: responds_def)

lemma responds_if:
  "(c \<Longrightarrow> responds st a) \<Longrightarrow> (\<not> c \<Longrightarrow> responds st b) \<Longrightarrow> responds st (if c then a else b)"
  by simp

lemma responds_pop:
  fixes k :: "'a::len word \<times> fpy_stack \<Rightarrow> response option"
  assumes "wf_stack s" and "nbytes TYPE('a) \<le> stk_size s"
    and "\<And>v s'. v = from_be_bytes (drop (stk_size s - nbytes TYPE('a)) (stk s)) \<Longrightarrow>
      s' = s\<lparr>stk_size := stk_size s - nbytes TYPE('a)\<rparr> \<Longrightarrow> wf_stack s' \<Longrightarrow> responds st (k (v, s'))"
  shows "responds st (Option.bind (stack_pop s) k)"
  using assms by (simp add: stack_pop_eq)

lemma responds_push:
  assumes "wf_stack s" and "stk_size s + length bs \<le> MAX_STACK_SIZE"
    and "\<And>s'. wf_stack s' \<Longrightarrow> stk_size s' = stk_size s + length bs \<Longrightarrow> stk_frame s' = stk_frame s \<Longrightarrow>
      responds st (k s')"
  shows "responds st (Option.bind (push_bytes bs s) k)"
  using assms by (simp add: push_bytes_eq)

lemma responds_push_word:
  fixes v :: "'a::len word"
  assumes "wf_stack s" and "stk_size s + nbytes TYPE('a) \<le> MAX_STACK_SIZE"
    and "\<And>s'. wf_stack s' \<Longrightarrow> stk_size s' = stk_size s + nbytes TYPE('a) \<Longrightarrow> stk_frame s' = stk_frame s \<Longrightarrow>
      responds st (k s')"
  shows "responds st (Option.bind (stack_push v s) k)"
  using assms by (simp add: stack_push_eq)

lemma responds_free:
  assumes "wf_stack s" and "responds st (k (MAX_STACK_SIZE - stk_size s))"
  shows "responds st (Option.bind (free s) k)"
  using assms by simp

lemmas responds_rules = responds_fail responds_ok responds_if responds_free wf_set_stack wf_set_next

lemma on_stack_responds:
  assumes "wf_fpy st" and "\<exists>e s'. f (stack_of st) = Some (e, s') \<and> wf_stack s' \<and> stk_frame s' = stk_frame (stack_of st)"
  shows "responds st (on_stack f st)"
  using assms by (auto simp: on_stack_def intro!: responds_rules)

lemma on_stack_total: "wf_fpy st \<Longrightarrow> op_total f \<Longrightarrow> responds st (on_stack f st)"
  using on_stack_responds [of st f] wf_fpyD(1) [of st] by (auto simp: op_total_def)

subsection \<open>Handlers on the state\<close>

text \<open>A pop from the stack cut down to \<open>m\<close> bytes.\<close>

lemma pop_cut:
  assumes "wf_stack s" and "nbytes TYPE('a) \<le> m" and "m \<le> stk_size s"
  shows "(stack_pop (s\<lparr>stk_size := m\<rparr>) :: ('a::len word \<times> fpy_stack) option) =
    Some (from_be_bytes (drop (m - nbytes TYPE('a)) (take m (stk s))), s\<lparr>stk_size := m - nbytes TYPE('a)\<rparr>)"
proof -
  have "wf_stack (s\<lparr>stk_size := m\<rparr>)"
    using assms by simp
  from stack_pop_eq [OF this] show ?thesis
    using assms by simp
qed

lemma wait_rel_safe:
  assumes wf: "wf_fpy st"
  shows "if trips env Dir_WaitRel st then wait_rel env st = None else responds st (wait_rel env st)"
proof (cases "8 \<le> stk_size (stack_of st)")
  case True
  let ?s = "stack_of st"
  let ?s1 = "?s\<lparr>stk_size := stk_size ?s - 4\<rparr>"
  have wf': "wf_stack ?s" "wf_stack ?s1"
    using wf_fpyD [OF wf] by simp_all
  have tot: "(stack_pop ?s :: (u32 \<times> fpy_stack) option) = Some (top_u32 ?s, ?s1)"
    using True by (simp add: stack_pop_eq [OF wf'(1)] top_u32_def)
  obtain v where v: "(stack_pop ?s1 :: (u32 \<times> fpy_stack) option) = Some (v, ?s\<lparr>stk_size := stk_size ?s - 8\<rparr>)"
    using True by (simp add: stack_pop_eq [OF wf'(2)])
  have "wf_fpy (set_stack (?s\<lparr>stk_size := stk_size ?s - 8\<rparr>) st)"
    using wf wf' by (intro wf_set_stack) simp_all
  then show ?thesis
    using True tot v
    by (auto simp: trips_def wait_rel_def Let_def linorder_not_less intro!: responds_ok split: prod.split)
qed (use wf in \<open>auto simp: trips_def wait_rel_def intro: responds_fail\<close>)

lemma wait_abs_safe:
  assumes wf: "wf_fpy st"
  shows "if trips env Dir_WaitAbs st then wait_abs st = None else responds st (wait_abs st)"
proof (cases "11 \<le> stk_size (stack_of st)")
  case True
  let ?s = "stack_of st"
  define s1 s2 s3 s4 where "s1 = ?s\<lparr>stk_size := stk_size ?s - 4\<rparr>" and "s2 = ?s\<lparr>stk_size := stk_size ?s - 8\<rparr>"
    and "s3 = ?s\<lparr>stk_size := stk_size ?s - 9\<rparr>" and "s4 = ?s\<lparr>stk_size := stk_size ?s - 11\<rparr>"
  note defs = s1_def s2_def s3_def s4_def
  have wf': "wf_stack ?s" "wf_stack s1" "wf_stack s2" "wf_stack s3" "wf_stack s4"
    using wf_fpyD [OF wf] by (simp_all add: defs)
  have p1: "(stack_pop ?s :: (u32 \<times> fpy_stack) option) = Some (top_u32 ?s, s1)"
    using True by (simp add: stack_pop_eq [OF wf'(1)] top_u32_def defs)
  obtain v2 where p2: "(stack_pop s1 :: (u32 \<times> fpy_stack) option) = Some (v2, s2)"
    using True pop_cut [OF wf'(1), of "stk_size ?s - 4", where 'a = 32] by (simp add: defs)
  obtain v3 where p3: "(stack_pop s2 :: (u8 \<times> fpy_stack) option) = Some (v3, s3)"
    using True pop_cut [OF wf'(1), of "stk_size ?s - 8", where 'a = 8] by (simp add: defs)
  obtain v4 where p4: "(stack_pop s3 :: (u16 \<times> fpy_stack) option) = Some (v4, s4)"
    using True pop_cut [OF wf'(1), of "stk_size ?s - 9", where 'a = 16] by (simp add: defs)
  have "wf_fpy (set_stack s4 st)"
    using wf wf' by (intro wf_set_stack)
  then show ?thesis
    using True p1 p2 p3 p4 by (auto simp: trips_def wait_abs_def Let_def linorder_not_less intro!: responds_ok)
qed (use wf in \<open>auto simp: trips_def wait_abs_def intro: responds_fail\<close>)

lemma jump_responds:
  assumes wf: "wf_fpy st"
  shows "responds st (goto_stmt i st)" "responds st (if_stmt i st)"
proof -
  show "responds st (goto_stmt i st)"
    using wf by (auto simp: goto_stmt_def intro!: responds_rules)
  show "responds st (if_stmt i st)"
    unfolding if_stmt_def Let_def prod.case
    by (intro responds_if responds_pop)
      (use wf wf_fpyD(1) [OF wf] in \<open>auto intro!: responds_rules split: prod.split\<close>)
qed

lemma time_bytes_eq [simp]: "time_bytes t = Some (time_enc Big t)"
proof -
  have "wf_buf (ext_buf_new (replicate TIME_SERIALIZED_SIZE 0))"
      "room (ext_buf_new (replicate TIME_SERIALIZED_SIZE 0)) = TIME_SERIALIZED_SIZE"
      "content (ext_buf_new (replicate TIME_SERIALIZED_SIZE 0)) = []"
    by (simp_all add: ext_buf_new_def buf_defs)
  then show ?thesis
    by (simp add: time_bytes_def time_serialize_eq slices_eq)
qed

lemma push_port_responds:
  assumes wf: "wf_fpy st"
  shows "responds st (push_tlm_val env c st)" "responds st (push_tlm_val_and_time env c st)"
    "responds st (push_prm env c st)" "responds st (push_time env st)"
proof -
  note wfs = wf_fpyD [OF wf]
  show "responds st (push_tlm_val env c st)"
    using wf wfs by (auto simp: push_tlm_val_def push_bytes_eq split: sum.split intro!: responds_rules)
  show "responds st (push_tlm_val_and_time env c st)"
    using wf wfs by (auto simp: push_tlm_val_and_time_def push_bytes_eq split: sum.split intro!: responds_rules)
  show "responds st (push_prm env c st)"
    using wf wfs by (auto simp: push_prm_def push_bytes_eq Let_def split: option.split prod.split intro!: responds_rules)
  show "responds st (push_time env st)"
    using wf wfs by (auto simp: push_time_def push_bytes_eq intro!: responds_rules)
qed

lemma send_cmd_total: "\<exists>sent calls. send_cmd st opc args = Some (sent, calls)"
  by (auto simp: send_cmd_def serialize_prim_eq serialize_bytes_eq slices_eq Let_def FW_COM_BUFFER_MAX_SIZE_def)

lemma const_cmd_responds: "wf_fpy st \<Longrightarrow> responds st (const_cmd opc args n st)"
proof -
  assume wf: "wf_fpy st"
  obtain sent calls where "send_cmd st opc (take (min n (length args)) args) = Some (sent, calls)"
    using send_cmd_total by blast
  then show ?thesis
    using wf wf_fpyD [OF wf] by (auto simp: const_cmd_def intro!: responds_rules)
qed

lemma exit_seq_responds: "wf_fpy st \<Longrightarrow> responds st (exit_seq st)"
  using wf_fpyD [of st] unfolding exit_seq_def Let_def prod.case
  by (intro responds_if responds_pop) (auto intro!: responds_rules split: prod.split)

lemma stack_cmd_responds:
  assumes wf: "wf_fpy st"
  shows "responds st (stack_cmd n st)"
proof (cases "4 \<le> stk_size (stack_of st) \<and> n \<le> stk_size (stack_of st) - 4")
  case True
  let ?s = "stack_of st"
  define s1 where "s1 = ?s\<lparr>stk_size := stk_size ?s - 4\<rparr>"
  define s2 where "s2 = s1\<lparr>stk_size := stk_size ?s - 4 - n\<rparr>"
  have wfs: "wf_stack ?s" "wf_stack s1" "wf_stack s2" "stk_size s2 < MAX_STACK_SIZE" "stk_size s1 = stk_size ?s - 4"
    using wf_fpyD [OF wf] True by (simp_all add: s1_def s2_def MAX_STACK_SIZE_def)
  obtain opc where pop: "(stack_pop ?s :: (u32 \<times> fpy_stack) option) = Some (opc, s1)"
    using True by (simp add: stack_pop_eq [OF wfs(1)] s1_def)
  let ?st = "set_stack s2 (st\<lparr>fpy_runtime := (fpy_runtime st)\<lparr>current_cmd_opcode := opc\<rparr>\<rparr>)"
  have st: "wf_fpy ?st"
    using wf wfs by (intro wf_set_stack) simp_all
  have "stk_size s1 - n + n \<le> length (stk_bytes s2)"
    using True wf_stackD [OF wfs(1)] wfs(5) by (simp add: s1_def s2_def) arith
  then obtain args where args: "slice (stk_bytes s2) (stk_size s1 - n) (stk_size s1 - n + n) = Some args"
    by (simp del: add_diff_assoc2 le_add_diff_inverse2)
  obtain sent calls where "send_cmd ?st opc args = Some (sent, calls)"
    using send_cmd_total by blast
  moreover have "usub (stk_size s1) n = Some (stk_size s1 - n)" "s2 = s1\<lparr>stk_size := stk_size s1 - n\<rparr>"
    using True wfs(5) by (simp_all add: s2_def)
  ultimately show ?thesis
    using True pop args st wfs by (auto simp: stack_cmd_def Let_def intro!: responds_rules)
qed (use wf in \<open>auto simp: stack_cmd_def intro: responds_fail\<close>)

lemma set_seed_responds:
  assumes wf: "wf_fpy st"
  shows "responds st (set_seed st)"
proof (cases "4 \<le> stk_size (stack_of st)")
  case True
  let ?s = "stack_of st"
  obtain v where v: "(stack_pop ?s :: (u32 \<times> fpy_stack) option) = Some (v, ?s\<lparr>stk_size := stk_size ?s - 4\<rparr>)"
    using True by (simp add: stack_pop_eq [OF wf_fpyD(1) [OF wf]])
  obtain r where "rng_seed v (rt_rng (fpy_runtime st)) = Some r" "wf_rng r"
    using rng_seed_total wf_fpyD(3) [OF wf] by blast
  then show ?thesis
    using True v wf
    by (auto simp: set_seed_def Let_def responds_def same_sequence_def wf_fpy_def stack_of_def set_stack_def)
qed (use wf in \<open>auto simp: set_seed_def intro: responds_fail\<close>)

lemma push_rand_responds:
  assumes wf: "wf_fpy st"
  shows "responds st (push_rand env st)"
proof (cases "4 \<le> MAX_STACK_SIZE - stk_size (stack_of st)")
  case True
  let ?seed = "\<lambda>now. [ucast (TimeBase_repr (time_base now)), ucast (time_context now), seconds now, useconds now]"
  let ?r = "rt_rng (fpy_runtime st)"
  obtain r where r: "(if \<not> rng_seeded (fpy_runtime st) then seed_seq (?seed (env_now env)) ?r else Some ?r) = Some r" "wf_rng r"
    using seed_seq_total [of ?r] wf_fpyD(3) [OF wf] by (cases "rng_seeded (fpy_runtime st)") auto
  obtain v r' where "next_u32 r = Some (v, r')" "wf_rng r'"
    using next_u32_total r(2) by blast
  then show ?thesis
    using True r(1) wf wf_fpyD [OF wf]
    by (auto simp: push_rand_def Let_def stack_push_eq responds_def same_sequence_def wf_fpy_def stack_of_def set_stack_def)
qed (use wf wf_fpyD(1) [OF wf] in \<open>auto simp: push_rand_def intro: responds_fail\<close>)

lemma call_stmt_responds:
  assumes wf: "wf_fpy st"
  shows "responds st (call_stmt st)"
proof (cases "4 \<le> stk_size (stack_of st)")
  case True
  let ?s = "stack_of st"
  define s1 where "s1 = ?s\<lparr>stk_size := stk_size ?s - 4\<rparr>"
  obtain v where v: "(stack_pop ?s :: (u32 \<times> fpy_stack) option) = Some (v, s1)"
    using True by (simp add: stack_pop_eq [OF wf_fpyD(1) [OF wf]] s1_def)
  have wf1: "wf_stack s1"
    using wf_fpyD(1) [OF wf] by (simp add: s1_def)
  show ?thesis
  proof (cases "stk_size s1 + 8 \<le> MAX_STACK_SIZE \<and> v \<le> ucast (statement_count st)")
    case ok: True
    have "responds st (do { s \<leftarrow> stack_push (next_statement_index (fpy_runtime st)) s1;
        s \<leftarrow> stack_push (of_nat (stk_frame s) :: u32) s;
        succeed (set_stack (s\<lparr>stk_frame := stk_size s\<rparr>) (set_next v (set_stack s1 st))) })"
      by (intro responds_push_word responds_rules)
        (use ok wf wf1 in \<open>auto intro!: responds_rules\<close>)
    then show ?thesis
      using True v ok by (auto simp: call_stmt_def Let_def)
  qed (use True v wf wf1 in \<open>auto simp: call_stmt_def Let_def linorder_not_less intro!: responds_rules\<close>)
qed (use wf in \<open>auto simp: call_stmt_def intro: responds_fail\<close>)

lemma copy_down_wf:
  assumes "wf_stack s" and "src + n \<le> MAX_STACK_SIZE" and "stk_size s + n \<le> MAX_STACK_SIZE"
  shows "\<exists>bs. copy_within (stk_bytes s) src (src + n) (stk_size s) = Some bs \<and>
    wf_stack (s\<lparr>stk_bytes := bs, stk_size := stk_size s + n\<rparr>)"
  using assms by (simp add: copy_within_def wf_stack_def)

lemma return_stmt_responds:
  assumes wf: "wf_fpy st"
  shows "responds st (return_stmt r a st)"
proof (cases "r \<le> stk_size (stack_of st) \<and> stk_frame (stack_of st) \<le> stk_size (stack_of st) \<and> 8 \<le> stk_frame (stack_of st)")
  case True
  let ?s = "stack_of st"
  let ?F = "stk_frame ?s"
  define s1 where "s1 = ?s\<lparr>stk_size := ?F - 8\<rparr>"
  have le: "?F - 8 \<le> stk_size ?s" "4 \<le> ?F - 4" "?F - 4 \<le> stk_size ?s"
    using True by auto
  from le(1) have wfs: "wf_stack ?s" "wf_stack s1" "stk_size ?s \<le> MAX_STACK_SIZE"
    using wf_fpyD [OF wf] by (simp_all add: s1_def)
  obtain fp where fp: "(stack_pop (?s\<lparr>stk_size := ?F\<rparr>) :: (u32 \<times> fpy_stack) option) = Some (fp, ?s\<lparr>stk_size := ?F - 4\<rparr>)"
    using True pop_cut [OF wfs(1), of ?F, where 'a = 32] by simp
  obtain ra where ra: "(stack_pop (?s\<lparr>stk_size := ?F - 4\<rparr>) :: (u32 \<times> fpy_stack) option) = Some (ra, s1)"
    using le pop_cut [OF wfs(1), of "?F - 4", where 'a = 32] by (simp add: s1_def)
  show ?thesis
  proof (cases "unat fp \<le> stk_size s1 \<and> ra \<le> ucast (statement_count st) \<and> a \<le> stk_size s1")
    case ok: True
    define s2 where "s2 = s1\<lparr>stk_frame := unat fp, stk_size := stk_size s1 - a\<rparr>"
    have wf2: "wf_stack s2"
      using wfs(2) ok wf_stackD(2) [OF wfs(2)] by (simp add: s2_def)
    have src: "stk_size ?s - r + r \<le> MAX_STACK_SIZE"
      using True wfs(3) by simp
    show ?thesis
    proof (cases "stk_size s2 + r \<le> MAX_STACK_SIZE")
      case room: True
      obtain bs where bs: "copy_within (stk_bytes s2) (stk_size ?s - r) (stk_size ?s - r + r) (stk_size s2) = Some bs"
          "wf_stack (s2\<lparr>stk_bytes := bs, stk_size := stk_size s2 + r\<rparr>)"
        using copy_down_wf [OF wf2 src room] by blast
      have "\<not> r > MAX_STACK_SIZE - stk_size s2" "wf_fpy (set_next ra st)"
        using room ok wf by auto
      then show ?thesis
        using True fp ra ok wf wf2 bs room
        by (auto simp: return_stmt_def Let_def s2_def add32_small simp del: add_diff_assoc2 intro!: responds_rules)
    qed (use True fp ra ok wf wf2 in \<open>auto simp: return_stmt_def Let_def s2_def intro!: responds_rules\<close>)
  qed (use True fp ra wf wfs wf_stackD(2) [OF wfs(2)] in
      \<open>auto simp: return_stmt_def Let_def linorder_not_le intro!: responds_rules\<close>)
qed (use wf wf_fpyD(1) [OF wf] in \<open>auto simp: return_stmt_def Let_def linorder_not_le intro!: responds_rules\<close>)

lemma pop_event_responds:
  assumes wf: "wf_fpy st"
  shows "responds st (pop_event st)"
proof (cases "4 \<le> stk_size (stack_of st)")
  case True
  let ?s = "stack_of st"
  define m where "m = stk_size ?s - 4"
  have wfs: "wf_stack ?s" "wf_stack (?s\<lparr>stk_size := m\<rparr>)"
    using wf_fpyD [OF wf] by (simp_all add: m_def)
  obtain v where v: "(stack_pop ?s :: (u32 \<times> fpy_stack) option) = Some (v, ?s\<lparr>stk_size := m\<rparr>)"
    using True by (simp add: stack_pop_eq [OF wfs(1)] m_def)
  show ?thesis
  proof (cases "1 \<le> m \<and> unat v \<le> m - 1")
    case ok: True
    define c where "c = min (unat v) (FW_LOG_STRING_MAX_SIZE - 1)"
    define k where "k = m - (unat v - c)"
    have k: "c \<le> k - 1" "1 \<le> k" "k \<le> m" "m \<le> stk_size ?s"
      using ok by (auto simp: k_def c_def m_def)
    define s1 where "s1 = ?s\<lparr>stk_size := k\<rparr>"
    define s2 where "s2 = ?s\<lparr>stk_size := k - c\<rparr>"
    define s3 where "s3 = ?s\<lparr>stk_size := k - c - 1\<rparr>"
    have wf1: "wf_stack s1" "wf_stack s3"
      using wfs k by (simp_all add: s1_def s3_def)
    have cut: "(if unat v > c then do { fw_assert (m \<ge> unat v - c);
        Some (?s\<lparr>stk_size := m - (unat v - c)\<rparr>) } else Some (?s\<lparr>stk_size := m\<rparr>)) = Some s1"
      using ok by (auto simp: s1_def k_def c_def)
    obtain msg where msg: "pop_bytes c s1 = Some (msg, s2)"
      using pop_bytes_eq [OF wf1(1), of c] k by (simp add: s1_def s2_def)
    obtain sev where sev: "(stack_pop s2 :: (u8 \<times> fpy_stack) option) = Some (sev, s3)"
      using pop_cut [OF wfs(1), of "k - c", where 'a = 8] k by (simp add: s2_def s3_def)
    have upd: "stk_size (?s\<lparr>stk_size := a\<rparr>) = a" "?s\<lparr>stk_size := a, stk_size := b\<rparr> = ?s\<lparr>stk_size := b\<rparr>" for a b
      by simp_all
    have "\<not> stk_size ?s < 4" "\<not> (m < 1 \<or> m - 1 < unat v)"
      using True ok by auto
    then have "pop_event st = (case try_from LogSeverity_repr LogSeverity_values sev of
          Some severity \<Rightarrow> Some (stmtResponse_success, NoError,
            [Ev_LogMessage severity (sequence_file_path st) (takeWhile (\<lambda>b. b \<noteq> 0) msg)], set_stack s3 st)
        | None \<Rightarrow> fail_with InvalidArg (set_stack s3 st))"
      unfolding pop_event_def Let_def
      by (simp only: v cut msg sev if_False Option.bind.simps prod.case upd state_simps c_def [symmetric])
    then show ?thesis
      using wf wf1 by (auto split: option.split intro!: responds_rules)
  qed (use True v wf wfs in \<open>auto simp: pop_event_def Let_def linorder_not_le intro!: responds_rules\<close>)
qed (use wf in \<open>auto simp: pop_event_def intro: responds_fail\<close>)

lemma pop_serializable_safe:
  assumes wf: "wf_fpy st" and ok: "serial_ok env"
  shows "if serial_refuses env i n (stack_of st) then pop_serializable env i n st = None
    else responds st (pop_serializable env i n st)"
proof (cases "n \<le> stk_size (stack_of st)")
  case True
  let ?s = "stack_of st"
  let ?k = "stk_size ?s - n"
  define buf where "buf = drop ?k (stk ?s)"
  have buf: "slice (stk_bytes ?s) ?k (stk_size ?s) = Some buf" "length buf = n"
    using True wf_stackD [OF wf_fpyD(1) [OF wf]] by (simp_all add: buf_def stk_def slice_def drop_take)
  have blit: "blit (stk_bytes ?s) ?k bs = Some (take ?k (stk_bytes ?s) @ bs @ drop (stk_size ?s) (stk_bytes ?s)) \<and>
      wf_stack (?s\<lparr>stk_bytes := take ?k (stk_bytes ?s) @ bs @ drop (stk_size ?s) (stk_bytes ?s), stk_size := ?k\<rparr>)"
    if "length bs = n" for bs
    using that True wf_stackD [OF wf_fpyD(1) [OF wf]] by (simp add: blit_def wf_stack_def)
  have kept: "length (snd (p buf)) = n" if "env_serial env j = Some p" for j p
    using ok buf(2) that unfolding serial_ok_def by blast
  show ?thesis
    using True buf(1) wf blit kept unfolding serial_refuses_def buf_def [symmetric]
    by (auto simp: pop_serializable_def Let_def case_prod_beta MAX_SERIAL_PORTS_def split: option.split intro!: responds_rules)
qed (use wf in \<open>auto simp: pop_serializable_def serial_refuses_def Let_def split: option.split intro!: responds_fail\<close>)

section \<open>Safety of every directive\<close>

lemma directive_safe_aux:
  assumes wf: "wf_fpy st" and d: "wf_directive d" and env: "serial_ok env"
  shows "if trips env d st then directive_handler env d st = None else responds st (directive_handler env d st)"
proof -
  note stack = on_stack_total [OF wf] on_stack_responds [OF wf]
  note totals = allocate_total rel_total load_helper_total store_helper_total discard_total get_field_total
    peek_total store_top_total
  show ?thesis
  proof (cases d)
    case Dir_WaitRel
    then show ?thesis using wait_rel_safe [OF wf, of env] by simp
  next
    case Dir_WaitAbs
    then show ?thesis using wait_abs_safe [OF wf, of env] by simp
  next
    case (Dir_StackOp op)
    then show ?thesis
      using d stack_op_safe [of op "stack_of st" "env_fp env"] wf_fpyD(1) [OF wf] stack(2) [of "stack_op (env_fp env) op"]
      by (auto simp: wf_directive_def trips_def on_stack_def split: if_splits)
  next
    case (Dir_MemCmp n)
    then show ?thesis
      using mem_cmp_safe [OF wf_fpyD(1) [OF wf], of n] stack(2) [of "mem_cmp n"]
      by (auto simp: trips_def on_stack_def split: if_splits)
  next
    case (Dir_PopSerializable i n)
    then show ?thesis
      using pop_serializable_safe [OF wf env, of i n] by (simp add: trips_def)
  next
    case (Dir_PushVal v n)
    then show ?thesis
      using d stack(1) [OF push_val_total] by (simp add: wf_directive_def trips_def)
  qed (simp_all add: trips_def stack(1) totals jump_responds push_port_responds const_cmd_responds exit_seq_responds
      stack_cmd_responds set_seed_responds push_rand_responds call_stmt_responds return_stmt_responds
      pop_event_responds responds_ok wf)
qed

lemma wf_error_code [simp]: "wf_fpy (handle_directive_error_code st i e) = wf_fpy st"
  by (simp add: handle_directive_error_code_def Let_def wf_fpy_def stack_of_def)

lemma error_code_simps [simp]:
  "same_sequence st (handle_directive_error_code st' i e) = same_sequence st st'"
  "stack_of (handle_directive_error_code st i e) = stack_of st"
  "fpy_runtime (handle_directive_error_code st i e) = fpy_runtime st"
  "last_directive_error (fpy_tlm (handle_directive_error_code st i e)) = e"
  by (simp_all add: handle_directive_error_code_def Let_def same_sequence_def stack_of_def)

text \<open>
  C38: Type safety of the Fpy machine.  Whatever the sequence put on the stack, a directive that the
  deserializer can produce is carried out without a failed assertion, an index out of range or an overflow,
  except in the cases of \<open>trips\<close>, where it does panic: a relative wait whose microsecond sum reaches 1,999,999, an
  absolute wait of a million microseconds or more, a widening conversion without room for its result,
  \<open>0 - i64::MIN\<close>, an empty \<open>MEMCMP\<close> on a full stack, and a \<open>POP_SERIALIZABLE\<close> whose receiver returns an error
  status.  Otherwise the runtime stays well-formed (the stack
  within its array, the next statement index at most the statement count), the loaded sequence is untouched,
  the response is one of the four statement responses, an error code always comes with a failure response,
  and a command is only awaited with room left for its response code.
\<close>

theorem directive_safe:
  assumes "wf_fpy st" and "wf_directive d" and "serial_ok env"
  shows "if trips env d st then directive_message env d st = None
    else \<exists>sig calls st'. directive_message env d st = Some (sig, calls, st') \<and> wf_fpy st' \<and> same_sequence st st' \<and>
      sig \<in> {stmtResponse_success, stmtResponse_failure, stmtResponse_beginSleep, stmtResponse_keepWaiting} \<and>
      (last_directive_error (fpy_tlm st') \<noteq> NoError \<longrightarrow> sig = stmtResponse_failure) \<and>
      (sig = stmtResponse_keepWaiting \<longrightarrow> stk_size (stack_of st') < MAX_STACK_SIZE)"
  using directive_safe_aux [OF assms]
  by (auto simp: directive_message_def responds_def split: if_splits)

definition example_env :: fpy_env where
  "example_env = \<lparr>env_now = ZERO_TIME, env_tlm = None, env_prm = None,
     env_serial = (\<lambda>i. if i = 0 then Some (\<lambda>bs. (Ok, rev bs)) else None),
     env_fp = \<lparr>f_eq = (=), f_lt = (<), f_le = (\<le>), f_from_f32 = ucast, f_to_f32 = ucast, f_to_i64 = id, f_to_u64 = id,
       f_from_i64 = id, f_from_u64 = id, f_add = (+), f_sub = (-), f_mul = (*), f_div = (div), f_pow = (\<lambda>a b. a),
       f_rem = (mod), f_ln = id, f_floor = id\<rparr>\<rparr>"

definition example_state :: "u8 list \<Rightarrow> fpy_state" where
  "example_state bs = \<lparr>sequence_buffer = linear_buffer_new 0, sequence_file_path = [],
     seq_header = \<lparr>major_version = 0, minor_version = 0, patch_version = 0, schema_version = 7, argument_count = 0,
       hdr_statement_count = 1, body_size = 0\<rparr>,
     seq_arg_specs = [],
     fpy_statements = [\<lparr>stmt_op_code = DirectiveId_NoOp, stmt_arg_buf = linear_buffer_new 0\<rparr>],
     seq_footer_crc = 0, computed_crc = hash_new, total_expected_arg_size = 0,
     args_size = 0, args_buffer = [], sequences_started = 1, statements_dispatched = 1,
     fpy_runtime = \<lparr>next_statement_index = 1, current_statement_opcode = 0, current_cmd_opcode = 0,
       current_statement_dispatch_time = ZERO_TIME,
       rt_wakeup = \<lparr>wk_base = 0, wk_context = 0, wk_seconds = 0, wk_useconds = 0\<rparr>,
       rt_rng = \<lparr>rng_state = replicate RNG_N 0, rng_index = RNG_N\<rparr>, rng_seeded = False,
       rt_stack = pushed bs stack_new\<rparr>,
     fpy_tlm = \<lparr>last_directive_error = NoError, directive_error_index = 0, directive_error_id = 0\<rparr>\<rparr>"

lemma example_state_wf:
  "length bs \<le> MAX_STACK_SIZE \<Longrightarrow> wf_fpy (example_state bs)"
  "length bs \<le> MAX_STACK_SIZE \<Longrightarrow> stk (stack_of (example_state bs)) = bs"
  "stk_size (stack_of (example_state bs)) = length bs"
  "stk_frame (stack_of (example_state bs)) = 0"
  "serial_ok example_env"
  using wf_stack_new
  by (simp_all add: wf_fpy_def example_state_def stack_of_def wf_rng_def serial_ok_def example_env_def)
    (simp_all add: stack_new_def stk_def pushed_def wf_stack_def)

theorem directive_safe_witness:
  "(\<exists>sig calls st'. directive_message example_env (Dir_PopSerializable 0 2) (example_state [1, 2, 3]) =
      Some (sig, calls, st') \<and> wf_fpy st') \<and>
   directive_message (example_env\<lparr>env_serial := \<lambda>i. Some (\<lambda>bs. (DeserFormatError, bs))\<rparr>) (Dir_PopSerializable 0 2)
     (example_state [1, 2, 3]) = None \<and>
   directive_message example_env (Dir_MemCmp 0) (example_state (replicate MAX_STACK_SIZE 0)) = None"
proof -
  let ?env = "example_env\<lparr>env_serial := \<lambda>i. Some (\<lambda>bs. (DeserFormatError, bs))\<rparr>"
  have "\<not> trips example_env (Dir_PopSerializable 0 2) (example_state [1, 2, 3])"
      "trips ?env (Dir_PopSerializable 0 2) (example_state [1, 2, 3])" "serial_ok ?env"
      "trips example_env (Dir_MemCmp 0) (example_state (replicate MAX_STACK_SIZE 0))"
    by (simp_all add: trips_def serial_refuses_def serial_ok_def example_state_wf) (simp add: example_env_def)
  then show ?thesis
    using directive_safe [of "example_state [1, 2, 3]" "Dir_PopSerializable 0 2" example_env]
      directive_safe [of "example_state [1, 2, 3]" "Dir_PopSerializable 0 2" ?env]
      directive_safe [of "example_state (replicate MAX_STACK_SIZE 0)" "Dir_MemCmp 0" example_env]
    by (auto simp: example_state_wf wf_directive_def MAX_STACK_SIZE_def)
qed

section \<open>Calls\<close>

lemma stack_pop_append:
  fixes v :: "'a::len word"
  assumes "wf_stack s" and "stk s = base @ to_be_bytes v" and "8 dvd LENGTH('a)"
  shows "stack_pop s = Some (v, s\<lparr>stk_size := length base\<rparr>)"
proof -
  have "stk_size s = length base + nbytes TYPE('a)"
    using length_stk [OF assms(1)] assms(2) by simp
  then show ?thesis
    using assms by (simp add: stack_pop_eq [OF assms(1)])
qed

lemma call_stmt_eq:
  fixes target :: u32
  assumes wf: "wf_fpy st" and stk: "stk (stack_of st) = base @ to_be_bytes target"
    and room: "length base + 8 \<le> MAX_STACK_SIZE" and target: "target \<le> ucast (statement_count st)"
  shows "\<exists>st'. call_stmt st = Some (stmtResponse_success, NoError, [], st') \<and> wf_fpy st' \<and> same_sequence st st' \<and>
    next_statement_index (fpy_runtime st') = target \<and> stk_frame (stack_of st') = length base + 8 \<and>
    stk (stack_of st') = base @ to_be_bytes (next_statement_index (fpy_runtime st)) @
      to_be_bytes (of_nat (stk_frame (stack_of st)) :: u32)"
proof -
  let ?s = "stack_of st"
  let ?n = "next_statement_index (fpy_runtime st)"
  define s1 where "s1 = ?s\<lparr>stk_size := length base\<rparr>"
  have size: "stk_size ?s = length base + 4"
    using length_stk [OF wf_fpyD(1) [OF wf]] stk by simp
  have s1: "wf_stack s1" "stk s1 = base" "stk_size s1 = length base" "stk_frame s1 = stk_frame ?s"
    using wf_fpyD(1) [OF wf] size stk by (simp_all add: s1_def)
  define s2 where "s2 = pushed (to_be_bytes (of_nat (stk_frame ?s) :: u32)) (pushed (to_be_bytes ?n) s1)"
  have pushes: "do { s \<leftarrow> stack_push ?n s1; s \<leftarrow> stack_push (of_nat (stk_frame s) :: u32) s; k s } = k s2" for k :: "fpy_stack \<Rightarrow> response option"
    using s1 room by (simp add: stack_push_eq s2_def)
  have s2: "wf_stack s2" "stk s2 = base @ to_be_bytes ?n @ to_be_bytes (of_nat (stk_frame ?s) :: u32)"
      "stk_size s2 = length base + 8"
    using s1 room by (simp_all add: s2_def)
  have "call_stmt st = Some (stmtResponse_success, NoError, [],
      set_stack (s2\<lparr>stk_frame := stk_size s2\<rparr>) (set_next target (set_stack s1 st)))"
    using size room target stack_pop_append [OF wf_fpyD(1) [OF wf] stk] pushes s1(3)
    by (auto simp: call_stmt_def Let_def s1_def [symmetric])
  then show ?thesis
    using s2 room wf target s1(1) by (auto intro!: wf_set_stack wf_set_next)
qed

lemma pushed_Nil: "pushed [] s = s"
  by (cases s) (simp add: pushed_def)

lemma return_stmt_eq:
  fixes frame return_addr :: u32
  assumes wf: "wf_fpy st"
    and stk: "stk (stack_of st) = base @ args @ to_be_bytes return_addr @ to_be_bytes frame @ rest @ result"
    and fp: "stk_frame (stack_of st) = length base + length args + 8" and frame: "unat frame \<le> length base + length args"
    and ret: "return_addr \<le> ucast (statement_count st)"
  shows "\<exists>st'. return_stmt (length result) (length args) st = Some (stmtResponse_success, NoError, [], st') \<and>
    wf_fpy st' \<and> same_sequence st st' \<and> next_statement_index (fpy_runtime st') = return_addr \<and>
    stk_frame (stack_of st') = unat frame \<and> stk (stack_of st') = base @ result"
proof -
  let ?s = "stack_of st"
  let ?F = "length base + length args + 8"
  let ?r = "length result"
  have wfs: "wf_stack ?s"
    using wf_fpyD(1) [OF wf] .
  have size: "stk_size ?s = ?F + length rest + ?r" "stk_size ?s \<le> MAX_STACK_SIZE"
    using length_stk [OF wfs] stk wf_stackD(2) [OF wfs] by simp_all
  have p1: "stack_pop (?s\<lparr>stk_size := ?F\<rparr>) = Some (frame, ?s\<lparr>stk_size := ?F - 4\<rparr>)"
    using stack_pop_append [of "?s\<lparr>stk_size := ?F\<rparr>" "base @ args @ to_be_bytes return_addr" frame] wfs size stk by simp
  have p2: "stack_pop (?s\<lparr>stk_size := ?F - 4\<rparr>) = Some (return_addr, ?s\<lparr>stk_size := ?F - 8\<rparr>)"
    using stack_pop_append [of "?s\<lparr>stk_size := ?F - 4\<rparr>" "base @ args" return_addr] wfs size stk by simp
  define s2 where "s2 = ?s\<lparr>stk_size := length base, stk_frame := unat frame\<rparr>"
  have s2: "wf_stack s2" "stk s2 = base" "stk_bytes s2 = stk_bytes ?s" "stk_size s2 = length base"
    using wfs size stk frame by (simp_all add: s2_def)
  have "take ?r (drop (stk_size ?s - ?r) (stk_bytes ?s)) = drop (stk_size ?s - ?r) (stk ?s)"
    using size(1) by (simp add: stk_def drop_take)
  also have "\<dots> = result"
    unfolding stk size(1) by simp
  finally have cp: "copy_within (stk_bytes s2) (stk_size ?s - ?r) (stk_size ?s - ?r + ?r) (length base) =
      Some (take (length base) (stk_bytes ?s) @ result @ drop (length base + ?r) (stk_bytes ?s))"
    using size wf_stackD(1) [OF wfs] s2(3) by (simp add: copy_within_def)
  define s3 where "s3 = pushed result s2"
  have s3: "wf_stack s3" "stk s3 = base @ result" "stk_frame s3 = unat frame"
    using s2 size by (simp_all add: s3_def s2_def [THEN arg_cong [of _ _ stk_frame], simplified])
  have guards: "\<not> stk_size ?s < ?r" "usub (stk_size ?s) ?r = Some (stk_size ?s - ?r)" "\<not> stk_frame ?s > stk_size ?s"
      "\<not> ?F < 4 + 4" "\<not> unat frame > ?F - 8" "\<not> return_addr > ucast (statement_count st)"
      "\<not> ?F - 8 < length args" "usub (?F - 8) (length args) = Some (length base)"
      "\<not> ?r > MAX_STACK_SIZE - length base" "add32 (length base) ?r = Some (length base + ?r)"
    using size fp frame ret by (auto simp: usub_def add32_small)
  have cp': "copy_within (stk_bytes s2) (stk_size ?s - ?r) (stk_size ?s) (length base) =
      Some (take (length base) (stk_bytes ?s) @ result @ drop (length base + ?r) (stk_bytes ?s))"
    using cp guards(1) by simp
  have s3_eq: "s2\<lparr>stk_bytes := take (length base) (stk_bytes ?s) @ result @ drop (length base + ?r) (stk_bytes ?s),
      stk_size := length base + ?r\<rparr> = s3" "result = [] \<Longrightarrow> s2 = s3"
    using s2(3,4) by (simp_all add: s3_def pushed_def pushed_Nil [symmetric])
  have upd: "(?s\<lparr>stk_size := ?F - 8\<rparr>)\<lparr>stk_frame := unat frame, stk_size := length base\<rparr> = s2"
    by (simp add: s2_def)
  have "return_stmt ?r (length args) st = succeed (set_stack s3 (set_next return_addr st))"
    using guards p1 p2 cp' s3_eq free_eq [OF s2(1)] s2(4) upd
    by (simp add: return_stmt_def Let_def fp del: free_eq)
  then show ?thesis
    using s3 wf ret by (auto intro!: wf_set_stack wf_set_next)
qed

text \<open>
  C39: A call round trip.  \<open>CALL\<close> with its target on top of the arguments jumps there, saving the return
  address and the frame pointer in a new frame.  From any later state that still has that frame, whatever
  lies above it, \<open>RETURN\<close> resumes at the saved statement with the caller's frame pointer, and replaces the
  arguments and the whole frame by the return value; nothing below the arguments has changed.
\<close>

theorem call_return:
  fixes target :: u32
  assumes "wf_fpy st" and "stk (stack_of st) = base @ args @ to_be_bytes target"
    and "length base + length args + 8 \<le> MAX_STACK_SIZE" and "target \<le> ucast (statement_count st)"
    and "stk_frame (stack_of st) \<le> length base + length args"
  shows "\<exists>st1. call_stmt st = Some (stmtResponse_success, NoError, [], st1) \<and> wf_fpy st1 \<and>
    next_statement_index (fpy_runtime st1) = target \<and> stk_frame (stack_of st1) = stk_size (stack_of st1) \<and>
    (\<forall>st2 rest result. wf_fpy st2 \<and> statement_count st2 = statement_count st \<and>
       stk_frame (stack_of st2) = stk_frame (stack_of st1) \<and> stk (stack_of st2) = stk (stack_of st1) @ rest @ result \<longrightarrow>
      (\<exists>st3. return_stmt (length result) (length args) st2 = Some (stmtResponse_success, NoError, [], st3) \<and>
         wf_fpy st3 \<and> stk (stack_of st3) = base @ result \<and> stk_frame (stack_of st3) = stk_frame (stack_of st) \<and>
         next_statement_index (fpy_runtime st3) = next_statement_index (fpy_runtime st)))"
proof -
  let ?n = "next_statement_index (fpy_runtime st)" and ?f = "of_nat (stk_frame (stack_of st)) :: u32"
  have "stk_frame (stack_of st) < 2 ^ 32"
    using assms(3,5) by (simp add: MAX_STACK_SIZE_def)
  then have f: "unat ?f = stk_frame (stack_of st)"
    by (simp add: unsigned_of_nat take_bit_nat_eq_self)
  have "stk (stack_of st) = (base @ args) @ to_be_bytes target" "length (base @ args) + 8 \<le> MAX_STACK_SIZE"
    using assms(2,3) by simp_all
  from call_stmt_eq [OF assms(1) this assms(4)] obtain st1 where st1:
      "call_stmt st = Some (stmtResponse_success, NoError, [], st1)" "wf_fpy st1"
      "next_statement_index (fpy_runtime st1) = target" "stk_frame (stack_of st1) = length base + length args + 8"
      "stk (stack_of st1) = base @ args @ to_be_bytes ?n @ to_be_bytes ?f"
    by auto
  have "stk_size (stack_of st1) = length base + length args + 8"
    using length_stk [OF wf_fpyD(1) [OF st1(2)]] st1(5) by simp
  moreover have "\<exists>st3. return_stmt (length result) (length args) st2 = Some (stmtResponse_success, NoError, [], st3) \<and>
      wf_fpy st3 \<and> stk (stack_of st3) = base @ result \<and> stk_frame (stack_of st3) = stk_frame (stack_of st) \<and>
      next_statement_index (fpy_runtime st3) = ?n"
    if "wf_fpy st2 \<and> statement_count st2 = statement_count st \<and>
       stk_frame (stack_of st2) = stk_frame (stack_of st1) \<and> stk (stack_of st2) = stk (stack_of st1) @ rest @ result"
    for st2 rest result
    using that return_stmt_eq [of st2 base args ?n ?f rest result] st1(4,5) f assms(5) wf_fpyD(4) [OF assms(1)] by auto
  ultimately show ?thesis
    using st1(1-4) by (intro exI [of _ st1]) auto
qed

theorem call_return_witness:
  "\<exists>st1. call_stmt (example_state ([7, 8, 9] @ to_be_bytes (1 :: u32))) = Some (stmtResponse_success, NoError, [], st1) \<and>
     (\<exists>st3. return_stmt 0 2 st1 = Some (stmtResponse_success, NoError, [], st3) \<and> stk (stack_of st3) = [7])"
proof -
  let ?st = "example_state ([7] @ [8, 9] @ to_be_bytes (1 :: u32))"
  have st: "wf_fpy ?st" "stk (stack_of ?st) = [7] @ [8, 9] @ to_be_bytes (1 :: u32)"
      "length [7 :: u8] + length [8 :: u8, 9] + 8 \<le> MAX_STACK_SIZE"
      "stk_frame (stack_of ?st) \<le> length [7 :: u8] + length [8 :: u8, 9]"
    by (simp_all add: example_state_wf MAX_STACK_SIZE_def)
  have count: "(1 :: u32) \<le> ucast (statement_count ?st)"
    by (simp add: example_state_def)
  obtain st1 where st1: "call_stmt ?st = Some (stmtResponse_success, NoError, [], st1)" "wf_fpy st1"
      "wf_fpy st1 \<and> statement_count st1 = statement_count ?st \<and> stk_frame (stack_of st1) = stk_frame (stack_of st1) \<and>
       stk (stack_of st1) = stk (stack_of st1) @ [] @ [] \<longrightarrow>
       (\<exists>st3. return_stmt (length ([] :: u8 list)) (length [8 :: u8, 9]) st1 = Some (stmtResponse_success, NoError, [], st3) \<and>
         wf_fpy st3 \<and> stk (stack_of st3) = [7] @ [] \<and> stk_frame (stack_of st3) = stk_frame (stack_of ?st) \<and>
         next_statement_index (fpy_runtime st3) = next_statement_index (fpy_runtime ?st))"
    using call_return [OF st(1,2,3) count st(4)] by blast
  have "responds ?st (call_stmt ?st)"
    by (rule call_stmt_responds [OF st(1)])
  then have "statement_count st1 = statement_count ?st"
    using st1(1) by (auto simp: responds_def same_sequence_def)
  then show ?thesis
    using st1 by (auto simp: numeral_2_eq_2)
qed

end
