(* ===== verification/Fpy_Run.thy ===== *)
theory Fpy_Run
  imports Fpy_Safe Fw_Struct
begin

text \<open>
  Running an Fpy sequence (\<open>fprime-svc/src/fpy_sequencer/run_state.rs\<close>): decoding a statement into its directive,
  dispatching the next statement, and the two timer checks.  A dispatched directive travels to its handler as a
  value; its serialization into the component queue and back is not modelled.
\<close>

section \<open>Decoding a statement\<close>

definition MAX_DIRECTIVE_SIZE :: nat where "MAX_DIRECTIVE_SIZE = 2048"

definition FW_STATEMENT_ARG_BUFFER_MAX_SIZE :: nat where
  "FW_STATEMENT_ARG_BUFFER_MAX_SIZE = FW_CMD_ARG_BUFFER_MAX_SIZE"

text \<open>The directives without arguments, and those whose arguments are their FPP struct (its members).\<close>

definition empty_directives :: "(DirectiveId \<times> DirectiveUnion) list" where
  "empty_directives =
    [(DirectiveId_WaitRel, Dir_WaitRel), (DirectiveId_WaitAbs, Dir_WaitAbs), (DirectiveId_NoOp, Dir_NoOp),
     (DirectiveId_Exit, Dir_Exit), (DirectiveId_PushTime, Dir_PushTime), (DirectiveId_SetSeed, Dir_SetSeed),
     (DirectiveId_PushRand, Dir_PushRand), (DirectiveId_Peek, Dir_Peek), (DirectiveId_Call, Dir_Call),
     (DirectiveId_PopEvent, Dir_PopEvent)]"

fun of_u32 :: "(u32 \<Rightarrow> DirectiveUnion) \<Rightarrow> prim list \<Rightarrow> DirectiveUnion option" where
  "of_u32 f [PU32 v] = Some (f v)"
| "of_u32 _ _ = None"

fun of_u32_u32 :: "(nat \<Rightarrow> nat \<Rightarrow> DirectiveUnion) \<Rightarrow> prim list \<Rightarrow> DirectiveUnion option" where
  "of_u32_u32 f [PU32 v, PU32 w] = Some (f (unat v) (unat w))"
| "of_u32_u32 _ _ = None"

fun of_i32_u32 :: "(i32 \<Rightarrow> nat \<Rightarrow> DirectiveUnion) \<Rightarrow> prim list \<Rightarrow> DirectiveUnion option" where
  "of_i32_u32 f [PI32 v, PU32 w] = Some (f v (unat w))"
| "of_i32_u32 _ _ = None"

fun of_i16_u32 :: "(i16 \<Rightarrow> nat \<Rightarrow> DirectiveUnion) \<Rightarrow> prim list \<Rightarrow> DirectiveUnion option" where
  "of_i16_u32 f [PI16 v, PU32 w] = Some (f v (unat w))"
| "of_i16_u32 _ _ = None"

definition fpp_directives :: "(DirectiveId \<times> prim list \<times> (prim list \<Rightarrow> DirectiveUnion option)) list" where
  "fpp_directives =
    [(DirectiveId_Goto, [PU32 0], of_u32 Dir_Goto),
     (DirectiveId_If, [PU32 0], of_u32 Dir_If),
     (DirectiveId_PushTlmVal, [PU32 0], of_u32 Dir_PushTlmVal),
     (DirectiveId_PushTlmValAndTime, [PU32 0], of_u32 Dir_PushTlmValAndTime),
     (DirectiveId_PushPrm, [PU32 0], of_u32 Dir_PushPrm),
     (DirectiveId_Allocate, [PU32 0], of_u32 (\<lambda>n. Dir_Allocate (unat n))),
     (DirectiveId_StoreRelConstOffset, [PI32 0, PU32 0], of_i32_u32 Dir_StoreRelConstOffset),
     (DirectiveId_LoadRel, [PI32 0, PU32 0], of_i32_u32 Dir_LoadRel),
     (DirectiveId_Discard, [PU32 0], of_u32 (\<lambda>n. Dir_Discard (unat n))),
     (DirectiveId_Memcmp, [PU32 0], of_u32 (\<lambda>n. Dir_MemCmp (unat n))),
     (DirectiveId_StackCmd, [PU32 0], of_u32 (\<lambda>n. Dir_StackCmd (unat n))),
     (DirectiveId_GetField, [PU32 0, PU32 0], of_u32_u32 Dir_GetField),
     (DirectiveId_StoreRel, [PU32 0], of_u32 (\<lambda>n. Dir_StoreRel (unat n))),
     (DirectiveId_Return, [PU32 0, PU32 0], of_u32_u32 Dir_Return),
     (DirectiveId_LoadAbs, [PU32 0, PU32 0], of_u32_u32 Dir_LoadAbs),
     (DirectiveId_StoreAbs, [PU32 0], of_u32 (\<lambda>n. Dir_StoreAbs (unat n))),
     (DirectiveId_StoreAbsConstOffset, [PU32 0, PU32 0], of_u32_u32 Dir_StoreAbsConstOffset),
     (DirectiveId_PopSerializable, [PI16 0, PU32 0], of_i16_u32 Dir_PopSerializable)]"

text \<open>The bytes after the opcode of a \<open>CONST_CMD\<close>, and the whole argument of a \<open>PUSH_VAL\<close>, fill a fixed array.\<close>

definition read_rest ::
  "ser_buf \<Rightarrow> (SerializeStatus \<Rightarrow> nat \<Rightarrow> fpy_call list) \<Rightarrow> (u8 list \<Rightarrow> nat \<Rightarrow> DirectiveUnion)
    \<Rightarrow> (DirectiveUnion option \<times> fpy_call list) option" where
  "read_rest b deser_error k =
     do { left \<leftarrow> deserialize_size_left b;
          if left > MAX_DIRECTIVE_SIZE then Some (None, deser_error DeserFormatError left)
          else do {
            (status, data, _, b) \<leftarrow> deserialize_bytes b (replicate left 0) left OmitLength Big;
            left' \<leftarrow> deserialize_size_left b;
            if status \<noteq> Ok then Some (None, deser_error status left')
            else do {
              fw_assert (left' = 0);
              Some (Some (k (data @ replicate (MAX_DIRECTIVE_SIZE - left) 0) left), []) } } }"

definition deserialize_directive ::
  "fpy_state \<Rightarrow> fpy_statement \<Rightarrow> (DirectiveUnion option \<times> fpy_call list) option" where
  "deserialize_directive st stmt =
     (let b = reset_deser (stmt_arg_buf stmt);
          op = stmt_op_code stmt;
          idx = current_statement_idx st;
          deser_error = (\<lambda>status left. [Ev_DirectiveDeserializeError op idx status left (ser_loc b)])
      in case map_of empty_directives op of
        Some d \<Rightarrow> do {
          left \<leftarrow> deserialize_size_left b;
          if left \<noteq> 0 then Some (None, deser_error DeserSizeMismatch left) else Some (Some d, []) }
      | None \<Rightarrow> (case map_of fpp_directives op of
          Some (members, build) \<Rightarrow> do {
            (status, vs, b) \<leftarrow> deser_list (\<lambda>t b. prim_deserialize_from t b Big) members b;
            left \<leftarrow> deserialize_size_left b;
            if status \<noteq> Ok \<or> left \<noteq> 0 then Some (None, deser_error status left)
            else do { d \<leftarrow> build vs; Some (Some d, []) } }
        | None \<Rightarrow>
            if op = DirectiveId_ConstCmd then do {
              (status, opc, b) \<leftarrow> deserialize_u32 b 0 Big;
              if status \<noteq> Ok
              then do { left \<leftarrow> deserialize_size_left b; Some (None, deser_error status left) }
              else read_rest b deser_error (Dir_ConstCmd opc) }
            else if is_stack_op op then do {
              left \<leftarrow> deserialize_size_left b;
              if left \<noteq> 0 then Some (None, deser_error DeserSizeMismatch left) else Some (Some (Dir_StackOp op), []) }
            else if op = DirectiveId_PushVal then read_rest b deser_error Dir_PushVal
            else Some (None, [Ev_UnknownSequencerDirective op idx (sequence_file_path st)])))"

section \<open>Dispatching the next statement\<close>

definition note_cmd_opcode :: "DirectiveUnion \<Rightarrow> fpy_state \<Rightarrow> fpy_state" where
  "note_cmd_opcode d st =
     (case d of
        Dir_ConstCmd opc _ _ \<Rightarrow> st\<lparr>fpy_runtime := (fpy_runtime st)\<lparr>current_cmd_opcode := opc\<rparr>\<rparr>
      | _ \<Rightarrow> st)"

text \<open>The result is the signal, the directive sent to its internal port (if any), the events and the state.\<close>

definition dispatch_statement ::
  "fpy_env \<Rightarrow> fpy_state \<Rightarrow> (Signal \<times> DirectiveUnion option \<times> fpy_call list \<times> fpy_state) option" where
  "dispatch_statement env st =
     (let n = next_statement_index (fpy_runtime st) in
      do { fw_assert (n \<le> ucast (statement_count st));
           if n = ucast (statement_count st) then Some (result_dispatchStatement_noMoreStatements, None, [], st)
           else do {
             n' \<leftarrow> cadd n 1;
             stmt \<leftarrow> index (fpy_statements st) (unat n);
             let st = st\<lparr>fpy_runtime := (fpy_runtime st)\<lparr>next_statement_index := n',
               current_statement_opcode := stmt_op_code stmt, current_cmd_opcode := 0\<rparr>\<rparr>;
             (d, calls) \<leftarrow> deserialize_directive st stmt;
             case d of
               None \<Rightarrow> Some (result_dispatchStatement_failure, None, calls, st)
             | Some d \<Rightarrow> do {
                 let st = note_cmd_opcode d st;
                 fw_assert (stmt_op_code stmt \<noteq> DirectiveId_Invalid);
                 k \<leftarrow> cadd (statements_dispatched st) 1;
                 Some (result_dispatchStatement_success, Some d, calls,
                   st\<lparr>fpy_runtime := (fpy_runtime st)\<lparr>current_statement_dispatch_time := env_now env\<rparr>,
                      statements_dispatched := k\<rparr>) } } })"

section \<open>The timer checks\<close>

definition check_should_wake :: "fpy_env \<Rightarrow> fpy_state \<Rightarrow> Signal \<times> fpy_call list" where
  "check_should_wake env st =
     (let current = env_now env; wakeup = rt_wakeup (fpy_runtime st) in
      if TimeBase_repr (time_base current) \<noteq> wk_base wakeup
      then (result_timeOpFailed, [Ev_MismatchedTimeBase (TimeBase_repr (time_base current)) (wk_base wakeup)])
      else if seconds current < wk_seconds wakeup \<or>
          seconds current = wk_seconds wakeup \<and> useconds current < wk_useconds wakeup
      then (result_checkShouldWake_keepSleeping, [])
      else (result_checkShouldWake_wakeup, []))"

text \<open>\<open>timeout_us\<close> is the parameter \<open>STATEMENT_TIMEOUT_SECS\<close> in microseconds, \<open>None\<close> when it is out of range.\<close>

definition check_statement_timeout :: "nat option \<Rightarrow> fpy_env \<Rightarrow> fpy_state \<Rightarrow> (Signal \<times> fpy_call list) option" where
  "check_statement_timeout timeout_us env st =
     (case timeout_us of
        None \<Rightarrow> Some (result_checkStatementTimeout_noTimeout, [])
      | Some limit \<Rightarrow>
          let current = env_now env; dispatch = current_statement_dispatch_time (fpy_runtime st) in
          if time_compare current dispatch = Incomparable
          then Some (result_timeOpFailed,
                 [Ev_MismatchedTimeBase (TimeBase_repr (time_base current)) (TimeBase_repr (time_base dispatch))])
          else if seconds dispatch > seconds current then Some (result_checkStatementTimeout_noTimeout, [])
          else if seconds dispatch = seconds current \<and> useconds dispatch > useconds current
          then Some (result_checkStatementTimeout_noTimeout, [])
          else do {
            elapsed \<leftarrow> usub (time_usecs current) (time_usecs dispatch);
            if elapsed < limit then Some (result_checkStatementTimeout_noTimeout, [])
            else do {
              let opcode = current_statement_opcode (fpy_runtime st);
              Some (result_checkStatementTimeout_statementTimeout,
                [if opcode = DirectiveId_ConstCmd \<or> opcode = DirectiveId_StackCmd
                 then Ev_CommandTimedOut (get_event_opcode (current_cmd_opcode (fpy_runtime st)))
                        (current_statement_idx st) (sequence_file_path st)
                 else Ev_DirectiveTimedOut opcode (current_statement_idx st) (sequence_file_path st)]) } })"

section \<open>Decoding never panics\<close>

definition builds :: "prim list \<Rightarrow> (prim list \<Rightarrow> DirectiveUnion option) \<Rightarrow> bool" where
  "builds ms f \<longleftrightarrow> list_all word_prim ms \<and> (\<forall>vs. list_all2 same_kind ms vs \<longrightarrow> (\<exists>d. f vs = Some d \<and> wf_directive d))"

lemma same_kind_cases:
  "same_kind (PU32 a) v \<Longrightarrow> \<exists>w. v = PU32 w" "same_kind (PI32 b) v \<Longrightarrow> \<exists>w. v = PI32 w"
  "same_kind (PI16 c) v \<Longrightarrow> \<exists>w. v = PI16 w"
  by (cases v; simp add: same_kind_def)+

lemma builds_u32: "(\<And>v. wf_directive (f v)) \<Longrightarrow> builds [PU32 a] (of_u32 f)"
  by (auto simp: builds_def list_all2_Cons1 dest!: same_kind_cases)

lemma builds_pairs:
  "(\<And>v w. wf_directive (f v w)) \<Longrightarrow> builds [PU32 a, PU32 b] (of_u32_u32 f)"
  "(\<And>v w. wf_directive (g v w)) \<Longrightarrow> builds [PI32 c, PU32 b] (of_i32_u32 g)"
  "(\<And>v w. wf_directive (h v w)) \<Longrightarrow> builds [PI16 d, PU32 b] (of_i16_u32 h)"
  by (auto simp: builds_def list_all2_Cons1 dest!: same_kind_cases)

lemma fpp_directives_build: "list_all (\<lambda>(op, ms, f). builds ms f \<and> op \<noteq> DirectiveId_Invalid) fpp_directives"
  unfolding fpp_directives_def list.pred_inject prod.case
  by (intro conjI) (simp_all add: builds_u32 builds_pairs wf_directive_def)

lemma empty_directives_wf: "list_all (\<lambda>(op, d). wf_directive d \<and> op \<noteq> DirectiveId_Invalid) empty_directives"
  unfolding empty_directives_def by (simp add: wf_directive_def)

lemma reset_deser_wf [simp]: "wf_buf b \<Longrightarrow> wf_buf (reset_deser b)" "unread (reset_deser b) = content b"
  by (simp_all add: reset_deser_def buf_defs)

lemma read_rest_total:
  assumes "wf_buf b" and "\<And>v n. n \<le> length v \<Longrightarrow> wf_directive (k v n)"
  shows "\<exists>d calls. read_rest b err k = Some (d, calls) \<and> (\<forall>x. d = Some x \<longrightarrow> wf_directive x)"
  using assms by (auto simp: read_rest_def size_left_eq deserialize_bytes_eq)

text \<open>Every statement decodes to a directive the handlers accept, or is reported.\<close>

lemma deserialize_directive_total:
  assumes wf: "wf_buf (stmt_arg_buf stmt)"
  shows "\<exists>d calls. deserialize_directive st stmt = Some (d, calls) \<and>
    (\<forall>x. d = Some x \<longrightarrow> wf_directive x \<and> stmt_op_code stmt \<noteq> DirectiveId_Invalid)"
proof -
  define b where "b = reset_deser (stmt_arg_buf stmt)"
  have b: "wf_buf b"
    using wf by (simp add: b_def)
  let ?op = "stmt_op_code stmt"
  show ?thesis
  proof (cases "map_of empty_directives ?op")
    case (Some d)
    then show ?thesis
      using b map_of_SomeD [OF Some] empty_directives_wf
      by (auto simp: deserialize_directive_def Let_def b_def [symmetric] size_left_eq list_all_iff)
  next
    case None
    note none = None
    show ?thesis
    proof (cases "map_of fpp_directives ?op")
      case (Some mf)
      obtain ms f where mf: "mf = (ms, f)"
        by fastforce
      have built: "builds ms f" "?op \<noteq> DirectiveId_Invalid"
        using map_of_SomeD [OF Some] fpp_directives_build mf by (auto simp: list_all_iff)
      have words: "list_all word_prim ms"
        using built(1) by (simp add: builds_def)
      have "\<exists>status vs b'. deser_list (\<lambda>t b. prim_deserialize_from t b Big) ms b = Some (status, vs, b') \<and> wf_buf b' \<and>
          (status = Ok \<longrightarrow> list_all2 same_kind ms vs)"
      proof (cases "sum_list (map prim_serialized_size ms) \<le> length (unread b)")
        case True
        then show ?thesis
          using deser_words [OF b words, where e = Big] b by fastforce
      next
        case False
        then show ?thesis
          using deser_words_short [OF b words, where e = Big] by fastforce
      qed
      then obtain status vs b' where dl: "deser_list (\<lambda>t b. prim_deserialize_from t b Big) ms b = Some (status, vs, b')"
          "wf_buf b'" "status = Ok \<longrightarrow> list_all2 same_kind ms vs"
        by blast
      show ?thesis
      proof (cases "status = Ok \<and> length (unread b') = 0")
        case True
        then obtain d where "f vs = Some d" "wf_directive d"
          using dl(3) built(1) unfolding builds_def by blast
        then show ?thesis
          using none Some mf dl True built(2)
          by (simp add: deserialize_directive_def Let_def b_def [symmetric] size_left_eq)
      next
        case False
        then show ?thesis
          using none Some mf dl by (auto simp: deserialize_directive_def Let_def b_def [symmetric] size_left_eq)
      qed
    next
      case none2: None
      have const: "\<exists>d calls. read_rest (adv b 4) err (Dir_ConstCmd c) = Some (d, calls) \<and>
          (\<forall>x. d = Some x \<longrightarrow> wf_directive x)" if "4 \<le> length (unread b)" for err c
        using b that by (intro read_rest_total) (simp_all add: wf_directive_def)
      have val: "\<exists>d calls. read_rest b err Dir_PushVal = Some (d, calls) \<and> (\<forall>x. d = Some x \<longrightarrow> wf_directive x)" for err
        using b by (intro read_rest_total) (simp_all add: wf_directive_def)
      have "wf_directive (Dir_StackOp ?op)" if "is_stack_op ?op"
        using that by (simp add: wf_directive_def)
      then show ?thesis
        using none none2 b const val
        by (auto simp: deserialize_directive_def Let_def b_def [symmetric] size_left_eq deserialize_prim_eq is_stack_op_def)
    qed
  qed
qed

section \<open>Dispatching is safe\<close>

definition statements_ok :: "fpy_state \<Rightarrow> bool" where
  "statements_ok st \<longleftrightarrow> (\<forall>stmt \<in> set (fpy_statements st). wf_buf (stmt_arg_buf stmt))"

definition dispatches :: "fpy_env \<Rightarrow> fpy_state \<Rightarrow> Signal \<Rightarrow> DirectiveUnion option \<Rightarrow> fpy_state \<Rightarrow> bool" where
  "dispatches env st sig d st' \<longleftrightarrow>
     wf_fpy st' \<and> sequence_buffer st' = sequence_buffer st \<and> seq_arg_specs st' = seq_arg_specs st \<and>
     args_size st' = args_size st \<and> args_buffer st' = args_buffer st \<and>
     current_statement_dispatch_time (fpy_runtime st') \<in> {current_statement_dispatch_time (fpy_runtime st), env_now env} \<and>
     seq_header st' = seq_header st \<and> fpy_statements st' = fpy_statements st \<and>
     stack_of st' = stack_of st \<and> sequences_started st' = sequences_started st \<and>
     (if next_statement_index (fpy_runtime st) = ucast (statement_count st)
      then sig = result_dispatchStatement_noMoreStatements \<and> d = None \<and> st' = st
      else unat (next_statement_index (fpy_runtime st')) = Suc (unat (next_statement_index (fpy_runtime st))) \<and>
        (if d = None then sig = result_dispatchStatement_failure
         else sig = result_dispatchStatement_success \<and> wf_directive (the d) \<and>
           statements_dispatched st' = statements_dispatched st + 1 \<and> 0 < statements_dispatched st'))"

lemma unat_count: "unat (ucast (c :: u16) :: u32) = unat c"
proof -
  have "unat c < 2 ^ 32"
    using unsigned_less [of c, where 'a = nat] by simp
  then show ?thesis
    by (simp add: unsigned_ucast_eq take_bit_nat_eq_self)
qed

lemma dispatch_statement_safe:
  assumes wf: "wf_fpy st" and ok: "statements_ok st" and cnt: "statements_dispatched st \<noteq> - 1"
  shows "\<exists>sig d calls st'. dispatch_statement env st = Some (sig, d, calls, st') \<and> dispatches env st sig d st'"
proof (cases "next_statement_index (fpy_runtime st) = ucast (statement_count st)")
  case True
  then show ?thesis
    using wf by (auto simp: dispatch_statement_def Let_def dispatches_def)
next
  case False
  let ?n = "next_statement_index (fpy_runtime st)"
  have n: "?n < ucast (statement_count st)"
    using False wf_fpyD(4) [OF wf] by simp
  then have un: "unat ?n < unat (statement_count st)"
    by (simp add: word_less_nat_alt unat_count)
  then have small: "unat ?n + 1 < 2 ^ 32"
    using unsigned_less [of "statement_count st", where 'a = nat] by simp
  have idx: "unat ?n < length (fpy_statements st)"
    using un wf_fpyD(5) [OF wf] by simp
  define stmt where "stmt = fpy_statements st ! unat ?n"
  have n1: "cadd ?n 1 = Some (?n + 1)"
    using small by (simp add: cadd_def)
  then have un1: "unat (?n + 1) = Suc (unat ?n)"
    by (simp add: cadd_eq_Some)
  then have le: "?n + 1 \<le> ucast (statement_count st)"
    using un by (simp add: word_le_nat_alt unat_count)
  have "unat (statements_dispatched st) \<noteq> 2 ^ 64 - 1"
    using cnt by (auto simp: word_unat_eq_iff unsigned_minus_1_eq_mask mask_eq_exp_minus_1)
  then have "unat (statements_dispatched st) + 1 < 2 ^ 64"
    using unsigned_less [of "statements_dispatched st", where 'a = nat] by simp
  then have k: "cadd (statements_dispatched st) 1 = Some (statements_dispatched st + 1)"
    by (simp add: cadd_def)
  then have "unat (statements_dispatched st + 1) = Suc (unat (statements_dispatched st))"
    by (simp add: cadd_eq_Some)
  then have pos: "0 < statements_dispatched st + 1"
    by (simp add: word_less_nat_alt)
  define st1 where "st1 = st\<lparr>fpy_runtime := (fpy_runtime st)\<lparr>next_statement_index := ?n + 1,
    current_statement_opcode := stmt_op_code stmt, current_cmd_opcode := 0\<rparr>\<rparr>"
  have "wf_buf (stmt_arg_buf stmt)"
    using ok idx by (simp add: statements_ok_def stmt_def)
  from deserialize_directive_total [OF this] obtain d calls where d: "deserialize_directive st1 stmt = Some (d, calls)"
      "\<forall>x. d = Some x \<longrightarrow> wf_directive x \<and> stmt_op_code stmt \<noteq> DirectiveId_Invalid"
    by blast
  have wf1: "wf_fpy st1" "wf_fpy (st1\<lparr>fpy_runtime := rt, statements_dispatched := c\<rparr>) \<longleftrightarrow> wf_fpy (st1\<lparr>fpy_runtime := rt\<rparr>)" for rt c
    using wf le by (simp_all add: wf_fpy_def st1_def stack_of_def)
  show ?thesis
  proof (cases d)
    case None
    then show ?thesis
      using False n n1 idx d wf1 un1
      by (auto simp: dispatch_statement_def Let_def stmt_def [symmetric] st1_def [symmetric] dispatches_def)
        (auto simp: st1_def stack_of_def)
  next
    case (Some x)
    define st2 where "st2 = note_cmd_opcode x st1"
    have st2: "wf_fpy st2" "seq_header st2 = seq_header st" "fpy_statements st2 = fpy_statements st"
        "stack_of st2 = stack_of st" "sequences_started st2 = sequences_started st"
        "next_statement_index (fpy_runtime st2) = ?n + 1" "statements_dispatched st2 = statements_dispatched st"
        "sequence_buffer st2 = sequence_buffer st" "seq_arg_specs st2 = seq_arg_specs st"
        "args_size st2 = args_size st" "args_buffer st2 = args_buffer st"
      using wf1 by (cases x; simp add: st2_def note_cmd_opcode_def; simp add: st1_def stack_of_def)+
    define st3 where "st3 = st2\<lparr>fpy_runtime := (fpy_runtime st2)\<lparr>current_statement_dispatch_time := env_now env\<rparr>,
      statements_dispatched := statements_dispatched st + 1\<rparr>"
    have "dispatch_statement env st = Some (result_dispatchStatement_success, Some x, calls, st3)"
      using False n n1 idx d Some k st2(7)
      by (auto simp: dispatch_statement_def Let_def stmt_def [symmetric] st1_def [symmetric] st2_def [symmetric] st3_def)
    moreover have "dispatches env st result_dispatchStatement_success (Some x) st3"
      using st2 False un1 d Some pos by (simp add: dispatches_def st3_def wf_fpy_def stack_of_def)
    ultimately show ?thesis
      by blast
  qed
qed

end
