(* ===== verification/Fpy_Validate.thy ===== *)
theory Fpy_Validate
  imports Fpy_Run
begin

text \<open>
  Loading and validating a sequence file (\<open>fprime-svc/src/fpy_sequencer/validation.rs\<close>): header, body and footer are
  read one after the other into the sequence buffer, folded into the CRC and deserialized.  The file is a
  parameter: the status of opening it, what a read at a position returns, and its size and position queries.
\<close>

section \<open>The file\<close>

text \<open>A file status is its ordinal, \<open>0\<close> is \<open>OpOk\<close>.\<close>

record seq_file =
  sf_open :: nat
  sf_read :: "nat \<Rightarrow> nat \<Rightarrow> nat \<times> u8 list"
  sf_size :: "nat \<times> nat"
  sf_position :: "nat \<Rightarrow> nat \<times> nat"

definition FileStatus_InvalidArgument :: nat where "FileStatus_InvalidArgument = 9"

definition SCHEMA_VERSION :: u8 where "SCHEMA_VERSION = 7"
definition MAX_ARG_SPEC_NAME_LEN :: nat where "MAX_ARG_SPEC_NAME_LEN = 255"
definition MAX_SEQUENCE_ARG_COUNT :: nat where "MAX_SEQUENCE_ARG_COUNT = 16"
definition MAX_SEQUENCE_STATEMENT_COUNT :: nat where "MAX_SEQUENCE_STATEMENT_COUNT = 2048"
definition SEQUENCE_ARGUMENTS_MAX_SIZE :: nat where "SEQUENCE_ARGUMENTS_MAX_SIZE = 12"

section \<open>The file's structs\<close>

definition header_members :: "fpy_header \<Rightarrow> prim list" where
  "header_members h = [PU8 (major_version h), PU8 (minor_version h), PU8 (patch_version h), PU8 (schema_version h),
     PU8 (argument_count h), PU16 (hdr_statement_count h), PU32 (body_size h)]"

fun u8_member :: "prim \<Rightarrow> u8" where
  "u8_member (PU8 v) = v"
| "u8_member _ = 0"

fun u16_member :: "prim \<Rightarrow> u16" where
  "u16_member (PU16 v) = v"
| "u16_member _ = 0"

fun u32_member :: "prim \<Rightarrow> u32" where
  "u32_member (PU32 v) = v"
| "u32_member _ = 0"

definition header_default :: fpy_header where
  "header_default = \<lparr>major_version = 0, minor_version = 0, patch_version = 0, schema_version = 0, argument_count = 0,
     hdr_statement_count = 0, body_size = 0\<rparr>"

definition header_build :: "prim list \<Rightarrow> fpy_header" where
  "header_build vs =
     (case vs of
        [a, b, c, d, e, f, g] \<Rightarrow>
          \<lparr>major_version = u8_member a, minor_version = u8_member b, patch_version = u8_member c,
           schema_version = u8_member d, argument_count = u8_member e, hdr_statement_count = u16_member f,
           body_size = u32_member g\<rparr>
      | _ \<Rightarrow> header_default)"

interpretation fpy_header: fpp_struct header_members header_build
  by unfold_locales (auto simp: header_members_def header_build_def kind_simps)

definition HEADER_SERIALIZED_SIZE :: nat where "HEADER_SERIALIZED_SIZE = 11"
definition FOOTER_SERIALIZED_SIZE :: nat where "FOOTER_SERIALIZED_SIZE = 4"

definition arg_spec_deserialize :: "arg_spec \<Rightarrow> ser_buf \<Rightarrow> (SerializeStatus \<times> arg_spec \<times> ser_buf) option" where
  "arg_spec_deserialize spec b =
     fw_try (string_deserialize_from (string_new MAX_ARG_SPEC_NAME_LEN) b Big) (\<lambda>(_, b). (spec, b)) (\<lambda>(n, b).
     fw_try (string_deserialize_from (string_new MAX_ARG_SPEC_NAME_LEN) b Big) (\<lambda>(_, b). (spec, b)) (\<lambda>(t, b).
     fw_try (deserialize_u32 b 0 Big) (\<lambda>(_, b). (spec, b)) (\<lambda>(sz, b).
       Some (Ok, \<lparr>arg_name = n, type_name = t, arg_size = sz\<rparr>, b))))"

definition statement_deserialize :: "fpy_statement \<Rightarrow> ser_buf \<Rightarrow> (SerializeStatus \<times> fpy_statement \<times> ser_buf) option" where
  "statement_deserialize stmt b =
     fw_try (deserialize_u8 b 0 Big) (\<lambda>(_, b). (stmt, b)) (\<lambda>(op, b).
       if op > DirectiveId_Fabs then Some (DeserFormatError, stmt, b)
       else fw_try (deserialize_buffer b (linear_buffer_new FW_STATEMENT_ARG_BUFFER_MAX_SIZE) Big) (\<lambda>(_, b). (stmt, b))
         (\<lambda>(args, b). Some (Ok, \<lparr>stmt_op_code = op, stmt_arg_buf = args\<rparr>, b)))"

section \<open>Reading the stages\<close>

definition deserialize_error :: "fpy_state \<Rightarrow> FileReadStage \<Rightarrow> SerializeStatus \<Rightarrow> fpy_call list option" where
  "deserialize_error st stage status =
     do { left \<leftarrow> deserialize_size_left (sequence_buffer st);
          Some [Ev_FileReadDeserializeError stage (sequence_file_path st) status left (ser_loc (sequence_buffer st))] }"

text \<open>The result is whether the stage was read, the events, the state and the file position.\<close>

definition read_bytes ::
  "seq_file \<Rightarrow> nat \<Rightarrow> FileReadStage \<Rightarrow> bool \<Rightarrow> fpy_state \<times> nat \<Rightarrow> (Success \<times> fpy_call list \<times> fpy_state \<times> nat) option" where
  "read_bytes f expected_len stage update_crc sp =
     (let (st, pos) = sp; cap = capacity (sequence_buffer st) in
      if expected_len > cap
      then Some (Success_Failure, [Ev_InsufficientBufferSpace cap (sequence_file_path st)], st, pos)
      else do {
        let (status, bs) = sf_read f pos expected_len;
        data \<leftarrow> blit (bytes (sequence_buffer st)) 0 bs;
        let st = st\<lparr>sequence_buffer := (sequence_buffer st)\<lparr>bytes := data\<rparr>\<rparr>;
        let pos = pos + length bs;
        if status \<noteq> 0 then Some (Success_Failure, [Ev_FileReadError stage (sequence_file_path st) status], st, pos)
        else if length bs < expected_len
        then Some (Success_Failure, [Ev_EndOfFileError stage (sequence_file_path st)], st, pos)
        else do {
          fw_assert (expected_len = length bs);
          let (status, b) = set_buff_len (sequence_buffer st) expected_len;
          fw_assert (status = Ok);
          let st = st\<lparr>sequence_buffer := b\<rparr>;
          stage_bytes \<leftarrow> slice (bytes b) 0 expected_len;
          Some (Success_Success, [],
            if update_crc then st\<lparr>computed_crc := hash_update (computed_crc st) stage_bytes\<rparr> else st, pos) } })"

definition read_header :: "fpy_state \<Rightarrow> (Success \<times> fpy_call list \<times> fpy_state) option" where
  "read_header st =
     do { (status, h, b) \<leftarrow> struct_deserialize_from header_members header_build header_default (seq_header st)
            (sequence_buffer st) Big;
          let st = st\<lparr>seq_header := h, sequence_buffer := b\<rparr>;
          if status \<noteq> Ok
          then do { ev \<leftarrow> deserialize_error st FileReadStage_Header status; Some (Success_Failure, ev, st) }
          else if schema_version h \<noteq> SCHEMA_VERSION
          then Some (Success_Failure, [Ev_WrongSchemaVersion SCHEMA_VERSION (schema_version h)], st)
          else if unat (argument_count h) > MAX_SEQUENCE_ARG_COUNT
          then Some (Success_Failure, [Ev_TooManySequenceArgs (argument_count h) (of_nat MAX_SEQUENCE_ARG_COUNT)], st)
          else if unat (hdr_statement_count h) > MAX_SEQUENCE_STATEMENT_COUNT
          then Some (Success_Failure, [Ev_TooManySequenceDirectives (hdr_statement_count h) (of_nat MAX_SEQUENCE_STATEMENT_COUNT)], st)
          else Some (Success_Success, [], st) }"

text \<open>The two loops of \<open>read_body\<close>; \<open>Ok\<close> when every element was read.\<close>

fun read_args :: "nat \<Rightarrow> nat \<Rightarrow> fpy_state \<Rightarrow> (SerializeStatus \<times> fpy_state) option" where
  "read_args i 0 st = Some (Ok, st)"
| "read_args i (Suc k) st =
     do { spec \<leftarrow> index (seq_arg_specs st) i;
          (status, spec, b) \<leftarrow> arg_spec_deserialize spec (sequence_buffer st);
          specs \<leftarrow> store (seq_arg_specs st) i spec;
          let st = st\<lparr>seq_arg_specs := specs, sequence_buffer := b\<rparr>;
          if status \<noteq> Ok then Some (status, st)
          else read_args (Suc i) k
            (st\<lparr>total_expected_arg_size := total_expected_arg_size st + arg_size spec\<rparr>) }"

fun read_statements :: "nat \<Rightarrow> nat \<Rightarrow> fpy_state \<Rightarrow> (SerializeStatus \<times> fpy_state) option" where
  "read_statements i 0 st = Some (Ok, st)"
| "read_statements i (Suc k) st =
     do { stmt \<leftarrow> index (fpy_statements st) i;
          (status, stmt, b) \<leftarrow> statement_deserialize stmt (sequence_buffer st);
          stmts \<leftarrow> store (fpy_statements st) i stmt;
          let st = st\<lparr>fpy_statements := stmts, sequence_buffer := b\<rparr>;
          if status \<noteq> Ok then Some (status, st) else read_statements (Suc i) k st }"

definition read_body :: "fpy_state \<Rightarrow> (Success \<times> fpy_call list \<times> fpy_state) option" where
  "read_body st =
     do { (status, st) \<leftarrow> read_args 0 (unat (argument_count (seq_header st))) (st\<lparr>total_expected_arg_size := 0\<rparr>);
          if status \<noteq> Ok
          then do { ev \<leftarrow> deserialize_error st FileReadStage_Body status; Some (Success_Failure, ev, st) }
          else if unat (total_expected_arg_size st) > MAX_STACK_SIZE
          then Some (Success_Failure, [Ev_ArgTotalSizeExceedsStackLimit (unat (total_expected_arg_size st))], st)
          else if unat (total_expected_arg_size st) \<noteq> args_size st
          then Some (Success_Failure,
                 [Ev_ArgSizeMismatch (total_expected_arg_size st) (args_size st) (sequence_file_path st)], st)
          else do {
            (status, st) \<leftarrow> read_statements 0 (unat (statement_count st)) st;
            if status \<noteq> Ok
            then do { ev \<leftarrow> deserialize_error st FileReadStage_Body status; Some (Success_Failure, ev, st) }
            else Some (Success_Success, [], st) } }"

definition read_footer :: "fpy_state \<Rightarrow> (Success \<times> fpy_call list \<times> fpy_state) option" where
  "read_footer st =
     do { (status, crc, b) \<leftarrow> deserialize_u32 (sequence_buffer st) (seq_footer_crc st) Big;
          let st = st\<lparr>seq_footer_crc := crc, sequence_buffer := b\<rparr>;
          if status \<noteq> Ok
          then do { ev \<leftarrow> deserialize_error st FileReadStage_Footer status; Some (Success_Failure, ev, st) }
          else do {
            let computed = finalize (computed_crc st);
            if computed \<noteq> crc then Some (Success_Failure, [Ev_WrongCRC crc computed], st)
            else Some (Success_Success, [], st) } }"

section \<open>Validation\<close>

text \<open>\<open>a\<close>, and on success \<open>k\<close>: the shape of the checks of \<open>validate\<close>.\<close>

definition vthen ::
  "(Success \<times> fpy_call list \<times> 's) option \<Rightarrow> ('s \<Rightarrow> fpy_state) \<Rightarrow> ('s \<Rightarrow> (Success \<times> fpy_call list \<times> fpy_state) option)
    \<Rightarrow> (Success \<times> fpy_call list \<times> fpy_state) option" where
  "vthen a proj k =
     do { (ok, ev, s) \<leftarrow> a;
          if ok \<noteq> Success_Success then Some (Success_Failure, ev, proj s)
          else do { (ok, ev', st) \<leftarrow> k s; Some (ok, ev @ ev', st) } }"

definition check_length_and_args :: "seq_file \<Rightarrow> nat \<Rightarrow> fpy_state \<Rightarrow> (Success \<times> fpy_call list \<times> fpy_state) option" where
  "check_length_and_args f pos st =
     (let (size_status, file_size) = sf_size f; (position_status, position) = sf_position f pos in
      if size_status \<noteq> 0 then Some (Success_Failure, [Ev_FileApiError (sequence_file_path st) size_status], st)
      else if position_status \<noteq> 0
      then Some (Success_Failure, [Ev_FileApiError (sequence_file_path st) position_status], st)
      else if file_size \<noteq> position
      then Some (Success_Failure, [Ev_ExtraBytesInSequence (nat ((int file_size - int position) mod 2 ^ 64))], st)
      else if args_size st > MAX_STACK_SIZE
      then Some (Success_Failure, [Ev_ArgTotalSizeExceedsStackLimit (args_size st mod 2 ^ 32)], st)
      else if args_size st > SEQUENCE_ARGUMENTS_MAX_SIZE
      then Some (Success_Failure, [Ev_ArgSizeExceedsCapacity (args_size st) SEQUENCE_ARGUMENTS_MAX_SIZE], st)
      else Some (Success_Success, [], st))"

definition validate :: "seq_file \<Rightarrow> fpy_state \<Rightarrow> (Success \<times> fpy_call list \<times> fpy_state) option" where
  "validate f st =
     (if sequence_file_path st = []
      then Some (Success_Failure, [Ev_FileOpenError (sequence_file_path st) FileStatus_InvalidArgument], st)
      else
        let st = st\<lparr>computed_crc := hash_init (computed_crc st)\<rparr> in
        if sf_open f \<noteq> 0 then Some (Success_Failure, [Ev_FileOpenError (sequence_file_path st) (sf_open f)], st)
        else vthen (read_bytes f HEADER_SERIALIZED_SIZE FileReadStage_Header True (st, 0)) fst (\<lambda>(st, pos).
          vthen (read_header st) id (\<lambda>st.
          vthen (read_bytes f (unat (body_size (seq_header st))) FileReadStage_Body True (st, pos)) fst (\<lambda>(st, pos).
          vthen (read_body st) id (\<lambda>st.
          vthen (read_bytes f FOOTER_SERIALIZED_SIZE FileReadStage_Footer False (st, pos)) fst (\<lambda>(st, pos).
          vthen (read_footer st) id (\<lambda>st.
            check_length_and_args f pos st)))))))"


section \<open>What validation promises\<close>

text \<open>A file that reads back \<open>data\<close>.\<close>

definition holds_data :: "seq_file \<Rightarrow> u8 list \<Rightarrow> bool" where
  "holds_data f data \<longleftrightarrow> (\<forall>pos n. sf_read f pos n = (0, take n (drop pos data))) \<and> sf_open f = 0 \<and>
     sf_size f = (0, length data) \<and> (\<forall>pos. sf_position f pos = (0, pos))"

definition wf_load :: "fpy_state \<Rightarrow> bool" where
  "wf_load st \<longleftrightarrow> wf_buf (sequence_buffer st) \<and> statements_ok st \<and>
     length (seq_arg_specs st) = MAX_SEQUENCE_ARG_COUNT \<and>
     length (fpy_statements st) = MAX_SEQUENCE_STATEMENT_COUNT"

definition kept where
  "kept st = (capacity (sequence_buffer st), sequence_file_path st, args_size st, args_buffer st, sequences_started st, statements_dispatched st,
     fpy_runtime st, fpy_tlm st)"

definition loads :: "fpy_state \<Rightarrow> fpy_state \<Rightarrow> bool" where
  "loads st st' \<longleftrightarrow> wf_load st' \<and> kept st' = kept st"

lemmas load_defs = loads_def wf_load_def kept_def statements_ok_def

lemma loads_trans: "loads st st' \<Longrightarrow> loads st' st'' \<Longrightarrow> loads st st''"
  by (simp add: loads_def)

lemma loads_args: "loads st st' \<Longrightarrow> args_size st' = args_size st"
  by (simp add: loads_def kept_def)

text \<open>The computation returns, with \<open>I\<close> of the state, and \<open>P\<close> as well when it succeeds.\<close>

definition returns :: "(Success \<times> fpy_call list \<times> 's) option \<Rightarrow> ('s \<Rightarrow> bool) \<Rightarrow> ('s \<Rightarrow> bool) \<Rightarrow> bool" where
  "returns a I P \<longleftrightarrow> (\<exists>ok ev s. a = Some (ok, ev, s) \<and> I s \<and> (ok = Success_Success \<longrightarrow> P s))"

lemma returns_fail: "I s \<Longrightarrow> returns (Some (Success_Failure, ev, s)) I P"
  by (simp add: returns_def)

lemma returns_vthen:
  assumes "returns a I P" and "\<And>s. I s \<Longrightarrow> J (proj s)" and "\<And>s. I s \<Longrightarrow> P s \<Longrightarrow> returns (k s) J R"
  shows "returns (vthen a proj k) J R"
proof -
  obtain ok ev s where a: "a = Some (ok, ev, s)" "I s" "ok = Success_Success \<Longrightarrow> P s"
    using assms(1) by (auto simp: returns_def)
  show ?thesis
  proof (cases "ok = Success_Success")
    case True
    with a assms(3) [of s] show ?thesis
      by (auto simp: vthen_def returns_def)
  qed (use a assms(2) in \<open>simp add: vthen_def returns_def\<close>)
qed

lemma deserialize_error_returns:
  assumes "wf_buf (sequence_buffer st)" and "I st"
  shows "returns (do { ev \<leftarrow> deserialize_error st stage status; Some (Success_Failure, ev, st) }) I P"
  using assms by (simp add: deserialize_error_def size_left_eq returns_def)

section \<open>Each stage\<close>

lemma read_bytes_returns:
  assumes f: "holds_data f data" and wf: "wf_load st"
  shows "returns (read_bytes f n stage upd (st, pos)) (\<lambda>(st', _). loads st st')
    (\<lambda>(st', pos'). pos' = pos + n \<and> length (take n (drop pos data)) = n \<and>
       unread (sequence_buffer st') = take n (drop pos data) \<and>
       computed_crc st' = (if upd then hash_update (computed_crc st) (take n (drop pos data)) else computed_crc st) \<and>
       seq_header st' = seq_header st \<and> seq_arg_specs st' = seq_arg_specs st \<and> fpy_statements st' = fpy_statements st \<and>
       total_expected_arg_size st' = total_expected_arg_size st)"
proof (cases "n > capacity (sequence_buffer st)")
  case True
  then show ?thesis
    using wf by (simp add: read_bytes_def returns_def loads_def)
next
  case False
  define bs where "bs = take n (drop pos data)"
  let ?b = "sequence_buffer st"
  define dat where "dat = bs @ drop (length bs) (bytes ?b)"
  have len: "length bs \<le> n" "n \<le> length (bytes ?b)"
    using False by (simp_all add: bs_def capacity_def)
  then have dat: "blit (bytes ?b) 0 bs = Some dat" "length dat = length (bytes ?b)" "take (length bs) dat = bs"
    by (simp_all add: blit_def dat_def)
  have rd: "sf_read f pos n = (0, bs)"
    using f by (simp add: holds_data_def bs_def)
  have I: "loads st (st\<lparr>sequence_buffer := ?b\<lparr>bytes := dat\<rparr>\<rparr>)"
    using wf dat(2) by (simp add: load_defs wf_buf_def capacity_def)
  show ?thesis
  proof (cases "length bs < n")
    case True
    then show ?thesis
      using False rd dat I by (simp add: read_bytes_def returns_def)
  next
    case full: False
    then have n: "length bs = n"
      using len by simp
    have "unread (?b\<lparr>bytes := dat, ser_loc := n, deser_loc := 0\<rparr>) = bs"
      using dat(3) n by (simp add: unread_def content_def)
    then show ?thesis
      using False full rd dat I len n unfolding bs_def [symmetric]
      by (simp add: read_bytes_def returns_def set_buff_len_def capacity_def slice_def)
        (simp add: load_defs wf_buf_def capacity_def)
  qed
qed

lemma header_size [simp]: "struct_serialized_size header_members h = 11"
  by (simp add: struct_serialized_size_def header_members_def)

definition header_ok :: "fpy_header \<Rightarrow> bool" where
  "header_ok h \<longleftrightarrow> schema_version h = SCHEMA_VERSION \<and> unat (argument_count h) \<le> MAX_SEQUENCE_ARG_COUNT \<and>
     unat (hdr_statement_count h) \<le> MAX_SEQUENCE_STATEMENT_COUNT"

lemma read_header_returns:
  assumes wf: "wf_load st" and len: "length (unread (sequence_buffer st)) = 11"
  shows "returns (read_header st) (loads st)
    (\<lambda>st'. struct_enc header_members Big (seq_header st') = unread (sequence_buffer st) \<and> header_ok (seq_header st') \<and>
       computed_crc st' = computed_crc st)"
proof -
  let ?b = "sequence_buffer st"
  have b: "wf_buf ?b"
    using wf by (simp add: wf_load_def)
  obtain h where h: "struct_deserialize_from header_members header_build header_default (seq_header st) ?b Big =
        Some (Ok, h, adv ?b 11)" "struct_enc header_members Big h = unread ?b"
    using fpy_header.decode [OF b, of header_default "seq_header st" Big] len by auto
  have I: "loads st (st\<lparr>seq_header := h, sequence_buffer := adv ?b 11\<rparr>)"
    using wf b len by (simp add: load_defs)
  show ?thesis
    using h I by (auto simp: read_header_def returns_def header_ok_def Let_def)
qed

text \<open>Reading \<open>bs\<close> off the buffer leaves \<open>b'\<close>.\<close>

definition consumed :: "ser_buf \<Rightarrow> u8 list \<Rightarrow> ser_buf \<Rightarrow> bool" where
  "consumed b bs b' \<longleftrightarrow> wf_buf b' \<and> capacity b' = capacity b \<and> unread b = bs @ unread b'"

lemma consumed_trans: "consumed b bs b' \<Longrightarrow> consumed b' bs' b'' \<Longrightarrow> consumed b (bs @ bs') b''"
  by (simp add: consumed_def)

lemma consumed_adv: "wf_buf b \<Longrightarrow> n \<le> length (unread b) \<Longrightarrow> consumed b (take n (unread b)) (adv b n)"
  by (simp add: consumed_def)

lemma consumed_wf: "consumed b bs b' \<Longrightarrow> wf_buf b'"
  by (simp add: consumed_def)

lemma take_prefixed:
  assumes "n = unat (from_bytes Big (take 2 u) :: u16)" and "2 \<le> length u"
  shows "take (2 + n) u = to_be_bytes (of_nat n :: u16) @ take n (drop 2 u)"
proof -
  have "to_be_bytes (of_nat n :: u16) = take 2 u"
    using assms by (simp add: from_bytes_def to_be_bytes_from_be_bytes)
  then show ?thesis
    by (simp only: take_add)
qed

lemma prefix_small: "n = unat (v :: u16) \<Longrightarrow> n < 2 ^ 16"
  using unsigned_less [of v, where 'a = nat] by simp

lemma string_consumes:
  assumes "wf_buf b"
  shows "\<exists>status s' b' bs. string_deserialize_from s b e = Some (status, s', b') \<and> consumed b bs b'"
proof (cases "length (unread b) < 2")
  case True
  then have "string_deserialize_from s b e =
      Some (if unread b = [] then DeserBufferEmpty else DeserSizeMismatch, s, b)"
    using assms by (simp add: string_deserialize_from_def deserialize_bytes_eq)
  then show ?thesis
    using assms by (auto simp: consumed_def)
next
  case False
  define n where "n = unat (from_bytes Big (take 2 (unread b)) :: u16)"
  have ne: "unread b \<noteq> []" "2 \<le> length (unread b)"
    using False by auto
  note eq = deserialize_bytes_eq [OF assms, of "length (str_bytes s)" "replicate (length (str_bytes s)) 0" IncludeLength Big]
  show ?thesis
  proof (cases "n > length (unread b) - 2 \<or> n > length (str_bytes s)")
    case True
    then have "string_deserialize_from s b e = Some (DeserSizeMismatch, s, adv b 2)"
      using False ne eq by (simp add: string_deserialize_from_def n_def)
    then show ?thesis
      using consumed_adv [OF assms ne(2)] by blast
  next
    case ok: False
    have un: "unread b = to_be_bytes (of_nat n :: u16) @ take n (drop 2 (unread b)) @ drop (2 + n) (unread b)"
      using take_prefixed [OF n_def ne(2)] append_take_drop_id [of "2 + n" "unread b"] by simp
    have "length (take n (drop 2 (unread b))) = n"
      using ok ne by simp
    then obtain s' where "string_deserialize_from s b e = Some (Ok, s', adv b (2 + n))"
      using string_deserialize_eq [OF assms un _ prefix_small [OF n_def], of s e] ok by auto
    moreover have "2 + n \<le> length (unread b)"
      using ok ne by linarith
    note consumed_adv [OF assms this]
    ultimately show ?thesis
      by blast
  qed
qed

lemma u32_consumes:
  assumes "wf_buf b"
  shows "\<exists>status v' b' bs. deserialize_u32 b v Big = Some (status, v', b') \<and> consumed b bs b' \<and>
    (status = Ok \<longrightarrow> bs = to_be_bytes v' \<and> 4 \<le> length (unread b)) \<and> (status \<noteq> Ok \<longrightarrow> length (unread b) < 4)"
proof (cases "length (unread b) < 4")
  case True
  then show ?thesis
    using assms by (auto simp: deserialize_prim_eq consumed_def)
next
  case False
  then show ?thesis
    using assms consumed_adv [of b 4]
    by (auto simp: deserialize_prim_eq from_bytes_def to_be_bytes_from_be_bytes intro!: exI [of _ "take 4 (unread b)"])
qed

lemma arg_spec_consumes:
  assumes "wf_buf b"
  shows "\<exists>status spec' b' bs. arg_spec_deserialize spec b = Some (status, spec', b') \<and> consumed b bs b'"
proof -
  obtain s1 n b1 c1 where n: "string_deserialize_from (string_new MAX_ARG_SPEC_NAME_LEN) b Big = Some (s1, n, b1)"
      "consumed b c1 b1"
    using string_consumes [OF assms] by blast
  obtain s2 t b2 c2 where t: "string_deserialize_from (string_new MAX_ARG_SPEC_NAME_LEN) b1 Big = Some (s2, t, b2)"
      "consumed b1 c2 b2"
    using string_consumes [OF consumed_wf [OF n(2)]] by blast
  obtain s3 z b3 c3 where z: "deserialize_u32 b2 0 Big = Some (s3, z, b3)" "consumed b2 c3 b3"
    using u32_consumes [OF consumed_wf [OF t(2)]] by blast
  note c12 = consumed_trans [OF n(2) t(2)] 
  note c123 = consumed_trans [OF c12 z(2)]
  consider "s1 \<noteq> Ok" | "s1 = Ok" "s2 \<noteq> Ok" | "s1 = Ok" "s2 = Ok" "s3 \<noteq> Ok" | "s1 = Ok" "s2 = Ok" "s3 = Ok"
    by blast
  then show ?thesis
    by cases (use n t z c12 c123 in \<open>simp add: arg_spec_deserialize_def fw_try_def; blast\<close>)+
qed

definition stmt_enc :: "fpy_statement \<Rightarrow> u8 list" where
  "stmt_enc stmt = stmt_op_code stmt # to_be_bytes (of_nat (length (content (stmt_arg_buf stmt))) :: u16) @
     content (stmt_arg_buf stmt)"

definition stmt_ok :: "fpy_statement \<Rightarrow> bool" where
  "stmt_ok stmt \<longleftrightarrow> stmt_op_code stmt \<le> DirectiveId_Fabs \<and> wf_buf (stmt_arg_buf stmt) \<and>
     length (content (stmt_arg_buf stmt)) \<le> FW_STATEMENT_ARG_BUFFER_MAX_SIZE"

lemma nested_consumes:
  assumes b: "wf_buf b" and val: "wf_buf val"
  shows "\<exists>status val' b' bs. deserialize_buffer b val Big = Some (status, val', b') \<and> consumed b bs b' \<and> wf_buf val' \<and>
    (status = Ok \<longrightarrow> bs = to_be_bytes (of_nat (length (content val')) :: u16) @ content val' \<and>
      length (content val') \<le> capacity val)"
proof (cases "length (unread b) < 2")
  case True
  then show ?thesis
    using assms by (auto simp: deserialize_buffer_eq consumed_def)
next
  case False
  define n where "n = unat (from_bytes Big (take 2 (unread b)) :: u16)"
  have ne: "unread b \<noteq> []" "2 \<le> length (unread b)"
    using False by auto
  show ?thesis
  proof (cases "n > capacity val \<or> n > length (unread b) - 2")
    case True
    then have "deserialize_buffer b val Big = Some (DeserSizeMismatch, val, adv b 2)"
      using False ne b by (simp add: deserialize_buffer_eq n_def [symmetric] Let_def)
    then show ?thesis
      using consumed_adv [OF b ne(2)] val by blast
  next
    case ok: False
    define c where "c = take n (drop 2 (unread b))"
    have c: "length c = n" "length c \<le> capacity val"
      using ok ne by (simp_all add: c_def)
    have "deserialize_buffer b val Big = Some (Ok, set_content val c, adv b (2 + n))"
      using ok ne b by (simp add: deserialize_buffer_eq n_def [symmetric] Let_def c_def)
    moreover have "consumed b (to_be_bytes (of_nat n :: u16) @ c) (adv b (2 + n))"
    proof -
      have "2 + n \<le> length (unread b)"
        using ok ne by linarith
      from consumed_adv [OF b this] show ?thesis
        unfolding take_prefixed [OF n_def ne(2)] c_def .
    qed
    ultimately show ?thesis
      using c by auto
  qed
qed

lemma from_be_byte: "from_bytes Big [x] = (x :: u8)"
  using from_be_bytes_to_be_bytes [of x]
  by (simp add: from_bytes_def to_be_bytes_def to_le_bytes_def nbytes_def)

lemma statement_consumes:
  assumes b: "wf_buf b" and old: "wf_buf (stmt_arg_buf stmt)"
  shows "\<exists>status stmt' b' bs. statement_deserialize stmt b = Some (status, stmt', b') \<and> consumed b bs b' \<and>
    wf_buf (stmt_arg_buf stmt') \<and> (status = Ok \<longrightarrow> stmt_ok stmt' \<and> bs = stmt_enc stmt')"
proof (cases "unread b")
  case Nil
  then show ?thesis
    using assms by (simp add: statement_deserialize_def fw_try_def deserialize_prim_eq consumed_def)
next
  case (Cons x xs)
  have op: "deserialize_u8 b 0 Big = Some (Ok, x, adv b 1)" "consumed b [x] (adv b 1)"
    using Cons b consumed_adv [of b 1] by (simp_all add: deserialize_prim_eq from_be_byte)
  let ?v = "linear_buffer_new FW_STATEMENT_ARG_BUFFER_MAX_SIZE"
  have v: "wf_buf ?v" "capacity ?v = FW_STATEMENT_ARG_BUFFER_MAX_SIZE"
    by (simp_all add: linear_buffer_new_def buf_defs)
  obtain s v' b' bs where n: "deserialize_buffer (adv b 1) ?v Big = Some (s, v', b')" "consumed (adv b 1) bs b'" "wf_buf v'"
      "s = Ok \<longrightarrow> bs = to_be_bytes (of_nat (length (content v')) :: u16) @ content v' \<and>
        length (content v') \<le> FW_STATEMENT_ARG_BUFFER_MAX_SIZE"
    using nested_consumes [OF consumed_wf [OF op(2)] v(1)] v(2) by metis
  note c = consumed_trans [OF op(2) n(2)]
  consider "x > DirectiveId_Fabs" | "\<not> x > DirectiveId_Fabs" "s \<noteq> Ok" | "\<not> x > DirectiveId_Fabs" "s = Ok"
    by blast
  then show ?thesis
  proof cases
    case 1
    then show ?thesis
      using op old by (simp add: statement_deserialize_def fw_try_def) blast
  next
    case 2
    then show ?thesis
      using op n old c by (simp add: statement_deserialize_def fw_try_def) blast
  next
    case 3
    then show ?thesis
      using op n c by (simp add: statement_deserialize_def fw_try_def stmt_ok_def stmt_enc_def)
  qed
qed

text \<open>The argument specs are read off the front of the body, the statements one after the other.\<close>

lemma loads_step:
  assumes "wf_load st" and "consumed (sequence_buffer st) bs b"
  shows "wf_load (st\<lparr>sequence_buffer := b\<rparr>)" "loads st (st\<lparr>seq_arg_specs := (seq_arg_specs st)[i := a], sequence_buffer := b,
      total_expected_arg_size := n\<rparr>)"
    "loads st (st\<lparr>seq_arg_specs := (seq_arg_specs st)[i := a], sequence_buffer := b\<rparr>)"
    "wf_buf (stmt_arg_buf s) \<Longrightarrow> loads st (st\<lparr>fpy_statements := (fpy_statements st)[i := s], sequence_buffer := b\<rparr>)"
  using assms by (auto simp: load_defs consumed_def dest!: set_update_subset_insert [THEN subsetD])

definition same_but_specs where
  "same_but_specs st st' \<longleftrightarrow> seq_header st' = seq_header st \<and> computed_crc st' = computed_crc st \<and>
     fpy_statements st' = fpy_statements st"

lemma read_args_returns:
  assumes "wf_load st" and "i + k \<le> MAX_SEQUENCE_ARG_COUNT"
  shows "\<exists>status st' bs. read_args i k st = Some (status, st') \<and> loads st st' \<and> same_but_specs st st' \<and>
    consumed (sequence_buffer st) bs (sequence_buffer st')"
  using assms
proof (induction k arbitrary: i st)
  case 0
  then show ?case
    by (auto simp: loads_def same_but_specs_def consumed_def wf_load_def)
next
  case (Suc k)
  have i: "i < length (seq_arg_specs st)"
    using Suc.prems by (simp add: wf_load_def)
  obtain status spec b bs where d: "arg_spec_deserialize (seq_arg_specs st ! i) (sequence_buffer st) = Some (status, spec, b)"
      "consumed (sequence_buffer st) bs b"
    using arg_spec_consumes Suc.prems by (metis wf_load_def)
  define st1 where "st1 = st\<lparr>seq_arg_specs := (seq_arg_specs st)[i := spec], sequence_buffer := b\<rparr>"
  define st2 where "st2 = st1\<lparr>total_expected_arg_size := total_expected_arg_size st1 + arg_size spec\<rparr>"
  have l: "loads st st1" "loads st st2"
    using loads_step(2,3) [OF Suc.prems(1) d(2)] by (simp_all add: st1_def st2_def)
  have same: "same_but_specs st st1" "same_but_specs st st2" "sequence_buffer st1 = b" "sequence_buffer st2 = b"
    by (simp_all add: same_but_specs_def st1_def st2_def)
  show ?case
  proof (cases "status = Ok")
    case False
    then have "read_args i (Suc k) st = Some (status, st1)"
      using i d by (simp add: index_def store_def st1_def)
    with l same d(2) show ?thesis
      by blast
  next
    case True
    then have eq: "read_args i (Suc k) st = read_args (Suc i) k st2"
      using i d by (simp add: index_def store_def st1_def st2_def)
    have "wf_load st2" "Suc i + k \<le> MAX_SEQUENCE_ARG_COUNT"
      using l(2) Suc.prems(2) by (simp_all add: loads_def)
    from Suc.IH [OF this] obtain status' st' bs' where IH: "read_args (Suc i) k st2 = Some (status', st')" "loads st2 st'"
        "same_but_specs st2 st'" "consumed b bs' (sequence_buffer st')"
      using same(4) by auto
    then show ?thesis
      using eq loads_trans [OF l(2) IH(2)] consumed_trans [OF d(2) IH(4)] same(2)
      by (auto simp: same_but_specs_def)
  qed
qed

definition same_but_statements where
  "same_but_statements i st st' \<longleftrightarrow> seq_header st' = seq_header st \<and> computed_crc st' = computed_crc st \<and>
     total_expected_arg_size st' = total_expected_arg_size st \<and> take i (fpy_statements st') = take i (fpy_statements st)"

lemma read_statements_returns:
  assumes "wf_load st" and "i + k \<le> MAX_SEQUENCE_STATEMENT_COUNT"
  shows "\<exists>status st'. read_statements i k st = Some (status, st') \<and> loads st st' \<and> same_but_statements i st st' \<and>
    (status = Ok \<longrightarrow> list_all stmt_ok (take k (drop i (fpy_statements st'))) \<and>
      consumed (sequence_buffer st) (concat (map stmt_enc (take k (drop i (fpy_statements st'))))) (sequence_buffer st'))"
  using assms
proof (induction k arbitrary: i st)
  case 0
  then show ?case
    by (auto simp: loads_def same_but_statements_def consumed_def wf_load_def)
next
  case (Suc k)
  have i: "i < length (fpy_statements st)"
    using Suc.prems by (simp add: wf_load_def)
  have "wf_buf (stmt_arg_buf (fpy_statements st ! i))" "wf_buf (sequence_buffer st)"
    using Suc.prems i by (simp_all add: wf_load_def statements_ok_def)
  then obtain status stmt b bs where d: "statement_deserialize (fpy_statements st ! i) (sequence_buffer st) = Some (status, stmt, b)"
      "consumed (sequence_buffer st) bs b" "wf_buf (stmt_arg_buf stmt)" "status = Ok \<longrightarrow> stmt_ok stmt \<and> bs = stmt_enc stmt"
    using statement_consumes by metis
  define st1 where "st1 = st\<lparr>fpy_statements := (fpy_statements st)[i := stmt], sequence_buffer := b\<rparr>"
  have l: "loads st st1"
    using loads_step(4) [OF Suc.prems(1) d(2,3)] by (simp add: st1_def)
  have same: "same_but_statements i st st1" "sequence_buffer st1 = b"
    by (simp_all add: same_but_statements_def st1_def)
  show ?case
  proof (cases "status = Ok")
    case False
    then have "read_statements i (Suc k) st = Some (status, st1)"
      using i d by (simp add: index_def store_def st1_def)
    with l same False show ?thesis
      by blast
  next
    case True
    then have eq: "read_statements i (Suc k) st = read_statements (Suc i) k st1"
      using i d by (simp add: index_def store_def st1_def)
    have wf1: "wf_load st1" "Suc i + k \<le> MAX_SEQUENCE_STATEMENT_COUNT"
      using l Suc.prems(2) by (simp_all add: loads_def)
    from Suc.IH [OF this] obtain status' st' where IH: "read_statements (Suc i) k st1 = Some (status', st')" "loads st1 st'"
        "same_but_statements (Suc i) st1 st'"
        "status' = Ok \<longrightarrow> list_all stmt_ok (take k (drop (Suc i) (fpy_statements st'))) \<and>
          consumed b (concat (map stmt_enc (take k (drop (Suc i) (fpy_statements st'))))) (sequence_buffer st')"
      using same(2) by auto
    have i': "i < length (fpy_statements st')"
      using i IH(2) Suc.prems(1) by (simp add: loads_def wf_load_def)
    have t: "take (Suc i) (fpy_statements st') = take (Suc i) (fpy_statements st1)"
      using IH(3) by (simp add: same_but_statements_def)
    have at_i: "fpy_statements st' ! i = stmt"
      using arg_cong [OF t, of "\<lambda>xs. xs ! i"] i by (simp add: st1_def)
    have below: "take i (fpy_statements st') = take i (fpy_statements st)"
      using arg_cong [OF t, of "take i"] by (simp add: st1_def min_def)
    have split: "take (Suc k) (drop i (fpy_statements st')) = stmt # take k (drop (Suc i) (fpy_statements st'))"
      using i' at_i by (simp add: Cons_nth_drop_Suc [symmetric])
    have "same_but_statements i st st'"
      using IH(3) below by (simp add: same_but_statements_def st1_def)
    moreover have "list_all stmt_ok (take (Suc k) (drop i (fpy_statements st'))) \<and> consumed (sequence_buffer st)
        (concat (map stmt_enc (take (Suc k) (drop i (fpy_statements st'))))) (sequence_buffer st')" if "status' = Ok"
      using that IH(4) d(4) True consumed_trans [OF d(2)] by (simp add: split)
    ultimately show ?thesis
      using eq IH(1) loads_trans [OF l IH(2)] by auto
  qed
qed

text \<open>The body: some bytes of argument specs, the statements, and bytes that are ignored.\<close>

definition body_of :: "fpy_state \<Rightarrow> u8 list \<Rightarrow> bool" where
  "body_of st body \<longleftrightarrow> (\<exists>specs rest. body = specs @ concat (map stmt_enc (take (unat (statement_count st)) (fpy_statements st))) @ rest)
     \<and> list_all stmt_ok (take (unat (statement_count st)) (fpy_statements st))"

lemma read_body_returns:
  assumes wf: "wf_load st" and h: "header_ok (seq_header st)"
  shows "returns (read_body st) (loads st)
    (\<lambda>st'. body_of st' (unread (sequence_buffer st)) \<and> seq_header st' = seq_header st \<and> computed_crc st' = computed_crc st \<and>
       unat (total_expected_arg_size st') = args_size st \<and> args_size st \<le> MAX_STACK_SIZE)"
proof -
  let ?st0 = "st\<lparr>total_expected_arg_size := 0\<rparr>"
  have wf0: "wf_load ?st0" "0 + unat (argument_count (seq_header st)) \<le> MAX_SEQUENCE_ARG_COUNT" and l0: "loads st ?st0"
    using wf h by (simp_all add: load_defs header_ok_def)
  from read_args_returns [OF wf0] obtain s1 st1 bs1
    where r1: "read_args 0 (unat (argument_count (seq_header st))) ?st0 = Some (s1, st1)"
      and l1: "loads ?st0 st1" and same1: "same_but_specs ?st0 st1"
      and c1: "consumed (sequence_buffer st) bs1 (sequence_buffer st1)"
    by auto
  have l01: "loads st st1" and wf1: "wf_load st1" and h1: "seq_header st1 = seq_header st" "computed_crc st1 = computed_crc st"
    using loads_trans [OF l0 l1] l1 same1 by (simp_all add: loads_def same_but_specs_def)
  let ?n = "unat (statement_count st)"
  have "0 + ?n \<le> MAX_SEQUENCE_STATEMENT_COUNT"
    using h by (simp add: header_ok_def)
  from read_statements_returns [OF wf1 this] obtain s2 st2
    where r2: "read_statements 0 ?n st1 = Some (s2, st2)" and l2: "loads st1 st2" and same2: "same_but_statements 0 st1 st2"
      and c2: "s2 = Ok \<longrightarrow> list_all stmt_ok (take ?n (fpy_statements st2)) \<and>
        consumed (sequence_buffer st1) (concat (map stmt_enc (take ?n (fpy_statements st2)))) (sequence_buffer st2)"
    by auto
  have l02: "loads st st2" and h2: "seq_header st2 = seq_header st" "computed_crc st2 = computed_crc st"
      "total_expected_arg_size st2 = total_expected_arg_size st1"
    using loads_trans [OF l01 l2] same2 h1 by (simp_all add: same_but_statements_def)
  have bufs: "wf_buf (sequence_buffer st1)" "wf_buf (sequence_buffer st2)"
    using l01 l02 by (simp_all add: loads_def wf_load_def)
  have err: "returns (do { ev \<leftarrow> deserialize_error st1 FileReadStage_Body s; Some (Success_Failure, ev, st1) }) (loads st) P"
      "returns (do { ev \<leftarrow> deserialize_error st2 FileReadStage_Body s; Some (Success_Failure, ev, st2) }) (loads st) P" for s P
    using bufs l01 l02 by (intro deserialize_error_returns; simp)+
  have body: "body_of st2 (unread (sequence_buffer st))" if "s2 = Ok"
    using c1 c2 that h2(1) by (auto simp: body_of_def consumed_def)
  consider (a) "s1 \<noteq> Ok" | (b) "s1 = Ok" "unat (total_expected_arg_size st1) > MAX_STACK_SIZE"
    | (c) "s1 = Ok" "\<not> unat (total_expected_arg_size st1) > MAX_STACK_SIZE" "unat (total_expected_arg_size st1) \<noteq> args_size st"
    | (d) "s1 = Ok" "\<not> unat (total_expected_arg_size st1) > MAX_STACK_SIZE" "unat (total_expected_arg_size st1) = args_size st"
    by blast
  then show ?thesis
  proof cases
    case d
    have eq: "read_body st = (if s2 \<noteq> Ok
        then do { ev \<leftarrow> deserialize_error st2 FileReadStage_Body s2; Some (Success_Failure, ev, st2) }
        else Some (Success_Success, [], st2))"
      using r1 r2 d h1 loads_args [OF l01] by (simp add: read_body_def)
    show ?thesis
    proof (cases "s2 = Ok")
      case True
      then show ?thesis
        using eq body l02 h2 d by (simp add: returns_def)
    qed (use eq err(2) in simp)
  qed (use r1 err(1) l01 loads_args [OF l01] in \<open>simp_all add: read_body_def returns_fail\<close>)
qed

lemma read_footer_returns:
  assumes wf: "wf_load st" and len: "length (unread (sequence_buffer st)) = 4"
  shows "returns (read_footer st) (loads st)
    (\<lambda>st'. unread (sequence_buffer st) = to_be_bytes (finalize (computed_crc st)) \<and> seq_header st' = seq_header st \<and>
       fpy_statements st' = fpy_statements st \<and> total_expected_arg_size st' = total_expected_arg_size st)"
proof -
  have b: "wf_buf (sequence_buffer st)"
    using wf by (simp add: wf_load_def)
  obtain status crc b' bs where d: "deserialize_u32 (sequence_buffer st) (seq_footer_crc st) Big = Some (status, crc, b')"
      "consumed (sequence_buffer st) bs b'" "status = Ok \<longrightarrow> bs = to_be_bytes crc" "status \<noteq> Ok \<longrightarrow> False"
    using u32_consumes [OF b, of "seq_footer_crc st"] len by auto
  have "length (unread b') = 0" "bs = to_be_bytes crc"
    using d len by (auto simp: consumed_def)
  then have un: "unread (sequence_buffer st) = to_be_bytes crc"
    using d(2) by (simp add: consumed_def)
  have "loads st (st\<lparr>seq_footer_crc := crc, sequence_buffer := b'\<rparr>)"
    using wf d(2) by (simp add: load_defs consumed_def)
  then show ?thesis
    using d un by (auto simp: read_footer_def returns_def Let_def)
qed

section \<open>Validation is sound\<close>

text \<open>What a validated file holds: the header, the body it announces and the CRC-32 of both, and nothing more.\<close>

definition valid_sequence :: "fpy_state \<Rightarrow> u8 list \<Rightarrow> bool" where
  "valid_sequence st data \<longleftrightarrow>
     (\<exists>body. data = struct_enc header_members Big (seq_header st) @ body @
          to_be_bytes (hash_u32 (struct_enc header_members Big (seq_header st) @ body)) \<and>
        length body = unat (body_size (seq_header st)) \<and> body_of st body) \<and>
     header_ok (seq_header st) \<and> unat (total_expected_arg_size st) = args_size st \<and>
     args_size st \<le> SEQUENCE_ARGUMENTS_MAX_SIZE"

lemma check_returns:
  assumes "holds_data f data" and "wf_load st"
  shows "returns (check_length_and_args f pos st) (loads st)
    (\<lambda>st'. st' = st \<and> length data = pos \<and> args_size st \<le> SEQUENCE_ARGUMENTS_MAX_SIZE)"
  using assms by (auto simp: check_length_and_args_def holds_data_def returns_def loads_def)

lemma returns_from: "returns a (loads s) P \<Longrightarrow> loads st s \<Longrightarrow> returns a (loads st) P"
  by (auto simp: returns_def intro: loads_trans)

lemma returns_bytes_from:
  "returns a (\<lambda>(st', _). loads s st') P \<Longrightarrow> loads st s \<Longrightarrow> returns a (\<lambda>(st', _). loads st st') P"
  by (auto simp: returns_def intro: loads_trans)

lemma loads_wf: "loads st s \<Longrightarrow> wf_load s"
  by (simp add: loads_def)

text \<open>The stages after the body, and after the header.\<close>

lemma footer_returns:
  assumes f: "holds_data f data" and l: "loads st s"
  shows "returns (vthen (read_bytes f FOOTER_SERIALIZED_SIZE FileReadStage_Footer False (s, pos)) fst (\<lambda>(st, pos).
      vthen (read_footer st) id (\<lambda>st. check_length_and_args f pos st))) (loads st)
    (\<lambda>st'. length (take 4 (drop pos data)) = 4 \<and> take 4 (drop pos data) = to_be_bytes (finalize (computed_crc s)) \<and>
       length data = pos + 4 \<and> seq_header st' = seq_header s \<and> fpy_statements st' = fpy_statements s \<and>
       total_expected_arg_size st' = total_expected_arg_size s \<and> args_size s \<le> SEQUENCE_ARGUMENTS_MAX_SIZE)"
  (is "returns _ _ ?R")
proof (rule returns_vthen [OF returns_bytes_from [OF read_bytes_returns [OF f loads_wf [OF l]] l]], goal_cases)
  case (2 sp)
  obtain s1 p where sp: "sp = (s1, p)"
    by fastforce
  from 2 sp have l1: "loads st s1" and p: "p = pos + 4" "length (take 4 (drop pos data)) = 4"
      and s1: "unread (sequence_buffer s1) = take 4 (drop pos data)" "computed_crc s1 = computed_crc s"
      "seq_header s1 = seq_header s" "fpy_statements s1 = fpy_statements s"
      "total_expected_arg_size s1 = total_expected_arg_size s"
    by (simp_all add: FOOTER_SERIALIZED_SIZE_def)
  have args1: "args_size s1 = args_size s"
    using loads_args [OF l] loads_args [OF l1] by simp
  have len1: "length (unread (sequence_buffer s1)) = 4"
    using p(2) by (simp only: s1(1))
  have "returns (vthen (read_footer s1) id (\<lambda>st. check_length_and_args f p st)) (loads st) ?R"
  proof (rule returns_vthen [OF returns_from [OF read_footer_returns [OF loads_wf [OF l1] len1] l1]], goal_cases)
    case (2 s2)
    have "args_size s2 = args_size s"
      using loads_args [OF l] loads_args [OF 2(1)] by simp
    then show ?case
      using returns_from [OF check_returns [OF f loads_wf [OF 2(1)], of p] 2(1)] 2(2) p s1 by (auto simp: returns_def)
  qed simp
  then show ?case
    by (simp add: sp)
qed auto

lemma body_returns:
  assumes f: "holds_data f data" and l: "loads st s" and h: "header_ok (seq_header s)"
  defines "n \<equiv> unat (body_size (seq_header s))"
  shows "returns (vthen (read_bytes f n FileReadStage_Body True (s, pos)) fst (\<lambda>(st, pos).
      vthen (read_body st) id (\<lambda>st.
      vthen (read_bytes f FOOTER_SERIALIZED_SIZE FileReadStage_Footer False (st, pos)) fst (\<lambda>(st, pos).
      vthen (read_footer st) id (\<lambda>st. check_length_and_args f pos st))))) (loads st)
    (\<lambda>st'. \<exists>body crc. drop pos data = body @ to_be_bytes crc \<and> length body = n \<and> body_of st' body \<and>
       crc = finalize (hash_update (computed_crc s) body) \<and> seq_header st' = seq_header s \<and>
       unat (total_expected_arg_size st') = args_size st \<and> args_size st \<le> SEQUENCE_ARGUMENTS_MAX_SIZE)"
  (is "returns _ _ ?R")
proof (rule returns_vthen [OF returns_bytes_from [OF read_bytes_returns [OF f loads_wf [OF l]] l]], goal_cases)
  case (2 sp)
  obtain s1 p where sp: "sp = (s1, p)"
    by fastforce
  define body where "body = take n (drop pos data)"
  from 2 sp have l1: "loads st s1" and p: "p = pos + n" "length body = n"
      and s1: "unread (sequence_buffer s1) = body" "computed_crc s1 = hash_update (computed_crc s) body"
      "seq_header s1 = seq_header s"
    by (simp_all add: body_def)
  let ?k = "\<lambda>st. vthen (read_bytes f FOOTER_SERIALIZED_SIZE FileReadStage_Footer False (st, p)) fst (\<lambda>(st, pos).
      vthen (read_footer st) id (\<lambda>st. check_length_and_args f pos st))"
  have "header_ok (seq_header s1)"
    using h s1 by simp
  note rb = returns_from [OF read_body_returns [OF loads_wf [OF l1] this] l1]
  have "returns (vthen (read_body s1) id ?k) (loads st) ?R"
  proof (rule returns_vthen [OF rb], goal_cases)
    case (2 s2)
    have args: "args_size s1 = args_size st" "args_size s2 = args_size st"
      using loads_args [OF l1] loads_args [OF 2(1)] by simp_all
    have body2: "body_of st' body" if "seq_header st' = seq_header s2" "fpy_statements st' = fpy_statements s2" for st'
    proof -
      have "body_of s2 body"
        using 2(2) s1(1) by simp
      with that show ?thesis
        by (simp add: body_of_def)
    qed
    have dr: "drop pos data = body @ take 4 (drop p data)" if "length data = p + 4"
      using that p by (simp add: body_def)
        (metis append_take_drop_id drop_drop add.commute take_all length_drop diff_add_inverse le_refl)
    show ?case
      using footer_returns [OF f 2(1), of p] 2(2) args s1 p(2) body2 dr unfolding returns_def by fastforce
  qed simp
  then show ?case
    by (simp add: sp)
qed auto

lemma validate_returns:
  assumes f: "holds_data f data" and wf: "wf_load st" and path: "sequence_file_path st \<noteq> []"
  shows "returns (validate f st) (loads st) (\<lambda>st'. valid_sequence st' data)"
proof -
  let ?st0 = "st\<lparr>computed_crc := hash_init (computed_crc st)\<rparr>"
  have l0: "loads st ?st0"
    using wf by (simp add: load_defs)
  define hdr where "hdr = take 11 data"
  let ?k = "\<lambda>st pos. vthen (read_bytes f (unat (body_size (seq_header st))) FileReadStage_Body True (st, pos)) fst (\<lambda>(st, pos).
      vthen (read_body st) id (\<lambda>st.
      vthen (read_bytes f FOOTER_SERIALIZED_SIZE FileReadStage_Footer False (st, pos)) fst (\<lambda>(st, pos).
      vthen (read_footer st) id (\<lambda>st. check_length_and_args f pos st))))"
  have main: "returns (vthen (read_bytes f HEADER_SERIALIZED_SIZE FileReadStage_Header True (?st0, 0)) fst
      (\<lambda>(st, pos). vthen (read_header st) id (\<lambda>st. ?k st pos))) (loads st) (\<lambda>st'. valid_sequence st' data)"
  proof (rule returns_vthen [OF returns_bytes_from [OF read_bytes_returns [OF f loads_wf [OF l0]] l0]], goal_cases)
    case (2 sp)
    obtain s1 p where sp: "sp = (s1, p)"
      by fastforce
    from 2 sp have l1: "loads st s1" and p: "p = 11" "length hdr = 11"
        and s1: "unread (sequence_buffer s1) = hdr" "computed_crc s1 = hash_update (hash_init (computed_crc st)) hdr"
      by (simp_all add: hdr_def HEADER_SERIALIZED_SIZE_def)
    have len1: "length (unread (sequence_buffer s1)) = 11"
      using p(2) by (simp only: s1(1))
    have "returns (vthen (read_header s1) id (\<lambda>st. ?k st p)) (loads st) (\<lambda>st'. valid_sequence st' data)"
    proof (rule returns_vthen [OF returns_from [OF read_header_returns [OF loads_wf [OF l1] len1] l1]], goal_cases)
      case (2 s2)
      have crc: "finalize (hash_update (computed_crc s2) body) = hash_u32 (hdr @ body)" for body
        using 2(2) s1(2) by (simp add: hash_u32_def hash_update_append hash_init_def hash_new_def hash_update_def finalize_def)
      have fin: "valid_sequence st' data" if "loads st st'" "drop 11 data = body @ to_be_bytes c"
          "length body = unat (body_size (seq_header s2))" "body_of st' body"
          "c = finalize (hash_update (computed_crc s2) body)" "seq_header st' = seq_header s2"
          "unat (total_expected_arg_size st') = args_size st" "args_size st \<le> SEQUENCE_ARGUMENTS_MAX_SIZE" for st' body c
      proof -
        have "data = hdr @ body @ to_be_bytes (hash_u32 (hdr @ body))"
          using that(2,5) crc append_take_drop_id [of 11 data] by (simp add: hdr_def)
        moreover have "struct_enc header_members Big (seq_header st') = hdr" "header_ok (seq_header st')"
          using 2(2) that(6) s1(1) by simp_all
        ultimately show ?thesis
          using that loads_args [OF that(1)] unfolding valid_sequence_def by simp
      qed
      have "header_ok (seq_header s2)"
        using 2(2) by simp
      from body_returns [OF f 2(1) this, of p] show ?case
        unfolding returns_def p(1) using fin by blast
    qed simp
    then show ?case
      by (simp add: sp)
  qed auto
  show ?thesis
    using main path f by (simp add: validate_def holds_data_def)
qed

section \<open>Validation is complete\<close>

text \<open>The documented format, and when its fields fit: an argument spec is a name, a type name and a size.\<close>

type_synonym arg_data = "u8 list \<times> u8 list \<times> u32"
type_synonym stmt_data = "u8 \<times> u8 list"

definition arg_enc :: "arg_data \<Rightarrow> u8 list" where
  "arg_enc a = (case a of (n, t, z) \<Rightarrow> to_be_bytes (of_nat (length n) :: u16) @ n @
     to_be_bytes (of_nat (length t) :: u16) @ t @ to_be_bytes z)"

definition data_enc :: "stmt_data \<Rightarrow> u8 list" where
  "data_enc d = fst d # to_be_bytes (of_nat (length (snd d)) :: u16) @ snd d"

definition data_of :: "fpy_statement \<Rightarrow> stmt_data" where
  "data_of stmt = (stmt_op_code stmt, content (stmt_arg_buf stmt))"

definition arg_fits :: "arg_data \<Rightarrow> bool" where
  "arg_fits a \<longleftrightarrow> (case a of (n, t, z) \<Rightarrow> length n \<le> MAX_ARG_SPEC_NAME_LEN \<and> length t \<le> MAX_ARG_SPEC_NAME_LEN)"

definition stmt_fits :: "stmt_data \<Rightarrow> bool" where
  "stmt_fits d \<longleftrightarrow> fst d \<le> DirectiveId_Fabs \<and> length (snd d) \<le> FW_STATEMENT_ARG_BUFFER_MAX_SIZE"

definition sequence_file :: "fpy_header \<Rightarrow> u8 list \<Rightarrow> u8 list" where
  "sequence_file h body =
     (let covered = struct_enc header_members Big h @ body in covered @ to_be_bytes (hash_u32 covered))"

lemma vthen_ok: "a = Some (Success_Success, [], s) \<Longrightarrow> k s = Some (Success_Success, [], t) \<Longrightarrow>
    vthen a proj k = Some (Success_Success, [], t)"
  by (simp add: vthen_def)

lemma returns_ok: "returns a I P \<Longrightarrow> a = Some (Success_Success, ev, s) \<Longrightarrow> I s \<and> P s"
  by (simp add: returns_def)

lemma read_bytes_ok:
  assumes f: "holds_data f data" and wf: "wf_load st" and cap: "n \<le> capacity (sequence_buffer st)"
    and len: "length (take n (drop pos data)) = n"
  shows "\<exists>st'. read_bytes f n stage upd (st, pos) = Some (Success_Success, [], st', pos + n)"
  using assms by (auto simp: read_bytes_def holds_data_def blit_def capacity_def set_buff_len_def slice_def Let_def)

lemma string_ok:
  assumes "wf_buf b" and "unread b = to_be_bytes (of_nat (length n) :: u16) @ n @ rest" and "length n \<le> MAX_ARG_SPEC_NAME_LEN"
  shows "\<exists>s'. string_deserialize_from (string_new MAX_ARG_SPEC_NAME_LEN) b e = Some (Ok, s', adv b (2 + length n)) \<and>
    unread (adv b (2 + length n)) = rest \<and> wf_buf (adv b (2 + length n))"
proof -
  have "length n < 2 ^ 16"
    using assms(3) by (simp add: MAX_ARG_SPEC_NAME_LEN_def)
  moreover have "2 + length n \<le> length (unread b)"
    by (simp add: assms(2))
  ultimately show ?thesis
    using string_deserialize_eq [OF assms(1,2) refl, of "string_new MAX_ARG_SPEC_NAME_LEN" e] assms by auto
qed

lemma arg_spec_ok:
  assumes b: "wf_buf b" and un: "unread b = arg_enc a @ rest" and fits: "arg_fits a"
  shows "\<exists>spec' b'. arg_spec_deserialize spec b = Some (Ok, spec', b') \<and> arg_size spec' = snd (snd a) \<and>
    wf_buf b' \<and> unread b' = rest"
proof -
  obtain n t z where a: "a = (n, t, z)"
    by (cases a)
  note un = un [unfolded a arg_enc_def prod.case append_assoc]
  have fits: "length n \<le> MAX_ARG_SPEC_NAME_LEN" "length t \<le> MAX_ARG_SPEC_NAME_LEN"
    using fits by (simp_all add: a arg_fits_def)
  from string_ok [OF b un fits(1), of Big] obtain s1 b1
    where 1: "string_deserialize_from (string_new MAX_ARG_SPEC_NAME_LEN) b Big = Some (Ok, s1, b1)" "wf_buf b1"
      "unread b1 = to_be_bytes (of_nat (length t) :: u16) @ t @ to_be_bytes z @ rest"
    by blast
  from string_ok [OF 1(2,3) fits(2), of Big] obtain s2 b2
    where 2: "string_deserialize_from (string_new MAX_ARG_SPEC_NAME_LEN) b1 Big = Some (Ok, s2, b2)" "wf_buf b2"
      "unread b2 = to_be_bytes z @ rest"
    by blast
  have "deserialize_u32 b2 0 Big = Some (Ok, z, adv b2 4)"
    using deserialize_prim_enc [of b2 Big z rest 0] 2 by (simp add: to_bytes_def)
  then show ?thesis
    using 1 2 by (simp add: arg_spec_deserialize_def fw_try_def a)
qed

lemma read_args_ok:
  assumes "wf_load st" and "i + length specs \<le> MAX_SEQUENCE_ARG_COUNT" and "list_all arg_fits specs"
    and "unread (sequence_buffer st) = concat (map arg_enc specs) @ rest"
  shows "\<exists>st'. read_args i (length specs) st = Some (Ok, st') \<and> unread (sequence_buffer st') = rest \<and>
    total_expected_arg_size st' = total_expected_arg_size st + sum_list (map (\<lambda>a. snd (snd a)) specs)"
  using assms
proof (induction specs arbitrary: i st)
  case (Cons a specs)
  have i: "i < length (seq_arg_specs st)"
    using Cons.prems by (simp add: wf_load_def)
  have b: "wf_buf (sequence_buffer st)" "unread (sequence_buffer st) = arg_enc a @ concat (map arg_enc specs) @ rest" "arg_fits a"
    using Cons.prems by (simp_all add: wf_load_def)
  from arg_spec_ok [OF this, of "seq_arg_specs st ! i"] obtain spec b'
    where d: "arg_spec_deserialize (seq_arg_specs st ! i) (sequence_buffer st) = Some (Ok, spec, b')"
      "arg_size spec = snd (snd a)" "wf_buf b'" "unread b' = concat (map arg_enc specs) @ rest"
    by blast
  define st2 where "st2 = st\<lparr>seq_arg_specs := (seq_arg_specs st)[i := spec], sequence_buffer := b',
    total_expected_arg_size := total_expected_arg_size st + arg_size spec\<rparr>"
  have "wf_load st2"
    using Cons.prems(1) d(3) by (simp add: wf_load_def st2_def statements_ok_def)
  then have "\<exists>st'. read_args (Suc i) (length specs) st2 = Some (Ok, st') \<and> unread (sequence_buffer st') = rest \<and>
      total_expected_arg_size st' = total_expected_arg_size st2 + sum_list (map (\<lambda>a. snd (snd a)) specs)"
    using Cons.prems d by (intro Cons.IH) (simp_all add: st2_def)
  moreover have "read_args i (length (a # specs)) st = read_args (Suc i) (length specs) st2"
    using i d by (simp add: index_def store_def st2_def)
  ultimately show ?case
    using d(2) by (auto simp: st2_def add.assoc)
qed simp

lemma statement_ok:
  assumes b: "wf_buf b" and un: "unread b = data_enc d @ rest" and fits: "stmt_fits d"
  shows "\<exists>stmt' b'. statement_deserialize stmt b = Some (Ok, stmt', b') \<and> data_of stmt' = d \<and>
    wf_buf (stmt_arg_buf stmt') \<and> wf_buf b' \<and> unread b' = rest"
proof -
  obtain x v where d: "d = (x, v)"
    by (cases d)
  let ?v = "linear_buffer_new FW_STATEMENT_ARG_BUFFER_MAX_SIZE"
  have fit: "\<not> x > DirectiveId_Fabs" "length v \<le> capacity ?v" "length v < 2 ^ 16"
    using fits by (simp_all add: not_less stmt_fits_def d linear_buffer_new_def capacity_def FW_STATEMENT_ARG_BUFFER_MAX_SIZE_def size_defs)
  have un': "unread b = x # to_be_bytes (of_nat (length v) :: u16) @ v @ rest"
    using un by (simp add: d data_enc_def)
  have 1: "deserialize_u8 b 0 Big = Some (Ok, x, adv b 1)"
    using b un' by (simp add: deserialize_prim_eq from_be_byte)
  have b1: "wf_buf (adv b 1)" "unread (adv b 1) = to_be_bytes (of_nat (length v) :: u16) @ v @ rest"
    using b un' by simp_all
  have "unat (from_bytes Big (take 2 (unread (adv b 1))) :: u16) = length v"
    using b1(2) fit(3) by (simp add: from_bytes_def unat_of_nat)
  then have 2: "deserialize_buffer (adv b 1) ?v Big = Some (Ok, set_content ?v v, adv (adv b 1) (2 + length v))"
    using b1 fit(2) deserialize_buffer_eq [OF b1(1), of ?v Big]
    by (simp add: Let_def length_0_conv [symmetric] del: length_0_conv)
  have "statement_deserialize stmt b =
      Some (Ok, \<lparr>stmt_op_code = x, stmt_arg_buf = set_content ?v v\<rparr>, adv (adv b 1) (2 + length v))"
    using 1 2 fit(1) by (simp add: statement_deserialize_def fw_try_def)
  moreover have "wf_buf (adv (adv b 1) (2 + length v))" "unread (adv (adv b 1) (2 + length v)) = rest"
    using b1 by simp_all
  ultimately show ?thesis
    using fit(2) by (simp add: data_of_def d)
qed

lemma read_statements_ok:
  assumes "wf_load st" and "i + length ds \<le> MAX_SEQUENCE_STATEMENT_COUNT" and "list_all stmt_fits ds"
    and "unread (sequence_buffer st) = concat (map data_enc ds) @ rest"
  shows "\<exists>st'. read_statements i (length ds) st = Some (Ok, st') \<and> take i (fpy_statements st') = take i (fpy_statements st) \<and>
    map data_of (take (length ds) (drop i (fpy_statements st'))) = ds \<and> length (fpy_statements st') = length (fpy_statements st)"
  using assms
proof (induction ds arbitrary: i st)
  case (Cons d ds)
  have i: "i < length (fpy_statements st)"
    using Cons.prems by (simp add: wf_load_def)
  have "wf_buf (sequence_buffer st)" "unread (sequence_buffer st) = data_enc d @ concat (map data_enc ds) @ rest" "stmt_fits d"
    using Cons.prems by (simp_all add: wf_load_def)
  from statement_ok [OF this, of "fpy_statements st ! i"] obtain stmt b'
    where e: "statement_deserialize (fpy_statements st ! i) (sequence_buffer st) = Some (Ok, stmt, b')" "data_of stmt = d"
      "wf_buf (stmt_arg_buf stmt)" "wf_buf b'" "unread b' = concat (map data_enc ds) @ rest"
    by blast
  define st2 where "st2 = st\<lparr>fpy_statements := (fpy_statements st)[i := stmt], sequence_buffer := b'\<rparr>"
  have "wf_load st2"
    using Cons.prems(1) e(3,4) by (auto simp: wf_load_def st2_def statements_ok_def dest!: set_update_subset_insert [THEN subsetD])
  then have "\<exists>st'. read_statements (Suc i) (length ds) st2 = Some (Ok, st') \<and>
      take (Suc i) (fpy_statements st') = take (Suc i) (fpy_statements st2) \<and>
      map data_of (take (length ds) (drop (Suc i) (fpy_statements st'))) = ds \<and>
      length (fpy_statements st') = length (fpy_statements st2)"
    using Cons.prems e by (intro Cons.IH) (simp_all add: st2_def)
  then obtain st' where st': "read_statements (Suc i) (length ds) st2 = Some (Ok, st')"
      "take (Suc i) (fpy_statements st') = take (Suc i) (fpy_statements st2)"
      "map data_of (take (length ds) (drop (Suc i) (fpy_statements st'))) = ds"
      "length (fpy_statements st') = length (fpy_statements st2)"
    by blast
  have at_i: "fpy_statements st' ! i = stmt"
    using arg_cong [OF st'(2), of "\<lambda>xs. xs ! i"] i by (simp add: st2_def)
  have "take i (fpy_statements st') = take i (fpy_statements st)"
    using arg_cong [OF st'(2), of "take i"] by (simp add: st2_def min_def)
  moreover have "take (Suc (length ds)) (drop i (fpy_statements st')) = stmt # take (length ds) (drop (Suc i) (fpy_statements st'))"
    using i at_i st'(4) by (simp add: Cons_nth_drop_Suc [symmetric] st2_def)
  moreover have "read_statements i (length (d # ds)) st = read_statements (Suc i) (length ds) st2"
    using i e by (simp add: index_def store_def st2_def)
  ultimately show ?case
    using st' e(2) by (simp add: st2_def)
qed simp

lemma read_body_ok:
  assumes wf: "wf_load st" and h: "header_ok (seq_header st)"
    and counts: "unat (argument_count (seq_header st)) = length specs" "unat (statement_count st) = length ds"
    and fits: "list_all arg_fits specs" "list_all stmt_fits ds"
    and un: "unread (sequence_buffer st) = concat (map arg_enc specs) @ concat (map data_enc ds) @ rest"
    and args: "unat (sum_list (map (\<lambda>a. snd (snd a)) specs)) = args_size st" "args_size st \<le> MAX_STACK_SIZE"
  shows "\<exists>st'. read_body st = Some (Success_Success, [], st') \<and> map data_of (take (length ds) (fpy_statements st')) = ds"
proof -
  let ?st0 = "st\<lparr>total_expected_arg_size := 0\<rparr>"
  have wf0: "wf_load ?st0" "0 + length specs \<le> MAX_SEQUENCE_ARG_COUNT"
    using wf h counts by (simp_all add: wf_load_def statements_ok_def header_ok_def)
  have un0: "unread (sequence_buffer ?st0) = concat (map arg_enc specs) @ concat (map data_enc ds) @ rest"
    by (simp add: un)
  from read_args_ok [OF wf0 fits(1) un0] obtain st1 where 1: "read_args 0 (length specs) ?st0 = Some (Ok, st1)"
      "unread (sequence_buffer st1) = concat (map data_enc ds) @ rest"
      "total_expected_arg_size st1 = sum_list (map (\<lambda>a. snd (snd a)) specs)"
    by auto
  have l1: "loads ?st0 st1" "same_but_specs ?st0 st1"
    using read_args_returns [OF wf0] 1(1) by auto
  then have args1: "args_size st1 = args_size st" and h1: "seq_header st1 = seq_header st"
    using loads_args [OF l1(1)] by (simp_all add: same_but_specs_def)
  have "0 + length ds \<le> MAX_SEQUENCE_STATEMENT_COUNT"
    using h counts by (simp add: header_ok_def)
  from read_statements_ok [OF loads_wf [OF l1(1)] this fits(2) 1(2)] obtain st2
    where 2: "read_statements 0 (length ds) st1 = Some (Ok, st2)" "map data_of (take (length ds) (fpy_statements st2)) = ds"
    by auto
  have "read_body st = Some (Success_Success, [], st2)"
    using 1 2 counts args args1 h1 by (simp add: read_body_def)
  with 2(2) show ?thesis
    by blast
qed

lemma read_footer_ok:
  assumes wf: "wf_load st" and un: "unread (sequence_buffer st) = to_be_bytes (finalize (computed_crc st))"
  shows "\<exists>st'. read_footer st = Some (Success_Success, [], st') \<and> seq_header st' = seq_header st \<and>
    fpy_statements st' = fpy_statements st \<and> loads st st'"
proof -
  have b: "wf_buf (sequence_buffer st)"
    using wf by (simp add: wf_load_def)
  have "deserialize_u32 (sequence_buffer st) (seq_footer_crc st) Big =
      Some (Ok, finalize (computed_crc st), adv (sequence_buffer st) 4)"
    using deserialize_prim_enc [of "sequence_buffer st" Big "finalize (computed_crc st)" "[]" "seq_footer_crc st"] b un
    by (simp add: to_bytes_def)
  moreover have "loads st (st\<lparr>seq_footer_crc := finalize (computed_crc st), sequence_buffer := adv (sequence_buffer st) 4\<rparr>)"
    using wf un by (simp add: load_defs)
  ultimately show ?thesis
    by (simp add: read_footer_def Let_def)
qed

lemma length_header [simp]: "length (struct_enc header_members e h) = 11"
  using fpy_header.length_struct_enc [of e h] by simp

text \<open>The parts of a sequence file, and what it takes for it to be loaded by a sequencer in state \<open>st\<close>.\<close>

definition loadable :: "fpy_state \<Rightarrow> fpy_header \<Rightarrow> arg_data list \<Rightarrow> stmt_data list \<Rightarrow> u8 list \<Rightarrow> bool" where
  "loadable st h specs ds body \<longleftrightarrow>
     header_ok h \<and> unat (argument_count h) = length specs \<and> unat (hdr_statement_count h) = length ds \<and>
     unat (body_size h) = length body \<and> list_all arg_fits specs \<and> list_all stmt_fits ds \<and>
     sequence_file_path st \<noteq> [] \<and> 11 \<le> capacity (sequence_buffer st) \<and> length body \<le> capacity (sequence_buffer st) \<and>
     unat (sum_list (map (\<lambda>a. snd (snd a)) specs)) = args_size st \<and> args_size st \<le> SEQUENCE_ARGUMENTS_MAX_SIZE"

lemma kept_capacity: "loads st st' \<Longrightarrow> capacity (sequence_buffer st') = capacity (sequence_buffer st)"
  by (simp add: loads_def kept_def)

lemma header_stage_ok:
  assumes f: "holds_data f data" and wf: "wf_load st" and hdr: "take 11 data = struct_enc header_members Big h"
    and h: "header_ok h" and cap: "11 \<le> capacity (sequence_buffer st)"
  shows "\<exists>s1 s2. read_bytes f 11 FileReadStage_Header True (st, 0) = Some (Success_Success, [], s1, 11) \<and>
    read_header s1 = Some (Success_Success, [], s2) \<and> loads st s2 \<and> seq_header s2 = h \<and>
    computed_crc s2 = hash_update (computed_crc st) (struct_enc header_members Big h)"
proof -
  have "length (take 11 (drop 0 data)) = 11"
    using arg_cong [OF hdr, of length] by simp
  then obtain s1 where 1: "read_bytes f 11 FileReadStage_Header True (st, 0) = Some (Success_Success, [], s1, 0 + 11)"
    using read_bytes_ok [OF f wf cap] by blast
  from returns_ok [OF read_bytes_returns [OF f wf] 1] have l1: "loads st s1"
      and s1: "unread (sequence_buffer s1) = struct_enc header_members Big h"
        "computed_crc s1 = hash_update (computed_crc st) (struct_enc header_members Big h)"
    using hdr by auto
  let ?s2 = "s1\<lparr>seq_header := h, sequence_buffer := adv (sequence_buffer s1) 11\<rparr>"
  have "read_header s1 = Some (Success_Success, [], ?s2)"
    using fpy_header.decode_enc [of "sequence_buffer s1" Big h "[]" header_default "seq_header s1"] s1(1) h loads_wf [OF l1]
    by (simp add: read_header_def wf_load_def header_ok_def Let_def not_less)
  moreover have "loads st ?s2"
    using l1 s1(1) by (simp add: load_defs)
  ultimately show ?thesis
    using 1 s1(2) by auto
qed

lemma body_stage_ok:
  assumes f: "holds_data f data" and wf: "wf_load st" and ok: "loadable st (seq_header st) specs ds body"
    and at: "take (length body) (drop pos data) = body"
    and body: "body = concat (map arg_enc specs) @ concat (map data_enc ds) @ rest"
  shows "\<exists>s1 s2. read_bytes f (length body) FileReadStage_Body True (st, pos) =
      Some (Success_Success, [], s1, pos + length body) \<and>
    read_body s1 = Some (Success_Success, [], s2) \<and> loads st s2 \<and> seq_header s2 = seq_header st \<and>
    computed_crc s2 = hash_update (computed_crc st) body \<and> map data_of (take (length ds) (fpy_statements s2)) = ds"
proof -
  note ok = ok [unfolded loadable_def]
  obtain s1 where 1: "read_bytes f (length body) FileReadStage_Body True (st, pos) =
      Some (Success_Success, [], s1, pos + length body)"
    using read_bytes_ok [OF f wf, of "length body" pos] ok at by auto
  from returns_ok [OF read_bytes_returns [OF f wf] 1] have l1: "loads st s1"
      and s1: "unread (sequence_buffer s1) = body" "computed_crc s1 = hash_update (computed_crc st) body"
        "seq_header s1 = seq_header st"
    using at by auto
  have h: "header_ok (seq_header s1)"
    using ok s1 by simp
  have "args_size s1 = args_size st" "args_size st \<le> MAX_STACK_SIZE"
    using loads_args [OF l1] ok by (simp_all add: SEQUENCE_ARGUMENTS_MAX_SIZE_def MAX_STACK_SIZE_def)
  then obtain s2 where 2: "read_body s1 = Some (Success_Success, [], s2)" "map data_of (take (length ds) (fpy_statements s2)) = ds"
    using read_body_ok [OF loads_wf [OF l1] h, of specs ds rest] ok s1 body by auto
  from returns_ok [OF returns_from [OF read_body_returns [OF loads_wf [OF l1] h] l1] 2(1)]
  show ?thesis
    using 1 2 s1 by auto
qed

lemma footer_stage_ok:
  assumes f: "holds_data f data" and wf: "wf_load st" and cap: "4 \<le> capacity (sequence_buffer st)"
    and at: "drop pos data = to_be_bytes (finalize (computed_crc st))" and len: "length data = pos + 4"
    and args: "args_size st \<le> SEQUENCE_ARGUMENTS_MAX_SIZE"
  shows "\<exists>s1 s2. read_bytes f 4 FileReadStage_Footer False (st, pos) = Some (Success_Success, [], s1, pos + 4) \<and>
    read_footer s1 = Some (Success_Success, [], s2) \<and>
    check_length_and_args f (pos + 4) s2 = Some (Success_Success, [], s2) \<and>
    seq_header s2 = seq_header st \<and> fpy_statements s2 = fpy_statements st"
proof -
  have t: "take 4 (drop pos data) = to_be_bytes (finalize (computed_crc st))"
    using at by simp
  then obtain s1 where 1: "read_bytes f 4 FileReadStage_Footer False (st, pos) = Some (Success_Success, [], s1, pos + 4)"
    using read_bytes_ok [OF f wf cap, of pos] by auto
  from returns_ok [OF read_bytes_returns [OF f wf] 1] have l1: "loads st s1"
      and s1: "unread (sequence_buffer s1) = to_be_bytes (finalize (computed_crc st))" "computed_crc s1 = computed_crc st"
        "seq_header s1 = seq_header st" "fpy_statements s1 = fpy_statements st"
    using t by auto
  then obtain s2 where 2: "read_footer s1 = Some (Success_Success, [], s2)" "seq_header s2 = seq_header s1"
      "fpy_statements s2 = fpy_statements s1" "loads s1 s2"
    using read_footer_ok [OF loads_wf [OF l1]] by auto
  have "args_size s2 = args_size st"
    using loads_args [OF loads_trans [OF l1 2(4)]] .
  then have "check_length_and_args f (pos + 4) s2 = Some (Success_Success, [], s2)"
    using f len args
    by (simp add: check_length_and_args_def holds_data_def SEQUENCE_ARGUMENTS_MAX_SIZE_def MAX_STACK_SIZE_def)
  with 1 2 s1 show ?thesis
    by auto
qed

lemma validate_complete:
  assumes f: "holds_data f (sequence_file h body)" and wf: "wf_load st" and ok: "loadable st h specs ds body"
    and body: "body = concat (map arg_enc specs) @ concat (map data_enc ds) @ rest"
  shows "\<exists>st'. validate f st = Some (Success_Success, [], st') \<and> seq_header st' = h \<and>
    map data_of (take (length ds) (fpy_statements st')) = ds"
proof -
  define hdr where "hdr = struct_enc header_members Big h"
  define crc where "crc = hash_u32 (hdr @ body)"
  define data where "data = hdr @ body @ to_be_bytes crc"
  have f: "holds_data f data"
    using f by (simp add: sequence_file_def Let_def data_def crc_def hdr_def)
  have hdr: "length hdr = 11" "take 11 data = struct_enc header_members Big h"
    by (simp_all add: hdr_def data_def)
  have len: "length data = 11 + length body + 4" and parts: "take (length body) (drop 11 data) = body"
      "drop (11 + length body) data = to_be_bytes crc"
    using hdr(1) by (simp_all add: data_def)
  let ?st0 = "st\<lparr>computed_crc := hash_init (computed_crc st)\<rparr>"
  have wf0: "wf_load ?st0" "loads st ?st0"
    using wf by (simp_all add: load_defs)
  have ok': "header_ok h" "sequence_file_path st \<noteq> []" "unat (body_size h) = length body" "11 \<le> capacity (sequence_buffer ?st0)"
      "args_size st \<le> SEQUENCE_ARGUMENTS_MAX_SIZE"
    using ok by (simp_all add: loadable_def)
  obtain s1 s2 where 1: "read_bytes f 11 FileReadStage_Header True (?st0, 0) = Some (Success_Success, [], s1, 11)"
      "read_header s1 = Some (Success_Success, [], s2)" "loads ?st0 s2" "seq_header s2 = h"
      "computed_crc s2 = hash_update (hash_init (computed_crc st)) hdr"
    using header_stage_ok [OF f wf0(1) hdr(2) ok'(1,4)] by (auto simp: hdr_def)
  have l2: "loads st s2"
    using loads_trans [OF wf0(2) 1(3)] .
  have "loadable s2 (seq_header s2) specs ds body"
    using ok l2 1(4) by (simp add: loadable_def loads_def kept_def)
  from body_stage_ok [OF f loads_wf [OF l2] this parts(1) body] obtain s3 s4
    where 2: "read_bytes f (length body) FileReadStage_Body True (s2, 11) = Some (Success_Success, [], s3, 11 + length body)"
      "read_body s3 = Some (Success_Success, [], s4)" "loads s2 s4" "seq_header s4 = h"
      "computed_crc s4 = hash_update (computed_crc s2) body" "map data_of (take (length ds) (fpy_statements s4)) = ds"
    using 1(4) by auto
  have l4: "loads st s4"
    using loads_trans [OF l2 2(3)] .
  have s4: "4 \<le> capacity (sequence_buffer s4)" "args_size s4 \<le> SEQUENCE_ARGUMENTS_MAX_SIZE"
    using ok' kept_capacity [OF l4] loads_args [OF l4] by simp_all
  have "finalize (computed_crc s4) = crc"
    using 1(5) 2(5)
    by (simp add: crc_def hash_u32_def hash_update_append hash_init_def hash_new_def hash_update_def finalize_def)
  then obtain s5 s6 where 3: "read_bytes f 4 FileReadStage_Footer False (s4, 11 + length body) =
        Some (Success_Success, [], s5, 11 + length body + 4)"
      "read_footer s5 = Some (Success_Success, [], s6)"
      "check_length_and_args f (11 + length body + 4) s6 = Some (Success_Success, [], s6)"
      "seq_header s6 = h" "fpy_statements s6 = fpy_statements s4"
    using footer_stage_ok [OF f loads_wf [OF l4] s4(1) _ len s4(2)] parts(2) 2(4) by auto
  have "validate f st = Some (Success_Success, [], s6)"
    using 1 2 3 ok' f
    by (simp add: validate_def vthen_def HEADER_SERIALIZED_SIZE_def FOOTER_SERIALIZED_SIZE_def holds_data_def)
  then show ?thesis
    using 3 2(6) by simp
qed

section \<open>The contract of validation\<close>

lemma validate_total:
  assumes "holds_data f data" and "wf_load st"
  shows "\<exists>ok calls st'. validate f st = Some (ok, calls, st') \<and> loads st st' \<and>
    (ok = Success_Success \<longrightarrow> valid_sequence st' data)"
proof (cases "sequence_file_path st = []")
  case True
  then show ?thesis
    using assms by (auto simp: validate_def loads_def)
next
  case False
  then show ?thesis
    using validate_returns [OF assms] by (simp add: returns_def)
qed

definition file_of :: "u8 list \<Rightarrow> seq_file" where
  "file_of data = \<lparr>sf_open = 0, sf_read = \<lambda>pos n. (0, take n (drop pos data)), sf_size = (0, length data),
     sf_position = \<lambda>pos. (0, pos)\<rparr>"

lemma holds_file_of [simp]: "holds_data (file_of data) data"
  by (simp add: holds_data_def file_of_def)

definition example_load :: "nat \<Rightarrow> fpy_state" where
  "example_load n = (example_state [])\<lparr>sequence_buffer := linear_buffer_new n, sequence_file_path := [97],
     seq_arg_specs := replicate MAX_SEQUENCE_ARG_COUNT
       \<lparr>arg_name = string_new MAX_ARG_SPEC_NAME_LEN, type_name = string_new MAX_ARG_SPEC_NAME_LEN, arg_size = 0\<rparr>,
     fpy_statements := replicate MAX_SEQUENCE_STATEMENT_COUNT
       \<lparr>stmt_op_code = DirectiveId_Invalid, stmt_arg_buf = linear_buffer_new FW_STATEMENT_ARG_BUFFER_MAX_SIZE\<rparr>,
     args_size := 4\<rparr>"

lemma example_load_wf [simp]: "wf_load (example_load n)"
  by (simp add: wf_load_def example_load_def statements_ok_def)

text \<open>One argument of four bytes, two statements and a trailing byte.\<close>

definition example_args :: "arg_data list" where "example_args = [([120], [85, 51, 50], 4)]"
definition example_stmts :: "stmt_data list" where "example_stmts = [(DirectiveId_NoOp, []), (DirectiveId_Goto, [0, 0, 0, 2])]"

definition example_body :: "u8 list" where
  "example_body = concat (map arg_enc example_args) @ concat (map data_enc example_stmts) @ [0]"

definition example_header :: fpy_header where
  "example_header = \<lparr>major_version = 1, minor_version = 0, patch_version = 0, schema_version = 7, argument_count = 1,
     hdr_statement_count = 2, body_size = 23\<rparr>"

lemma example_loadable: "loadable (example_load 64) example_header example_args example_stmts example_body"
  by (simp add: loadable_def header_ok_def example_header_def example_args_def example_stmts_def example_body_def
      arg_enc_def data_enc_def arg_fits_def stmt_fits_def example_load_def example_state_def FW_STATEMENT_ARG_BUFFER_MAX_SIZE_def
      size_defs SCHEMA_VERSION_def MAX_SEQUENCE_ARG_COUNT_def MAX_SEQUENCE_STATEMENT_COUNT_def MAX_ARG_SPEC_NAME_LEN_def
      SEQUENCE_ARGUMENTS_MAX_SIZE_def)

text \<open>
  C17.  Validating a sequence file never panics and leaves the sequencer's runtime, counters and arguments alone.
  It succeeds only on a file that is a schema-7 header, a body of exactly the announced size and the CRC-32 of
  both, with nothing after it; then the argument and statement counts are within their limits, the argument sizes add
  up to the size of the arguments supplied (at most twelve bytes), and the body holds the encodings of the statements
  loaded, each with a known opcode and with arguments that fit their buffer.
\<close>

theorem validate_sound:
  assumes "holds_data f data" and "wf_load st"
  shows "\<exists>ok calls st'. validate f st = Some (ok, calls, st') \<and> wf_load st' \<and> kept st' = kept st \<and>
    (ok = Success_Success \<longrightarrow> valid_sequence st' data)"
  using validate_total [OF assms] by (auto simp: loads_def)

theorem validate_sound_witness:
  "\<exists>calls st'. validate (file_of (sequence_file example_header example_body)) (example_load 64) =
      Some (Success_Success, calls, st') \<and> valid_sequence st' (sequence_file example_header example_body)"
  using validate_sound [OF holds_file_of example_load_wf, of "sequence_file example_header example_body" 64]
    validate_complete [OF holds_file_of example_load_wf example_loadable example_body_def] by auto

text \<open>
  C7.  Every sequence file in the documented format is accepted: when the header's counts and body size are right, the
  names, opcodes and argument buffers fit, the body fits the sequence buffer and the argument sizes add up to the
  arguments supplied, validation reports nothing and loads exactly the header and the statements that were written,
  whatever bytes follow the last statement in the body.
\<close>

theorem sequence_file_roundtrip:
  assumes "wf_load st" and "loadable st h specs ds (concat (map arg_enc specs) @ concat (map data_enc ds) @ rest)"
    and "holds_data f (sequence_file h (concat (map arg_enc specs) @ concat (map data_enc ds) @ rest))"
  shows "\<exists>st'. validate f st = Some (Success_Success, [], st') \<and> seq_header st' = h \<and>
    map data_of (take (unat (statement_count st')) (fpy_statements st')) = ds \<and> wf_load st' \<and> kept st' = kept st"
proof -
  obtain st' where st': "validate f st = Some (Success_Success, [], st')" "seq_header st' = h"
      "map data_of (take (length ds) (fpy_statements st')) = ds"
    using validate_complete [OF assms(3,1,2) refl] by blast
  moreover have "unat (hdr_statement_count h) = length ds"
    using assms(2) by (simp add: loadable_def)
  moreover have "loads st st'"
    using validate_total [OF assms(3,1)] st'(1) by simp
  ultimately show ?thesis
    by (auto simp: loads_def)
qed

theorem sequence_file_roundtrip_witness:
  "\<exists>st'. validate (file_of (sequence_file example_header example_body)) (example_load 64) =
      Some (Success_Success, [], st') \<and> seq_header st' = example_header \<and>
    map data_of (take 2 (fpy_statements st')) = example_stmts"
  using sequence_file_roundtrip [OF example_load_wf example_loadable [unfolded example_body_def], of
      "file_of (sequence_file example_header example_body)"]
  by (auto simp: example_body_def example_header_def)

text \<open>Two validated files that differ in one burst differ outside header, body and CRC.\<close>

lemma valid_sequence_crc: "valid_sequence st data \<Longrightarrow> \<exists>c. data = c @ to_be_bytes (hash_u32 c)"
  unfolding valid_sequence_def by (metis append.assoc)

lemma burst_changes_hash:
  assumes "length as = length bs" and "length as \<le> 4" and "as \<noteq> bs"
  shows "hash_u32 (xs @ as @ ys) \<noteq> hash_u32 (xs @ bs @ ys)"
  using crc32.burst_detected assms unfolding hash_u32_eq bit.compl_eq_compl_iff by blast

lemma burst_not_crc:
  assumes d1: "xs @ as @ ys = c1 @ to_be_bytes (hash_u32 c1)" and d2: "xs @ bs @ ys = c2 @ to_be_bytes (hash_u32 c2)"
    and len: "length as = length bs" "length as \<le> 4"
    and at: "4 \<le> length ys \<or> length xs + 4 = length (xs @ as @ ys)"
  shows "as = bs"
proof (rule ccontr)
  assume ne: "as \<noteq> bs"
  have l: "length (xs @ as @ ys) = length c1 + 4" "length c1 = length c2"
    using arg_cong [OF d1, of length] arg_cong [OF d2, of length] len by simp_all
  show False
  proof (cases "4 \<le> length ys")
    case True
    define y1 y2 where "y1 = take (length ys - 4) ys" and "y2 = drop (length ys - 4) ys"
    have ys: "ys = y1 @ y2" "length y2 = 4"
      using True by (simp_all add: y1_def y2_def)
    have ends: "u = c \<and> y2 = to_be_bytes (hash_u32 c)" if "u @ y2 = c @ to_be_bytes (hash_u32 c)" for u c
      using that ys(2) append_eq_append_conv [of y2 "to_be_bytes (hash_u32 c)" u c] by simp
    have "xs @ as @ y1 = c1" "y2 = to_be_bytes (hash_u32 c1)" "xs @ bs @ y1 = c2" "y2 = to_be_bytes (hash_u32 c2)"
      using ends [of "xs @ as @ y1" c1] ends [of "xs @ bs @ y1" c2] d1 d2 by (simp_all add: ys(1))
    then have "hash_u32 (xs @ as @ y1) = hash_u32 (xs @ bs @ y1)"
      by (simp add: to_be_bytes_inject)
    then show False
      using burst_changes_hash [OF len ne] by blast
  next
    case False
    then have "length xs = length c1" "length xs = length c2"
      using at l by simp_all
    then have "as @ ys = bs @ ys"
      using d1 d2 by simp
    then show False
      using ne by simp
  qed
qed

text \<open>
  C14.  Corruption is caught: once a file validates, no file that differs from it in up to four consecutive bytes of
  the header or the body, or in its CRC, validates, whatever the state of the sequencer that reads it.
\<close>

theorem corrupted_sequence_rejected:
  assumes "validate f st = Some (Success_Success, calls, st')" and "holds_data f (xs @ as @ ys)" and "wf_load st"
    and "length as = length bs" and "length as \<le> 4" and "as \<noteq> bs"
    and "4 \<le> length ys \<or> length xs + 4 = length (xs @ as @ ys)"
    and "holds_data g (xs @ bs @ ys)" and "wf_load t"
  shows "\<exists>calls' t'. validate g t = Some (Success_Failure, calls', t')"
proof -
  have "valid_sequence st' (xs @ as @ ys)"
    using validate_total [OF assms(2,3)] assms(1) by simp
  then obtain c1 where c1: "xs @ as @ ys = c1 @ to_be_bytes (hash_u32 c1)"
    using valid_sequence_crc by blast
  obtain ok calls' t' where v: "validate g t = Some (ok, calls', t')" "ok = Success_Success \<longrightarrow> valid_sequence t' (xs @ bs @ ys)"
    using validate_total [OF assms(8,9)] by blast
  have "ok \<noteq> Success_Success"
  proof
    assume "ok = Success_Success"
    then obtain c2 where "xs @ bs @ ys = c2 @ to_be_bytes (hash_u32 c2)"
      using v(2) valid_sequence_crc by blast
    from burst_not_crc [OF c1 this assms(4,5,7)] assms(6) show False
      by blast
  qed
  then have "ok = Success_Failure"
    by (cases ok) simp_all
  with v(1) show ?thesis
    by blast
qed

theorem corrupted_sequence_rejected_witness:
  "\<exists>calls' t'. validate (file_of ([2] @ drop 1 (sequence_file example_header example_body))) (example_load 64) =
    Some (Success_Failure, calls', t')"
proof -
  obtain st' where ok: "validate (file_of (sequence_file example_header example_body)) (example_load 64) =
      Some (Success_Success, [], st')"
    using validate_complete [OF holds_file_of example_load_wf example_loadable example_body_def] by blast
  have split: "sequence_file example_header example_body = [] @ [1] @ drop 1 (sequence_file example_header example_body)"
    by (simp add: sequence_file_def Let_def struct_enc_def header_members_def example_header_def to_bytes_def to_be_bytes_def
        to_le_bytes_def)
  have "4 \<le> length (drop 1 (sequence_file example_header example_body))"
    by (simp add: sequence_file_def Let_def)
  then show ?thesis
    using corrupted_sequence_rejected [OF ok, of "[]" "[1]" "drop 1 (sequence_file example_header example_body)" "[2]"
        "file_of ([2] @ drop 1 (sequence_file example_header example_body))" "example_load 64"]
    using split holds_file_of by simp
qed

end
