(* ===== verification/Fpy_Seq.thy ===== *)
theory Fpy_Seq
  imports Fpy_Validate Svc_CmdDispatcher
begin

text \<open>
  The Fpy sequencer as a component (\<open>fprime-svc/src/fpy_sequencer/mod.rs\<close>): its state machine with actions and guards,
  the command and port handlers, and the queue that feeds them.  A handler returns the messages it puts into the
  component's own queue, the calls and events it makes and the new state; \<open>None\<close> is a failed assertion.  The queue is
  a list of at most \<open>depth\<close> messages in order of arrival, from which the oldest message of the highest priority is taken.  The
  parameter commands, which run on the caller's thread, and the telemetry are not modelled.
\<close>

unbundle bit_operations_syntax

section \<open>States, messages and environment\<close>

datatype (plugins only: code size) State =
    AWAITING_CMD_RUN_VALIDATED | IDLE | RUNNING_AWAITING_STATEMENT_RESPONSE | RUNNING_DISPATCH_STATEMENT
  | RUNNING_PAUSED | RUNNING_SLEEPING | VALIDATING

fun State_repr :: "State \<Rightarrow> nat" where
  "State_repr AWAITING_CMD_RUN_VALIDATED = 1"
| "State_repr IDLE = 2"
| "State_repr RUNNING_AWAITING_STATEMENT_RESPONSE = 3"
| "State_repr RUNNING_DISPATCH_STATEMENT = 4"
| "State_repr RUNNING_PAUSED = 5"
| "State_repr RUNNING_SLEEPING = 6"
| "State_repr VALIDATING = 7"

datatype BlockState = Block | NoBlock

datatype GoalState = Goal_Running | Goal_Valid | Goal_Idle

record exec_args =
  file_path :: "u8 list"
  block :: BlockState
  ea_size :: nat
  ea_buffer :: "u8 list"

record breakpoint_args =
  break_on_breakpoint :: bool
  ba_only_once :: bool
  ba_index :: u32

record breakpoint_info =
  breakpoint_in_use :: bool
  break_only_once_on_breakpoint :: bool
  breakpoint_index :: u32
  break_before_next_line :: bool

definition no_breakpoint :: breakpoint_info where
  "no_breakpoint = \<lparr>breakpoint_in_use = False, break_only_once_on_breakpoint = False, breakpoint_index = 0,
     break_before_next_line = False\<rparr>"

text \<open>The value a signal carries.\<close>

datatype sig_value = NoValue | ArgsValue exec_args | BreakValue breakpoint_args

datatype (plugins only: code size) seq_msg =
    M_CmdResponse u32 u32 CmdResponse
  | M_Ping u32
  | M_CheckTimers
  | M_SeqRun "u8 list" nat "u8 list"
  | M_SeqCancel
  | M_Cmd u32 u32 ser_buf
  | M_Directive DirectiveUnion
  | M_Signal Signal sig_value

record sequencer =
  sq_fpy :: fpy_state
  sq_state :: State
  sequence_block_state :: BlockState
  saved_op_code :: u32
  saved_cmd_seq :: u32
  goal_state :: GoalState
  breakpoint :: breakpoint_info
  sequences_succeeded :: u64
  sequences_cancelled :: u64

text \<open>
  \<open>se_open_write\<close> is the status of opening a file for writing, \<open>se_write\<close> that of the write and the number of bytes
  written; the two ports may be unconnected.
\<close>

record seq_env =
  se_fpy :: fpy_env
  se_timeout :: "nat option"
  se_base_dir :: "u8 list"
  se_file :: "u8 list \<Rightarrow> seq_file"
  se_open_write :: "u8 list \<Rightarrow> nat"
  se_write :: "u8 list \<Rightarrow> u8 list \<Rightarrow> nat \<times> nat"
  se_start_connected :: bool
  se_done_connected :: bool

type_synonym effect = "(seq_msg list \<times> fpy_call list \<times> sequencer) option"

definition eff_then :: "effect \<Rightarrow> (sequencer \<Rightarrow> effect) \<Rightarrow> effect" where
  "eff_then e k = do { (m, c, s) \<leftarrow> e; (m', c', s) \<leftarrow> k s; Some (m @ m', c @ c', s) }"

abbreviation quiet :: "sequencer \<Rightarrow> effect" where "quiet s \<equiv> Some ([], [], s)"
abbreviation sends :: "Signal \<Rightarrow> sig_value \<Rightarrow> fpy_call list \<Rightarrow> sequencer \<Rightarrow> effect" where
  "sends sig v calls s \<equiv> Some ([M_Signal sig v], calls, s)"

definition is_running_state :: "State \<Rightarrow> bool" where
  "is_running_state s \<longleftrightarrow>
     s \<in> {RUNNING_AWAITING_STATEMENT_RESPONSE, RUNNING_DISPATCH_STATEMENT, RUNNING_PAUSED, RUNNING_SLEEPING}"

section \<open>Actions and guards\<close>

definition FILE_NAME_STRING_SIZE :: nat where "FILE_NAME_STRING_SIZE = 240"

definition NO_SEQ :: "u8 list" where "NO_SEQ = [60, 110, 111, 32, 115, 101, 113, 62]"

definition on_fpy :: "(fpy_state \<Rightarrow> fpy_state) \<Rightarrow> sequencer \<Rightarrow> sequencer" where
  "on_fpy f s = s\<lparr>sq_fpy := f (sq_fpy s)\<rparr>"

definition runtime_reset :: "runtime \<Rightarrow> runtime option" where
  "runtime_reset rt =
     do { rng \<leftarrow> rng_new;
          Some (rt\<lparr>next_statement_index := 0, current_statement_opcode := DirectiveId_Invalid, current_cmd_opcode := 0,
            current_statement_dispatch_time := ZERO_TIME,
            rt_wakeup := \<lparr>wk_base = 0, wk_context = 0, wk_seconds = 0, wk_useconds = 0\<rparr>,
            rt_rng := rng, rng_seeded := False, rt_stack := stack_reset (rt_stack rt)\<rparr>) }"

definition action_setSequenceFilePath :: "seq_env \<Rightarrow> exec_args \<Rightarrow> sequencer \<Rightarrow> effect" where
  "action_setSequenceFilePath env value s =
     (if se_base_dir env = [] then quiet (on_fpy (\<lambda>st. st\<lparr>sequence_file_path := file_path value\<rparr>) s)
      else
        let needed = length (se_base_dir env) + 1 + length (file_path value);
            s = on_fpy (\<lambda>st. st\<lparr>sequence_file_path :=
              take FILE_NAME_STRING_SIZE (se_base_dir env @ [47] @ file_path value)\<rparr>) s
        in if needed > FILE_NAME_STRING_SIZE
           then Some ([], [Ev_SequenceFilePathTooLong (se_base_dir env) (file_path value)], s) else quiet s)"

definition action_validate :: "seq_env \<Rightarrow> sequencer \<Rightarrow> effect" where
  "action_validate env s =
     do { (ok, calls, st) \<leftarrow> validate (se_file env (sequence_file_path (sq_fpy s))) (sq_fpy s);
          sends (if ok = Success_Failure then result_failure else result_success) NoValue calls (s\<lparr>sq_fpy := st\<rparr>) }"

definition seq_done :: "seq_env \<Rightarrow> CmdResponse \<Rightarrow> fpy_call list" where
  "seq_done env r = (if se_done_connected env then [SeqDoneOut r] else [])"

definition action_report_seqSucceeded :: "seq_env \<Rightarrow> sequencer \<Rightarrow> effect" where
  "action_report_seqSucceeded env s =
     do { n \<leftarrow> cadd (sequences_succeeded s) 1;
          Some ([], Ev_SequenceDone (sequence_file_path (sq_fpy s)) # seq_done env CmdResponse_Ok,
            on_fpy (\<lambda>st. st\<lparr>sequence_file_path := NO_SEQ\<rparr>) (s\<lparr>sequences_succeeded := n\<rparr>)) }"

definition action_report_seqCancelled :: "seq_env \<Rightarrow> sequencer \<Rightarrow> effect" where
  "action_report_seqCancelled env s =
     do { n \<leftarrow> cadd (sequences_cancelled s) 1;
          Some ([], Ev_SequenceCancelled (sequence_file_path (sq_fpy s)) # seq_done env CmdResponse_ExecutionError,
            s\<lparr>sequences_cancelled := n\<rparr>) }"

definition action_report_seqStarted :: "seq_env \<Rightarrow> sequencer \<Rightarrow> effect" where
  "action_report_seqStarted env s =
     Some ([], if se_start_connected env
       then [SeqStartOut (sequence_file_path (sq_fpy s)) (args_size (sq_fpy s)) (args_buffer (sq_fpy s))] else [], s)"

definition send_cmd_response :: "CmdResponse \<Rightarrow> sequencer \<Rightarrow> effect" where
  "send_cmd_response r s =
     Some ([], if sequence_block_state s = Block then [CmdResponseOut (saved_op_code s) (saved_cmd_seq s) r] else [], s)"

definition action_checkShouldWake :: "seq_env \<Rightarrow> sequencer \<Rightarrow> effect" where
  "action_checkShouldWake env s =
     do { let (result, calls) = check_should_wake (se_fpy env) (sq_fpy s);
          fw_assert (result \<in> {result_checkShouldWake_keepSleeping, result_checkShouldWake_wakeup, result_timeOpFailed});
          sends result NoValue calls s }"

definition action_dispatchStatement :: "seq_env \<Rightarrow> sequencer \<Rightarrow> effect" where
  "action_dispatchStatement env s =
     do { (result, d, calls, st) \<leftarrow> dispatch_statement (se_fpy env) (sq_fpy s);
          fw_assert (result \<in> {result_dispatchStatement_noMoreStatements, result_dispatchStatement_success,
            result_dispatchStatement_failure});
          Some ((case d of None \<Rightarrow> [] | Some d \<Rightarrow> [M_Directive d]) @ [M_Signal result NoValue], calls, s\<lparr>sq_fpy := st\<rparr>) }"

definition action_resetRuntime :: "sequencer \<Rightarrow> effect" where
  "action_resetRuntime s =
     do { rt \<leftarrow> runtime_reset (fpy_runtime (sq_fpy s));
          quiet (on_fpy (\<lambda>st. st\<lparr>fpy_runtime := rt\<rparr>) s) }"

definition action_checkStatementTimeout :: "seq_env \<Rightarrow> sequencer \<Rightarrow> effect" where
  "action_checkStatementTimeout env s =
     do { (result, calls) \<leftarrow> check_statement_timeout (se_timeout env) (se_fpy env) (sq_fpy s);
          fw_assert (result \<in> {result_checkStatementTimeout_noTimeout, result_checkStatementTimeout_statementTimeout,
            result_timeOpFailed});
          sends result NoValue calls s }"

definition action_incrementSequenceCounter :: "sequencer \<Rightarrow> effect" where
  "action_incrementSequenceCounter s =
     do { n \<leftarrow> cadd (sequences_started (sq_fpy s)) 1;
          quiet (on_fpy (\<lambda>st. st\<lparr>sequences_started := n\<rparr>) s) }"

definition action_pushArgsToStack :: "sequencer \<Rightarrow> effect" where
  "action_pushArgsToStack s =
     (let n = args_size (sq_fpy s) in
      if n = 0 then quiet s
      else do {
        fw_assert (n \<le> length (args_buffer (sq_fpy s)));
        bs \<leftarrow> slice (args_buffer (sq_fpy s)) 0 n;
        stack \<leftarrow> push_bytes bs (stack_of (sq_fpy s));
        quiet (on_fpy (set_stack stack) s) })"

definition action_setBreakpoint :: "breakpoint_args \<Rightarrow> sequencer \<Rightarrow> effect" where
  "action_setBreakpoint value s =
     Some ([], [Ev_BreakpointSet (ba_index value) (ba_only_once value)],
       s\<lparr>breakpoint := (breakpoint s)\<lparr>breakpoint_in_use := break_on_breakpoint value,
         break_only_once_on_breakpoint := ba_only_once value, breakpoint_index := ba_index value\<rparr>\<rparr>)"

definition guard_shouldBreak :: "sequencer \<Rightarrow> bool" where
  "guard_shouldBreak s \<longleftrightarrow>
     break_before_next_line (breakpoint s) \<or>
     breakpoint_in_use (breakpoint s) \<and>
       breakpoint_index (breakpoint s) = next_statement_index (fpy_runtime (sq_fpy s))"

datatype (plugins only: code size) action =
    signalEntered | setSequenceFilePath | setSequenceBlockState | setSequenceArguments | do_validate
  | report_seqSucceeded | report_seqCancelled | report_seqFailed | report_seqStarted
  | setGoalState_RUNNING | setGoalState_VALID | setGoalState_IDLE
  | sendCmdResponse_OK | sendCmdResponse_EXECUTION_ERROR
  | clearSequenceFile | clearBreakpoint | clearSequenceArguments
  | do_checkShouldWake | dispatchStatement | resetRuntime | do_checkStatementTimeout | incrementSequenceCounter
  | pushArgsToStack | report_seqBroken | setBreakpoint | setBreakBeforeNextLine | clearBreakBeforeNextLine

text \<open>An action on a value runs only in a transition whose signal carries one.\<close>

definition with_args :: "sig_value \<Rightarrow> (exec_args \<Rightarrow> effect) \<Rightarrow> effect" where
  "with_args v k = (case v of ArgsValue a \<Rightarrow> k a | _ \<Rightarrow> None)"

primrec run_action :: "seq_env \<Rightarrow> sig_value \<Rightarrow> action \<Rightarrow> sequencer \<Rightarrow> effect" where
  "run_action env v signalEntered = sends signal_entered NoValue []"
| "run_action env v setSequenceFilePath = (\<lambda>s. with_args v (\<lambda>a. action_setSequenceFilePath env a s))"
| "run_action env v setSequenceBlockState = (\<lambda>s. with_args v (\<lambda>a. quiet (s\<lparr>sequence_block_state := block a\<rparr>)))"
| "run_action env v setSequenceArguments = (\<lambda>s. with_args v (\<lambda>a.
     quiet (on_fpy (\<lambda>st. st\<lparr>args_size := ea_size a, args_buffer := ea_buffer a\<rparr>) s)))"
| "run_action env v do_validate = action_validate env"
| "run_action env v report_seqSucceeded = action_report_seqSucceeded env"
| "run_action env v report_seqCancelled = action_report_seqCancelled env"
| "run_action env v report_seqFailed = (\<lambda>s. Some ([], seq_done env CmdResponse_ExecutionError, s))"
| "run_action env v report_seqStarted = action_report_seqStarted env"
| "run_action env v setGoalState_RUNNING = (\<lambda>s. quiet (s\<lparr>goal_state := Goal_Running\<rparr>))"
| "run_action env v setGoalState_VALID = (\<lambda>s. quiet (s\<lparr>goal_state := Goal_Valid\<rparr>))"
| "run_action env v setGoalState_IDLE = (\<lambda>s. quiet (s\<lparr>goal_state := Goal_Idle\<rparr>))"
| "run_action env v sendCmdResponse_OK = send_cmd_response CmdResponse_Ok"
| "run_action env v sendCmdResponse_EXECUTION_ERROR = send_cmd_response CmdResponse_ExecutionError"
| "run_action env v clearSequenceFile = (\<lambda>s. quiet (on_fpy (\<lambda>st. st\<lparr>sequence_file_path := []\<rparr>) s))"
| "run_action env v clearBreakpoint = (\<lambda>s. quiet (s\<lparr>breakpoint := no_breakpoint\<rparr>))"
| "run_action env v clearSequenceArguments =
     (\<lambda>s. quiet (on_fpy (\<lambda>st. st\<lparr>args_size := 0, args_buffer := replicate SEQUENCE_ARGUMENTS_MAX_SIZE 0\<rparr>) s))"
| "run_action env v do_checkShouldWake = action_checkShouldWake env"
| "run_action env v dispatchStatement = action_dispatchStatement env"
| "run_action env v resetRuntime = action_resetRuntime"
| "run_action env v do_checkStatementTimeout = action_checkStatementTimeout env"
| "run_action env v incrementSequenceCounter = action_incrementSequenceCounter"
| "run_action env v pushArgsToStack = action_pushArgsToStack"
| "run_action env v report_seqBroken =
     (\<lambda>s. Some ([], [Ev_SequencePaused (next_statement_index (fpy_runtime (sq_fpy s)))], s))"
| "run_action env v setBreakpoint = (\<lambda>s. case v of BreakValue b \<Rightarrow> action_setBreakpoint b s | _ \<Rightarrow> None)"
| "run_action env v setBreakBeforeNextLine =
     (\<lambda>s. quiet (s\<lparr>breakpoint := (breakpoint s)\<lparr>break_before_next_line := True\<rparr>\<rparr>))"
| "run_action env v clearBreakBeforeNextLine =
     (\<lambda>s. quiet (s\<lparr>breakpoint := (breakpoint s)\<lparr>break_before_next_line := False\<rparr>\<rparr>))"

fun run_actions :: "seq_env \<Rightarrow> sig_value \<Rightarrow> action list \<Rightarrow> sequencer \<Rightarrow> effect" where
  "run_actions env v [] s = quiet s"
| "run_actions env v (a # as) s = eff_then (run_action env v a s) (run_actions env v as)"

section \<open>The state machine\<close>

text \<open>What a transition can enter: a leaf state, the composite state \<open>RUNNING\<close>, or one of the two choices.\<close>

datatype node = Leaf State | RUNNING | VALID | RUNNING_BREAK_CHECK

primrec entry_actions :: "State \<Rightarrow> action list" where
  "entry_actions AWAITING_CMD_RUN_VALIDATED = [sendCmdResponse_OK]"
| "entry_actions IDLE = [clearBreakpoint, setGoalState_IDLE, clearSequenceFile, clearSequenceArguments]"
| "entry_actions RUNNING_AWAITING_STATEMENT_RESPONSE = []"
| "entry_actions RUNNING_DISPATCH_STATEMENT = [dispatchStatement]"
| "entry_actions RUNNING_PAUSED = [signalEntered, clearBreakBeforeNextLine]"
| "entry_actions RUNNING_SLEEPING = []"
| "entry_actions VALIDATING = [report_seqStarted, signalEntered]"

definition enter_leaf :: "seq_env \<Rightarrow> State \<Rightarrow> sequencer \<Rightarrow> effect" where
  "enter_leaf env l s =
     eff_then (run_actions env NoValue (entry_actions l) s) (\<lambda>s. quiet (s\<lparr>sq_state := l\<rparr>))"

definition enter_break_check :: "seq_env \<Rightarrow> sequencer \<Rightarrow> effect" where
  "enter_break_check env s =
     (if guard_shouldBreak s
      then eff_then (run_action env NoValue report_seqBroken s) (enter_leaf env RUNNING_PAUSED)
      else enter_leaf env RUNNING_DISPATCH_STATEMENT s)"

definition enter_running :: "seq_env \<Rightarrow> sequencer \<Rightarrow> effect" where
  "enter_running env s =
     eff_then (run_actions env NoValue [resetRuntime, incrementSequenceCounter, pushArgsToStack] s) (enter_break_check env)"

definition enter_valid :: "seq_env \<Rightarrow> sequencer \<Rightarrow> effect" where
  "enter_valid env s =
     (if goal_state s = Goal_Running then enter_running env s else enter_leaf env AWAITING_CMD_RUN_VALIDATED s)"

primrec enter_node :: "seq_env \<Rightarrow> node \<Rightarrow> sequencer \<Rightarrow> effect" where
  "enter_node env (Leaf l) = enter_leaf env l"
| "enter_node env RUNNING = enter_running env"
| "enter_node env VALID = enter_valid env"
| "enter_node env RUNNING_BREAK_CHECK = enter_break_check env"

text \<open>The transition of a signal in a state: the actions and what is entered; \<open>None\<close> where the signal is ignored.\<close>

abbreviation (input) fails :: "(action list \<times> node option) option" where
  "fails \<equiv> Some ([report_seqFailed, sendCmdResponse_EXECUTION_ERROR], Some (Leaf IDLE))"

definition transition :: "Signal \<Rightarrow> sequencer \<Rightarrow> (action list \<times> node option) option" where
  "transition sig s =
     (let state = sq_state s; awaiting = state = RUNNING_AWAITING_STATEMENT_RESPONSE; sleeping = state = RUNNING_SLEEPING;
          dispatching = state = RUNNING_DISPATCH_STATEMENT; paused = state = RUNNING_PAUSED;
          running = is_running_state state; any_state = (\<lambda>a. Some ([a], None :: node option))
      in case sig of
        checkTimersIn \<Rightarrow>
          if awaiting then Some ([do_checkStatementTimeout], None)
          else if sleeping then Some ([do_checkShouldWake, do_checkStatementTimeout], None) else None
      | cmd_BREAK \<Rightarrow> if running then Some ([setBreakBeforeNextLine], None) else None
      | cmd_CANCEL \<Rightarrow>
          if state = VALIDATING \<or> running
          then Some ([report_seqCancelled, sendCmdResponse_EXECUTION_ERROR], Some (Leaf IDLE))
          else if state = AWAITING_CMD_RUN_VALIDATED then Some ([report_seqCancelled], Some (Leaf IDLE)) else None
      | cmd_CLEAR_BREAKPOINT \<Rightarrow> any_state clearBreakpoint
      | cmd_CONTINUE \<Rightarrow> if paused then Some ([], Some (Leaf RUNNING_DISPATCH_STATEMENT)) else None
      | cmd_RUN \<Rightarrow>
          if state = IDLE
          then Some ([setGoalState_RUNNING, setSequenceFilePath, setSequenceBlockState, setSequenceArguments],
            Some (Leaf VALIDATING)) else None
      | cmd_RUN_VALIDATED \<Rightarrow>
          if state = AWAITING_CMD_RUN_VALIDATED then Some ([setSequenceBlockState], Some RUNNING) else None
      | cmd_SET_BREAKPOINT \<Rightarrow> any_state setBreakpoint
      | cmd_STEP \<Rightarrow> if paused then Some ([setBreakBeforeNextLine], Some (Leaf RUNNING_DISPATCH_STATEMENT)) else None
      | cmd_VALIDATE \<Rightarrow>
          if state = IDLE
          then Some ([setGoalState_VALID, setSequenceFilePath, setSequenceArguments], Some (Leaf VALIDATING)) else None
      | signal_entered \<Rightarrow>
          if state = VALIDATING then Some ([do_validate], None)
          else if paused \<and> break_only_once_on_breakpoint (breakpoint s) then Some ([clearBreakpoint], None) else None
      | result_checkShouldWake_keepSleeping \<Rightarrow> None
      | result_checkShouldWake_wakeup \<Rightarrow> if sleeping then Some ([], Some RUNNING_BREAK_CHECK) else None
      | result_checkStatementTimeout_noTimeout \<Rightarrow> None
      | result_checkStatementTimeout_statementTimeout \<Rightarrow> if awaiting \<or> sleeping then fails else None
      | result_dispatchStatement_failure \<Rightarrow> if dispatching then fails else None
      | result_dispatchStatement_noMoreStatements \<Rightarrow>
          if dispatching then Some ([report_seqSucceeded, sendCmdResponse_OK], Some (Leaf IDLE)) else None
      | result_dispatchStatement_success \<Rightarrow>
          if dispatching then Some ([], Some (Leaf RUNNING_AWAITING_STATEMENT_RESPONSE)) else None
      | result_failure \<Rightarrow> if state = VALIDATING then fails else None
      | result_success \<Rightarrow> if state = VALIDATING then Some ([], Some VALID) else None
      | result_timeOpFailed \<Rightarrow> if awaiting \<or> sleeping then fails else None
      | stmtResponse_beginSleep \<Rightarrow> if awaiting then Some ([], Some (Leaf RUNNING_SLEEPING)) else None
      | stmtResponse_failure \<Rightarrow> if awaiting then fails else None
      | stmtResponse_keepWaiting \<Rightarrow> None
      | stmtResponse_success \<Rightarrow> if awaiting then Some ([], Some RUNNING_BREAK_CHECK) else None
      | stmtResponse_unexpected \<Rightarrow> if running then fails else None)"

definition dispatch_signal :: "seq_env \<Rightarrow> Signal \<Rightarrow> sig_value \<Rightarrow> sequencer \<Rightarrow> effect" where
  "dispatch_signal env sig v s =
     (case transition sig s of
        None \<Rightarrow> quiet s
      | Some (acts, None) \<Rightarrow> run_actions env v acts s
      | Some (acts, Some n) \<Rightarrow> eff_then (run_actions env v acts s) (enter_node env n))"

section \<open>Commands\<close>

definition reject_command :: "u32 \<Rightarrow> u32 \<Rightarrow> sequencer \<Rightarrow> effect" where
  "reject_command op_code cmd_seq s =
     Some ([], [Ev_InvalidCommand (State_repr (sq_state s)), CmdResponseOut op_code cmd_seq CmdResponse_ExecutionError], s)"

definition run_args_cmd_handler ::
  "u32 \<Rightarrow> u32 \<Rightarrow> u8 list \<Rightarrow> BlockState \<Rightarrow> nat \<times> u8 list \<Rightarrow> sequencer \<Rightarrow> effect" where
  "run_args_cmd_handler op_code cmd_seq file_name blk args s =
     (if sq_state s \<noteq> IDLE then reject_command op_code cmd_seq s
      else sends cmd_RUN
        (ArgsValue \<lparr>file_path = take FILE_NAME_STRING_SIZE file_name, block = blk, ea_size = fst args, ea_buffer = snd args\<rparr>)
        (if blk = NoBlock then [CmdResponseOut op_code cmd_seq CmdResponse_Ok] else [])
        (if blk = Block then s\<lparr>saved_op_code := op_code, saved_cmd_seq := cmd_seq\<rparr> else s))"

definition validate_args_cmd_handler :: "u32 \<Rightarrow> u32 \<Rightarrow> u8 list \<Rightarrow> nat \<times> u8 list \<Rightarrow> sequencer \<Rightarrow> effect" where
  "validate_args_cmd_handler op_code cmd_seq file_name args s =
     (if sq_state s \<noteq> IDLE then reject_command op_code cmd_seq s
      else sends cmd_VALIDATE
        (ArgsValue \<lparr>file_path = take FILE_NAME_STRING_SIZE file_name, block = Block, ea_size = fst args, ea_buffer = snd args\<rparr>)
        [] (s\<lparr>saved_op_code := op_code, saved_cmd_seq := cmd_seq\<rparr>))"

definition run_validated_cmd_handler :: "u32 \<Rightarrow> u32 \<Rightarrow> BlockState \<Rightarrow> sequencer \<Rightarrow> effect" where
  "run_validated_cmd_handler op_code cmd_seq blk s =
     (if sq_state s \<noteq> AWAITING_CMD_RUN_VALIDATED then reject_command op_code cmd_seq s
      else sends cmd_RUN_VALIDATED
        (ArgsValue \<lparr>file_path = sequence_file_path (sq_fpy s), block = blk, ea_size = args_size (sq_fpy s),
           ea_buffer = args_buffer (sq_fpy s)\<rparr>)
        (if blk = NoBlock then [CmdResponseOut op_code cmd_seq CmdResponse_Ok] else [])
        (if blk = Block then s\<lparr>saved_op_code := op_code, saved_cmd_seq := cmd_seq\<rparr> else s))"

definition cancel_cmd_handler :: "u32 \<Rightarrow> u32 \<Rightarrow> sequencer \<Rightarrow> effect" where
  "cancel_cmd_handler op_code cmd_seq s =
     (if sq_state s = IDLE then reject_command op_code cmd_seq s
      else sends cmd_CANCEL NoValue [CmdResponseOut op_code cmd_seq CmdResponse_Ok] s)"

definition set_breakpoint_cmd_handler :: "u32 \<Rightarrow> u32 \<Rightarrow> u32 \<Rightarrow> bool \<Rightarrow> sequencer \<Rightarrow> effect" where
  "set_breakpoint_cmd_handler op_code cmd_seq stmt_idx break_once s =
     sends cmd_SET_BREAKPOINT
       (BreakValue \<lparr>break_on_breakpoint = True, ba_only_once = break_once, ba_index = stmt_idx\<rparr>)
       [CmdResponseOut op_code cmd_seq CmdResponse_Ok] s"

definition break_cmd_handler :: "u32 \<Rightarrow> u32 \<Rightarrow> sequencer \<Rightarrow> effect" where
  "break_cmd_handler op_code cmd_seq s =
     (if \<not> is_running_state (sq_state s) \<or> sq_state s = RUNNING_PAUSED then reject_command op_code cmd_seq s
      else sends cmd_BREAK NoValue [CmdResponseOut op_code cmd_seq CmdResponse_Ok] s)"

definition continue_cmd_handler :: "u32 \<Rightarrow> u32 \<Rightarrow> sequencer \<Rightarrow> effect" where
  "continue_cmd_handler op_code cmd_seq s =
     (if sq_state s \<noteq> RUNNING_PAUSED then reject_command op_code cmd_seq s
      else sends cmd_CONTINUE NoValue [CmdResponseOut op_code cmd_seq CmdResponse_Ok] s)"

definition clear_breakpoint_cmd_handler :: "u32 \<Rightarrow> u32 \<Rightarrow> sequencer \<Rightarrow> effect" where
  "clear_breakpoint_cmd_handler op_code cmd_seq s =
     sends cmd_CLEAR_BREAKPOINT NoValue [Ev_BreakpointCleared, CmdResponseOut op_code cmd_seq CmdResponse_Ok] s"

definition step_cmd_handler :: "u32 \<Rightarrow> u32 \<Rightarrow> sequencer \<Rightarrow> effect" where
  "step_cmd_handler op_code cmd_seq s =
     (if sq_state s \<noteq> RUNNING_PAUSED then reject_command op_code cmd_seq s
      else sends cmd_STEP NoValue [CmdResponseOut op_code cmd_seq CmdResponse_Ok] s)"

definition dump_stack_to_file_cmd_handler :: "seq_env \<Rightarrow> u32 \<Rightarrow> u32 \<Rightarrow> u8 list \<Rightarrow> sequencer \<Rightarrow> effect" where
  "dump_stack_to_file_cmd_handler env op_code cmd_seq file_name s =
     (if sq_state s \<noteq> RUNNING_PAUSED then reject_command op_code cmd_seq s
      else if se_open_write env file_name \<noteq> 0
      then Some ([], [Ev_FileOpenError file_name (se_open_write env file_name),
        CmdResponseOut op_code cmd_seq CmdResponse_ExecutionError], s)
      else do {
        let stack = stack_of (sq_fpy s);
        data \<leftarrow> slice (stk_bytes stack) 0 (stk_size stack);
        let (status, written) = se_write env file_name data;
        Some ([],
          if status \<noteq> 0 \<or> written \<noteq> stk_size stack
          then [Ev_FileWriteError written file_name status, CmdResponseOut op_code cmd_seq CmdResponse_ExecutionError]
          else [CmdResponseOut op_code cmd_seq CmdResponse_Ok], s) })"

text \<open>The local opcodes, and the arguments each command reads: a name, a block state, sequence arguments, a breakpoint.\<close>

abbreviation (input) OPCODE_RUN :: u32 where "OPCODE_RUN \<equiv> 0"
abbreviation (input) OPCODE_RUN_ARGS :: u32 where "OPCODE_RUN_ARGS \<equiv> 1"
abbreviation (input) OPCODE_VALIDATE :: u32 where "OPCODE_VALIDATE \<equiv> 2"
abbreviation (input) OPCODE_VALIDATE_ARGS :: u32 where "OPCODE_VALIDATE_ARGS \<equiv> 3"
abbreviation (input) OPCODE_RUN_VALIDATED :: u32 where "OPCODE_RUN_VALIDATED \<equiv> 4"
abbreviation (input) OPCODE_CANCEL :: u32 where "OPCODE_CANCEL \<equiv> 5"
abbreviation (input) OPCODE_SET_BREAKPOINT :: u32 where "OPCODE_SET_BREAKPOINT \<equiv> 6"
abbreviation (input) OPCODE_BREAK :: u32 where "OPCODE_BREAK \<equiv> 7"
abbreviation (input) OPCODE_CONTINUE :: u32 where "OPCODE_CONTINUE \<equiv> 8"
abbreviation (input) OPCODE_CLEAR_BREAKPOINT :: u32 where "OPCODE_CLEAR_BREAKPOINT \<equiv> 9"
abbreviation (input) OPCODE_STEP :: u32 where "OPCODE_STEP \<equiv> 10"
abbreviation (input) OPCODE_DUMP_STACK_TO_FILE :: u32 where "OPCODE_DUMP_STACK_TO_FILE \<equiv> 11"

definition read_name :: "bool \<Rightarrow> ser_buf \<Rightarrow> (SerializeStatus \<times> u8 list \<times> ser_buf) option" where
  "read_name wanted args =
     (if wanted then do { (status, n, args) \<leftarrow> string_deserialize_from (string_new FW_CMD_STRING_MAX_SIZE) args Big;
                          Some (status, text_of n, args) }
      else Some (Ok, [], args))"

definition read_raw_block :: "bool \<Rightarrow> ser_buf \<Rightarrow> (SerializeStatus \<times> u8 \<times> ser_buf) option" where
  "read_raw_block wanted args = (if wanted then deserialize_u8 args 0 Big else Some (Ok, 0, args))"

definition read_seq_args :: "bool \<Rightarrow> ser_buf \<Rightarrow> (SerializeStatus \<times> (nat \<times> u8 list) \<times> ser_buf) option" where
  "read_seq_args wanted args =
     (let none = (0, replicate SEQUENCE_ARGUMENTS_MAX_SIZE 0) in
      if wanted
      then fw_try (deserialize_u64 args 0 Big) (\<lambda>(_, args). (none, args)) (\<lambda>(n, args).
        do { (status, vs, args) \<leftarrow> deser_list (\<lambda>t b. prim_deserialize_from t b Big)
               (replicate SEQUENCE_ARGUMENTS_MAX_SIZE (PU8 0)) args;
             Some (status, if status = Ok then (unat n, map u8_member vs) else none, args) })
      else Some (Ok, none, args))"

definition read_breakpoint :: "bool \<Rightarrow> ser_buf \<Rightarrow> (SerializeStatus \<times> (u32 \<times> bool) \<times> ser_buf) option" where
  "read_breakpoint wanted args =
     (if wanted
      then fw_try (deserialize_u32 args 0 Big) (\<lambda>(i, args). ((i, False), args)) (\<lambda>(i, args).
        do { (status, once, args) \<leftarrow> deserialize_bool args False Big; Some (status, (i, once), args) })
      else Some (Ok, (0, False), args))"

definition cmd_in_handler :: "seq_env \<Rightarrow> u32 \<Rightarrow> u32 \<Rightarrow> u32 \<Rightarrow> ser_buf \<Rightarrow> sequencer \<Rightarrow> effect" where
  "cmd_in_handler env id_base op_code cmd_seq args s =
     (let respond = (\<lambda>r. Some ([], [CmdResponseOut op_code cmd_seq r], s)); local = op_code - id_base in
      do { (status, file_name, args) \<leftarrow> read_name (local \<in> {OPCODE_RUN, OPCODE_RUN_ARGS, OPCODE_VALIDATE,
             OPCODE_VALIDATE_ARGS, OPCODE_DUMP_STACK_TO_FILE}) args;
           if status \<noteq> Ok then respond CmdResponse_FormatError
           else do {
             (status, raw, args) \<leftarrow> read_raw_block (local \<in> {OPCODE_RUN, OPCODE_RUN_ARGS, OPCODE_RUN_VALIDATED}) args;
             if status \<noteq> Ok then respond CmdResponse_FormatError
             else if raw > 1 then respond CmdResponse_ValidationError
             else do {
               let blk = (if raw = 0 then Block else NoBlock);
               (status, seq_args, args) \<leftarrow> read_seq_args (local \<in> {OPCODE_RUN_ARGS, OPCODE_VALIDATE_ARGS}) args;
               if status \<noteq> Ok then respond CmdResponse_FormatError
               else do {
                 (status, (stmt_idx, break_once), args) \<leftarrow> read_breakpoint (local = OPCODE_SET_BREAKPOINT) args;
                 if status \<noteq> Ok then respond CmdResponse_FormatError
                 else do {
                 left \<leftarrow> deserialize_size_left args;
                 if left \<noteq> 0 then respond CmdResponse_FormatError
                 else if local = OPCODE_RUN \<or> local = OPCODE_RUN_ARGS
                 then run_args_cmd_handler op_code cmd_seq file_name blk seq_args s
                 else if local = OPCODE_VALIDATE \<or> local = OPCODE_VALIDATE_ARGS
                 then validate_args_cmd_handler op_code cmd_seq file_name seq_args s
                 else if local = OPCODE_RUN_VALIDATED then run_validated_cmd_handler op_code cmd_seq blk s
                 else if local = OPCODE_CANCEL then cancel_cmd_handler op_code cmd_seq s
                 else if local = OPCODE_SET_BREAKPOINT then set_breakpoint_cmd_handler op_code cmd_seq stmt_idx break_once s
                 else if local = OPCODE_BREAK then break_cmd_handler op_code cmd_seq s
                 else if local = OPCODE_CONTINUE then continue_cmd_handler op_code cmd_seq s
                 else if local = OPCODE_CLEAR_BREAKPOINT then clear_breakpoint_cmd_handler op_code cmd_seq s
                 else if local = OPCODE_STEP then step_cmd_handler op_code cmd_seq s
                 else if local = OPCODE_DUMP_STACK_TO_FILE
                 then dump_stack_to_file_cmd_handler env op_code cmd_seq file_name s
                 else respond CmdResponse_InvalidOpcode } } } } })"

section \<open>Input ports\<close>

definition check_timers_handler :: "sequencer \<Rightarrow> effect" where
  "check_timers_handler s = sends checkTimersIn NoValue [] s"

definition cmd_response_in_handler :: "u32 \<Rightarrow> u32 \<Rightarrow> CmdResponse \<Rightarrow> sequencer \<Rightarrow> effect" where
  "cmd_response_in_handler op_code uid response s =
     (let state = sq_state s; st = sq_fpy s; ev_op = get_event_opcode op_code;
          unexpected = (\<lambda>ev. sends stmtResponse_unexpected NoValue [ev] s);
          sequence_index = (ucast (drop_bit 16 (uid AND 0xFFFF0000)) :: u16);
          current_sequence_index = (ucast (sequences_started st AND 0xFFFF) :: u16);
          current = current_statement_opcode (fpy_runtime st) in
      if \<not> is_running_state state
      then Some ([], [Ev_CmdResponseWhileNotRunningSequence (State_repr state) ev_op response], s)
      else if sequence_index \<noteq> current_sequence_index
      then Some ([], [Ev_CmdResponseFromOldSequence ev_op response sequence_index current_sequence_index], s)
      else if state \<noteq> RUNNING_AWAITING_STATEMENT_RESPONSE
      then unexpected (Ev_CmdResponseWhileNotAwaiting ev_op response)
      else if current \<noteq> DirectiveId_ConstCmd \<and> current \<noteq> DirectiveId_StackCmd
      then unexpected (Ev_CmdResponseWhileAwaitingDirective ev_op response current)
      else if op_code \<noteq> current_cmd_opcode (fpy_runtime st)
      then unexpected (Ev_WrongCmdResponseOpcode ev_op response (get_event_opcode (current_cmd_opcode (fpy_runtime st))))
      else do {
        fw_assert (statements_dispatched st > 0);
        let cmd_index = (ucast (uid AND 0xFFFF) :: u16);
        let current_cmd_index = (ucast (statements_dispatched st AND 0xFFFF) :: u16);
        if cmd_index \<noteq> current_cmd_index
        then unexpected (Ev_WrongCmdResponseIndex ev_op response cmd_index current_cmd_index)
        else do {
          stack \<leftarrow> stack_push (CmdResponse_repr response) (stack_of st);
          sends stmtResponse_success NoValue [] (on_fpy (set_stack stack) s) } })"

definition seq_cancel_in_handler :: "sequencer \<Rightarrow> effect" where
  "seq_cancel_in_handler s =
     (if sq_state s = IDLE then Some ([], [Ev_InvalidSeqCancelCall (State_repr (sq_state s))], s)
      else sends cmd_CANCEL NoValue [] s)"

definition seq_run_in_handler :: "u8 list \<Rightarrow> nat \<Rightarrow> u8 list \<Rightarrow> sequencer \<Rightarrow> effect" where
  "seq_run_in_handler filename n buf s =
     (if sq_state s \<noteq> IDLE then Some ([], [Ev_InvalidSeqRunCall (State_repr (sq_state s))], s)
      else sends cmd_RUN (ArgsValue \<lparr>file_path = filename, block = NoBlock, ea_size = n, ea_buffer = buf\<rparr>) [] s)"

text \<open>A directive's handler sends its statement response as a signal; any other signal fails an assertion.\<close>

definition directive_in :: "seq_env \<Rightarrow> DirectiveUnion \<Rightarrow> sequencer \<Rightarrow> effect" where
  "directive_in env d s =
     do { (sig, calls, st) \<leftarrow> directive_message (se_fpy env) d (sq_fpy s);
          fw_assert (sig \<in> {stmtResponse_beginSleep, stmtResponse_success, stmtResponse_failure, stmtResponse_keepWaiting});
          sends sig NoValue calls (s\<lparr>sq_fpy := st\<rparr>) }"

section \<open>The queue and the component thread\<close>

fun msg_priority :: "u32 \<Rightarrow> seq_msg \<Rightarrow> nat" where
  "msg_priority id_base (M_CmdResponse _ _ _) = 5"
| "msg_priority id_base (M_Ping _) = 10"
| "msg_priority id_base M_CheckTimers = 4"
| "msg_priority id_base (M_SeqRun _ _ _) = 7"
| "msg_priority id_base M_SeqCancel = 8"
| "msg_priority id_base (M_Cmd op_code _ _) = (if op_code - id_base = OPCODE_CANCEL then 8 else 7)"
| "msg_priority id_base (M_Directive _) = 6"
| "msg_priority id_base (M_Signal _ _) = 9"

fun dispatch_message :: "seq_env \<Rightarrow> u32 \<Rightarrow> seq_msg \<Rightarrow> sequencer \<Rightarrow> effect" where
  "dispatch_message env id_base (M_CmdResponse op_code cmd_seq response) s = cmd_response_in_handler op_code cmd_seq response s"
| "dispatch_message env id_base (M_Ping key) s = Some ([], [PingOut key], s)"
| "dispatch_message env id_base M_CheckTimers s = check_timers_handler s"
| "dispatch_message env id_base (M_SeqRun filename n buf) s = seq_run_in_handler filename n buf s"
| "dispatch_message env id_base M_SeqCancel s = seq_cancel_in_handler s"
| "dispatch_message env id_base (M_Cmd op_code cmd_seq args) s = cmd_in_handler env id_base op_code cmd_seq args s"
| "dispatch_message env id_base (M_Directive d) s = directive_in env d s"
| "dispatch_message env id_base (M_Signal sig v) s = dispatch_signal env sig v s"

fun take_first :: "('a \<Rightarrow> bool) \<Rightarrow> 'a list \<Rightarrow> ('a \<times> 'a list) option" where
  "take_first P [] = None"
| "take_first P (x # xs) = (if P x then Some (x, xs) else map_option (\<lambda>(y, ys). (y, x # ys)) (take_first P xs))"

definition next_msg :: "u32 \<Rightarrow> seq_msg list \<Rightarrow> (seq_msg \<times> seq_msg list) option" where
  "next_msg id_base q = take_first (\<lambda>m. \<forall>x \<in> set q. msg_priority id_base x \<le> msg_priority id_base m) q"

text \<open>What other components may send: everything but the sequencer's own directives and signals.\<close>

fun external :: "seq_msg \<Rightarrow> bool" where
  "external (M_Directive _) = False"
| "external (M_Signal _ _) = False"
| "external (M_SeqRun filename n buf) \<longleftrightarrow> length buf = SEQUENCE_ARGUMENTS_MAX_SIZE"
| "external (M_Cmd _ _ args) \<longleftrightarrow> wf_buf args"
| "external _ = True"

text \<open>
  The queue holds at most \<open>depth\<close> messages.  Sending to a full queue fails the assertion of \<open>QueueFullPolicy::Assert\<close>,
  which every message of the sequencer has but the ping, which is dropped (the count of dropped messages is not kept).
\<close>

definition send_message :: "nat \<Rightarrow> seq_msg list \<Rightarrow> seq_msg \<Rightarrow> seq_msg list option" where
  "send_message depth q m =
     (if length q < depth then Some (q @ [m]) else case m of M_Ping _ \<Rightarrow> Some q | _ \<Rightarrow> None)"

fun send_all :: "nat \<Rightarrow> seq_msg list \<Rightarrow> seq_msg list \<Rightarrow> seq_msg list option" where
  "send_all depth q [] = Some q"
| "send_all depth q (m # ms) = do { q \<leftarrow> send_message depth q m; send_all depth q ms }"

text \<open>
  One message handled by the component thread: it leaves the queue, and what its handler sends to the sequencer itself
  is queued behind the messages \<open>arrived\<close> that other components got into the queue meanwhile.  The queue holds the
  messages as values: their serialization, a malformed envelope and the message that ends the thread are not modelled.
\<close>

definition do_dispatch ::
    "seq_env \<Rightarrow> u32 \<Rightarrow> nat \<Rightarrow> seq_msg list \<Rightarrow> seq_msg list \<times> sequencer \<Rightarrow> (fpy_call list \<times> seq_msg list \<times> sequencer) option" where
  "do_dispatch env id_base depth arrived c =
     (case next_msg id_base (fst c) of
        None \<Rightarrow> Some ([], fst c @ arrived, snd c)
      | Some (m, q) \<Rightarrow> do {
          (out, calls, s) \<leftarrow> dispatch_message env id_base m (snd c);
          q \<leftarrow> send_all depth (q @ arrived) out;
          Some (calls, q, s) })"

lemma send_all_own:
  assumes "list_all (\<lambda>m. \<not> external m) out" and "length q \<le> depth"
  shows "send_all depth q out = (if length q + length out \<le> depth then Some (q @ out) else None)"
  using assms
proof (induction out arbitrary: q)
  case (Cons m out)
  then have "\<nexists>k. m = M_Ping k"
    by auto
  then show ?case
    using Cons by (cases m) (auto simp: send_message_def)
qed simp

lemma send_message_cases:
  assumes "send_message depth q m = Some q'"
  shows "q' = q \<or> (q' = q @ [m] \<and> length q < depth)"
  using assms by (auto simp: send_message_def split: if_splits seq_msg.splits)

end
