(* ===== verification/Fpy_Steps.thy ===== *)
theory Fpy_Steps
  imports Fpy_Seq
begin

text \<open>
  The Fpy sequencer under any interleaving of inputs: an inductively defined step relation of arrivals and handled
  messages, and the invariant of its reachable states as long as no sequence is cancelled.
\<close>

section \<open>Steps\<close>

definition env_ok :: "seq_env \<Rightarrow> bool" where
  "env_ok env \<longleftrightarrow> serial_ok (se_fpy env) \<and> valid_time (env_now (se_fpy env)) \<and>
     (\<forall>path. sf_open (se_file env path) \<noteq> 0 \<or> (\<exists>data. holds_data (se_file env path) data))"

type_synonym config = "seq_msg list \<times> sequencer"

text \<open>
  A message another component may send arrives, unless the queue is full: then a ping is dropped and the sender of any
  other message fails an assertion.  Or the component thread takes the next message and handles it, while messages may
  arrive.  The three 64-bit counters that the handlers increment are taken not to have reached their last value.
\<close>

definition saturated :: "sequencer \<Rightarrow> bool" where
  "saturated s \<longleftrightarrow> statements_dispatched (sq_fpy s) = - 1 \<or> sequences_started (sq_fpy s) = - 1 \<or> sequences_succeeded s = - 1"

inductive seq_step :: "u32 \<Rightarrow> nat \<Rightarrow> (seq_msg \<Rightarrow> bool) \<Rightarrow> config \<Rightarrow> config \<Rightarrow> bool" for id_base depth allowed where
  arrive: "external m \<Longrightarrow> allowed m \<Longrightarrow> send_message depth q m = Some q' \<Longrightarrow> seq_step id_base depth allowed (q, s) (q', s)"
| handle: "env_ok env \<Longrightarrow> \<not> saturated s \<Longrightarrow> next_msg id_base q = Some (m, q') \<Longrightarrow>
    list_all (\<lambda>m. external m \<and> allowed m) arrived \<Longrightarrow> length (q' @ arrived) \<le> depth \<Longrightarrow>
    do_dispatch env id_base depth arrived (q, s) = Some (calls, c) \<Longrightarrow> seq_step id_base depth allowed (q, s) c"

text \<open>A new sequencer: idle, its arrays and its runtime allocated.\<close>

definition seq_initial :: "sequencer \<Rightarrow> bool" where
  "seq_initial s \<longleftrightarrow> sq_state s = IDLE \<and> wf_load (sq_fpy s) \<and> wf_stack (stack_of (sq_fpy s)) \<and>
     wf_rng (rt_rng (fpy_runtime (sq_fpy s))) \<and> length (args_buffer (sq_fpy s)) = SEQUENCE_ARGUMENTS_MAX_SIZE \<and>
     valid_time (current_statement_dispatch_time (fpy_runtime (sq_fpy s)))"

inductive seq_reachable :: "u32 \<Rightarrow> nat \<Rightarrow> (seq_msg \<Rightarrow> bool) \<Rightarrow> config \<Rightarrow> bool" for id_base depth allowed where
  initial: "seq_initial s \<Longrightarrow> seq_reachable id_base depth allowed ([], s)"
| step: "seq_reachable id_base depth allowed c \<Longrightarrow> seq_step id_base depth allowed c c' \<Longrightarrow> seq_reachable id_base depth allowed c'"

text \<open>No request to cancel.\<close>

fun no_cancel :: "u32 \<Rightarrow> seq_msg \<Rightarrow> bool" where
  "no_cancel id_base M_SeqCancel = False"
| "no_cancel id_base (M_Cmd op_code _ _) \<longleftrightarrow> op_code - id_base \<noteq> OPCODE_CANCEL"
| "no_cancel id_base _ = True"

section \<open>The invariant\<close>

fun sig_of :: "seq_msg \<Rightarrow> Signal list" where
  "sig_of (M_Signal sig v) = [sig]"
| "sig_of _ = []"

fun dir_of :: "seq_msg \<Rightarrow> DirectiveUnion list" where
  "dir_of (M_Directive d) = [d]"
| "dir_of _ = []"

definition sigs :: "seq_msg list \<Rightarrow> Signal list" where "sigs q = concat (map sig_of q)"
definition dirs :: "seq_msg list \<Rightarrow> DirectiveUnion list" where "dirs q = concat (map dir_of q)"

lemma sigs_simps [simp]:
  "sigs [] = []" "sigs (m # q) = sig_of m @ sigs q" "sigs (q @ r) = sigs q @ sigs r"
  "dirs [] = []" "dirs (m # q) = dir_of m @ dirs q" "dirs (q @ r) = dirs q @ dirs r"
  by (simp_all add: sigs_def dirs_def)

text \<open>The value a queued signal carries is of the type its actions read.\<close>

definition value_ok :: "Signal \<Rightarrow> sig_value \<Rightarrow> bool" where
  "value_ok sig v \<longleftrightarrow>
     (sig \<in> {cmd_RUN, cmd_VALIDATE, cmd_RUN_VALIDATED} \<longrightarrow>
       (\<exists>a. v = ArgsValue a \<and> length (ea_buffer a) = SEQUENCE_ARGUMENTS_MAX_SIZE)) \<and>
     (sig = cmd_SET_BREAKPOINT \<longrightarrow> (\<exists>b. v = BreakValue b))"

fun msg_ok :: "u32 \<Rightarrow> seq_msg \<Rightarrow> bool" where
  "msg_ok id_base (M_Signal sig v) = value_ok sig v"
| "msg_ok id_base (M_Directive d) = wf_directive d"
| "msg_ok id_base m \<longleftrightarrow> external m \<and> no_cancel id_base m"

text \<open>Which signals may be pending in which state, with how many directives in the queue.\<close>

definition one_of :: "Signal set \<Rightarrow> Signal list \<Rightarrow> bool" where
  "one_of A ss \<longleftrightarrow> ss = [] \<or> (\<exists>x \<in> A. ss = [x])"

abbreviation (input) late :: "Signal set" where
  "late \<equiv> {result_checkStatementTimeout_noTimeout, result_checkStatementTimeout_statementTimeout, result_timeOpFailed}"

abbreviation (input) bp_cmds :: "Signal set" where
  "bp_cmds \<equiv> {cmd_SET_BREAKPOINT, cmd_CLEAR_BREAKPOINT}"

primrec fits :: "State \<Rightarrow> Signal list \<Rightarrow> nat \<Rightarrow> bool" where
  "fits IDLE ss n \<longleftrightarrow> n = 0 \<and> one_of (bp_cmds \<union> late \<union> {cmd_RUN, cmd_VALIDATE, checkTimersIn}) ss"
| "fits VALIDATING ss n \<longleftrightarrow> n = 0 \<and> ss \<noteq> [] \<and> one_of {signal_entered, result_failure, result_success} ss"
| "fits AWAITING_CMD_RUN_VALIDATED ss n \<longleftrightarrow> n = 0 \<and> one_of (bp_cmds \<union> {cmd_RUN_VALIDATED, checkTimersIn}) ss"
| "fits RUNNING_PAUSED ss n \<longleftrightarrow> n = 0 \<and>
     (one_of (bp_cmds \<union> {signal_entered, cmd_CONTINUE, cmd_STEP, checkTimersIn, stmtResponse_unexpected}) ss \<or>
      (\<exists>l \<in> late. ss = [l, signal_entered]))"
| "fits RUNNING_DISPATCH_STATEMENT ss n \<longleftrightarrow>
     (\<exists>pre x. ss = pre @ [x] \<and> one_of late pre \<and>
        (x = result_dispatchStatement_success \<and> n = 1 \<or>
         x \<in> {result_dispatchStatement_failure, result_dispatchStatement_noMoreStatements} \<and> n = 0))"
| "fits RUNNING_AWAITING_STATEMENT_RESPONSE ss n \<longleftrightarrow>
     n = 1 \<and> one_of (bp_cmds \<union> {cmd_BREAK}) ss \<or>
     n = 0 \<and> one_of (bp_cmds \<union> late \<union> {cmd_BREAK, checkTimersIn, stmtResponse_unexpected, stmtResponse_beginSleep,
       stmtResponse_failure, stmtResponse_keepWaiting, stmtResponse_success}) ss"
| "fits RUNNING_SLEEPING ss n \<longleftrightarrow> n = 0 \<and>
     (one_of (bp_cmds \<union> late \<union> {cmd_BREAK, checkTimersIn, stmtResponse_unexpected}) ss \<or>
      (\<exists>w \<in> {result_checkShouldWake_keepSleeping, result_checkShouldWake_wakeup, result_timeOpFailed}. \<exists>l \<in> late. ss = [w, l]))"

text \<open>What holds of the data in every state, and what depends on the state.\<close>

definition data_base :: "sequencer \<Rightarrow> bool" where
  "data_base s \<longleftrightarrow> wf_load (sq_fpy s) \<and> wf_stack (stack_of (sq_fpy s)) \<and> wf_rng (rt_rng (fpy_runtime (sq_fpy s))) \<and>
     length (args_buffer (sq_fpy s)) = SEQUENCE_ARGUMENTS_MAX_SIZE \<and>
     valid_time (current_statement_dispatch_time (fpy_runtime (sq_fpy s)))"

definition responded :: "Signal set" where
  "responded = {stmtResponse_beginSleep, stmtResponse_failure, stmtResponse_success, stmtResponse_unexpected}"

definition data_ok :: "Signal list \<Rightarrow> DirectiveUnion list \<Rightarrow> sequencer \<Rightarrow> bool" where
  "data_ok ss ds s \<longleftrightarrow> data_base s \<and> list_all wf_directive ds \<and>
     (is_running_state (sq_state s) \<longrightarrow> wf_fpy (sq_fpy s)) \<and>
     (sq_state s = AWAITING_CMD_RUN_VALIDATED \<or> result_success \<in> set ss \<longrightarrow>
       args_size (sq_fpy s) \<le> SEQUENCE_ARGUMENTS_MAX_SIZE \<and> unat (statement_count (sq_fpy s)) \<le> MAX_SEQUENCE_STATEMENT_COUNT) \<and>
     (sq_state s = RUNNING_AWAITING_STATEMENT_RESPONSE \<or> result_dispatchStatement_success \<in> set ss \<longrightarrow>
       statements_dispatched (sq_fpy s) > 0) \<and>
     (sq_state s = RUNNING_AWAITING_STATEMENT_RESPONSE \<and> ds = [] \<and> set ss \<inter> responded = {} \<longrightarrow>
       stk_size (stack_of (sq_fpy s)) < MAX_STACK_SIZE)"

definition core :: "Signal list \<Rightarrow> DirectiveUnion list \<Rightarrow> sequencer \<Rightarrow> bool" where
  "core ss ds s \<longleftrightarrow> fits (sq_state s) ss (length ds) \<and> data_ok ss ds s"

definition seq_inv :: "u32 \<Rightarrow> config \<Rightarrow> bool" where
  "seq_inv id_base c \<longleftrightarrow> core (sigs (fst c)) (dirs (fst c)) (snd c) \<and> list_all (msg_ok id_base) (fst c)"

section \<open>Entering states\<close>

text \<open>The effect happens, queues well-formed messages and leads to the core invariant with the pending signals \<open>ss\<close> in front.\<close>

definition leads :: "u32 \<Rightarrow> Signal list \<Rightarrow> DirectiveUnion list \<Rightarrow> effect \<Rightarrow> bool" where
  "leads id_base ss ds e \<longleftrightarrow>
     (\<exists>out calls s'. e = Some (out, calls, s') \<and> list_all (msg_ok id_base) out \<and> list_all (\<lambda>m. \<not> external m) out \<and>
        core (ss @ sigs out) (ds @ dirs out) s')"

lemma leads_then:
  assumes "e = Some ([], calls, s)" and "leads id_base ss ds (k s)"
  shows "leads id_base ss ds (eff_then e k)"
  using assms by (auto simp: leads_def eff_then_def)

lemma no_overflow: "x \<noteq> - 1 \<Longrightarrow> cadd x (1 :: u64) = Some (x + 1)"
proof -
  assume "x \<noteq> - 1"
  then have "unat x \<noteq> 2 ^ 64 - 1"
    by (auto simp: word_unat_eq_iff unsigned_minus_1_eq_mask mask_eq_exp_minus_1)
  then have "unat x + 1 < 2 ^ 64"
    using unsigned_less [of x, where 'a = nat] by simp
  then show ?thesis
    by (simp add: cadd_def)
qed

lemma data_base_on [simp]:
  "data_base (s\<lparr>sq_state := l\<rparr>) = data_base s" "data_base (s\<lparr>breakpoint := b\<rparr>) = data_base s"
  "data_base (s\<lparr>goal_state := g\<rparr>) = data_base s" "data_base (s\<lparr>sequence_block_state := k\<rparr>) = data_base s"
  "data_base (s\<lparr>saved_op_code := x, saved_cmd_seq := y\<rparr>) = data_base s"
  "data_base (s\<lparr>sequences_succeeded := n\<rparr>) = data_base s"
  by (simp_all add: data_base_def)

lemma enter_idle:
  assumes "data_base s" and "ss = [] \<or> (\<exists>l \<in> late. ss = [l])"
  shows "leads id_base ss [] (enter_leaf env IDLE s)"
proof -
  have "data_base (s\<lparr>breakpoint := no_breakpoint, goal_state := Goal_Idle,
      sq_fpy := (sq_fpy s)\<lparr>sequence_file_path := [], args_size := 0, args_buffer := replicate SEQUENCE_ARGUMENTS_MAX_SIZE 0\<rparr>\<rparr>)"
    using assms(1) by (simp add: data_base_def wf_load_def statements_ok_def stack_of_def)
  then show ?thesis
    using assms(2)
    by (auto simp: leads_def enter_leaf_def eff_then_def on_fpy_def core_def one_of_def data_ok_def is_running_state_def)
qed

lemma enter_dispatch:
  assumes base: "data_base s" and wf: "wf_fpy (sq_fpy s)" and c: "statements_dispatched (sq_fpy s) \<noteq> - 1"
    and env: "env_ok env" and ss: "one_of late ss"
  shows "leads id_base ss [] (enter_leaf env RUNNING_DISPATCH_STATEMENT s)"
proof -
  have ok: "statements_ok (sq_fpy s)"
    using base by (simp add: data_base_def wf_load_def)
  obtain sig d calls st' where d: "dispatch_statement (se_fpy env) (sq_fpy s) = Some (sig, d, calls, st')"
      "dispatches (se_fpy env) (sq_fpy s) sig d st'"
    using dispatch_statement_safe [OF wf ok c] by blast
  have "data_base (s\<lparr>sq_fpy := st', sq_state := RUNNING_DISPATCH_STATEMENT\<rparr>)"
    using base d(2) env by (auto simp: data_base_def dispatches_def wf_load_def statements_ok_def env_ok_def wf_fpy_def)
  moreover have "(sig = result_dispatchStatement_success \<and> d \<noteq> None \<and> wf_directive (the d) \<and> 0 < statements_dispatched st') \<or>
      (sig \<in> {result_dispatchStatement_failure, result_dispatchStatement_noMoreStatements} \<and> d = None)" "wf_fpy st'"
    using d(2) by (auto simp: dispatches_def split: if_splits)
  ultimately show ?thesis
    using d(1) ss
    by (auto simp: leads_def enter_leaf_def eff_then_def action_dispatchStatement_def core_def data_ok_def value_ok_def
        is_running_state_def one_of_def responded_def)
qed

lemma enter_paused:
  assumes "data_base s" and "wf_fpy (sq_fpy s)" and "one_of late ss"
  shows "leads id_base ss [] (enter_leaf env RUNNING_PAUSED s)"
  using assms
  by (auto simp: leads_def enter_leaf_def eff_then_def core_def data_ok_def value_ok_def is_running_state_def one_of_def)

lemma enter_break_check_leads:
  assumes "data_base s" and "wf_fpy (sq_fpy s)" and "statements_dispatched (sq_fpy s) \<noteq> - 1" and "env_ok env"
    and "one_of late ss"
  shows "leads id_base ss [] (enter_break_check env s)"
proof (cases "guard_shouldBreak s")
  case True
  have "leads id_base ss [] (eff_then (run_action env NoValue report_seqBroken s) (enter_leaf env RUNNING_PAUSED))"
    by (rule leads_then) (use enter_paused [OF assms(1,2,5)] in simp_all)
  then show ?thesis
    using True by (simp add: enter_break_check_def)
next
  case False
  then show ?thesis
    using enter_dispatch [OF assms] by (simp add: enter_break_check_def)
qed

lemma wf_stack_reset: "wf_stack s \<Longrightarrow> wf_stack (stack_reset s)"
  by (simp add: wf_stack_def stack_reset_def)

lemma runtime_reset_total:
  assumes "wf_stack (rt_stack rt)"
  shows "\<exists>rt'. runtime_reset rt = Some rt' \<and> next_statement_index rt' = 0 \<and> wf_stack (rt_stack rt') \<and>
    stk_size (rt_stack rt') = 0 \<and> wf_rng (rt_rng rt') \<and> valid_time (current_statement_dispatch_time rt')"
proof -
  obtain r where "rng_new = Some r" "wf_rng r"
    using rng_new_total by blast
  note r = this
  show ?thesis
    unfolding runtime_reset_def r(1) using wf_stack_reset [OF assms] r(2)
    by (simp add: ZERO_TIME_def valid_time_def norm_usecs_def) (simp add: stack_reset_def)
qed

lemma push_args_total:
  assumes "data_base s" and "stk_size (stack_of (sq_fpy s)) = 0" and "args_size (sq_fpy s) \<le> SEQUENCE_ARGUMENTS_MAX_SIZE"
  shows "\<exists>stack. action_pushArgsToStack s = quiet (on_fpy (set_stack stack) s) \<and> wf_stack stack"
proof (cases "args_size (sq_fpy s) = 0")
  case True
  have "on_fpy (set_stack (stack_of (sq_fpy s))) s = s"
    by (simp add: on_fpy_def set_stack_def stack_of_def)
  then show ?thesis
    using True assms(1) by (intro exI [of _ "stack_of (sq_fpy s)"]) (simp add: action_pushArgsToStack_def data_base_def)
next
  case False
  have "args_size (sq_fpy s) \<le> length (args_buffer (sq_fpy s))"
    using assms by (simp add: data_base_def)
  then show ?thesis
    using False assms
    by (auto simp: action_pushArgsToStack_def slice_def push_bytes_eq data_base_def SEQUENCE_ARGUMENTS_MAX_SIZE_def MAX_STACK_SIZE_def
        intro!: wf_pushed)
qed

text \<open>A run starts from a fresh runtime with the arguments on the stack.\<close>

lemma enter_running_leads:
  assumes base: "data_base s" and cnt: "\<not> saturated s" and env: "env_ok env"
    and args: "args_size (sq_fpy s) \<le> SEQUENCE_ARGUMENTS_MAX_SIZE"
    and stmts: "unat (statement_count (sq_fpy s)) \<le> MAX_SEQUENCE_STATEMENT_COUNT"
  shows "leads id_base [] [] (enter_running env s)"
proof -
  have "wf_stack (rt_stack (fpy_runtime (sq_fpy s)))"
    using base by (simp add: data_base_def stack_of_def)
  from runtime_reset_total [OF this] obtain rt where rt: "runtime_reset (fpy_runtime (sq_fpy s)) = Some rt"
      "next_statement_index rt = 0" "wf_stack (rt_stack rt)" "stk_size (rt_stack rt) = 0" "wf_rng (rt_rng rt)"
      "valid_time (current_statement_dispatch_time rt)"
    by blast
  have n: "cadd (sequences_started (sq_fpy s)) 1 = Some (sequences_started (sq_fpy s) + 1)"
    using cnt by (simp add: saturated_def no_overflow)
  define s2 where "s2 = on_fpy (\<lambda>st. st\<lparr>sequences_started := sequences_started st + 1\<rparr>)
    (on_fpy (\<lambda>st. st\<lparr>fpy_runtime := rt\<rparr>) s)"
  have s2: "data_base s2" "stk_size (stack_of (sq_fpy s2)) = 0" "args_size (sq_fpy s2) \<le> SEQUENCE_ARGUMENTS_MAX_SIZE"
    using base rt args by (simp_all add: s2_def on_fpy_def data_base_def wf_load_def statements_ok_def stack_of_def)
  obtain stack where stack: "action_pushArgsToStack s2 = quiet (on_fpy (set_stack stack) s2)" "wf_stack stack"
    using push_args_total [OF s2] by blast
  define s3 where "s3 = on_fpy (set_stack stack) s2"
  have "data_base s3" "wf_fpy (sq_fpy s3)" "statements_dispatched (sq_fpy s3) \<noteq> - 1"
    using s2(1) stack(2) rt base stmts cnt
    by (simp_all add: s3_def s2_def on_fpy_def data_base_def wf_load_def statements_ok_def wf_fpy_def saturated_def set_stack_def
        stack_of_def)
  then have "leads id_base [] [] (enter_break_check env s3)"
    using env by (intro enter_break_check_leads) (simp_all add: one_of_def)
  then show ?thesis
    using rt(1) n stack(1)
    by (simp add: enter_running_def eff_then_def action_resetRuntime_def action_incrementSequenceCounter_def s3_def s2_def
        on_fpy_def leads_def)
qed

section \<open>Signals\<close>

lemma run_actions_Nil [simp]: "run_actions env v [] = quiet"
  by (rule ext) simp

lemma leads_quiet: "core ss ds s \<Longrightarrow> leads id_base ss ds (quiet s)"
  by (simp add: leads_def)

lemma leads_event: "core ss ds s \<Longrightarrow> leads id_base ss ds (Some ([], calls, s))"
  by (simp add: leads_def)

lemma fails_leads:
  assumes "data_base s" and "ss = [] \<or> (\<exists>l \<in> late. ss = [l])"
  shows "leads id_base ss [] (eff_then (run_actions env v [report_seqFailed, sendCmdResponse_EXECUTION_ERROR] s) (enter_leaf env IDLE))"
  by (rule leads_then) (use enter_idle [OF assms] in \<open>simp_all add: eff_then_def send_cmd_response_def\<close>)

lemma succeeds_leads:
  assumes "data_base s" and "sequences_succeeded s \<noteq> - 1"
  shows "leads id_base [] [] (eff_then (run_actions env v [report_seqSucceeded, sendCmdResponse_OK] s) (enter_leaf env IDLE))"
proof (rule leads_then)
  let ?s = "on_fpy (\<lambda>st. st\<lparr>sequence_file_path := NO_SEQ\<rparr>) (s\<lparr>sequences_succeeded := sequences_succeeded s + 1\<rparr>)"
  show "run_actions env v [report_seqSucceeded, sendCmdResponse_OK] s =
      Some ([], Ev_SequenceDone (sequence_file_path (sq_fpy s)) # seq_done env CmdResponse_Ok @
        (if sequence_block_state ?s = Block then [CmdResponseOut (saved_op_code ?s) (saved_cmd_seq ?s) CmdResponse_Ok] else []), ?s)"
    using assms(2) by (simp add: action_report_seqSucceeded_def no_overflow eff_then_def send_cmd_response_def)
  have "data_base ?s"
    using assms(1) by (simp add: on_fpy_def data_base_def wf_load_def statements_ok_def stack_of_def)
  then show "leads id_base [] [] (enter_leaf env IDLE ?s)"
    by (rule enter_idle) simp
qed

text \<open>Breakpoint commands and signals that are ignored leave the rest of the invariant alone.\<close>

lemma core_breakpoint [simp]: "core ss ds (s\<lparr>breakpoint := b\<rparr>) = core ss ds s"
  by (simp add: core_def data_ok_def)

lemma bp_leads:
  assumes "core ss ds s" and "sig \<in> bp_cmds" and "value_ok sig v"
  shows "leads id_base ss ds (dispatch_signal env sig v s)"
  using assms
  by (auto simp: dispatch_signal_def transition_def Let_def eff_then_def leads_def value_ok_def action_setBreakpoint_def)

lemma ignored_leads: "transition sig s = None \<Longrightarrow> core ss ds s \<Longrightarrow> leads id_base ss ds (dispatch_signal env sig v s)"
  by (simp add: dispatch_signal_def leads_quiet)

lemma core_drop:
  assumes "core (x # ss) ds s" and "fits (sq_state s) ss (length ds)" and "x \<notin> responded"
  shows "core ss ds s"
  using assms by (auto simp: core_def data_ok_def)

lemma core_base: "core ss ds s \<Longrightarrow> data_base s"
  by (simp add: core_def data_ok_def)

lemma enter_validating:
  assumes "data_base s"
  shows "leads id_base [] [] (enter_leaf env VALIDATING s)"
  using assms
  by (simp add: leads_def enter_leaf_def eff_then_def action_report_seqStarted_def core_def one_of_def data_ok_def
      is_running_state_def value_ok_def)

lemma set_path_total:
  assumes "data_base s"
  shows "\<exists>calls s'. action_setSequenceFilePath env a s = Some ([], calls, s') \<and> data_base s'"
  using assms
  by (auto simp: action_setSequenceFilePath_def Let_def on_fpy_def data_base_def wf_load_def statements_ok_def stack_of_def)

lemma start_leads:
  assumes base: "data_base s" and v: "v = ArgsValue a" "length (ea_buffer a) = SEQUENCE_ARGUMENTS_MAX_SIZE"
    and acts: "acts = [setGoalState_RUNNING, setSequenceFilePath, setSequenceBlockState, setSequenceArguments] \<or>
      acts = [setGoalState_VALID, setSequenceFilePath, setSequenceArguments]"
  shows "leads id_base [] [] (eff_then (run_actions env v acts s) (enter_leaf env VALIDATING))"
proof -
  define s1 where "s1 = s\<lparr>goal_state := if acts ! 0 = setGoalState_RUNNING then Goal_Running else Goal_Valid\<rparr>"
  have "data_base s1"
    using base by (simp add: s1_def)
  then obtain calls s2 where s2: "action_setSequenceFilePath env a s1 = Some ([], calls, s2)" "data_base s2"
    using set_path_total by blast
  define s3 where "s3 = (if acts ! 0 = setGoalState_RUNNING then s2\<lparr>sequence_block_state := block a\<rparr> else s2)"
  let ?s4 = "on_fpy (\<lambda>st. st\<lparr>args_size := ea_size a, args_buffer := ea_buffer a\<rparr>) s3"
  have "data_base ?s4"
    using s2(2) v(2) by (simp add: s3_def on_fpy_def data_base_def wf_load_def statements_ok_def stack_of_def)
  moreover have "run_actions env v acts s = Some ([], calls, ?s4)"
    using acts s2(1) by (auto simp: eff_then_def with_args_def v s1_def s3_def)
  ultimately show ?thesis
    by (intro leads_then enter_validating)
qed

lemma signal_idle:
  assumes c: "core (sig # ss) ds s" and st: "sq_state s = IDLE" and v: "value_ok sig v"
  shows "leads id_base ss ds (dispatch_signal env sig v s)"
proof -
  have f: "ds = []" "ss = []" "sig \<in> bp_cmds \<union> late \<union> {cmd_RUN, cmd_VALIDATE, checkTimersIn}"
    using c st by (auto simp: core_def one_of_def)
  have rest: "core [] [] s"
    using core_drop [of sig ss ds s] c f st by (auto simp: one_of_def responded_def)
  consider "sig \<in> bp_cmds" | "sig \<in> {cmd_RUN, cmd_VALIDATE}" | "sig \<in> late \<union> {checkTimersIn}"
    using f(3) by blast
  then show ?thesis
  proof cases
    case 1
    then show ?thesis
      using bp_leads [OF rest] v f by simp
  next
    case 2
    then obtain a where a: "v = ArgsValue a" "length (ea_buffer a) = SEQUENCE_ARGUMENTS_MAX_SIZE"
      using v by (auto simp: value_ok_def)
    show ?thesis
      using 2 f start_leads [OF core_base [OF rest] a]
      by (auto simp: dispatch_signal_def transition_def Let_def st simp del: run_actions.simps)
  next
    case 3
    then show ?thesis
      using f rest by (intro ignored_leads) (auto simp: transition_def Let_def st)
  qed
qed

lemma validate_leads:
  assumes base: "data_base s" and st: "sq_state s = VALIDATING" and env: "env_ok env"
  shows "leads id_base [] [] (action_validate env s)"
proof -
  let ?f = "se_file env (sequence_file_path (sq_fpy s))"
  have wf: "wf_load (sq_fpy s)"
    using base by (simp add: data_base_def)
  obtain ok calls st' where v: "validate ?f (sq_fpy s) = Some (ok, calls, st')" "loads (sq_fpy s) st'"
      "ok = Success_Success \<longrightarrow> args_size st' \<le> SEQUENCE_ARGUMENTS_MAX_SIZE \<and> header_ok (seq_header st')"
  proof (cases "sf_open ?f = 0")
    case True
    then obtain data where "holds_data ?f data"
      using env unfolding env_ok_def by blast
    from validate_total [OF this wf] show ?thesis
      using that by (auto simp: valid_sequence_def)
  next
    case False
    have "loads (sq_fpy s) (sq_fpy s)" "loads (sq_fpy s) ((sq_fpy s)\<lparr>computed_crc := hash_init (computed_crc (sq_fpy s))\<rparr>)"
      using wf by (simp_all add: load_defs)
    then show ?thesis
      using False that by (cases "sequence_file_path (sq_fpy s) = []") (auto simp: validate_def)
  qed
  have "data_base (s\<lparr>sq_fpy := st'\<rparr>)"
    using base v(2) by (simp add: data_base_def loads_def kept_def stack_of_def)
  then show ?thesis
    using v st
    by (cases ok) (auto simp: action_validate_def leads_def core_def one_of_def data_ok_def is_running_state_def value_ok_def header_ok_def)
qed

lemma signal_validating:
  assumes c: "core (sig # ss) ds s" and st: "sq_state s = VALIDATING" and env: "env_ok env" and cnt: "\<not> saturated s"
  shows "leads id_base ss ds (dispatch_signal env sig v s)"
proof -
  have f: "ds = []" "ss = []" "sig \<in> {signal_entered, result_failure, result_success}"
    using c st by (auto simp: core_def one_of_def)
  note base = core_base [OF c]
  consider "sig = signal_entered" | "sig = result_failure" | "sig = result_success"
    using f(3) by blast
  then show ?thesis
  proof cases
    case 1
    have "leads id_base [] [] (eff_then (action_validate env s) quiet)"
      using validate_leads [OF base st env, of id_base] by (auto simp: leads_def eff_then_def)
    then show ?thesis
      using 1 f by (simp add: dispatch_signal_def transition_def Let_def st)
  next
    case 2
    then show ?thesis
      using f fails_leads [OF base, of "[]" id_base env v]
      by (simp add: dispatch_signal_def transition_def Let_def st del: run_actions.simps)
  next
    case 3
    have "leads id_base [] [] (enter_valid env s)"
    proof (cases "goal_state s = Goal_Running")
      case True
      have "leads id_base [] [] (enter_running env s)"
        using c 3 env cnt base by (intro enter_running_leads) (simp_all add: core_def data_ok_def)
      then show ?thesis
        using True by (simp add: enter_valid_def)
    next
      case False
      then show ?thesis
        using c 3 f
        by (simp add: enter_valid_def enter_leaf_def eff_then_def send_cmd_response_def leads_def core_def one_of_def data_ok_def
            is_running_state_def)
    qed
    then show ?thesis
      using 3 f by (auto simp: dispatch_signal_def transition_def Let_def st intro: leads_then)
  qed
qed

lemma signal_validated:
  assumes c: "core (sig # ss) ds s" and st: "sq_state s = AWAITING_CMD_RUN_VALIDATED" and v: "value_ok sig v"
    and env: "env_ok env" and cnt: "\<not> saturated s"
  shows "leads id_base ss ds (dispatch_signal env sig v s)"
proof -
  have f: "ds = []" "ss = []" "sig \<in> bp_cmds \<union> {cmd_RUN_VALIDATED, checkTimersIn}"
    using c st by (auto simp: core_def one_of_def)
  have rest: "core [] [] s"
    using core_drop [of sig ss ds s] c f st by (auto simp: one_of_def responded_def)
  consider "sig \<in> bp_cmds" | "sig = cmd_RUN_VALIDATED" | "sig = checkTimersIn"
    using f(3) by blast
  then show ?thesis
  proof cases
    case 1
    then show ?thesis
      using bp_leads [OF rest] v f by simp
  next
    case 2
    then obtain a where a: "v = ArgsValue a"
      using v by (auto simp: value_ok_def)
    let ?s = "s\<lparr>sequence_block_state := block a\<rparr>"
    have "leads id_base [] [] (enter_running env ?s)"
      using c env cnt st by (intro enter_running_leads) (simp_all add: core_def data_ok_def saturated_def)
    then show ?thesis
      using 2 f a by (auto simp: dispatch_signal_def transition_def Let_def st with_args_def eff_then_def intro!: leads_then)
  next
    case 3
    then show ?thesis
      using f rest by (intro ignored_leads) (auto simp: transition_def Let_def st is_running_state_def)
  qed
qed

lemma running_wf: "core ss ds s \<Longrightarrow> is_running_state (sq_state s) \<Longrightarrow> wf_fpy (sq_fpy s)"
  by (simp add: core_def data_ok_def)

lemma signal_paused:
  assumes c: "core (sig # ss) ds s" and st: "sq_state s = RUNNING_PAUSED" and v: "value_ok sig v"
    and env: "env_ok env" and cnt: "\<not> saturated s"
  shows "leads id_base ss ds (dispatch_signal env sig v s)"
proof -
  have ds: "ds = []"
    using c st by (simp add: core_def)
  have run: "wf_fpy (sq_fpy s)" "statements_dispatched (sq_fpy s) \<noteq> - 1"
    using running_wf [OF c] cnt by (simp_all add: st is_running_state_def saturated_def)
  note base = core_base [OF c]
  consider "sig \<in> late" "ss = [signal_entered]"
    | "ss = []" "sig \<in> bp_cmds \<union> {signal_entered, cmd_CONTINUE, cmd_STEP, checkTimersIn, stmtResponse_unexpected}"
    using c st by (auto simp: core_def one_of_def)
  then show ?thesis
  proof cases
    case 1
    have "core ss ds s"
      using core_drop [OF c] 1 st ds by (auto simp: one_of_def responded_def)
    then show ?thesis
      using 1 by (intro ignored_leads) (auto simp: transition_def Let_def st)
  next
    case 2
    have rest: "core [] [] s"
      using c 2 st ds by (auto simp: core_def one_of_def data_ok_def)
    have go: "leads id_base [] [] (enter_leaf env RUNNING_DISPATCH_STATEMENT s)"
        "leads id_base [] [] (enter_leaf env RUNNING_DISPATCH_STATEMENT (s\<lparr>breakpoint := b\<rparr>))" for b
      using base run env by (intro enter_dispatch; simp add: one_of_def)+
    consider "sig \<in> bp_cmds" | "sig = signal_entered" | "sig = cmd_CONTINUE" | "sig = cmd_STEP" | "sig = checkTimersIn"
      | "sig = stmtResponse_unexpected"
      using 2(2) by blast
    then show ?thesis
    proof cases
      case 1
      then show ?thesis
        using bp_leads [OF rest] v 2 ds by simp
    next
      case 5
      then show ?thesis
        using 2 ds rest by (intro ignored_leads) (auto simp: transition_def Let_def st)
    next
      case 6
      then show ?thesis
        using 2 ds fails_leads [OF base, of "[]" id_base env v]
        by (simp add: dispatch_signal_def transition_def Let_def st is_running_state_def del: run_actions.simps)
    qed (use 2 ds rest go in \<open>auto simp: dispatch_signal_def transition_def Let_def st eff_then_def leads_def\<close>)
  qed
qed

lemma signal_dispatching:
  assumes c: "core (sig # ss) ds s" and st: "sq_state s = RUNNING_DISPATCH_STATEMENT" and cnt: "\<not> saturated s"
  shows "leads id_base ss ds (dispatch_signal env sig v s)"
proof -
  note base = core_base [OF c]
  have run: "wf_fpy (sq_fpy s)"
    using running_wf [OF c] by (simp add: st is_running_state_def)
  consider "sig \<in> late" "fits (sq_state s) ss (length ds)" | "ss = []" "sig = result_dispatchStatement_success" "length ds = 1"
    | "ss = []" "sig = result_dispatchStatement_failure" "ds = []"
    | "ss = []" "sig = result_dispatchStatement_noMoreStatements" "ds = []"
    using c st by (auto simp: core_def one_of_def)
  then show ?thesis
  proof cases
    case 1
    have "core ss ds s"
      using core_drop [OF c 1(2)] 1(1) by (auto simp: responded_def)
    then show ?thesis
      using 1 by (intro ignored_leads) (auto simp: transition_def Let_def st)
  next
    case 2
    then have "core [] ds (s\<lparr>sq_state := RUNNING_AWAITING_STATEMENT_RESPONSE\<rparr>)"
      using c base run by (auto simp: core_def data_ok_def one_of_def is_running_state_def st)
    then show ?thesis
      using 2 by (simp add: dispatch_signal_def transition_def Let_def st enter_leaf_def eff_then_def leads_quiet)
  next
    case 3
    then show ?thesis
      using fails_leads [OF base, of "[]" id_base env v]
      by (simp add: dispatch_signal_def transition_def Let_def st del: run_actions.simps)
  next
    case 4
    then show ?thesis
      using succeeds_leads [OF base, of id_base env v] cnt
      by (simp add: dispatch_signal_def transition_def Let_def st saturated_def del: run_actions.simps)
  qed
qed

text \<open>The timer checks.\<close>

lemma statement_timeout_total:
  assumes "valid_time (env_now env)" and "valid_time (current_statement_dispatch_time (fpy_runtime st))"
  shows "\<exists>sig calls. check_statement_timeout t env st = Some (sig, calls) \<and> sig \<in> late"
proof -
  let ?c = "env_now env" and ?d = "current_statement_dispatch_time (fpy_runtime st)"
  have "time_usecs ?d \<le> time_usecs ?c" if "\<not> seconds ?d > seconds ?c"
      "\<not> (seconds ?d = seconds ?c \<and> useconds ?d > useconds ?c)"
  proof (cases "seconds ?d = seconds ?c")
    case True
    then show ?thesis
      using that by (simp add: time_usecs_def usecs_def word_less_nat_alt)
  next
    case False
    then have "unat (seconds ?d) < unat (seconds ?c)"
      using that by (simp add: word_less_nat_alt [symmetric])
    moreover have "unat (useconds ?d) < 1000000"
      using assms(2) by (simp add: valid_time_def norm_usecs_def)
    ultimately show ?thesis
      by (simp add: time_usecs_def usecs_def)
  qed
  then show ?thesis
    by (cases t) (auto simp: check_statement_timeout_def Let_def usub_def)
qed

lemma timeout_action:
  assumes "data_base s" and "env_ok env"
  shows "\<exists>sig calls. action_checkStatementTimeout env s = sends sig NoValue calls s \<and> sig \<in> late"
proof -
  obtain sig calls where r: "check_statement_timeout (se_timeout env) (se_fpy env) (sq_fpy s) = Some (sig, calls)" "sig \<in> late"
    using statement_timeout_total assms unfolding data_base_def env_ok_def by blast
  then show ?thesis
    by (intro exI [of _ sig] exI [of _ calls]) (auto simp: action_checkStatementTimeout_def)
qed

lemma wake_action:
  "\<exists>sig calls. action_checkShouldWake env s = sends sig NoValue calls s \<and>
    sig \<in> {result_checkShouldWake_keepSleeping, result_checkShouldWake_wakeup, result_timeOpFailed}"
  by (auto simp: action_checkShouldWake_def check_should_wake_def Let_def)

lemma signal_awaiting_directive:
  assumes c: "core (sig # ss) [d] s" and st: "sq_state s = RUNNING_AWAITING_STATEMENT_RESPONSE" and v: "value_ok sig v"
  shows "leads id_base ss [d] (dispatch_signal env sig v s)"
proof -
  have f: "ss = []" "sig \<in> bp_cmds \<union> {cmd_BREAK}"
    using c st by (auto simp: core_def one_of_def)
  have rest: "core [] [d] s"
    using core_drop [OF c] f st by (auto simp: one_of_def responded_def)
  show ?thesis
  proof (cases "sig = cmd_BREAK")
    case True
    then show ?thesis
      using f rest by (simp add: dispatch_signal_def transition_def Let_def st is_running_state_def eff_then_def leads_quiet)
  qed (use f rest v bp_leads [OF rest] in auto)
qed

lemma signal_awaiting:
  assumes c: "core (sig # ss) [] s" and st: "sq_state s = RUNNING_AWAITING_STATEMENT_RESPONSE" and v: "value_ok sig v"
    and env: "env_ok env" and cnt: "\<not> saturated s"
  shows "leads id_base ss [] (dispatch_signal env sig v s)"
proof -
  note base = core_base [OF c]
  have run: "wf_fpy (sq_fpy s)" "statements_dispatched (sq_fpy s) \<noteq> - 1"
    using running_wf [OF c] cnt by (simp_all add: st is_running_state_def saturated_def)
  have ss: "ss = []" and sig: "sig \<in> bp_cmds \<union> late \<union> {cmd_BREAK, checkTimersIn, stmtResponse_unexpected, stmtResponse_beginSleep,
       stmtResponse_failure, stmtResponse_keepWaiting, stmtResponse_success}"
    using c st by (auto simp: core_def one_of_def)
  have fail: "leads id_base [] [] (eff_then (run_actions env v [report_seqFailed, sendCmdResponse_EXECUTION_ERROR] s) (enter_leaf env IDLE))"
    using fails_leads [OF base] by blast
  show ?thesis
  proof (cases "sig \<in> responded")
    case True
    then consider "sig \<in> {stmtResponse_unexpected, stmtResponse_failure}" | "sig = stmtResponse_beginSleep"
      | "sig = stmtResponse_success"
      by (auto simp: responded_def)
    then show ?thesis
    proof cases
      case 1
      then show ?thesis
        using fail ss by (auto simp: dispatch_signal_def transition_def Let_def st is_running_state_def simp del: run_actions.simps)
    next
      case 2
      have "core [] [] (s\<lparr>sq_state := RUNNING_SLEEPING\<rparr>)"
        using base run by (simp add: core_def one_of_def data_ok_def is_running_state_def)
      then show ?thesis
        using 2 ss by (simp add: dispatch_signal_def transition_def Let_def st enter_leaf_def eff_then_def leads_quiet)
    next
      case 3
      have "leads id_base [] [] (enter_break_check env s)"
        using base run env by (intro enter_break_check_leads) (simp_all add: one_of_def)
      then show ?thesis
        using 3 ss by (auto simp: dispatch_signal_def transition_def Let_def st intro: leads_then)
    qed
  next
    case False
    have rest: "core [] [] s"
      using core_drop [OF c] ss st False by (simp add: one_of_def)
    consider "sig \<in> bp_cmds" | "sig = cmd_BREAK" | "sig = checkTimersIn"
      | "sig \<in> {result_checkStatementTimeout_noTimeout, stmtResponse_keepWaiting}"
      | "sig \<in> {result_checkStatementTimeout_statementTimeout, result_timeOpFailed}"
      using sig False by (auto simp: responded_def)
    then show ?thesis
    proof cases
      case 1
      then show ?thesis
        using bp_leads [OF rest] v ss by simp
    next
      case 2
      then show ?thesis
        using ss rest by (simp add: dispatch_signal_def transition_def Let_def st is_running_state_def eff_then_def leads_quiet)
    next
      case 3
      obtain x calls where x: "action_checkStatementTimeout env s = sends x NoValue calls s" "x \<in> late"
        using timeout_action [OF base env] by blast
      have "core [x] [] s"
        using rest x(2) st by (auto simp: core_def one_of_def data_ok_def responded_def)
      then show ?thesis
        using 3 ss x by (auto simp: dispatch_signal_def transition_def Let_def st eff_then_def leads_def value_ok_def)
    next
      case 4
      then show ?thesis
        using ss rest by (intro ignored_leads) (auto simp: transition_def Let_def)
    next
      case 5
      then show ?thesis
        using fail ss by (auto simp: dispatch_signal_def transition_def Let_def st is_running_state_def simp del: run_actions.simps)
    qed
  qed
qed

lemma signal_sleeping:
  assumes c: "core (sig # ss) ds s" and st: "sq_state s = RUNNING_SLEEPING" and v: "value_ok sig v"
    and env: "env_ok env" and cnt: "\<not> saturated s"
  shows "leads id_base ss ds (dispatch_signal env sig v s)"
proof -
  note base = core_base [OF c]
  have ds: "ds = []"
    using c st by (simp add: core_def)
  have run: "wf_fpy (sq_fpy s)" "statements_dispatched (sq_fpy s) \<noteq> - 1"
    using running_wf [OF c] cnt by (simp_all add: st is_running_state_def saturated_def)
  have here: "core xs [] s" if "fits RUNNING_SLEEPING xs 0" "set xs \<inter> {result_success, result_dispatchStatement_success} = {}" for xs
    using that base run st by (auto simp: core_def data_ok_def)
  consider "ss = []" "sig \<in> bp_cmds \<union> late \<union> {cmd_BREAK, checkTimersIn, stmtResponse_unexpected}"
    | l where "l \<in> late" "ss = [l]" "sig \<in> {result_checkShouldWake_keepSleeping, result_checkShouldWake_wakeup, result_timeOpFailed}"
    using c st by (auto simp: core_def one_of_def)
  then show ?thesis
  proof cases
    case 1
    have rest: "core [] [] s"
      by (rule here) (simp_all add: one_of_def)
    consider "sig \<in> bp_cmds" | "sig = cmd_BREAK" | "sig = checkTimersIn" | "sig = result_checkStatementTimeout_noTimeout"
      | "sig \<in> {result_checkStatementTimeout_statementTimeout, result_timeOpFailed, stmtResponse_unexpected}"
      using 1(2) by blast
    then show ?thesis
    proof cases
      case a: 1
      then show ?thesis
        using bp_leads [OF rest] v 1 ds by simp
    next
      case 2
      then show ?thesis
        using 1 ds rest by (simp add: dispatch_signal_def transition_def Let_def st is_running_state_def eff_then_def leads_quiet)
    next
      case 3
      obtain w calls where w: "action_checkShouldWake env s = sends w NoValue calls s"
          "w \<in> {result_checkShouldWake_keepSleeping, result_checkShouldWake_wakeup, result_timeOpFailed}"
        using wake_action by blast
      obtain x calls' where x: "action_checkStatementTimeout env s = sends x NoValue calls' s" "x \<in> late"
        using timeout_action [OF base env] by blast
      have "core [w, x] [] s"
        using w(2) x(2) by (intro here) (auto simp: one_of_def)
      then show ?thesis
        using 3 1 ds w x by (auto simp: dispatch_signal_def transition_def Let_def st eff_then_def leads_def value_ok_def)
    next
      case 4
      then show ?thesis
        using 1 ds rest by (intro ignored_leads) (auto simp: transition_def Let_def)
    next
      case 5
      then show ?thesis
        using fails_leads [OF base, of "[]" id_base env v] 1 ds
        by (auto simp: dispatch_signal_def transition_def Let_def st is_running_state_def simp del: run_actions.simps)
    qed
  next
    case 2
    consider "sig = result_checkShouldWake_keepSleeping" | "sig = result_checkShouldWake_wakeup" | "sig = result_timeOpFailed"
      using 2(3) by blast
    then show ?thesis
    proof cases
      case 1
      have "core ss ds s"
        unfolding ds using 2 by (intro here) (auto simp: one_of_def)
      then show ?thesis
        using 1 by (intro ignored_leads) (auto simp: transition_def Let_def)
    next
      case wake: 2
      have "leads id_base ss [] (enter_break_check env s)"
        using base run env 2 by (intro enter_break_check_leads) (auto simp: one_of_def)
      then show ?thesis
        using wake ds by (auto simp: dispatch_signal_def transition_def Let_def st intro: leads_then)
    next
      case 3
      then show ?thesis
        using fails_leads [OF base, of ss id_base env v] 2 ds
        by (auto simp: dispatch_signal_def transition_def Let_def st is_running_state_def simp del: run_actions.simps)
    qed
  qed
qed

lemma signal_leads:
  assumes c: "core (sig # ss) ds s" and v: "value_ok sig v" and env: "env_ok env" and cnt: "\<not> saturated s"
  shows "leads id_base ss ds (dispatch_signal env sig v s)"
proof (cases "sq_state s")
  case RUNNING_AWAITING_STATEMENT_RESPONSE
  then have "ds = [] \<or> (\<exists>d. ds = [d])"
    using c by (auto simp: core_def length_Suc_conv)
  then show ?thesis
    using RUNNING_AWAITING_STATEMENT_RESPONSE signal_awaiting signal_awaiting_directive assms by metis
qed (use assms signal_idle signal_validating signal_validated signal_paused signal_dispatching signal_sleeping in metis)+

section \<open>Directives, responses and timers\<close>

lemma directive_leads:
  assumes c: "core [] [d] s" and env: "env_ok env" and ok: "\<not> trips (se_fpy env) d (sq_fpy s)"
  shows "leads id_base [] [] (directive_in env d s)"
proof -
  have st: "sq_state s = RUNNING_AWAITING_STATEMENT_RESPONSE"
    using c by (cases "sq_state s") (simp_all add: core_def)
  have wf: "wf_fpy (sq_fpy s)" "wf_directive d" "serial_ok (se_fpy env)" "0 < statements_dispatched (sq_fpy s)"
    using c env by (simp_all add: core_def data_ok_def st is_running_state_def env_ok_def)
  obtain sig e calls st' where h: "directive_handler (se_fpy env) d (sq_fpy s) = Some (sig, e, calls, st')" "wf_fpy st'"
      "same_sequence (sq_fpy s) st'"
      "sig \<in> {stmtResponse_success, stmtResponse_failure, stmtResponse_beginSleep, stmtResponse_keepWaiting}"
      "sig = stmtResponse_keepWaiting \<longrightarrow> stk_size (stack_of st') < MAX_STACK_SIZE"
    using directive_safe_aux [OF wf(1,2,3)] ok unfolding responds_def by auto
  define st2 where "st2 = handle_directive_error_code st' (directive_id d) e"
  have st2: "wf_fpy st2" "same_sequence (sq_fpy s) st2" "stack_of st2 = stack_of st'"
    using h(2,3) by (simp_all add: st2_def)
  have m: "directive_message (se_fpy env) d (sq_fpy s) = Some (sig, calls, st2)"
    using h(1) by (simp add: directive_message_def st2_def)
  have "data_base (s\<lparr>sq_fpy := st2\<rparr>)"
    using core_base [OF c] st2 by (auto simp: data_base_def same_sequence_def wf_fpy_def wf_load_def statements_ok_def)
  then have "core [sig] [] (s\<lparr>sq_fpy := st2\<rparr>)"
    using h(4,5) st2 wf(4) st
    by (auto simp: core_def one_of_def data_ok_def is_running_state_def same_sequence_def responded_def)
  then show ?thesis
    using m h(4) by (auto simp: directive_in_def leads_def value_ok_def)
qed

lemma response_leads:
  assumes c: "core [] [] s"
  shows "leads id_base [] [] (cmd_response_in_handler op_code uid response s)"
proof (cases "is_running_state (sq_state s)")
  case False
  then show ?thesis
    using c by (simp add: cmd_response_in_handler_def Let_def leads_event)
next
  case True
  have un: "leads id_base [] [] (sends stmtResponse_unexpected NoValue calls s)" for calls
    using c True by (cases "sq_state s") (auto simp: leads_def core_def one_of_def data_ok_def value_ok_def is_running_state_def responded_def)
  have push: "\<exists>stack. stack_push (CmdResponse_repr response) (stack_of (sq_fpy s)) = Some stack \<and>
      leads id_base [] [] (sends stmtResponse_success NoValue [] (on_fpy (set_stack stack) s))"
    if st: "sq_state s = RUNNING_AWAITING_STATEMENT_RESPONSE"
  proof -
    let ?stack = "pushed (to_be_bytes (CmdResponse_repr response)) (stack_of (sq_fpy s))"
    have room: "stk_size (stack_of (sq_fpy s)) < MAX_STACK_SIZE" "wf_stack (stack_of (sq_fpy s))" "wf_fpy (sq_fpy s)"
      using c st by (simp_all add: core_def data_ok_def data_base_def is_running_state_def)
    then have wf: "wf_stack ?stack"
      by (intro wf_pushed) simp_all
    then have "data_base (on_fpy (set_stack ?stack) s)" "wf_fpy (set_stack ?stack (sq_fpy s))"
      using core_base [OF c] room(3)
      by (auto simp: data_base_def on_fpy_def wf_load_def statements_ok_def) (auto simp: set_stack_def)
    then have "core [stmtResponse_success] [] (on_fpy (set_stack ?stack) s)"
      using c st by (simp add: core_def one_of_def data_ok_def is_running_state_def responded_def on_fpy_def)
        (simp add: set_stack_def)
    then show ?thesis
      using room by (simp add: stack_push_eq leads_def value_ok_def)
  qed
  have "0 < statements_dispatched (sq_fpy s)" if "sq_state s = RUNNING_AWAITING_STATEMENT_RESPONSE"
    using c that by (simp add: core_def data_ok_def)
  then show ?thesis
    using True un push c by (auto simp: cmd_response_in_handler_def Let_def leads_event)
qed

lemma timers_leads:
  assumes "core [] [] s"
  shows "leads id_base [] [] (check_timers_handler s)"
  using assms
  by (cases "sq_state s") (auto simp: check_timers_handler_def leads_def core_def one_of_def data_ok_def value_ok_def responded_def)

section \<open>Commands\<close>

lemma core_saved [simp]: "core ss ds (s\<lparr>saved_op_code := x, saved_cmd_seq := y\<rparr>) = core ss ds s"
  by (simp add: core_def data_ok_def)

lemma core_idle_signal:
  assumes "core [] ds s" and "sq_state s = IDLE" and "sig \<in> {cmd_RUN, cmd_VALIDATE}"
  shows "core [sig] ds s"
  using assms by (auto simp: core_def one_of_def data_ok_def is_running_state_def)

lemma run_leads:
  assumes "core [] ds s" and "length (snd a) = SEQUENCE_ARGUMENTS_MAX_SIZE"
  shows "leads id_base [] ds (run_args_cmd_handler op_code cmd_seq n blk a s)"
    and "leads id_base [] ds (validate_args_cmd_handler op_code cmd_seq n a s)"
    and "length buf = SEQUENCE_ARGUMENTS_MAX_SIZE \<Longrightarrow> leads id_base [] ds (seq_run_in_handler path k buf s)"
  using assms core_idle_signal [OF assms(1)]
  by (auto simp: run_args_cmd_handler_def validate_args_cmd_handler_def seq_run_in_handler_def reject_command_def leads_event)
    (auto simp: leads_def value_ok_def)

lemma run_validated_leads:
  assumes "core [] ds s"
  shows "leads id_base [] ds (run_validated_cmd_handler op_code cmd_seq blk s)"
proof (cases "sq_state s = AWAITING_CMD_RUN_VALIDATED")
  case True
  then have "core [cmd_RUN_VALIDATED] ds s" "length (args_buffer (sq_fpy s)) = SEQUENCE_ARGUMENTS_MAX_SIZE"
    using assms by (auto simp: core_def one_of_def data_ok_def data_base_def is_running_state_def)
  then show ?thesis
    using True by (auto simp: run_validated_cmd_handler_def leads_def value_ok_def)
next
  case False
  then show ?thesis
    using assms by (simp add: run_validated_cmd_handler_def reject_command_def leads_event)
qed

lemma debug_leads:
  assumes c: "core [] ds s"
  shows "leads id_base [] ds (set_breakpoint_cmd_handler op_code cmd_seq i once s)"
    and "leads id_base [] ds (break_cmd_handler op_code cmd_seq s)"
    and "leads id_base [] ds (continue_cmd_handler op_code cmd_seq s)"
    and "leads id_base [] ds (clear_breakpoint_cmd_handler op_code cmd_seq s)"
    and "leads id_base [] ds (step_cmd_handler op_code cmd_seq s)"
proof -
  have bp: "core [x] ds s" if "x \<in> bp_cmds" for x
    using c that by (cases "sq_state s") (auto simp: core_def one_of_def data_ok_def responded_def is_running_state_def)
  have br: "core [cmd_BREAK] ds s" if "is_running_state (sq_state s)" "sq_state s \<noteq> RUNNING_PAUSED"
    using c that by (cases "sq_state s") (auto simp: core_def one_of_def data_ok_def responded_def is_running_state_def)
  have pa: "core [x] ds s" if "sq_state s = RUNNING_PAUSED" "x \<in> {cmd_CONTINUE, cmd_STEP}" for x
    using c that by (auto simp: core_def one_of_def data_ok_def responded_def is_running_state_def)
  show "leads id_base [] ds (set_breakpoint_cmd_handler op_code cmd_seq i once s)"
      "leads id_base [] ds (clear_breakpoint_cmd_handler op_code cmd_seq s)"
    using bp by (simp_all add: set_breakpoint_cmd_handler_def clear_breakpoint_cmd_handler_def leads_def value_ok_def)
  show "leads id_base [] ds (break_cmd_handler op_code cmd_seq s)"
    using br c by (auto simp: break_cmd_handler_def reject_command_def leads_event) (auto simp: leads_def value_ok_def)
  show "leads id_base [] ds (continue_cmd_handler op_code cmd_seq s)" "leads id_base [] ds (step_cmd_handler op_code cmd_seq s)"
    using pa c by (auto simp: continue_cmd_handler_def step_cmd_handler_def reject_command_def leads_event)
      (auto simp: leads_def value_ok_def)
qed

lemma dump_leads:
  assumes "core [] ds s"
  shows "leads id_base [] ds (dump_stack_to_file_cmd_handler env op_code cmd_seq n s)"
proof -
  have "stk_size (stack_of (sq_fpy s)) \<le> length (stk_bytes (stack_of (sq_fpy s)))"
    using core_base [OF assms] by (simp add: data_base_def wf_stack_def)
  then show ?thesis
    using assms
    by (auto simp: dump_stack_to_file_cmd_handler_def reject_command_def leads_event Let_def split: prod.splits)
qed

text \<open>Reading the arguments of a command never panics.\<close>

lemma read_name_total:
  assumes "wf_buf b"
  shows "\<exists>status n b'. read_name wanted b = Some (status, n, b') \<and> wf_buf b'"
  using string_consumes [OF assms, of "string_new FW_CMD_STRING_MAX_SIZE" Big] assms
  by (auto simp: read_name_def consumed_def)

lemma read_block_total: "wf_buf b \<Longrightarrow> \<exists>status raw b'. read_raw_block wanted b = Some (status, raw, b') \<and> wf_buf b'"
  by (cases "unread b") (auto simp: read_raw_block_def deserialize_prim_eq)

lemma read_breakpoint_total:
  assumes "wf_buf b"
  shows "\<exists>status v b'. read_breakpoint wanted b = Some (status, v, b') \<and> wf_buf b'"
proof -
  obtain status i b' bs where u: "deserialize_u32 b 0 Big = Some (status, i, b')" "consumed b bs b'"
    using u32_consumes [OF assms] by blast
  have "\<exists>status once b''. deserialize_bool b' False Big = Some (status, once, b'') \<and> wf_buf b''"
    using consumed_wf [OF u(2)] by (cases "unread b'") (auto simp: deserialize_bool_eq)
  then show ?thesis
    using u assms consumed_wf [OF u(2)] by (auto simp: read_breakpoint_def fw_try_def)
qed

lemma read_seq_args_total:
  assumes b: "wf_buf b"
  shows "\<exists>status a b'. read_seq_args wanted b = Some (status, a, b') \<and> wf_buf b' \<and> length (snd a) = SEQUENCE_ARGUMENTS_MAX_SIZE"
proof (cases "wanted \<and> 8 \<le> length (unread b)")
  case False
  then show ?thesis
    using b by (auto simp: read_seq_args_def Let_def fw_try_def deserialize_prim_eq)
next
  case True
  let ?ts = "replicate SEQUENCE_ARGUMENTS_MAX_SIZE (PU8 0)"
  have b8: "wf_buf (adv b 8)" and u: "deserialize_u64 b 0 Big = Some (Ok, from_bytes Big (take 8 (unread b)), adv b 8)"
    using True b by (auto simp: deserialize_prim_eq)
  have words: "list_all word_prim ?ts"
    by (simp add: list_all_iff)
  have "\<exists>status vs b'. deser_list (\<lambda>t b. prim_deserialize_from t b Big) ?ts (adv b 8) = Some (status, vs, b') \<and> wf_buf b' \<and>
      (status = Ok \<longrightarrow> length vs = SEQUENCE_ARGUMENTS_MAX_SIZE)"
  proof (cases "sum_list (map prim_serialized_size ?ts) \<le> length (unread (adv b 8))")
    case True
    then show ?thesis
      using deser_words [OF b8 words, where e = Big] b8 by (fastforce dest: list_all2_lengthD)
  next
    case False
    then show ?thesis
      using deser_words_short [OF b8 words, where e = Big] by fastforce
  qed
  then show ?thesis
    using True u by (auto simp: read_seq_args_def Let_def fw_try_def)
qed

lemma command_leads:
  assumes c: "core [] ds s" and args: "wf_buf args" and cancel: "op_code - id_base \<noteq> OPCODE_CANCEL"
  shows "leads id_base [] ds (cmd_in_handler env id_base op_code cmd_seq args s)"
proof -
  let ?l = "op_code - id_base"
  obtain s1 n b1 where 1: "read_name (?l \<in> {OPCODE_RUN, OPCODE_RUN_ARGS, OPCODE_VALIDATE, OPCODE_VALIDATE_ARGS,
      OPCODE_DUMP_STACK_TO_FILE}) args = Some (s1, n, b1)" "wf_buf b1"
    using read_name_total [OF args] by blast
  obtain s2 raw b2 where 2: "read_raw_block (?l \<in> {OPCODE_RUN, OPCODE_RUN_ARGS, OPCODE_RUN_VALIDATED}) b1 = Some (s2, raw, b2)"
      "wf_buf b2"
    using read_block_total [OF 1(2)] by blast
  obtain s3 a b3 where 3: "read_seq_args (?l \<in> {OPCODE_RUN_ARGS, OPCODE_VALIDATE_ARGS}) b2 = Some (s3, a, b3)" "wf_buf b3"
      "length (snd a) = SEQUENCE_ARGUMENTS_MAX_SIZE"
    using read_seq_args_total [OF 2(2)] by blast
  obtain s4 i once b4 where 4: "read_breakpoint (?l = OPCODE_SET_BREAKPOINT) b3 = Some (s4, (i, once), b4)" "wf_buf b4"
    using read_breakpoint_total [OF 3(2)] by fastforce
  note handlers = run_leads(1,2) [OF c 3(3)] run_validated_leads [OF c] debug_leads [OF c] dump_leads [OF c]
  show ?thesis
    unfolding cmd_in_handler_def Let_def 1(1) 2(1) 3(1) 4(1) size_left_eq(1) [OF 4(2)] Option.bind.simps prod.case
    using cancel handlers leads_event [OF c] by (simp split: if_split)
qed

section \<open>Every step keeps the invariant\<close>

lemma take_first_Some:
  "take_first P q = Some (m, q') \<Longrightarrow> \<exists>pre post. q = pre @ m # post \<and> q' = pre @ post \<and> P m \<and> (\<forall>x \<in> set pre. \<not> P x)"
proof (induction q arbitrary: q')
  case (Cons x q)
  show ?case
  proof (cases "P x")
    case True
    then show ?thesis
      using Cons.prems by (intro exI [of _ "[]"] exI [of _ q]) simp
  next
    case False
    then obtain r where "take_first P q = Some (m, r)" "q' = x # r"
      using Cons.prems by auto
    then obtain pre post where "q = pre @ m # post" "r = pre @ post" "P m" "\<forall>y \<in> set pre. \<not> P y"
      using Cons.IH by blast
    then show ?thesis
      using False \<open>q' = x # r\<close> by (intro exI [of _ "x # pre"] exI [of _ post]) simp
  qed
qed simp

lemma take_first_None: "take_first P q = None \<Longrightarrow> x \<in> set q \<Longrightarrow> \<not> P x"
  by (induction q) (auto split: if_splits)

lemma no_sigs: "\<forall>x \<in> set q. msg_priority id_base x \<noteq> 9 \<Longrightarrow> sigs q = []"
proof (induction q)
  case (Cons m q)
  then show ?case
    by (cases m) auto
qed simp

lemma no_dirs: "\<forall>x \<in> set q. msg_priority id_base x \<noteq> 6 \<Longrightarrow> dirs q = []"
proof (induction q)
  case (Cons m q)
  then show ?case
    by (cases m) auto
qed simp

text \<open>
  What the order of the queue means: a signal is the oldest one; any other message but a ping is handled only when no
  signal is pending, and a response or a timer only when no directive is either.
\<close>

lemma next_msg_order:
  assumes "next_msg id_base q = Some (m, q')"
  shows "set q = insert m (set q')" and "sigs q = sig_of m @ sigs q'" and "dirs q = dir_of m @ dirs q'"
    and "msg_priority id_base m < 9 \<Longrightarrow> sigs q' = []" and "msg_priority id_base m < 6 \<Longrightarrow> dirs q' = []"
proof -
  obtain pre post where q: "q = pre @ m # post" "q' = pre @ post"
      and le: "\<forall>x \<in> set q. msg_priority id_base x \<le> msg_priority id_base m"
      and pre: "\<forall>x \<in> set pre. msg_priority id_base x \<noteq> msg_priority id_base m"
    using take_first_Some [of "\<lambda>m. \<forall>x \<in> set q. msg_priority id_base x \<le> msg_priority id_base m" q m q'] assms
    unfolding next_msg_def by fastforce
  show "set q = insert m (set q')"
    by (simp add: q)
  show "sigs q = sig_of m @ sigs q'"
  proof (cases "sig_of m = []")
    case False
    then have "msg_priority id_base m = 9"
      by (cases m) simp_all
    then show ?thesis
      using no_sigs [of pre id_base] pre by (simp add: q)
  qed (simp add: q)
  show "dirs q = dir_of m @ dirs q'"
  proof (cases "dir_of m = []")
    case False
    then have "msg_priority id_base m = 6"
      by (cases m) simp_all
    then show ?thesis
      using no_dirs [of pre id_base] pre by (simp add: q)
  qed (simp add: q)
  have sub: "set q' \<subseteq> set q"
    by (auto simp: q)
  show "sigs q' = []" if "msg_priority id_base m < 9"
    using that le sub by (intro no_sigs [of _ id_base] ballI) (metis leD subsetD)
  show "dirs q' = []" if "msg_priority id_base m < 6"
    using that le sub by (intro no_dirs [of _ id_base] ballI) (metis leD subsetD)
qed

lemma next_msg_total: "q \<noteq> [] \<Longrightarrow> \<exists>m q'. next_msg id_base q = Some (m, q')"
proof -
  assume "q \<noteq> []"
  then have ne: "msg_priority id_base ` set q \<noteq> {}" "finite (msg_priority id_base ` set q)"
    by simp_all
  then obtain m where m: "m \<in> set q" "msg_priority id_base m = Max (msg_priority id_base ` set q)"
    using imageE [OF Max_in [OF ne(2,1)]] by metis
  then have "\<forall>x \<in> set q. msg_priority id_base x \<le> msg_priority id_base m"
    using ne(2) by simp
  then have "next_msg id_base q \<noteq> None"
    using take_first_None m(1) unfolding next_msg_def by fastforce
  then show ?thesis
    by fastforce
qed

lemma arrived_inert:
  assumes "list_all (\<lambda>m. external m \<and> no_cancel id_base m) arrived"
  shows "sigs arrived = [] \<and> dirs arrived = [] \<and> list_all (msg_ok id_base) arrived"
  using assms
proof (induction arrived)
  case (Cons m arrived)
  then show ?case
    by (cases m) auto
qed simp

text \<open>The sequencer has at most three messages of its own in the queue.\<close>

lemma queue_length:
  assumes "list_all (msg_ok id_base) q"
  shows "length q = length (filter external q) + length (sigs q) + length (dirs q)"
  using assms
proof (induction q)
  case (Cons m q)
  then show ?case
    by (cases m) auto
qed simp

lemma core_own:
  assumes "core ss ds s"
  shows "length ss + length ds \<le> 3"
  using assms by (cases "sq_state s") (auto simp: core_def one_of_def)

lemma own_messages:
  assumes "seq_inv id_base (q, s)"
  shows "length q \<le> length (filter external q) + 3"
  using assms queue_length [of id_base q] core_own [of "sigs q" "dirs q" s] by (simp add: seq_inv_def)

lemma handle_leads:
  assumes inv: "seq_inv id_base (q, s)" and env: "env_ok env" and nxt: "next_msg id_base q = Some (m, q')"
    and cnt: "\<not> saturated s" and ok: "\<And>d. m = M_Directive d \<Longrightarrow> \<not> trips (se_fpy env) d (sq_fpy s)"
  shows "leads id_base (sigs q') (dirs q') (dispatch_message env id_base m s)"
proof -
  note ord = next_msg_order [OF nxt]
  have c: "core (sig_of m @ sigs q') (dir_of m @ dirs q') s" and m: "msg_ok id_base m"
    using inv ord by (simp_all add: seq_inv_def list_all_iff)
  show ?thesis
  proof (cases m)
    case (M_Cmd op_code cmd_seq args)
    then have "sigs q' = []"
      using ord(4) by auto
    then show ?thesis
      using M_Cmd command_leads c m by auto
  next
    case (M_Directive d)
    have "length (dirs q') = 0"
      using c ord(4) by (cases "sq_state s") (auto simp: M_Directive core_def)
    then show ?thesis
      using M_Directive directive_leads c ord(4) env ok by simp
  next
    case (M_Signal sig v)
    then show ?thesis
      using signal_leads c m env cnt by simp
  qed (use c m ord(4,5) response_leads timers_leads run_leads(3) [where a = "(0, replicate SEQUENCE_ARGUMENTS_MAX_SIZE 0)"]
      in \<open>auto simp: leads_event\<close>)
qed

lemma leads_inv:
  assumes "leads id_base (sigs q') (dirs q') (dispatch_message env id_base m s)" and "list_all (msg_ok id_base) q'"
    and "list_all (\<lambda>m. external m \<and> no_cancel id_base m) arrived"
  shows "\<exists>out calls s'. dispatch_message env id_base m s = Some (out, calls, s') \<and> list_all (\<lambda>m. \<not> external m) out \<and>
    seq_inv id_base (q' @ arrived @ out, s')"
  using assms arrived_inert [OF assms(3)] by (fastforce simp: leads_def seq_inv_def)

lemma arrive_inv:
  assumes "seq_inv id_base (q, s)" and "external m" and "no_cancel id_base m" and "send_message depth q m = Some q'"
  shows "seq_inv id_base (q', s)"
proof -
  have "seq_inv id_base (q @ [m], s)"
    using assms(1-3) by (cases m) (auto simp: seq_inv_def)
  then show ?thesis
    using send_message_cases [OF assms(4)] assms(1) by auto
qed

lemma initial_inv: "seq_initial s \<Longrightarrow> seq_inv id_base ([], s)"
  by (simp add: seq_initial_def seq_inv_def core_def one_of_def data_ok_def data_base_def is_running_state_def)

text \<open>A directive is handled only in the state that awaits it, and panics exactly in the cases of \<open>trips\<close>.\<close>

lemma directive_trips:
  assumes "core ss (d # ds) s" and "env_ok env" and "ss = []" and "trips (se_fpy env) d (sq_fpy s)"
  shows "directive_in env d s = None"
proof -
  have st: "sq_state s = RUNNING_AWAITING_STATEMENT_RESPONSE"
    using assms(1,3) by (cases "sq_state s") (simp_all add: core_def)
  have "wf_fpy (sq_fpy s)" "wf_directive d" "serial_ok (se_fpy env)"
    using assms(1,2) by (simp_all add: core_def data_ok_def st is_running_state_def env_ok_def)
  then have "directive_handler (se_fpy env) d (sq_fpy s) = None"
    using directive_safe_aux assms(4) by fastforce
  then show ?thesis
    by (simp add: directive_in_def directive_message_def)
qed

text \<open>What becomes of the next message.\<close>

lemma dispatch_outcome:
  assumes inv: "seq_inv id_base (q, s)" and env: "env_ok env" and nxt: "next_msg id_base q = Some (m, q')"
    and cnt: "\<not> saturated s" and arr: "list_all (\<lambda>m. external m \<and> no_cancel id_base m) arrived"
    and room: "length (q' @ arrived) \<le> depth"
  shows "if \<exists>d. m = M_Directive d \<and> trips (se_fpy env) d (sq_fpy s) then dispatch_message env id_base m s = None
    else \<exists>out calls s'. dispatch_message env id_base m s = Some (out, calls, s') \<and>
      seq_inv id_base (q' @ arrived @ out, s') \<and> list_all (\<lambda>m. \<not> external m) out \<and>
      do_dispatch env id_base depth arrived (q, s) =
        (if length q' + length arrived + length out \<le> depth then Some (calls, q' @ arrived @ out, s') else None)"
proof (cases "\<exists>d. m = M_Directive d \<and> trips (se_fpy env) d (sq_fpy s)")
  case True
  then obtain d where d: "m = M_Directive d" "trips (se_fpy env) d (sq_fpy s)"
    by blast
  have "core (sigs q') (d # dirs q') s" "sigs q' = []"
    using inv next_msg_order [OF nxt] d(1) by (simp_all add: seq_inv_def)
  then have "directive_in env d s = None"
    using directive_trips env d(2) by blast
  then show ?thesis
    using d by auto
next
  case False
  then have "leads id_base (sigs q') (dirs q') (dispatch_message env id_base m s)"
    using handle_leads [OF inv env nxt cnt] by blast
  moreover have "list_all (msg_ok id_base) q'"
    using inv next_msg_order(1) [OF nxt] by (simp add: seq_inv_def list_all_iff)
  ultimately obtain out calls s' where out: "dispatch_message env id_base m s = Some (out, calls, s')"
      "list_all (\<lambda>m. \<not> external m) out" "seq_inv id_base (q' @ arrived @ out, s')"
    using leads_inv [OF _ _ arr] by blast
  then have "do_dispatch env id_base depth arrived (q, s) =
      (if length q' + length arrived + length out \<le> depth then Some (calls, q' @ arrived @ out, s') else None)"
    using send_all_own [OF out(2) room] nxt by (simp add: do_dispatch_def)
  then show ?thesis
    unfolding if_not_P [OF False] using out by blast
qed

lemma next_handled:
  assumes inv: "seq_inv id_base (q, s)" and env: "env_ok env" and ne: "q \<noteq> []" and cnt: "\<not> saturated s"
    and arr: "list_all (\<lambda>m. external m \<and> no_cancel id_base m) arrived"
  shows "\<exists>m q'. next_msg id_base q = Some (m, q') \<and>
    (dispatch_message env id_base m s = None \<longleftrightarrow> (\<exists>d. m = M_Directive d \<and> trips (se_fpy env) d (sq_fpy s))) \<and>
    (length (q' @ arrived) \<le> depth \<longrightarrow>
      (do_dispatch env id_base depth arrived (q, s) = None \<longleftrightarrow>
        (case dispatch_message env id_base m s of None \<Rightarrow> True
         | Some (out, calls, s') \<Rightarrow> depth < length (q' @ arrived) + length out)) \<and>
      (length (filter external (q' @ arrived)) + 3 \<le> depth \<longrightarrow>
        (do_dispatch env id_base depth arrived (q, s) = None \<longleftrightarrow> dispatch_message env id_base m s = None)))"
proof -
  obtain m q' where n: "next_msg id_base q = Some (m, q')"
    using next_msg_total [OF ne] by blast
  note out = dispatch_outcome [OF inv env n cnt arr]
  show ?thesis
  proof (cases "\<exists>d. m = M_Directive d \<and> trips (se_fpy env) d (sq_fpy s)")
    case True
    then have "dispatch_message env id_base m s = None"
      using out [of "length (q' @ arrived)"] by auto
    then show ?thesis
      using n True by (auto simp: do_dispatch_def)
  next
    case False
    obtain o' calls s' where o': "dispatch_message env id_base m s = Some (o', calls, s')"
        "seq_inv id_base (q' @ arrived @ o', s')" "list_all (\<lambda>m. \<not> external m) o'"
      using out [of "length (q' @ arrived)"] unfolding if_not_P [OF False] by blast
    have "filter external o' = []"
      using o'(3) by (simp add: list_all_iff filter_empty_conv)
    then have "length (q' @ arrived) + length o' \<le> length (filter external (q' @ arrived)) + 3"
      using own_messages [OF o'(2)] by simp
    moreover have "do_dispatch env id_base depth arrived (q, s) = None \<longleftrightarrow> depth < length (q' @ arrived) + length o'"
      if "length (q' @ arrived) \<le> depth"
      using out [OF that] o'(1) unfolding if_not_P [OF False] by auto
    ultimately show ?thesis
      using n False o'(1) by (intro exI [of _ m] exI [of _ q']) auto
  qed
qed

lemma step_inv:
  assumes "seq_step id_base depth (no_cancel id_base) c c'" and "seq_inv id_base c" and "length (fst c) \<le> depth"
  shows "seq_inv id_base c' \<and> length (fst c') \<le> depth"
  using assms(1)
proof (cases rule: seq_step.cases)
  case (arrive m q q' s)
  then show ?thesis
    using arrive_inv send_message_cases [OF arrive(5)] assms(2,3) by auto
next
  case (handle env s q m q' arrived calls)
  have inv: "seq_inv id_base (q, s)"
    using assms(2) handle(1) by simp
  have "dispatch_message env id_base m s \<noteq> None"
    using handle(4,7) by (cases "dispatch_message env id_base m s") (auto simp: do_dispatch_def)
  then show ?thesis
    using dispatch_outcome [OF inv handle(2,4,3,5,6)] handle(7) by (auto split: if_splits)
qed

lemma reachable_inv:
  "seq_reachable id_base depth (no_cancel id_base) c \<Longrightarrow> seq_inv id_base c \<and> length (fst c) \<le> depth"
proof (induction rule: seq_reachable.induct)
  case (initial s)
  then show ?case using initial_inv by simp
next
  case (step c c')
  then show ?case using step_inv by blast
qed

text \<open>
  C30.  The sequencer is safe under every interleaving of inputs without a cancellation: in every state reachable from
  a new sequencer by arrivals of commands, command responses, run requests, timer ticks and pings and by handling
  queued messages, the queue is within its depth and holds at most three messages of the sequencer itself; at most one
  of them is a directive, and then the state machine awaits its response or is about to; while a sequence runs its
  runtime is well formed; and a non-empty queue yields a next message.  Handling it, with further messages arriving
  meanwhile, panics exactly when it is a directive in one of the cases of \<open>trips\<close> or the queue has no room for what the
  handler sends; the latter never happens while the messages of other components leave three places free.
\<close>

theorem sequencer_safe:
  assumes "seq_reachable id_base depth (no_cancel id_base) (q, s)" and "env_ok env" and "\<not> saturated s"
    and "list_all (\<lambda>m. external m \<and> no_cancel id_base m) arrived"
  shows "length q \<le> depth \<and> length q \<le> length (filter external q) + 3 \<and> length (dirs q) \<le> 1 \<and>
    (dirs q \<noteq> [] \<longrightarrow> sq_state s \<in> {RUNNING_AWAITING_STATEMENT_RESPONSE, RUNNING_DISPATCH_STATEMENT}) \<and>
    (is_running_state (sq_state s) \<longrightarrow> wf_fpy (sq_fpy s)) \<and>
    (q \<noteq> [] \<longrightarrow> (\<exists>m q'. next_msg id_base q = Some (m, q') \<and>
      (dispatch_message env id_base m s = None \<longleftrightarrow> (\<exists>d. m = M_Directive d \<and> trips (se_fpy env) d (sq_fpy s))) \<and>
      (length (q' @ arrived) \<le> depth \<longrightarrow>
        (do_dispatch env id_base depth arrived (q, s) = None \<longleftrightarrow>
          (case dispatch_message env id_base m s of None \<Rightarrow> True
           | Some (out, calls, s') \<Rightarrow> depth < length (q' @ arrived) + length out)) \<and>
        (length (filter external (q' @ arrived)) + 3 \<le> depth \<longrightarrow>
          (do_dispatch env id_base depth arrived (q, s) = None \<longleftrightarrow> dispatch_message env id_base m s = None)))))"
proof -
  have inv: "seq_inv id_base (q, s)" and len: "length q \<le> depth"
    using reachable_inv [OF assms(1)] by simp_all
  then have c: "core (sigs q) (dirs q) s"
    by (simp add: seq_inv_def)
  have shape: "length (dirs q) \<le> 1 \<and>
      (dirs q \<noteq> [] \<longrightarrow> sq_state s \<in> {RUNNING_AWAITING_STATEMENT_RESPONSE, RUNNING_DISPATCH_STATEMENT})"
    using c by (cases "sq_state s") (auto simp: core_def)
  show ?thesis
    using len own_messages [OF inv] shape running_wf [OF c] next_handled [OF inv assms(2) _ assms(3,4), of depth] by blast
qed

definition example_sequencer :: sequencer where
  "example_sequencer = \<lparr>sq_fpy = (example_load 64)\<lparr>args_buffer := replicate SEQUENCE_ARGUMENTS_MAX_SIZE 0\<rparr>,
     sq_state = IDLE, sequence_block_state = Block, saved_op_code = 0,
     saved_cmd_seq = 0, goal_state = Goal_Idle, breakpoint = no_breakpoint, sequences_succeeded = 0, sequences_cancelled = 0\<rparr>"

definition example_seq_env :: seq_env where
  "example_seq_env = \<lparr>se_fpy = example_env, se_timeout = Some 5, se_base_dir = [],
     se_file = (\<lambda>_. file_of (sequence_file example_header example_body)), se_open_write = (\<lambda>_. 0),
     se_write = (\<lambda>_ bs. (0, length bs)), se_start_connected = True, se_done_connected = True\<rparr>"

lemma zero_valid: "valid_time ZERO_TIME"
  by (simp add: valid_time_def norm_usecs_def ZERO_TIME_def)

lemma example_env_ok [simp]: "env_ok example_seq_env"
proof -
  have "env_now example_env = ZERO_TIME"
    by (simp add: example_env_def)
  moreover have "\<exists>data. holds_data (file_of d) data" for d
    using holds_file_of by blast
  ultimately show ?thesis
    by (simp add: env_ok_def example_seq_env_def example_state_wf(5) zero_valid)
qed

lemma example_initial [simp]: "seq_initial example_sequencer"
proof -
  have "wf_load ((example_load 64)\<lparr>args_buffer := bs\<rparr>)" for bs
    using example_load_wf [of 64] by (simp add: wf_load_def statements_ok_def)
  moreover have "stack_of ((example_load 64)\<lparr>args_buffer := bs\<rparr>) = stack_of (example_state [])" for bs
    by (simp add: example_load_def stack_of_def)
  moreover have "wf_stack (stack_of (example_state []))"
    using example_state_wf(1) [of "[]"] by (simp add: wf_fpy_def)
  moreover have "wf_rng (rt_rng (fpy_runtime (example_load 64)))"
      "current_statement_dispatch_time (fpy_runtime (example_load 64)) = ZERO_TIME"
    by (simp_all add: example_load_def example_state_def wf_rng_def)
  ultimately show ?thesis
    by (simp add: seq_initial_def example_sequencer_def zero_valid)
qed

lemma example_unsaturated [simp]: "\<not> saturated example_sequencer"
  by (simp add: saturated_def example_sequencer_def example_load_def example_state_def)

abbreviation (input) example_run :: seq_msg where
  "example_run \<equiv> M_SeqRun [97] 4 (replicate SEQUENCE_ARGUMENTS_MAX_SIZE 0)"

lemma example_reachable: "seq_reachable 0 4 (no_cancel 0) ([example_run], example_sequencer)"
proof (rule seq_reachable.step [OF seq_reachable.initial [OF example_initial]])
  show "seq_step 0 4 (no_cancel 0) ([], example_sequencer) ([example_run], example_sequencer)"
    using seq_step.arrive [of example_run "no_cancel 0" 4 "[]" "[example_run]" 0 example_sequencer]
    by (simp add: send_message_def)
qed

theorem sequencer_safe_witness:
  "next_msg 0 [example_run] = Some (example_run, []) \<and>
   dispatch_message example_seq_env 0 example_run example_sequencer \<noteq> None \<and>
   do_dispatch example_seq_env 0 4 [M_Ping 7] ([example_run], example_sequencer) \<noteq> None"
proof -
  have "list_all (\<lambda>m. external m \<and> no_cancel 0 m) [M_Ping 7]"
    by simp
  from sequencer_safe [OF example_reachable example_env_ok example_unsaturated this] show ?thesis
    by (auto simp: next_msg_def)
qed

end
