(* ===== verification/Fpy_Runs.thy ===== *)
theory Fpy_Runs
  imports Fpy_Steps
begin

text \<open>
  Whole runs of the Fpy sequencer: the statements of a sequence that only jumps forward are executed at most once each,
  and what becomes of a \<open>VALIDATE\<close> command.
\<close>

section \<open>Runs of forward-only sequences\<close>

abbreviation next_of :: "fpy_state \<Rightarrow> u32" where "next_of st \<equiv> next_statement_index (fpy_runtime st)"

text \<open>
  One statement executed without failure: it is dispatched and its directive handled, which ends it, begins a sleep
  after which the next statement is dispatched, or waits for the response of a command, which is pushed.
\<close>

inductive run_stmt :: "fpy_state \<Rightarrow> fpy_state \<Rightarrow> bool" where
  handled: "dispatch_statement env st = Some (result_dispatchStatement_success, Some d, calls, st1) \<Longrightarrow> serial_ok env' \<Longrightarrow>
    directive_message env' d st1 = Some (sig, calls', st2) \<Longrightarrow> sig \<in> {stmtResponse_success, stmtResponse_beginSleep} \<Longrightarrow>
    run_stmt st st2"
| answered: "dispatch_statement env st = Some (result_dispatchStatement_success, Some d, calls, st1) \<Longrightarrow> serial_ok env' \<Longrightarrow>
    directive_message env' d st1 = Some (stmtResponse_keepWaiting, calls', st2) \<Longrightarrow>
    stack_push (CmdResponse_repr r) (stack_of st2) = Some s \<Longrightarrow> run_stmt st (set_stack s st2)"

text \<open>Where a directive that does not fail may continue.\<close>

definition successors :: "fpy_state \<Rightarrow> DirectiveUnion \<Rightarrow> u32 set" where
  "successors st d =
     (case d of
        Dir_Goto i \<Rightarrow> {i}
      | Dir_If i \<Rightarrow> {next_of st, i}
      | Dir_Exit \<Rightarrow> {ucast (statement_count st)}
      | Dir_Call \<Rightarrow> UNIV
      | Dir_Return _ _ \<Rightarrow> UNIV
      | _ \<Rightarrow> {next_of st})"

definition goes :: "u32 set \<Rightarrow> response option \<Rightarrow> bool" where
  "goes A r \<longleftrightarrow> (\<forall>sig e calls st'. r = Some (sig, e, calls, st') \<longrightarrow> sig \<noteq> stmtResponse_failure \<longrightarrow> next_of st' \<in> A)"

lemma goes_Some [simp]: "goes A (Some (sig, e, calls, st)) \<longleftrightarrow> sig = stmtResponse_failure \<or> next_of st \<in> A"
  by (auto simp: goes_def)

lemma goes_None [simp]: "goes A None"
  by (simp add: goes_def)

lemma goes_bind [intro!]: "(\<And>x. m = Some x \<Longrightarrow> goes A (k x)) \<Longrightarrow> goes A (m \<bind> k)"
  by (cases m) (simp_all add: goes_def)

lemma next_simps [simp]:
  "next_of (set_next i st) = i" "next_of (st\<lparr>fpy_runtime := rt\<rparr>) = next_statement_index rt"
  by (simp_all add: set_next_def)

lemma goes_on_stack: "goes {next_of st} (on_stack f st)"
  unfolding on_stack_def by (auto split: prod.split)

lemma goes_waits: "goes {next_of st} (wait_rel env st)" "goes {next_of st} (wait_abs st)"
  unfolding wait_rel_def wait_abs_def Let_def by (auto split: prod.split)

lemma goes_jumps:
  "goes {i} (goto_stmt i st)" "goes {next_of st, i} (if_stmt i st)" "goes {ucast (statement_count st)} (exit_seq st)"
  unfolding goto_stmt_def if_stmt_def exit_seq_def Let_def by (auto split: prod.split)

lemma goes_pushes:
  "goes {next_of st} (push_tlm_val env c st)" "goes {next_of st} (push_tlm_val_and_time env c st)"
  "goes {next_of st} (push_prm env c st)" "goes {next_of st} (push_time env st)"
  unfolding push_tlm_val_def push_tlm_val_and_time_def push_prm_def push_time_def Let_def
  by (auto split: prod.split sum.split option.split)

lemma goes_commands: "goes {next_of st} (const_cmd opc args n st)" "goes {next_of st} (stack_cmd n st)"
  unfolding const_cmd_def stack_cmd_def Let_def by (auto split: prod.split)

lemma goes_random: "goes {next_of st} (set_seed st)" "goes {next_of st} (push_rand env st)"
  unfolding set_seed_def push_rand_def Let_def by (auto split: prod.split)

lemma goes_pops: "goes {next_of st} (pop_event st)" "goes {next_of st} (pop_serializable env p n st)"
  unfolding pop_event_def pop_serializable_def Let_def by (auto split: prod.split option.split)

lemma directive_next:
  assumes "directive_handler env d st = Some (sig, e, calls, st')" and "sig \<noteq> stmtResponse_failure"
  shows "next_of st' \<in> successors st d"
proof -
  have "goes (successors st d) (directive_handler env d st)"
    by (cases d) (simp_all add: successors_def goes_on_stack goes_waits goes_jumps goes_pushes goes_commands goes_random
        goes_pops goes_def [of UNIV])
  then show ?thesis
    using assms by simp
qed

text \<open>No calls, no returns, and every jump of statement \<open>i\<close> goes past \<open>i\<close>.\<close>

definition forward_stmt :: "nat \<Rightarrow> fpy_statement \<Rightarrow> bool" where
  "forward_stmt i stmt \<longleftrightarrow>
     (\<forall>st d calls. deserialize_directive st stmt = Some (Some d, calls) \<longrightarrow>
       (case d of Dir_Goto t \<Rightarrow> i < unat t | Dir_If t \<Rightarrow> i < unat t | Dir_Call \<Rightarrow> False | Dir_Return _ _ \<Rightarrow> False | _ \<Rightarrow> True))"

definition forward :: "fpy_state \<Rightarrow> bool" where
  "forward st \<longleftrightarrow> (\<forall>i < unat (statement_count st). forward_stmt i (fpy_statements st ! i))"

lemma cadd_last: "cadd (- 1 :: u64) 1 = None"
  by (simp add: cadd_def unsigned_minus_1_eq_mask mask_eq_exp_minus_1)

lemma note_dispatched [simp]: "statements_dispatched (note_cmd_opcode d st) = statements_dispatched st"
  by (cases d) (simp_all add: note_cmd_opcode_def)

lemma dispatch_counted:
  assumes "dispatch_statement env st = Some (result_dispatchStatement_success, Some d, calls, st1)"
  shows "statements_dispatched st \<noteq> - 1 \<and> next_of st \<noteq> ucast (statement_count st) \<and>
    (\<exists>st0 calls. deserialize_directive st0 (fpy_statements st ! unat (next_of st)) = Some (Some d, calls))"
  using assms
  by (auto simp: dispatch_statement_def Let_def bind_eq_Some_conv index_def cadd_last split: if_splits option.splits)

definition keeps_program :: "fpy_state \<Rightarrow> fpy_state \<Rightarrow> bool" where
  "keeps_program st st' \<longleftrightarrow> seq_header st' = seq_header st \<and> fpy_statements st' = fpy_statements st"

lemma directive_ahead:
  assumes "dispatch_statement env st = Some (result_dispatchStatement_success, Some d, calls, st1)"
    and "directive_message env' d st1 = Some (sig, calls', st2)" and "sig \<noteq> stmtResponse_failure"
    and "serial_ok env'" and "wf_fpy st" and "statements_ok st" and "forward st"
  shows "wf_fpy st2 \<and> keeps_program st st2 \<and> unat (next_of st) < unat (next_of st2)"
proof -
  note cnt = dispatch_counted [OF assms(1)]
  from dispatch_statement_safe [OF assms(5,6) cnt [THEN conjunct1], of env]
  have ds: "dispatches env st result_dispatchStatement_success (Some d) st1"
    using assms(1) by auto
  have st1: "wf_fpy st1" "wf_directive d" "unat (next_of st1) = Suc (unat (next_of st))" "keeps_program st st1"
    using ds cnt by (simp_all add: dispatches_def keeps_program_def)
  obtain e st' where h: "directive_handler env' d st1 = Some (sig, e, calls', st')"
      "st2 = handle_directive_error_code st' (directive_id d) e"
    using assms(2) by (auto simp: directive_message_def bind_eq_Some_conv)
  have r: "wf_fpy st'" "same_sequence st1 st'"
    using directive_safe_aux [OF st1(1,2) assms(4)] h(1) by (auto simp: responds_def split: if_splits)
  have same: "next_of st2 = next_of st'" "wf_fpy st2" "keeps_program st st2"
    using r st1(4) by (simp_all add: h(2) handle_directive_error_code_def wf_fpy_def stack_of_def keeps_program_def
        same_sequence_def Let_def)
  have lt: "unat (next_of st) < unat (statement_count st)"
  proof -
    have "next_of st < ucast (statement_count st)"
      using cnt wf_fpyD(4) [OF assms(5)] by (metis order.not_eq_order_implies_strict)
    then show ?thesis
      by (simp add: word_less_nat_alt unat_count)
  qed
  then have "forward_stmt (unat (next_of st)) (fpy_statements st ! unat (next_of st))"
    using assms(7) by (simp add: forward_def)
  then have fw: "case d of Dir_Goto t \<Rightarrow> unat (next_of st) < unat t | Dir_If t \<Rightarrow> unat (next_of st) < unat t
      | Dir_Call \<Rightarrow> False | Dir_Return _ _ \<Rightarrow> False | _ \<Rightarrow> True"
    using cnt unfolding forward_stmt_def by blast
  have "next_of st' \<in> successors st1 d"
    using directive_next h(1) assms(3) by blast
  moreover have "unat (ucast (statement_count st1) :: u32) = unat (statement_count st)"
    using st1(4) by (simp add: keeps_program_def unat_count)
  ultimately have "unat (next_of st) < unat (next_of st')"
    using fw lt st1(3) by (cases d) (auto simp: successors_def)
  then show ?thesis
    using same by simp
qed

lemma stack_push_wf: "wf_stack s \<Longrightarrow> stack_push (v :: 'a::len word) s = Some s' \<Longrightarrow> wf_stack s'"
  by (simp add: stack_push_eq split: if_splits) (metis length_to_be_bytes wf_pushed)

lemma run_stmt_ahead:
  assumes "run_stmt st st'" and "wf_fpy st" and "statements_ok st" and "forward st"
  shows "wf_fpy st' \<and> keeps_program st st' \<and> unat (next_of st) < unat (next_of st')"
  using assms(1)
proof cases
  case (handled env d calls st1 env' sig calls')
  then show ?thesis
    using directive_ahead assms(2-4) by auto
next
  case (answered env d calls st1 env' calls' st2 r s)
  have "wf_fpy st2 \<and> keeps_program st st2 \<and> unat (next_of st) < unat (next_of st2)"
    using directive_ahead answered assms(2-4) by blast
  moreover have "wf_stack s"
    using stack_push_wf answered(5) wf_fpyD(1) calculation by blast
  moreover from calculation have "wf_fpy (set_stack s st2)"
    by (simp add: wf_fpy_def)
  ultimately show ?thesis
    by (simp add: answered(1) keeps_program_def)
qed

lemma keeps_program_facts:
  assumes "keeps_program st st'"
  shows "statements_ok st' = statements_ok st" and "forward st' = forward st" and "statement_count st' = statement_count st"
  using assms by (simp_all add: keeps_program_def statements_ok_def forward_def)

lemma runs_ahead:
  assumes "(run_stmt ^^ n) st st'" and "wf_fpy st" and "statements_ok st" and "forward st"
  shows "wf_fpy st' \<and> keeps_program st st' \<and> n + unat (next_of st) \<le> unat (next_of st')"
  using assms
proof (induction n arbitrary: st')
  case 0
  then show ?case
    by (simp add: keeps_program_def)
next
  case (Suc n)
  from Suc.prems(1) obtain t where t: "(run_stmt ^^ n) st t" "run_stmt t st'"
    by auto
  have "wf_fpy t \<and> keeps_program st t \<and> n + unat (next_of st) \<le> unat (next_of t)"
    using Suc t(1) by blast
  moreover from this have "wf_fpy st' \<and> keeps_program t st' \<and> unat (next_of t) < unat (next_of st')"
    using run_stmt_ahead [OF t(2)] Suc.prems keeps_program_facts by blast
  ultimately show ?case
    by (auto simp: keeps_program_def)
qed

text \<open>
  C40.  A sequence that only jumps forward (no calls and returns, every \<open>GOTO\<close> and \<open>IF\<close> to a later statement) ends: from
  a well-formed state no more statements can be executed than there are from the next one to the end of the sequence,
  whatever the time, telemetry, parameters and command responses, and after that many the next dispatch reports that
  there are no more statements.
\<close>

theorem forward_sequence_terminates:
  assumes "(run_stmt ^^ n) st st'" and "wf_fpy st" and "statements_ok st" and "forward st"
  shows "n + unat (next_of st) \<le> unat (statement_count st) \<and>
    (n + unat (next_of st) = unat (statement_count st) \<longrightarrow>
      dispatch_statement env st' = Some (result_dispatchStatement_noMoreStatements, None, [], st'))"
proof -
  have r: "wf_fpy st'" "keeps_program st st'" "n + unat (next_of st) \<le> unat (next_of st')"
    using runs_ahead [OF assms] by simp_all
  have "next_of st' \<le> ucast (statement_count st')"
    using wf_fpyD(4) [OF r(1)] .
  then have le: "unat (next_of st') \<le> unat (statement_count st)"
    using keeps_program_facts(3) [OF r(2)] by (simp add: word_le_nat_alt unat_count)
  moreover have "next_of st' = ucast (statement_count st')" if "n + unat (next_of st) = unat (statement_count st)"
    using that le r(3) keeps_program_facts(3) [OF r(2)] by (simp add: word_unat_eq_iff unat_count)
  ultimately show ?thesis
    using r(3) by (auto simp: dispatch_statement_def Let_def)
qed

definition example_program :: fpy_state where
  "example_program = (example_state [])\<lparr>fpy_runtime := (fpy_runtime (example_state []))\<lparr>next_statement_index := 0\<rparr>\<rparr>"

lemma example_program_facts:
  "wf_fpy example_program" "statements_ok example_program" "statement_count example_program = 1"
  "next_of example_program = 0" "forward example_program"
proof -
  show "wf_fpy example_program"
    using example_state_wf(1) [of "[]"] by (simp add: example_program_def wf_fpy_def stack_of_def)
  show "forward example_program"
    by (simp add: forward_def forward_stmt_def example_program_def example_state_def deserialize_directive_def
        empty_directives_def Let_def bind_eq_Some_conv)
qed (simp_all add: example_program_def example_state_def statements_ok_def)

lemma example_program_runs: "\<exists>st'. run_stmt example_program st'"
proof -
  obtain calls st1 where "dispatch_statement example_env example_program =
      Some (result_dispatchStatement_success, Some Dir_NoOp, calls, st1)"
    by (simp add: dispatch_statement_def example_program_def example_state_def deserialize_directive_def index_def
        empty_directives_def Let_def reset_deser_def deserialize_size_left_def linear_buffer_new_def note_cmd_opcode_def
        cadd_def usub_def)
  moreover have "directive_message example_env Dir_NoOp st1 =
      Some (stmtResponse_success, [], handle_directive_error_code st1 DirectiveId_NoOp NoError)"
    by (simp add: directive_message_def)
  ultimately show ?thesis
    using run_stmt.handled example_state_wf(5) by blast
qed

theorem forward_sequence_terminates_witness:
  "\<exists>st'. run_stmt example_program st' \<and>
    dispatch_statement example_env st' = Some (result_dispatchStatement_noMoreStatements, None, [], st')"
proof -
  obtain st' where "(run_stmt ^^ 1) example_program st'"
    using example_program_runs by auto
  then show ?thesis
    using forward_sequence_terminates [of 1 example_program st' example_env] example_program_facts by auto
qed

section \<open>The answer to a VALIDATE command\<close>

text \<open>Up to \<open>n\<close> messages handled in turn, with the calls they make.\<close>

fun run_thread :: "nat \<Rightarrow> seq_env \<Rightarrow> u32 \<Rightarrow> nat \<Rightarrow> config \<Rightarrow> (fpy_call list \<times> config) option" where
  "run_thread 0 env id_base depth c = Some ([], c)"
| "run_thread (Suc n) env id_base depth c =
     do { (calls, c) \<leftarrow> do_dispatch env id_base depth [] c;
          (calls', c) \<leftarrow> run_thread n env id_base depth c;
          Some (calls @ calls', c) }"

lemma next_msg_one [simp]: "next_msg id_base [m] = Some (m, [])"
  by (simp add: next_msg_def)

fun is_response :: "fpy_call \<Rightarrow> bool" where
  "is_response (CmdResponseOut _ _ _) = True"
| "is_response _ = False"

text \<open>Validation makes no command response itself.\<close>

definition silent :: "(Success \<times> fpy_call list \<times> 's) option \<Rightarrow> bool" where
  "silent e \<longleftrightarrow> (\<forall>ok calls s. e = Some (ok, calls, s) \<longrightarrow> filter is_response calls = [])"

lemma silent_Some [simp]: "silent (Some (ok, calls, s)) \<longleftrightarrow> filter is_response calls = []"
  by (simp add: silent_def)

lemma silent_None [simp]: "silent None"
  by (simp add: silent_def)

lemma silent_bind [intro!]: "(\<And>x. m = Some x \<Longrightarrow> silent (k x)) \<Longrightarrow> silent (m \<bind> k)"
  by (cases m) (simp_all add: silent_def)

lemma silent_vthen [intro!]: "silent a \<Longrightarrow> (\<And>s. silent (k s)) \<Longrightarrow> silent (vthen a proj k)"
  by (fastforce simp: silent_def vthen_def bind_eq_Some_conv split: if_splits)

lemma deserialize_error_silent: "deserialize_error st stage status = Some ev \<Longrightarrow> filter is_response ev = []"
  by (auto simp: deserialize_error_def bind_eq_Some_conv)

lemma read_bytes_silent: "silent (read_bytes f n stage crc sp)"
  unfolding read_bytes_def Let_def by (auto split: prod.split)

lemma stages_silent: "silent (read_header st)" "silent (read_body st)" "silent (read_footer st)"
    "silent (check_length_and_args f pos st)"
  unfolding read_header_def read_body_def read_footer_def check_length_and_args_def Let_def
  by (auto simp: deserialize_error_silent split: prod.split)

lemma validate_silent: "silent (validate f st)"
  unfolding validate_def Let_def by (auto intro: read_bytes_silent stages_silent split: prod.split)

text \<open>
  The four messages of a \<open>VALIDATE\<close>: the signal of the command, the entry into \<open>VALIDATING\<close>, the result, and nothing.
\<close>

lemma validate_signal:
  assumes "sq_state s = IDLE"
  shows "\<exists>calls s'. dispatch_signal env cmd_VALIDATE (ArgsValue a) s = Some ([M_Signal signal_entered NoValue], calls, s') \<and>
    filter is_response calls = [] \<and> sq_state s' = VALIDATING \<and> goal_state s' = Goal_Valid \<and>
    sequence_block_state s' = sequence_block_state s \<and> saved_op_code s' = saved_op_code s \<and>
    saved_cmd_seq s' = saved_cmd_seq s \<and> (wf_load (sq_fpy s) \<longrightarrow> wf_load (sq_fpy s'))"
  using assms
  by (auto simp: dispatch_signal_def transition_def enter_leaf_def eff_then_def with_args_def
      action_setSequenceFilePath_def action_report_seqStarted_def on_fpy_def Let_def wf_load_def statements_ok_def)

lemma entered_signal:
  assumes "sq_state s = VALIDATING" and "wf_load (sq_fpy s)" and "env_ok env"
  shows "\<exists>sig calls st. dispatch_signal env signal_entered NoValue s = Some ([M_Signal sig NoValue], calls, s\<lparr>sq_fpy := st\<rparr>) \<and>
    sig \<in> {result_success, result_failure} \<and> filter is_response calls = []"
proof -
  let ?f = "se_file env (sequence_file_path (sq_fpy s))"
  have "\<exists>ok calls st. validate ?f (sq_fpy s) = Some (ok, calls, st)"
  proof (cases "sf_open ?f = 0")
    case True
    then obtain data where "holds_data ?f data"
      using assms(3) unfolding env_ok_def by blast
    then show ?thesis
      using validate_total assms(2) by blast
  qed (simp add: validate_def Let_def)
  then obtain ok calls st where v: "validate ?f (sq_fpy s) = Some (ok, calls, st)"
    by blast
  then have "filter is_response calls = []"
    using validate_silent [of ?f "sq_fpy s"] by simp
  then show ?thesis
    using assms(1) v by (auto simp: dispatch_signal_def transition_def Let_def action_validate_def eff_then_def)
qed

lemma result_signal:
  assumes "sq_state s = VALIDATING" and "goal_state s = Goal_Valid" and "sig \<in> {result_success, result_failure}"
  shows "\<exists>calls s'. dispatch_signal env sig NoValue s = Some ([], calls, s') \<and>
    sq_state s' = (if sig = result_success then AWAITING_CMD_RUN_VALIDATED else IDLE) \<and>
    filter is_response calls =
      (if sequence_block_state s = Block
       then [CmdResponseOut (saved_op_code s) (saved_cmd_seq s)
         (if sig = result_success then CmdResponse_Ok else CmdResponse_ExecutionError)] else [])"
  using assms
  by (auto simp: dispatch_signal_def transition_def Let_def eff_then_def enter_valid_def enter_leaf_def send_cmd_response_def
      on_fpy_def seq_done_def)

text \<open>
  C18.  A \<open>VALIDATE\<close> command accepted by an idle sequencer is processed to the end by three messages, which leave the
  sequencer awaiting \<open>RUN_VALIDATED\<close> or idle again; its response, \<open>OK\<close> or \<open>EXECUTION_ERROR\<close> accordingly, is sent if and
  only if the block state left behind by the last \<open>RUN\<close> is \<open>BLOCK\<close>: after a run that did not block, the command is never
  answered.  One place in the queue is enough.
\<close>

theorem validate_answered_iff_blocking:
  assumes "sq_state s = IDLE" and "wf_load (sq_fpy s)" and "env_ok env" and "0 < depth"
  shows "\<exists>out calls0 s0 calls s'. validate_args_cmd_handler op_code cmd_seq file_name args s = Some (out, calls0, s0) \<and>
    run_thread 3 env id_base depth (out, s0) = Some (calls, [], s') \<and> sq_state s' \<in> {AWAITING_CMD_RUN_VALIDATED, IDLE} \<and>
    filter is_response (calls0 @ calls) =
      (if sequence_block_state s = Block
       then [CmdResponseOut op_code cmd_seq (if sq_state s' = IDLE then CmdResponse_ExecutionError else CmdResponse_Ok)]
       else [])"
proof -
  define a where "a = \<lparr>file_path = take FILE_NAME_STRING_SIZE file_name, block = Block, ea_size = fst args, ea_buffer = snd args\<rparr>"
  define s0 where "s0 = s\<lparr>saved_op_code := op_code, saved_cmd_seq := cmd_seq\<rparr>"
  have h: "validate_args_cmd_handler op_code cmd_seq file_name args s = Some ([M_Signal cmd_VALIDATE (ArgsValue a)], [], s0)"
    using assms(1) by (simp add: validate_args_cmd_handler_def a_def s0_def)
  have s0: "sq_state s0 = IDLE" "wf_load (sq_fpy s0)" "sequence_block_state s0 = sequence_block_state s"
      "saved_op_code s0 = op_code" "saved_cmd_seq s0 = cmd_seq"
    using assms by (simp_all add: s0_def)
  obtain c1 s1 where s1: "dispatch_signal env cmd_VALIDATE (ArgsValue a) s0 = Some ([M_Signal signal_entered NoValue], c1, s1)"
      "filter is_response c1 = []" "sq_state s1 = VALIDATING" "goal_state s1 = Goal_Valid" "wf_load (sq_fpy s1)"
      "sequence_block_state s1 = sequence_block_state s" "saved_op_code s1 = op_code" "saved_cmd_seq s1 = cmd_seq"
    using validate_signal [OF s0(1), of env a] s0 by auto
  obtain sig c2 st where s2: "dispatch_signal env signal_entered NoValue s1 = Some ([M_Signal sig NoValue], c2, s1\<lparr>sq_fpy := st\<rparr>)"
      "sig \<in> {result_success, result_failure}" "filter is_response c2 = []"
    using entered_signal [OF s1(3,5) assms(3)] by auto
  obtain c3 s3 where s3: "dispatch_signal env sig NoValue (s1\<lparr>sq_fpy := st\<rparr>) = Some ([], c3, s3)"
      "sq_state s3 = (if sig = result_success then AWAITING_CMD_RUN_VALIDATED else IDLE)"
      "filter is_response c3 = (if sequence_block_state s = Block then [CmdResponseOut op_code cmd_seq
        (if sig = result_success then CmdResponse_Ok else CmdResponse_ExecutionError)] else [])"
    using result_signal [of "s1\<lparr>sq_fpy := st\<rparr>" sig env] s1 s2(2) by auto
  have "run_thread 3 env id_base depth ([M_Signal cmd_VALIDATE (ArgsValue a)], s0) = Some (c1 @ c2 @ c3, [], s3)"
    using s1(1) s2(1) s3(1) assms(4) by (simp add: numeral_3_eq_3 do_dispatch_def send_message_def)
  then show ?thesis
    using h s1(2) s2(3) s3(2,3) by auto
qed

theorem validate_answered_iff_blocking_witness:
  "\<exists>out calls0 s0 calls s'.
    validate_args_cmd_handler 2 9 [97] (0, replicate SEQUENCE_ARGUMENTS_MAX_SIZE 0)
      (example_sequencer\<lparr>sequence_block_state := NoBlock\<rparr>) = Some (out, calls0, s0) \<and>
    run_thread 3 example_seq_env 0 1 (out, s0) = Some (calls, [], s') \<and> filter is_response (calls0 @ calls) = []"
proof -
  have "sq_state (example_sequencer\<lparr>sequence_block_state := NoBlock\<rparr>) = IDLE"
      "wf_load (sq_fpy (example_sequencer\<lparr>sequence_block_state := NoBlock\<rparr>))"
    using example_initial by (simp_all add: seq_initial_def)
  from validate_answered_iff_blocking [OF this example_env_ok zero_less_one] show ?thesis
    by fastforce
qed

end
