(* ===== verification/Spec2Isabelle.thy ===== *)
theory Spec2Isabelle
  imports Utils_Queue Utils_Checksum Utils_Limits Ccsds_Crc16 Os_Queue Ccsds_Transfer Svc_CmdRouting Svc_BufferManager
    Cfdp_Chunks Fpy_Runs
begin

text \<open>
  \<^bold>\<open>Verification of the Rust port of the F Prime flight-software framework.\<close>

  The program under \<open>src/crates/\<close> is a framework of components that exchange calls through ports.  \<open>fprime-fw\<close> holds
  the data model (serialization, time, strings, buffers, packets), \<open>fprime-utils\<close> the algorithms (rings, queues,
  checksums, rate limiters), \<open>fprime-os\<close> the message queue below every active component, \<open>fprime-comp\<close> the component
  layer and \<open>fprime-svc\<close> the services: the uplink and downlink protocol stacks, the command dispatcher, the buffer
  pool, the CFDP file transfer and the Fpy sequencer.  Bytes come up through an accumulator that finds frames, a
  deframer that checks them and a dispatcher that hands commands to components and routes their completion back;
  packets go down through framers that take their frames from the buffer pool; a sequencer runs byte-coded programs
  that read telemetry and send commands.

  \<^bold>\<open>Conventions.\<close>  A component is a group of definitions in the order of its source file: its state a record, one
  definition per operation or port handler, the calls it makes on its output ports and the events it emits a list of
  values of a call type.  What the code cannot control (allocators, clocks, telemetry and parameter ports, files,
  floating-point hardware, an unconnected port) is an argument.  The result type \<open>option\<close> is the panic monad: \<open>None\<close>
  is a failed \<open>fw_assert!\<close>, an index out of range or an overflow of checked arithmetic (the development profile); an
  error status is an ordinary value.  Words keep the width of the source; \<open>usize\<close> is \<open>nat\<close>, with the 64-bit overflow
  check \<open>uadd\<close> where an operand is any value the caller likes; a float is its bit pattern.  A reference that the code updates is passed in and returned.  Every loop is a total function: structural
  recursion over what the source iterates over, or a measure proof; no model has fuel
  (\<open>run_thread\<close> of \<open>Fpy_Runs\<close> counts messages, and three empty the queue there).  The bounds of the source are kept as
  constants (a stack of 65535 bytes is \<open>MAX_STACK_SIZE\<close>, and so on); the depth of the Fpy sequencer's queue, which is an
  argument of \<open>init\<close>, is one of \<open>do_dispatch\<close>, and sending to the full queue is a panic.

  \<^bold>\<open>Theories.\<close>  \<open>Fw_Prelude\<close> has the panic monad, slices and byte encodings with the shared lemmas.

  \<^item> \<open>Fw_Serial\<close>, \<open>Fw_Struct\<close>, \<open>Fw_Enums\<close> (\<open>fprime-fw/src/serial.rs\<close>, \<open>fpp.rs\<close>): the serialization buffer and the codecs
    the \<open>fpp_struct!\<close> and \<open>fpp_enum!\<close> macros generate.  The locale \<open>fw_codec\<close> is the contract of a codec, \<open>fpp_struct\<close>
    that of a struct of integers; every header of the protocol stacks interprets it.  Any list of values reads back
    (C1); a sequence of buffer operations keeps the cursors in order and panics exactly where a \<open>usize\<close> sum
    overflows or a copy is asked for more bytes than its destination holds (C2).
  \<^item> \<open>Fw_Time\<close>, \<open>Fw_String\<close>, \<open>Fw_Buffer\<close>, \<open>Fw_Packets\<close> (\<open>time.rs\<close>, \<open>string.rs\<close>, \<open>buffer.rs\<close>, \<open>packets.rs\<close>): exact
    arithmetic and comparison of times and intervals (C4), codecs that accept exactly their encodings (C5, C6), round trips
    (C8).
  \<^item> \<open>Utils_Ring\<close>, \<open>Utils_Queue\<close>, \<open>Os_Queue\<close> (\<open>circular_buffer.rs\<close>, \<open>queue.rs\<close>, \<open>fprime-os/src/queue.rs\<close> with its
    priority delegate): the byte ring as a list, and both queues as refinements of a bounded list of messages (C3,
    C15), the second for every interleaving of senders and receivers, losing nothing (C16).
  \<^item> \<open>Utils_Crc\<close>, \<open>Utils_Hash\<close>, \<open>Ccsds_Crc16\<close>, \<open>Utils_Checksum\<close> (\<open>hash.rs\<close>, \<open>ccsds/crc16.rs\<close>, \<open>cfdp.rs\<close>): the locale
    \<open>crc_register\<close> shows once why a table-driven CRC detects a burst as long as its register; CRC-32 and CRC-16
    interpret it (C9, C11).  The hash is the bitwise CRC-32 (C10), the CFDP checksum does not depend on chunking (C12).
  \<^item> \<open>Utils_Limits\<close>, \<open>Comp_Throttle\<close> (\<open>token_bucket.rs\<close>, \<open>rate_limiter.rs\<close>, \<open>fprime-comp/src/glue.rs\<close>): rate bounds
    over any run of calls, of any time bases (C13), and the event throttle.
  \<^item> \<open>Svc_Framer\<close>, \<open>Svc_Accumulator\<close> (\<open>fprime_framer.rs\<close>, \<open>fprime_deframer.rs\<close>, \<open>frame_accumulator.rs\<close>): the deframer
    delivers exactly valid frames (C19, C21), frames round-trip (C20), the cut of the stream into buffers does not
    matter (C22), and the composed uplink delivers every frame in order (C23).
  \<^item> \<open>Ccsds_Types\<close>, \<open>Ccsds_Apid\<close>, \<open>Ccsds_SpacePacket\<close>, \<open>Ccsds_Transfer\<close> (\<open>fprime-svc/src/ccsds/\<close>): the APID counters
    (C24), Space Packets end to end (C25, C26), the TC deframer and where the detector disagrees with it (C27, C28), the TM framer
    and the payloads it cannot frame (C29).
  \<^item> \<open>Svc_CmdDispatcher\<close>, \<open>Svc_CmdRouting\<close> (\<open>cmd_dispatcher.rs\<close>): one disposition per command (C31); a completion reaches
    the caller through every interleaving of other inputs that leave the tracker alone (C32).
  \<^item> \<open>Svc_BufferManager\<close> (\<open>buffer_manager.rs\<close>): the pool over its inductively defined reachable states (C33), and the
    framer running on it without a leak (C34).
  \<^item> \<open>Cfdp_Chunks\<close> (\<open>ccsds/cfdp_manager/chunk.rs\<close>): the received part of a file (C35) and its gaps (C36).
  \<^item> \<open>Fpy_Stack\<close>, \<open>Fpy_Ops\<close>, \<open>Fpy_Rng\<close>, \<open>Fpy_Machine\<close>, \<open>Fpy_Safe\<close>, \<open>Fpy_Run\<close>, \<open>Fpy_Validate\<close> (\<open>fpy_sequencer/stack.rs\<close>,
    \<open>directives.rs\<close>, \<open>rng.rs\<close>, \<open>types.rs\<close>, \<open>run_state.rs\<close>, \<open>validation.rs\<close>): the sequencer.  Arithmetic is exact (C37);
    every directive is answered and keeps the machine well formed except in the listed cases, a serial receiver that
    refuses its bytes among them (C38); calls return
    (C39); loading a file is sound (C17), complete (C7) and detects corruption (C14).
  \<^item> \<open>Fpy_Seq\<close>, \<open>Fpy_Steps\<close>, \<open>Fpy_Runs\<close> (\<open>fpy_sequencer/mod.rs\<close>): the sequencer as an active component.  \<open>Fpy_Seq\<close> has the
    transition table with its actions, guards, entries and choices, the command and port handlers and the priority
    queue of a given depth that feeds them.  \<open>Fpy_Steps\<close> defines its steps inductively (a message arrives, the next
    message is handled while others arrive) and shows the invariant of every reachable state without cancellation, by rule
    induction: no message panics but a directive in one of the cases of \<open>trips\<close>, and the queue cannot overflow by the
    sequencer's own messages while three places are left to them (C30).  \<open>Fpy_Runs\<close> follows whole runs: forward-only sequences end (C40), and
    a \<open>VALIDATE\<close> command is answered only if the last run blocked (C18), with one place in the queue.

  \<^bold>\<open>Not modelled, and why.\<close>  Threads, mutexes, sockets, devices, files and clocks (\<open>fprime-os\<close> but for the queue,
  \<open>fprime-drv\<close>) are system calls; their results are arguments of the components above.  Port wiring and the declaration
  macros (\<open>fprime-comp\<close>) produce code, they do not run; the codecs and the state machine they expand to are modelled
  where they are used.  The FPP compiler (\<open>fprime-fpp\<close>) runs at build time.  The WebAssembly sequencer, the AES-GCM
  cipher and the compressor call third-party libraries.  The file services, the older command sequencer, the data
  products, the telemetry tables and packetizers, the CFDP engine and the parameter database are not modelled: their
  behaviour is mostly that of the files and timers they drive.  Of the Fpy sequencer, the parameter commands, which run
  on the caller's thread, the telemetry port and the serialization of queued messages are not modelled; C30 excludes
  cancellation, after which a queued directive of the cancelled sequence is still handled, takes the three 64-bit
  counters not to have reached their last value, the clock to return normalised times and a file that opens to be
  readable.
\<close>

end
